(* ===== verification/SS_Prelude.thy ===== *)
theory SS_Prelude
  imports Main "HOL-Library.Word"
begin

text \<open>
  Shared ground of the development: the machine types of the C sources, the faults a C
  statement can end in, the error monad the operations are written in, checked memory
  reads and writes on byte arrays, NUL-terminated strings, and the list and word lemmas
  the components use.

  Conventions.
  \<^item> A \<open>uint8_t\<close> or \<open>char\<close> is a \<open>byte\<close>, an \<open>unsigned int\<close> or \<open>int\<close> whose wrap-around
    matters is a \<open>u32\<close>; a \<open>size_t\<close> is a \<open>nat\<close> (object sizes stay far below the
    64-bit bound), except where the source relies on its wrap-around.
  \<^item> An allocated block is the \<open>byte list\<close> of its contents; its length is the allocation size.
    Every \<open>memcpy\<close>, \<open>memmove\<close> and indexed access of the source is a \<open>mem_read\<close> or
    \<open>mem_write\<close>, which yields \<open>Out_of_bounds\<close> outside the block, so that memory safety is
    a theorem about the absence of that fault.
  \<^item> \<open>FATAL\<close> (which calls \<open>exit\<close>), a failing \<open>assert\<close>, a division by zero and the use of a \<open>NULL\<close>
    pointer or of an object that was freed (\<open>Dangling\<close>) are faults too.
\<close>

unbundle bit_operations_syntax

section \<open>Machine types, faults, the error monad\<close>

type_synonym byte = "8 word"
type_synonym u16 = "16 word"
type_synonym u32 = "32 word"
type_synonym u64 = "64 word"
type_synonym bytes = "byte list"

datatype fault = Fatal string | Assert_fail | Out_of_bounds | Div_by_zero | Dangling

type_synonym 'a res = "fault + 'a"

fun bindr :: "'a res \<Rightarrow> ('a \<Rightarrow> 'b res) \<Rightarrow> 'b res" where
  "bindr (Inl e) f = Inl e"
| "bindr (Inr x) f = f x"

definition assertr :: "bool \<Rightarrow> unit res" where
  "assertr P = (if P then Inr () else Inl Assert_fail)"

section \<open>Byte arrays\<close>

definition mem_read :: "bytes \<Rightarrow> nat \<Rightarrow> nat \<Rightarrow> bytes res" where
  "mem_read m off n = (if off + n \<le> length m then Inr (take n (drop off m)) else Inl Out_of_bounds)"

definition mem_write :: "bytes \<Rightarrow> nat \<Rightarrow> bytes \<Rightarrow> bytes res" where
  "mem_write m off src =
     (if off + length src \<le> length m
      then Inr (take off m @ src @ drop (off + length src) m) else Inl Out_of_bounds)"

text \<open>
  What a C string at the start of a block holds: the bytes before the first NUL.
\<close>

definition c_str :: "bytes \<Rightarrow> bytes" where
  "c_str m = takeWhile (\<lambda>b. b \<noteq> 0) m"

text \<open>A C string in a buffer: reading it runs over the end when there is no NUL.\<close>

definition str_in :: "bytes \<Rightarrow> bytes res" where
  "str_in m = (if 0 \<in> set m then Inr (c_str m) else Inl Out_of_bounds)"

text \<open>ASCII literals as bytes.\<close>

definition bstr :: "string \<Rightarrow> bytes" where
  "bstr s = map of_char s"

text \<open>The decimal digits \<open>%d\<close> prints of a non-negative number.\<close>

fun dec_str :: "nat \<Rightarrow> bytes" where
  "dec_str n = (if n < 10 then [of_nat (48 + n)] else dec_str (n div 10) @ [of_nat (48 + n mod 10)])"

declare dec_str.simps [simp del]

section \<open>Lemmas\<close>

named_theorems res_simps "rewriting of the error monad and of checked memory accesses"

lemma bindr_Inr_iff [res_simps]:
  "bindr m f = Inr y \<longleftrightarrow> (\<exists>x. m = Inr x \<and> f x = Inr y)"
  by (cases m) auto

lemma bindr_Inl_iff [res_simps]:
  "bindr m f = Inl e \<longleftrightarrow> m = Inl e \<or> (\<exists>x. m = Inr x \<and> f x = Inl e)"
  by (cases m) auto

lemma bindr_assoc: "bindr (bindr m f) g = bindr m (\<lambda>x. bindr (f x) g)"
  by (cases m) auto

lemma assertr_simps [simp]:
  "assertr True = Inr ()" "assertr False = Inl Assert_fail"
  "assertr P = Inr u \<longleftrightarrow> P" "assertr P = Inl e \<longleftrightarrow> \<not> P \<and> e = Assert_fail"
  by (auto simp: assertr_def)

lemma mem_read_ok [simp]: "off + n \<le> length m \<Longrightarrow> mem_read m off n = Inr (take n (drop off m))"
  by (simp add: mem_read_def)

lemma mem_read_Inr_iff [res_simps]:
  "mem_read m off n = Inr v \<longleftrightarrow> off + n \<le> length m \<and> v = take n (drop off m)"
  by (auto simp: mem_read_def)

lemma mem_write_ok [simp]:
  "off + length src \<le> length m \<Longrightarrow>
   mem_write m off src = Inr (take off m @ src @ drop (off + length src) m)"
  by (simp add: mem_write_def)

lemma mem_write_Inr_iff [res_simps]:
  "mem_write m off src = Inr m' \<longleftrightarrow>
   off + length src \<le> length m \<and> m' = take off m @ src @ drop (off + length src) m"
  by (auto simp: mem_write_def)

lemma mem_write_length: "mem_write m off src = Inr m' \<Longrightarrow> length m' = length m"
  by (auto simp: mem_write_Inr_iff)

lemma mem_read_write_same:
  "mem_write m off src = Inr m' \<Longrightarrow> mem_read m' off (length src) = Inr src"
  by (auto simp: mem_write_Inr_iff mem_read_def)

lemma c_str_no_nul: "0 \<notin> set m \<Longrightarrow> c_str m = m"
  by (auto simp: c_str_def intro: takeWhile_eq_all_conv [THEN iffD2])

lemma c_str_append_nul [simp]: "0 \<notin> set s \<Longrightarrow> c_str (s @ 0 # r) = s"
  by (subst c_str_def, subst takeWhile_append2) auto

lemma c_str_zeros: "c_str (xs @ replicate (Suc n) 0) = c_str xs"
  by (induction xs) (auto simp: c_str_def)

lemma c_str_less: "0 \<in> set m \<Longrightarrow> length (c_str m) < length m"
  by (induction m) (auto simp: c_str_def)

lemma c_str_set: "0 \<notin> set (c_str m)"
  by (auto simp: c_str_def dest: set_takeWhileD)

lemma dec_str_no_nul: "0 \<notin> set (dec_str n)"
proof (induction n rule: dec_str.induct)
  case (1 n)
  have d: "(of_nat (48 + k) :: byte) \<noteq> 0" if "k < 10" for k
    using that by (subst word_of_nat_eq_0_iff) (auto dest: dvd_imp_le)
  show ?case using d [of n] d [of "n mod 10"] 1 by (subst dec_str.simps) auto
qed

lemma length_bstr [simp]: "length (bstr s) = length s"
  by (simp add: bstr_def)

text \<open>A sum whose summands share no bit is a disjunction; this is how shifted bytes are put together.\<close>

lemma push_bit_add_or:
  fixes x y :: "'a::len word"
  assumes "take_bit n y = y"
  shows "push_bit n x + y = push_bit n x OR y"
proof (rule disjunctive_add_eq_or)
  show "push_bit n x AND y = 0"
  proof (rule bit_word_eqI)
    fix i
    assume "i < LENGTH('a)"
    have "bit y i \<Longrightarrow> i < n" using assms by (metis bit_take_bit_iff)
    then show "bit (push_bit n x AND y) i \<longleftrightarrow> bit (0::'a word) i"
      by (auto simp: bit_simps)
  qed
qed

end
