(* ===== verification/Base64.thy ===== *)
theory Base64
  imports SS_Prelude
begin

text \<open>
  The URL-safe Base64 codec of \<^verbatim>\<open>src/base64.c\<close>, used by \<open>crypto_parse_key\<close> for keys given on
  the command line. The encoder shifts bytes into a 32-bit accumulator and emits sextets
  (\<open>base64_emit\<close> is its inner \<open>do\<close> loop, \<open>base64_encode_loop\<close> the outer loop, \<open>base64_pad\<close> the
  final loop); the decoder shifts sextets into a 32-bit accumulator and writes a byte for three
  characters out of four. A C string is the list of its bytes without the terminator; a decoder
  input ends at its end or at its first NUL. The decoder returns what it wrote to \<open>out\<close> beside
  its result. The decoder's \<open>int v\<close> is a 32-bit word: the shifted-out high bits never reach an
  output byte.
\<close>

section \<open>The codec\<close>

definition map2 :: "byte list" where
  "map2 = [
    0xff, 0xff, 0x3e, 0xff, 0xff, 0x34, 0x35, 0x36,
    0x37, 0x38, 0x39, 0x3a, 0x3b, 0x3c, 0x3d, 0xff,
    0xff, 0xff, 0xff, 0xff, 0xff, 0xff, 0x00, 0x01,
    0x02, 0x03, 0x04, 0x05, 0x06, 0x07, 0x08, 0x09,
    0x0a, 0x0b, 0x0c, 0x0d, 0x0e, 0x0f, 0x10, 0x11,
    0x12, 0x13, 0x14, 0x15, 0x16, 0x17, 0x18, 0x19,
    0xff, 0xff, 0xff, 0xff, 0x3f, 0xff, 0x1a, 0x1b,
    0x1c, 0x1d, 0x1e, 0x1f, 0x20, 0x21, 0x22, 0x23,
    0x24, 0x25, 0x26, 0x27, 0x28, 0x29, 0x2a, 0x2b,
    0x2c, 0x2d, 0x2e, 0x2f, 0x30, 0x31, 0x32, 0x33]"

fun base64_decode_loop :: "nat \<Rightarrow> u32 \<Rightarrow> bytes \<Rightarrow> int \<Rightarrow> bytes \<Rightarrow> int \<times> bytes" where
  "base64_decode_loop i v out out_size [] = (int (length out), out)"
| "base64_decode_loop i v out out_size (c # cs) =
     (if c = 0 \<or> c = 0x3d then (int (length out), out)
      else
        let index = (word_of_int (sint c - 43) :: u32) in
        if length map2 \<le> unat index \<or> map2 ! unat index = 0xff then (-1, out)
        else
          let v' = push_bit 6 v + ucast (map2 ! unat index) in
          let out' = (if i mod 4 \<noteq> 0 \<and> int (length out) < out_size
                      then out @ [ucast (signed_drop_bit (6 - 2 * (i mod 4)) v')] else out) in
          base64_decode_loop (Suc i) v' out' out_size cs)"

definition base64_decode :: "bytes \<Rightarrow> int \<Rightarrow> int \<times> bytes" where
  "base64_decode inp out_size = base64_decode_loop 0 0 [] out_size inp"

definition b64 :: bytes where
  "b64 = bstr ''ABCDEFGHIJKLMNOPQRSTUVWXYZabcdefghijklmnopqrstuvwxyz0123456789-_''"

definition BASE64_SIZE :: "int \<Rightarrow> int" where
  "BASE64_SIZE x = (x + 2) div 3 * 4 + 1"

function base64_emit :: "u32 \<Rightarrow> int \<Rightarrow> bool \<Rightarrow> bytes \<times> int" where
  "base64_emit i_bits i_shift fin =
     (let ch = b64 ! unat (drop_bit (nat i_shift) (push_bit 6 i_bits) AND 0x3f);
          i_shift' = i_shift - 6 in
      if i_shift' > 6 \<or> (fin \<and> i_shift' > 0)
      then (let (chs, s) = base64_emit i_bits i_shift' fin in (ch # chs, s))
      else ([ch], i_shift'))"
  by pat_completeness auto
termination
  by (relation "measure (\<lambda>(_, s, _). nat s)") auto

fun base64_encode_loop :: "u32 \<Rightarrow> int \<Rightarrow> bytes \<Rightarrow> bytes" where
  "base64_encode_loop i_bits i_shift [] = []"
| "base64_encode_loop i_bits i_shift (b # bs) =
     (let i_bits' = push_bit 8 i_bits + ucast b;
          (chs, i_shift') = base64_emit i_bits' (i_shift + 8) (bs = [])
      in chs @ base64_encode_loop i_bits' i_shift' bs)"

function base64_pad :: "bytes \<Rightarrow> bytes" where
  "base64_pad out = (if length out mod 4 \<noteq> 0 then base64_pad (out @ [0x3d]) else out)"
  by pat_completeness auto
termination
  by (relation "measure (\<lambda>out. if length out mod 4 = 0 then 0 else 4 - length out mod 4)")
     (auto simp: mod_Suc)

definition base64_encode :: "int \<Rightarrow> bytes \<Rightarrow> bytes option" where
  "base64_encode out_size inp =
     (let in_size = int (length inp) in
      if in_size \<ge> 4294967295 div 4 \<or> out_size < BASE64_SIZE in_size then None
      else Some (base64_pad (base64_encode_loop 0 0 inp)))"

section \<open>Reference encoding\<close>

text \<open>
  The sextets of a byte sequence, three bytes at a time: what the incremental encoder, whose
  pending bits lag one sextet behind, is shown to produce.
\<close>

fun enc_spec :: "bytes \<Rightarrow> nat list" where
  "enc_spec [] = []"
| "enc_spec [a] = [unat a div 4, unat a mod 4 * 16]"
| "enc_spec [a, b] = [unat a div 4, unat a mod 4 * 16 + unat b div 16, unat b mod 16 * 4]"
| "enc_spec (a # b # c # r) =
     [unat a div 4, unat a mod 4 * 16 + unat b div 16, unat b mod 16 * 4 + unat c div 64, unat c mod 64] @ enc_spec r"

definition map2_index :: "byte \<Rightarrow> nat" where
  "map2_index c = unat (word_of_int (sint c - 43) :: u32)"

section \<open>The encoder produces the reference sextets\<close>

declare base64_emit.simps [simp del] base64_pad.simps [simp del]


lemma b64_bytes: "b64 = [0x41, 0x42, 0x43, 0x44, 0x45, 0x46, 0x47, 0x48, 0x49, 0x4a, 0x4b, 0x4c, 0x4d, 0x4e, 0x4f, 0x50, 0x51, 0x52, 0x53, 0x54, 0x55, 0x56, 0x57, 0x58, 0x59, 0x5a, 0x61, 0x62, 0x63, 0x64, 0x65, 0x66, 0x67, 0x68, 0x69, 0x6a, 0x6b, 0x6c, 0x6d, 0x6e, 0x6f, 0x70, 0x71, 0x72, 0x73, 0x74, 0x75, 0x76, 0x77, 0x78, 0x79, 0x7a, 0x30, 0x31, 0x32, 0x33, 0x34, 0x35, 0x36, 0x37, 0x38, 0x39, 0x2d, 0x5f]"
  by (simp add: b64_def bstr_def of_char_def)

lemma b64_length [simp]: "length b64 = 64"
  by (simp add: b64_def)

lemma map2_length [simp]: "length map2 = 80"
  by (simp add: map2_def)

lemma b64_map2_all: "map (\<lambda>c. map2 ! map2_index c) b64 = map of_nat [0..<64]"
  by (simp add: b64_bytes map2_index_def map2_def upt_conv_Cons)

lemma b64_valid_all: "list_all (\<lambda>c. map2_index c < 80 \<and> c \<noteq> 0 \<and> c \<noteq> 0x3d) b64"
  by (simp add: b64_bytes map2_index_def)

lemma b64_map2:
  assumes "s < 64"
  shows "map2 ! map2_index (b64 ! s) = of_nat s"
proof -
  have "map (\<lambda>c. map2 ! map2_index c) b64 ! s = map of_nat [0..<64] ! s"
    by (simp only: b64_map2_all)
  with assms show ?thesis by simp
qed

lemma b64_valid:
  assumes "s < 64"
  shows "map2_index (b64 ! s) < 80" "b64 ! s \<noteq> 0" "b64 ! s \<noteq> 0x3d"
  using b64_valid_all assms by (auto simp: list_all_length)

lemma emit_idx:
  assumes "n \<le> 26"
  shows "unat (drop_bit n (push_bit 6 x) AND 0x3f :: u32) = unat x * 64 div 2 ^ n mod 64"
proof -
  have m: "(0x3f::u32) = mask 6" by (simp add: mask_eq_exp_minus_1)
  have "unat (drop_bit n (push_bit 6 x) AND 0x3f :: u32) = unat (take_bit 6 (drop_bit n (push_bit 6 x)))"
    unfolding m by (simp only: take_bit_eq_mask)
  also have "\<dots> = take_bit 6 (drop_bit n (take_bit 32 (push_bit 6 (unat x))))"
    by (simp add: unsigned_take_bit_eq unat_drop_bit_eq unsigned_push_bit_eq)
  also have "\<dots> = take_bit 6 (drop_bit n (push_bit 6 (unat x)))"
    using assms by (auto simp: bit_eq_iff bit_simps)
  finally show ?thesis
    by (simp add: drop_bit_eq_div take_bit_eq_mod push_bit_eq_mult)
qed

lemma unat_shift_in:
  "unat (push_bit 8 x + ucast b :: u32) = (unat x * 256 + unat (b :: byte)) mod 2 ^ 32"
  by (simp add: unat_word_ariths unsigned_push_bit_eq take_bit_eq_mod push_bit_eq_mult
      unsigned_ucast_eq mod_simps)

lemma mod_split_digit:
  fixes k n r m :: nat
  assumes "r < m" "0 < n"
  shows "(k * m + r) mod (n * m) = k mod n * m + r"
proof -
  have "k * m + r = (k div n) * (n * m) + (k mod n * m + r)"
    by (metis add.assoc add_mult_distrib div_mult_mod_eq mult.assoc)
  moreover have "k mod n * m + r < n * m"
  proof -
    have "k mod n * m + r < Suc (k mod n) * m" using assms by simp
    also have "\<dots> \<le> n * m" using assms by (intro mult_le_mono1) (simp add: Suc_leI)
    finally show ?thesis .
  qed
  ultimately show ?thesis by (metis mod_less mod_mult_self3)
qed

lemma sextets:
  fixes k B :: nat
  assumes "B < 256"
  shows "(k * 256 + B) div 4 mod 64 = B div 4"
    and "(k * 256 + B) mod 4 = B mod 4"
    and "(k * 256 + B) div 16 mod 64 = k mod 4 * 16 + B div 16"
    and "(k * 256 + B) mod 16 = B mod 16"
    and "(k * 256 + B) div 64 mod 64 = k mod 16 * 4 + B div 64"
    and "(k * 256 + B) mod 64 = B mod 64"
    and "(k * 256 + B) div 256 mod 64 = k mod 64"
proof -
  have "(k * 256 + B) div 4 = k * 64 + B div 4" by linarith
  then show "(k * 256 + B) div 4 mod 64 = B div 4" using assms by simp
  have "(k * 256 + B) div 16 = k * 16 + B div 16" by linarith
  moreover have "B div 16 < 16" using assms by simp
  ultimately show "(k * 256 + B) div 16 mod 64 = k mod 4 * 16 + B div 16"
    using mod_split_digit [of "B div 16" 16 4 k] by simp
  have "(k * 256 + B) div 64 = k * 4 + B div 64" by linarith
  moreover have "B div 64 < 4" using assms by simp
  ultimately show "(k * 256 + B) div 64 mod 64 = k mod 16 * 4 + B div 64"
    using mod_split_digit [of "B div 64" 4 16 k] by simp
  have "(k * 256 + B) mod n = B mod n" if "n dvd 256" for n
    using that by (metis mod_add_left_eq dvd_mult mod_0_imp_dvd add_0 dvd_imp_mod_0)
  from this [of 4] this [of 16] this [of 64]
  show "(k * 256 + B) mod 4 = B mod 4" "(k * 256 + B) mod 16 = B mod 16" "(k * 256 + B) mod 64 = B mod 64"
    by simp_all
  show "(k * 256 + B) div 256 mod 64 = k mod 64" using assms by simp
qed

lemma emit_index:
  fixes Y :: nat
  shows "Y * 64 div 2 ^ 8 = Y div 4" "Y * 64 div 2 ^ 2 mod 64 = Y mod 4 * 16"
    "Y * 64 div 2 ^ 10 = Y div 16" "Y * 64 div 2 ^ 4 mod 64 = Y mod 16 * 4"
    "Y * 64 div 2 ^ 12 = Y div 64" "Y * 64 div 2 ^ 6 = Y" "Y * 64 div 2 ^ 14 = Y div 256"
proof -
  have "Y * 64 div 4 = Y * 16" "Y * 64 div 16 = Y * 4" by linarith+
  then show "Y * 64 div 2 ^ 2 mod 64 = Y mod 4 * 16" "Y * 64 div 2 ^ 4 mod 64 = Y mod 16 * 4"
    using mult_mod_left [of Y 4 16] mult_mod_left [of Y 16 4] by (simp_all add: mult.commute)
  show "Y * 64 div 2 ^ 8 = Y div 4" "Y * 64 div 2 ^ 10 = Y div 16" "Y * 64 div 2 ^ 12 = Y div 64"
    "Y * 64 div 2 ^ 14 = Y div 256"
    using div_mult_mult2 [of 64 Y 4] div_mult_mult2 [of 64 Y 16] div_mult_mult2 [of 64 Y 64]
      div_mult_mult2 [of 64 Y 256] by simp_all
  show "Y * 64 div 2 ^ 6 = Y" by simp
qed

lemma base64_emit_char:
  assumes "0 \<le> s" "s \<le> 26"
  shows "base64_emit y s fin =
     (let ch = b64 ! (unat y * 64 div 2 ^ nat s mod 64) in
      if s - 6 > 6 \<or> (fin \<and> s - 6 > 0)
      then (ch # fst (base64_emit y (s - 6) fin), snd (base64_emit y (s - 6) fin))
      else ([ch], s - 6))"
  using assms by (simp add: base64_emit.simps [of y s fin] emit_idx Let_def split: prod.split)

lemma low_sextets:
  fixes X B Y :: nat
  assumes B: "B < 256" and Y: "Y = (X * 256 + B) mod 2 ^ 32"
  shows "Y div 4 mod 64 = B div 4" "Y mod 4 = B mod 4"
    "Y div 16 mod 64 = X mod 4 * 16 + B div 16" "Y mod 16 = B mod 16"
    "Y div 64 mod 64 = X mod 16 * 4 + B div 64" "Y mod 64 = B mod 64"
    "Y div 256 mod 64 = X mod 64"
proof -
  have low: "Y div 2 ^ n mod 64 = (X * 256 + B) div 2 ^ n mod 64" if "n \<le> 26" for n
  proof -
    have "take_bit 6 (drop_bit n (take_bit 32 z)) = take_bit 6 (drop_bit n z)" for z :: nat
      using that by (auto simp: bit_eq_iff bit_simps)
    then show ?thesis unfolding Y by (simp add: drop_bit_eq_div take_bit_eq_mod)
  qed
  have lm: "Y mod n = (X * 256 + B) mod n" if "n dvd 2 ^ 32" for n
    unfolding Y using that by (rule mod_mod_cancel)
  note sx = sextets [OF B, of X]
  show "Y div 4 mod 64 = B div 4" using low [of 2] sx(1) by simp
  show "Y div 16 mod 64 = X mod 4 * 16 + B div 16" using low [of 4] sx(3) by simp
  show "Y div 64 mod 64 = X mod 16 * 4 + B div 64" using low [of 6] sx(5) by simp
  show "Y div 256 mod 64 = X mod 64" using low [of 8] sx(7) by simp
  show "Y mod 4 = B mod 4" using lm [of 4] sx(2) by simp
  show "Y mod 16 = B mod 16" using lm [of 16] sx(4) by simp
  show "Y mod 64 = B mod 64" using lm [of 64] sx(6) by simp
qed

lemma base64_emit_shift:
  fixes b :: byte and x :: u32
  defines "y \<equiv> push_bit 8 x + ucast b"
  shows "base64_emit y 8 False = ([b64 ! (unat b div 4)], 2)"
    "base64_emit y 8 True = ([b64 ! (unat b div 4), b64 ! (unat b mod 4 * 16)], -4)"
    "base64_emit y 10 False = ([b64 ! (unat x mod 4 * 16 + unat b div 16)], 4)"
    "base64_emit y 10 True =
       ([b64 ! (unat x mod 4 * 16 + unat b div 16), b64 ! (unat b mod 16 * 4)], -2)"
    "base64_emit y 12 False = ([b64 ! (unat x mod 16 * 4 + unat b div 64)], 6)"
    "base64_emit y 12 True =
       ([b64 ! (unat x mod 16 * 4 + unat b div 64), b64 ! (unat b mod 64)], 0)"
    "base64_emit y 14 False = ([b64 ! (unat x mod 64), b64 ! (unat b div 4)], 2)"
    "base64_emit y 14 True =
       ([b64 ! (unat x mod 64), b64 ! (unat b div 4), b64 ! (unat b mod 4 * 16)], -4)"
proof -
  have b: "unat b < 256" using unsigned_less [of b, where 'a = nat] by simp
  have Y: "unat y = (unat x * 256 + unat b) mod 2 ^ 32"
    unfolding y_def by (rule unat_shift_in)
  note f = low_sextets [OF b Y]
  show "base64_emit y 8 False = ([b64 ! (unat b div 4)], 2)"
    "base64_emit y 8 True = ([b64 ! (unat b div 4), b64 ! (unat b mod 4 * 16)], -4)"
    "base64_emit y 10 False = ([b64 ! (unat x mod 4 * 16 + unat b div 16)], 4)"
    "base64_emit y 10 True =
       ([b64 ! (unat x mod 4 * 16 + unat b div 16), b64 ! (unat b mod 16 * 4)], -2)"
    "base64_emit y 12 False = ([b64 ! (unat x mod 16 * 4 + unat b div 64)], 6)"
    "base64_emit y 12 True =
       ([b64 ! (unat x mod 16 * 4 + unat b div 64), b64 ! (unat b mod 64)], 0)"
    "base64_emit y 14 False = ([b64 ! (unat x mod 64), b64 ! (unat b div 4)], 2)"
    "base64_emit y 14 True =
       ([b64 ! (unat x mod 64), b64 ! (unat b div 4), b64 ! (unat b mod 4 * 16)], -4)"
    by (simp_all add: base64_emit_char Let_def emit_index f del: power_numeral)
qed

lemma unat_shift_in_mod:
  fixes b :: byte and x :: u32
  shows "unat (push_bit 8 x + ucast b) mod 4 = unat b mod 4"
    "unat (push_bit 8 x + ucast b) mod 16 = unat b mod 16"
    "unat (push_bit 8 x + ucast b) mod 64 = unat b mod 64"
proof -
  have b: "unat b < 256" using unsigned_less [of b, where 'a = nat] by simp
  note f = low_sextets [OF b unat_shift_in]
  show "unat (push_bit 8 x + ucast b) mod 4 = unat b mod 4" by (rule f)
  show "unat (push_bit 8 x + ucast b) mod 16 = unat b mod 16" by (rule f)
  show "unat (push_bit 8 x + ucast b) mod 64 = unat b mod 64" by (rule f)
qed

lemmas encode_step = base64_emit_shift unat_shift_in_mod Let_def

lemma base64_encode_loop_spec:
  "base64_encode_loop x 0 xs = map ((!) b64) (enc_spec xs)"
  "xs \<noteq> [] \<Longrightarrow>
   base64_encode_loop x 6 xs = b64 ! (unat x mod 64) # map ((!) b64) (enc_spec xs)"
proof (induction xs arbitrary: x rule: enc_spec.induct)
  case (4 a b c r)
  { case 1 show ?case
    proof (cases "r = []")
      case True then show ?thesis by (simp add: encode_step)
    next
      case False with "4.IH"(2) show ?thesis by (simp add: encode_step)
    qed }
  { case 2 show ?case
    proof (cases "r = []")
      case True then show ?thesis by (simp add: encode_step)
    next
      case False with "4.IH"(2) show ?thesis by (simp add: encode_step)
    qed }
qed (simp_all add: encode_step)

lemma byte_less: "unat (b :: byte) < 256"
  using unsigned_less [of b, where 'a = nat] by simp

lemma sextet_less:
  fixes a b :: byte
  shows "unat a div 4 < 64" "unat a mod 4 * 16 + unat b div 16 < 64"
    "unat a mod 16 * 4 + unat b div 64 < 64" "unat a mod 4 * 16 < 64" "unat a mod 16 * 4 < 64"
proof -
  have "unat a div 4 < 64" "unat b div 16 < 16" "unat b div 64 < 4"
    using byte_less [of a] byte_less [of b] by simp_all
  moreover have "unat a mod 4 < 4" "unat a mod 16 < 16" by simp_all
  ultimately show "unat a div 4 < 64" "unat a mod 4 * 16 + unat b div 16 < 64"
    "unat a mod 16 * 4 + unat b div 64 < 64" "unat a mod 4 * 16 < 64" "unat a mod 16 * 4 < 64"
    by linarith+
qed

lemma enc_spec_less: "s \<in> set (enc_spec xs) \<Longrightarrow> s < 64"
  by (induction xs rule: enc_spec.induct) (use sextet_less in auto)

lemma length_enc_spec: "(length (enc_spec xs) + 3) div 4 * 4 = (length xs + 2) div 3 * 4"
proof (induction xs rule: enc_spec.induct)
  case (4 a b c r)
  have "(length (enc_spec r) + 7) div 4 = (length (enc_spec r) + 3) div 4 + 1" by linarith
  moreover have "(length r + 5) div 3 = (length r + 2) div 3 + 1" by linarith
  ultimately show ?case using 4 by (simp add: ac_simps)
qed auto

lemma base64_decode_char:
  assumes "s < 64"
  shows "base64_decode_loop i v out out_size (b64 ! s # cs) =
     (let v' = push_bit 6 v + of_nat s in
      base64_decode_loop (Suc i) v'
        (if i mod 4 \<noteq> 0 \<and> int (length out) < out_size
         then out @ [ucast (signed_drop_bit (6 - 2 * (i mod 4)) v')] else out) out_size cs)"
proof -
  have "map2 ! map2_index (b64 ! s) \<noteq> 0xff"
  proof
    assume "map2 ! map2_index (b64 ! s) = 0xff"
    then have "unat (of_nat s :: byte) = unat (0xff :: byte)" by (simp add: b64_map2 [OF assms])
    with assms show False by (simp add: unat_of_nat)
  qed
  moreover have "ucast (of_nat s :: byte) = (of_nat s :: u32)"
    using assms by (simp add: word_unat_eq_iff unsigned_ucast_eq unat_of_nat take_bit_eq_mod)
  ultimately show ?thesis
    using b64_valid [OF assms] b64_map2 [OF assms]
    by (simp add: map2_index_def Let_def)
qed

lemma unat_low_byte:
  assumes "n \<le> 24"
  shows "unat (ucast (signed_drop_bit n v) :: byte) = unat (v :: u32) div 2 ^ n mod 256"
proof -
  have "(ucast (signed_drop_bit n v) :: byte) = ucast (drop_bit n v)"
    using assms by (intro bit_word_eqI) (auto simp: bit_simps)
  then show ?thesis
    by (simp only: unsigned_ucast_eq unat_drop_bit_eq take_bit_eq_mod [where 'a = nat]
        drop_bit_eq_div [where 'a = nat]) simp
qed

lemma unat_sextet_in:
  "s < 64 \<Longrightarrow> unat (push_bit 6 v + of_nat s :: u32) = (unat v * 64 + s) mod 2 ^ 32"
  by (simp add: unat_word_ariths unsigned_push_bit_eq take_bit_eq_mod push_bit_eq_mult
      unat_of_nat mod_simps)

lemma decoded_byte:
  assumes "s < 64" "t < 64" "n \<le> 24" "((unat v * 64 + s) * 64 + t) div 2 ^ n mod 256 = unat b"
  shows "ucast (signed_drop_bit n (push_bit 6 (push_bit 6 v + of_nat s) + of_nat t :: u32)) = (b :: byte)"
proof -
  have "take_bit 8 (drop_bit n (take_bit 32 z)) = take_bit 8 (drop_bit n z)" for z :: nat
    using assms(3) by (auto simp: bit_eq_iff bit_simps)
  then have "(z mod 2 ^ 32) div 2 ^ n mod 256 = z div 2 ^ n mod 256" for z :: nat
    by (simp add: drop_bit_eq_div take_bit_eq_mod)
  moreover have "unat (push_bit 6 (push_bit 6 v + of_nat s) + of_nat t :: u32)
      = ((unat v * 64 + s) * 64 + t) mod 2 ^ 32"
    unfolding unat_sextet_in [OF assms(2)] unat_sextet_in [OF assms(1)]
    by (metis mod_add_left_eq mod_mult_left_eq)
  ultimately show ?thesis
    using assms(3,4) by (simp add: word_unat_eq_iff unat_low_byte)
qed

lemma decode_digits:
  fixes X a b c k m r :: nat
  shows "a < 256 \<Longrightarrow> k < 16 \<Longrightarrow> ((X * 64 + a div 4) * 64 + (a mod 4 * 16 + k)) div 2 ^ 4 mod 256 = a"
    and "b < 256 \<Longrightarrow> m < 4 \<Longrightarrow>
         ((X * 64 + (r * 16 + b div 16)) * 64 + (b mod 16 * 4 + m)) div 2 ^ 2 mod 256 = b"
    and "c < 256 \<Longrightarrow> ((X * 64 + (r * 4 + c div 64)) * 64 + c mod 64) div 2 ^ 0 mod 256 = c"
proof -
  have d: "(q * n + j) div n = q" if "j < n" for q n j :: nat
    using that by simp
  have g1: "((X * 64 + A) * 64 + (R * 16 + k)) div 16 = X * 256 + (A * 4 + R)" if "k < 16" for A R
  proof -
    have "(X * 64 + A) * 64 + (R * 16 + k) = (X * 256 + (A * 4 + R)) * 16 + k" by simp
    then show ?thesis using d [OF that] by simp
  qed
  have g2: "((X * 64 + (r * 16 + A)) * 64 + (R * 4 + m)) div 4 = (X * 4 + r) * 256 + (A * 16 + R)"
    if "m < 4" for A R
  proof -
    have "(X * 64 + (r * 16 + A)) * 64 + (R * 4 + m) = ((X * 4 + r) * 256 + (A * 16 + R)) * 4 + m" by simp
    then show ?thesis using d [OF that] by simp
  qed
  have g3: "(X * 64 + (r * 4 + A)) * 64 + R = (X * 16 + r) * 256 + (A * 64 + R)" for A R
    by (simp add: algebra_simps)
  show "((X * 64 + a div 4) * 64 + (a mod 4 * 16 + k)) div 2 ^ 4 mod 256 = a"
    if "a < 256" "k < 16" using that g1 [of "a div 4" "a mod 4"] by simp
  show "((X * 64 + (r * 16 + b div 16)) * 64 + (b mod 16 * 4 + m)) div 2 ^ 2 mod 256 = b"
    if "b < 256" "m < 4"
  proof -
    have "((X * 64 + (r * 16 + b div 16)) * 64 + (b mod 16 * 4 + m)) div 2 ^ 2 = (X * 4 + r) * 256 + b"
      using g2 [of "b div 16" "b mod 16"] that by simp
    then show ?thesis using that by (simp only: mod_mult_self3 mod_less)
  qed
  show "((X * 64 + (r * 4 + c div 64)) * 64 + c mod 64) div 2 ^ 0 mod 256 = c"
    if "c < 256" using that unfolding g3 by (simp only: power_0 div_by_1 div_mult_mod_eq mod_mult_self3 mod_less)
qed

lemma decoded_bytes:
  fixes a b c :: byte and v :: u32
  shows "k < 16 \<Longrightarrow>
     ucast (signed_drop_bit 4 (push_bit 6 (push_bit 6 v + of_nat (unat a div 4)) +
       of_nat (unat a mod 4 * 16 + k))) = a"
    and "r < 4 \<Longrightarrow> m < 4 \<Longrightarrow>
     ucast (signed_drop_bit 2 (push_bit 6 (push_bit 6 v + of_nat (r * 16 + unat b div 16)) +
       of_nat (unat b mod 16 * 4 + m))) = b"
    and "r < 16 \<Longrightarrow>
     ucast (push_bit 6 (push_bit 6 v + of_nat (r * 4 + unat c div 64)) + of_nat (unat c mod 64)) = c"
proof -
  have l: "unat a div 4 < 64" "unat a mod 4 < 4" "unat b div 16 < 16" "unat b mod 16 < 16"
    "unat c div 64 < 4"
    using byte_less [of a] byte_less [of b] byte_less [of c] by simp_all
  show "ucast (signed_drop_bit 4 (push_bit 6 (push_bit 6 v + of_nat (unat a div 4)) +
       of_nat (unat a mod 4 * 16 + k))) = a" if "k < 16"
    by (rule decoded_byte [OF _ _ _ decode_digits(1) [OF byte_less that]]) (use l that in linarith)+
  show "ucast (signed_drop_bit 2 (push_bit 6 (push_bit 6 v + of_nat (r * 16 + unat b div 16)) +
       of_nat (unat b mod 16 * 4 + m))) = b" if "r < 4" "m < 4"
    by (rule decoded_byte [OF _ _ _ decode_digits(2) [OF byte_less that(2)]])
       (use l that in linarith)+
  have "ucast (signed_drop_bit 0 (push_bit 6 (push_bit 6 v + of_nat (r * 4 + unat c div 64)) +
       of_nat (unat c mod 64))) = c" if "r < 16"
    by (rule decoded_byte [OF _ _ _ decode_digits(3) [OF byte_less]]) (use l that in \<open>simp | linarith\<close>)+
  then show "ucast (push_bit 6 (push_bit 6 v + of_nat (r * 4 + unat c div 64)) +
       of_nat (unat c mod 64)) = c" if "r < 16" using that by simp
qed

lemma base64_decode_spec:
  assumes "i mod 4 = 0" "int (length out + length xs) \<le> out_size" "rest = [] \<or> hd rest = 0x3d"
  shows "base64_decode_loop i v out out_size (map ((!) b64) (enc_spec xs) @ rest) =
         (int (length out + length xs), out @ xs)"
  using assms(1,2)
proof (induction xs arbitrary: i v out rule: enc_spec.induct)
  case 1
  then show ?case using assms(3) by (cases rest) auto
next
  case (2 a)
  have "base64_decode_loop i' v' out' out_size rest = (int (length out'), out')" for i' v' out'
    using assms(3) by (cases rest) auto
  then show ?case
    using "2.prems" sextet_less [of a] decoded_bytes(1) [of 0 v a]
    by (simp add: base64_decode_char mod_Suc Let_def
        del: base64_decode_loop.simps of_nat_mult of_nat_add)
next
  case (3 a b)
  have "base64_decode_loop i' v' out' out_size rest = (int (length out'), out')" for i' v' out'
    using assms(3) by (cases rest) auto
  moreover have "unat b div 16 < 16" "unat a mod 4 < 4" using byte_less [of b] by simp_all
  ultimately show ?case
    using "3.prems" sextet_less [of a] sextet_less [of b] sextet_less(2) [of a b]
      decoded_bytes(1) [of "unat b div 16" v a]
      decoded_bytes(2) [of "unat a mod 4" 0 "push_bit 6 v + of_nat (unat a div 4)" b]
    by (simp add: base64_decode_char mod_Suc Let_def
        del: base64_decode_loop.simps of_nat_mult of_nat_add)
next
  case (4 a b c r)
  have "unat b div 16 < 16" "unat a mod 4 < 4" "unat c div 64 < 4" "unat b mod 16 < 16"
    using byte_less [of b] byte_less [of c] by simp_all
  then show ?case
    using "4.prems" sextet_less [of a] sextet_less [of b] sextet_less(2) [of a b] sextet_less(3) [of b c]
      decoded_bytes(1) [of "unat b div 16" v a]
      decoded_bytes(2) [of "unat a mod 4" "unat c div 64" "push_bit 6 v + of_nat (unat a div 4)" b]
      decoded_bytes(3) [of "unat b mod 16"]
      "4.IH"
    by (simp add: base64_decode_char mod_Suc Let_def
        del: base64_decode_loop.simps of_nat_mult of_nat_add)
qed

lemma base64_pad_eq: "\<exists>n. base64_pad out = out @ replicate n 0x3d \<and> length (base64_pad out) = (length out + 3) div 4 * 4"
proof (induction out rule: base64_pad.induct)
  case (1 out)
  show ?case
  proof (cases "length out mod 4 = 0")
    case True
    then have "(length out + 3) div 4 * 4 = length out" by presburger
    with True show ?thesis by (intro exI [of _ 0]) (simp add: base64_pad.simps [of out])
  next
    case False
    with "1.IH" obtain n where n: "base64_pad (out @ [0x3d]) = (out @ [0x3d]) @ replicate n 0x3d"
      "length (base64_pad (out @ [0x3d])) = (length out + 4) div 4 * 4" by auto
    from False have "(length out + 4) div 4 * 4 = (length out + 3) div 4 * 4" by presburger
    with n False show ?thesis by (intro exI [of _ "Suc n"]) (simp add: base64_pad.simps [of out])
  qed
qed

lemma base64_decode_loop_bounds:
  assumes "base64_decode_loop i v out out_size cs = (r, out')" "int (length out) \<le> max 0 out_size"
  shows "int (length out') \<le> max 0 out_size \<and> (r = -1 \<or> r = int (length out'))"
  using assms
proof (induction cs arbitrary: i v out)
  case (Cons c cs)
  then show ?case
    by (auto simp: Let_def split: if_splits)
qed auto

section \<open>Properties\<close>

lemma base64_encode_decode:
  assumes "length inp < 1073741823" "BASE64_SIZE (int (length inp)) \<le> out_size"
    "int (length inp) \<le> dec_size"
  shows "\<exists>s. base64_encode out_size inp = Some s \<and> 0 \<notin> set s \<and>
             int (length s) + 1 = BASE64_SIZE (int (length inp)) \<and>
             base64_decode s dec_size = (int (length inp), inp)"
proof -
  obtain n where n: "base64_pad (base64_encode_loop 0 0 inp) =
      map ((!) b64) (enc_spec inp) @ replicate n 0x3d"
    and l: "length (base64_pad (base64_encode_loop 0 0 inp)) = (length inp + 2) div 3 * 4"
    using base64_pad_eq [of "map ((!) b64) (enc_spec inp)"]
    by (auto simp: base64_encode_loop_spec length_enc_spec)
  have "base64_decode (map ((!) b64) (enc_spec inp) @ replicate n 0x3d) dec_size = (int (length inp), inp)"
    unfolding base64_decode_def
    using base64_decode_spec [of 0 "[]" inp dec_size "replicate n 0x3d" 0] assms(3) by (cases n) auto
  moreover have "int (length (base64_pad (base64_encode_loop 0 0 inp))) + 1 = BASE64_SIZE (int (length inp))"
    using l by (simp add: BASE64_SIZE_def of_nat_div)
  moreover have "0 \<notin> set (map ((!) b64) (enc_spec inp) @ replicate n 0x3d)"
  proof -
    have "0 \<notin> (!) b64 ` set (enc_spec inp)" by (metis imageE b64_valid(2) enc_spec_less)
    then show ?thesis by simp
  qed
  ultimately show ?thesis
    using assms(1,2) n by (simp add: base64_encode_def)
qed

text \<open>
  C36. Encoding succeeds exactly when the size checks pass, its text fills the caller's buffer
  exactly (padding and terminator included), and decoding it gives the bytes back.
\<close>

theorem base64_roundtrip:
  assumes "length inp < 1073741823" "BASE64_SIZE (int (length inp)) \<le> out_size"
    "int (length inp) \<le> dec_size"
  shows "\<exists>s. base64_encode out_size inp = Some s \<and>
             int (length s) + 1 = BASE64_SIZE (int (length inp)) \<and>
             base64_decode s dec_size = (int (length inp), inp)"
  using base64_encode_decode [OF assms] by blast

theorem base64_roundtrip_witness:
  "\<exists>s. base64_encode 9 [1, 254, 7, 128, 3] = Some s \<and> int (length s) + 1 = BASE64_SIZE 5 \<and>
       base64_decode s 6 = (5, [1, 254, 7, 128, 3])"
  using base64_roundtrip [of "[1, 254, 7, 128, 3]" 9 6] by (simp add: BASE64_SIZE_def)

text \<open>
  C40. The decoder never writes more than \<open>out_size\<close> bytes, whatever the input, and returns
  either -1 or the number of bytes it wrote.
\<close>

theorem base64_decode_bounded:
  "int (length (snd (base64_decode inp out_size))) \<le> max 0 out_size \<and>
   (fst (base64_decode inp out_size) = -1 \<or>
    fst (base64_decode inp out_size) = int (length (snd (base64_decode inp out_size))))"
  using base64_decode_loop_bounds [of 0 0 "[]" out_size inp]
  by (cases "base64_decode_loop 0 0 [] out_size inp") (auto simp: base64_decode_def)

end
