(* ===== verification/Bloom.thy ===== *)
theory Bloom
  imports SS_Prelude "HOL-Library.Signed_Division"
begin

text \<open>
  The Bloom filter of \<^verbatim>\<open>libbloom/bloom.c\<close> with its hash \<^verbatim>\<open>libbloom/murmur2/MurmurHash2.c\<close>, which
  stores the salts and IVs already seen. The floating-point arithmetic of \<open>bloom_init\<close> and the
  success of \<open>calloc\<close> are parameters (\<open>bloom_env\<close>): every theorem holds for any rounding. Hash and
  index arithmetic is on 32-bit words, the bit array is a byte array with checked accesses, and
  a zero modulus is the fault it is in C. \<open>murmurhash2\<close> reads four bytes little-endian, as on the
  platforms the project builds for.

  The lemmas show that no access leaves the array, that a check finds everything added since the
  last reset, and that the filter implements the interface \<open>seen_filter\<close>.
\<close>

section \<open>MurmurHash2\<close>

definition murmur_m :: u32 where
  "murmur_m = 0x5bd1e995"

definition le32 :: "byte \<Rightarrow> byte \<Rightarrow> byte \<Rightarrow> byte \<Rightarrow> u32" where
  "le32 b0 b1 b2 b3 =
     ucast b0 OR push_bit 8 (ucast b1) OR push_bit 16 (ucast b2) OR push_bit 24 (ucast b3)"

fun murmur_blocks :: "u32 \<Rightarrow> bytes \<Rightarrow> u32 \<times> bytes" where
  "murmur_blocks h (b0 # b1 # b2 # b3 # rest) =
     (let k = le32 b0 b1 b2 b3 * murmur_m;
          k = k XOR drop_bit 24 k;
          k = k * murmur_m
      in murmur_blocks (h * murmur_m XOR k) rest)"
| "murmur_blocks h tl4 = (h, tl4)"

fun murmur_tail :: "u32 \<Rightarrow> bytes \<Rightarrow> u32" where
  "murmur_tail h [d0, d1, d2] =
     (h XOR push_bit 16 (ucast d2) XOR push_bit 8 (ucast d1) XOR ucast d0) * murmur_m"
| "murmur_tail h [d0, d1] = (h XOR push_bit 8 (ucast d1) XOR ucast d0) * murmur_m"
| "murmur_tail h [d0] = (h XOR ucast d0) * murmur_m"
| "murmur_tail h _ = h"

definition murmurhash2 :: "bytes \<Rightarrow> u32 \<Rightarrow> u32" where
  "murmurhash2 key seed =
     (let (h, rest) = murmur_blocks (seed XOR of_nat (length key)) key;
          h = murmur_tail h rest;
          h = h XOR drop_bit 13 h;
          h = h * murmur_m
      in h XOR drop_bit 15 h)"

section \<open>The filter\<close>

record 'd bloom =
  bl_entries :: int
  bl_error :: 'd
  bl_bits :: int
  bl_bytes :: int
  bl_hashes :: int
  bl_bpe :: 'd
  bl_bf :: bytes
  bl_ready :: int

record 'd bloom_env =
  fp_is_zero :: "'d \<Rightarrow> bool"
  fp_log :: "'d \<Rightarrow> 'd"
  fp_neg :: "'d \<Rightarrow> 'd"
  fp_div :: "'d \<Rightarrow> 'd \<Rightarrow> 'd"
  fp_mul :: "'d \<Rightarrow> 'd \<Rightarrow> 'd"
  fp_ceil :: "'d \<Rightarrow> 'd"
  fp_of_int :: "int \<Rightarrow> 'd"
  fp_to_int :: "'d \<Rightarrow> int"
  fp_ln2_squared :: 'd
  fp_ln2 :: 'd
  calloc_ok :: "int \<Rightarrow> bool"

definition test_bit_set_bit :: "bytes \<Rightarrow> u32 \<Rightarrow> bool \<Rightarrow> (bool \<times> bytes) res" where
  "test_bit_set_bit buf x setb =
     (let idx = unat (drop_bit 3 x) in
      if idx < length buf
      then let c = buf ! idx; mask = (push_bit (unat (x mod 8)) 1 :: u32) in
           if ucast c AND mask \<noteq> 0 then Inr (True, buf)
           else Inr (False, if setb then buf[idx := ucast (ucast c OR mask)] else buf)
      else Inl Out_of_bounds)"

fun bloom_probe :: "u32 \<Rightarrow> u32 \<Rightarrow> u32 \<Rightarrow> bool \<Rightarrow> int \<Rightarrow> nat \<Rightarrow> u32 \<Rightarrow> int \<Rightarrow> bytes \<Rightarrow> (int \<times> bytes) res" where
  "bloom_probe a b bits add hashes 0 i hits bf = Inr (if hits = hashes then 1 else 0, bf)"
| "bloom_probe a b bits add hashes (Suc n) i hits bf =
     (if bits = 0 then Inl Div_by_zero
      else bindr (test_bit_set_bit bf ((a + i * b) mod bits) add) (\<lambda>(hit, bf').
             if hit then bloom_probe a b bits add hashes n (i + 1) (hits + 1) bf'
             else if \<not> add then Inr (0, bf')
             else bloom_probe a b bits add hashes n (i + 1) hits bf'))"

definition bloom_check_add :: "'d bloom \<Rightarrow> bytes \<Rightarrow> bool \<Rightarrow> (int \<times> 'd bloom) res" where
  "bloom_check_add bl buffer add =
     (if bl_ready bl = 0 then Inr (-1, bl)
      else let a = murmurhash2 buffer 0x9747b28c; b = murmurhash2 buffer a in
           bindr (bloom_probe a b (word_of_int (bl_bits bl)) add (bl_hashes bl)
                    (unat (word_of_int (bl_hashes bl) :: u32)) 0 0 (bl_bf bl))
                 (\<lambda>(r, bf'). Inr (r, bl\<lparr>bl_bf := bf'\<rparr>)))"

definition bloom_init :: "'d bloom_env \<Rightarrow> 'd bloom \<Rightarrow> int \<Rightarrow> 'd \<Rightarrow> int \<times> 'd bloom" where
  "bloom_init E bl ents err =
     (let bl = bl\<lparr>bl_ready := 0\<rparr> in
      if ents < 1 \<or> fp_is_zero E err then (1, bl)
      else
        let bpe = fp_neg E (fp_div E (fp_log E err) (fp_ln2_squared E));
            bits = fp_to_int E (fp_mul E (fp_of_int E ents) bpe);
            bytes = (if bits smod 8 \<noteq> 0 then bits sdiv 8 + 1 else bits sdiv 8);
            hashes = fp_to_int E (fp_ceil E (fp_mul E (fp_ln2 E) bpe));
            bl = bl\<lparr>bl_entries := ents, bl_error := err, bl_bpe := bpe, bl_bits := bits,
                    bl_bytes := bytes, bl_hashes := hashes\<rparr>
        in if \<not> calloc_ok E (bytes mod 2 ^ 64) then (1, bl\<lparr>bl_bf := []\<rparr>)
           else (0, bl\<lparr>bl_bf := replicate (nat (bytes mod 2 ^ 64)) 0, bl_ready := 1\<rparr>))"

definition bloom_check :: "'d bloom \<Rightarrow> bytes \<Rightarrow> (int \<times> 'd bloom) res" where
  "bloom_check bl buffer = bloom_check_add bl buffer False"

definition bloom_add :: "'d bloom \<Rightarrow> bytes \<Rightarrow> (int \<times> 'd bloom) res" where
  "bloom_add bl buffer = bloom_check_add bl buffer True"

definition bloom_free :: "'d bloom \<Rightarrow> 'd bloom" where
  "bloom_free bl =
     (let bl = (if bl_ready bl \<noteq> 0 then bl\<lparr>bl_bf := []\<rparr> else bl) in bl\<lparr>bl_ready := 0\<rparr>)"

definition bloom_reset :: "'d bloom \<Rightarrow> int \<times> 'd bloom" where
  "bloom_reset bl =
     (if bl_ready bl = 0 then (1, bl)
      else (0, bl\<lparr>bl_bf := replicate (nat (bl_bytes bl mod 2 ^ 64)) 0\<rparr>))"

section \<open>Invariant and abstraction\<close>

text \<open>
  The well-formed filters are those \<open>bloom_init\<close> returns with success for a positive number of
  bits; \<open>probe_bits\<close> are the positions the two hash values give for a key, and a filter covers a
  key when it has all of them set.
\<close>

definition bloom_ok :: "'d bloom \<Rightarrow> bool" where
  "bloom_ok bl \<longleftrightarrow>
     bl_ready bl \<noteq> 0 \<and> 0 < bl_bits bl \<and> bl_bits bl < 2 ^ 31 \<and>
     bl_bytes bl = (bl_bits bl + 7) div 8 \<and> length (bl_bf bl) = nat (bl_bytes bl) \<and>
     0 \<le> bl_hashes bl \<and> bl_hashes bl < 2 ^ 31"

definition bf_bit :: "bytes \<Rightarrow> u32 \<Rightarrow> bool" where
  "bf_bit bf x = bit (bf ! unat (drop_bit 3 x)) (unat (x mod 8))"

definition probe_at :: "u32 \<Rightarrow> u32 \<Rightarrow> u32 \<Rightarrow> u32 \<Rightarrow> u32" where
  "probe_at a b bits i = (a + i * b) mod bits"

definition bloom_covers :: "'d bloom \<Rightarrow> bytes \<Rightarrow> bool" where
  "bloom_covers bl key =
     (let a = murmurhash2 key 0x9747b28c; b = murmurhash2 key a in
      \<forall>i < nat (bl_hashes bl). bf_bit (bl_bf bl) (probe_at a b (word_of_int (bl_bits bl)) (of_nat i)))"

section \<open>Single bits\<close>

lemma mask_bit:
  fixes c :: byte
  assumes "k < 8"
  shows "(ucast c AND (2 ^ k :: u32) = 0) = (\<not> bit c k)"
  using assms by (simp add: and_exp_eq_0_iff_not_bit bit_simps)

lemma bit_set_mask:
  fixes c :: byte
  assumes "k < 8"
  shows "bit (ucast (ucast c OR (2 ^ k :: u32)) :: byte) j \<longleftrightarrow> bit c j \<or> j = k"
  using assms by (auto simp: bit_simps dest: bit_imp_le_length)

lemma word_mod_8_less: "unat (x mod 8 :: u32) < 8"
  by (simp add: unat_mod)

lemma test_bit_ok:
  assumes "unat (drop_bit 3 x) < length buf"
  shows "\<exists>buf'. test_bit_set_bit buf x s = Inr (bf_bit buf x, buf') \<and> length buf' = length buf \<and>
           (\<not> s \<longrightarrow> buf' = buf) \<and> (s \<longrightarrow> bf_bit buf' x) \<and> (\<forall>y. bf_bit buf y \<longrightarrow> bf_bit buf' y)"
proof (cases "bf_bit buf x \<or> \<not> s")
  case True
  then show ?thesis
    using assms by (auto simp: test_bit_set_bit_def Let_def mask_bit [OF word_mod_8_less] bf_bit_def)
next
  case False
  define buf' where "buf' = buf[unat (drop_bit 3 x) :=
    ucast (ucast (buf ! unat (drop_bit 3 x)) OR (2 ^ unat (x mod 8) :: u32))]"
  have "test_bit_set_bit buf x s = Inr (bf_bit buf x, buf')"
    using assms False
    by (auto simp: test_bit_set_bit_def Let_def mask_bit [OF word_mod_8_less] bf_bit_def buf'_def)
  moreover have "bf_bit buf' x"
    using assms by (simp add: bf_bit_def buf'_def bit_set_mask [OF word_mod_8_less])
  moreover have "bf_bit buf' y" if "bf_bit buf y" for y
  proof (cases "unat (drop_bit 3 y) = unat (drop_bit 3 x)")
    case True
    with that assms show ?thesis
      by (simp add: bf_bit_def buf'_def bit_set_mask [OF word_mod_8_less])
  next
    case False
    with that show ?thesis by (simp add: bf_bit_def buf'_def)
  qed
  ultimately show ?thesis using False by (intro exI [of _ buf']) (simp add: buf'_def)
qed

lemma unat_bits:
  assumes "0 < B" "B < 2 ^ 31"
  shows "unat (word_of_int B :: u32) = nat B" "(word_of_int B :: u32) \<noteq> 0"
proof -
  show u: "unat (word_of_int B :: u32) = nat B"
    using assms by (simp add: unat_eq_nat_uint uint_word_of_int)
  show "(word_of_int B :: u32) \<noteq> 0"
  proof
    assume "(word_of_int B :: u32) = 0"
    then have "unat (word_of_int B :: u32) = 0" by simp
    then show False using u assms(1) by linarith
  qed
qed

lemma probe_in_range:
  assumes "0 < B" "B < 2 ^ 31" "length buf = nat ((B + 7) div 8)"
  shows "unat (drop_bit 3 (probe_at a b (word_of_int B) i)) < length buf"
proof -
  have "unat (probe_at a b (word_of_int B) i) < nat B"
    using assms(1) by (simp add: probe_at_def unat_mod unat_bits [OF assms(1,2)])
  then have "unat (probe_at a b (word_of_int B) i) div 8 < nat ((B + 7) div 8)"
    using assms(1) by linarith
  then show ?thesis by (simp add: unat_drop_bit_eq drop_bit_eq_div [where 'a = nat] assms(3))
qed

section \<open>Probing\<close>

lemma bloom_probe_add:
  assumes B: "0 < B" "B < 2 ^ 31" and "length bf = nat ((B + 7) div 8)"
  shows "\<exists>r bf'. bloom_probe a b (word_of_int B) True hashes n (of_nat j) hits bf = Inr (r, bf') \<and>
           (r = 0 \<or> r = 1) \<and> length bf' = length bf \<and>
           (\<forall>y. bf_bit bf y \<longrightarrow> bf_bit bf' y) \<and>
           (\<forall>k < n. bf_bit bf' (probe_at a b (word_of_int B) (of_nat (j + k))))"
  using assms(3)
proof (induction n arbitrary: j hits bf)
  case (Suc n)
  let ?x = "probe_at a b (word_of_int B) (of_nat j)"
  note nz = unat_bits(2) [OF B]
  obtain bf1 where t: "test_bit_set_bit bf ?x True = Inr (bf_bit bf ?x, bf1)" "length bf1 = length bf"
      "bf_bit bf1 ?x" "\<And>y. bf_bit bf y \<Longrightarrow> bf_bit bf1 y"
    using test_bit_ok [OF probe_in_range [OF B Suc.prems], of a b "of_nat j" True] by auto
  let ?h = "if bf_bit bf ?x then hits + 1 else hits"
  obtain r bf' where IH: "bloom_probe a b (word_of_int B) True hashes n (of_nat (Suc j)) ?h bf1 = Inr (r, bf')"
      "r = 0 \<or> r = 1" "length bf' = length bf1" "\<And>y. bf_bit bf1 y \<Longrightarrow> bf_bit bf' y"
      "\<And>k. k < n \<Longrightarrow> bf_bit bf' (probe_at a b (word_of_int B) (of_nat (Suc j + k)))"
    using Suc.IH [of bf1 "Suc j" ?h] t(2) Suc.prems by metis
  have "bloom_probe a b (word_of_int B) True hashes (Suc n) (of_nat j) hits bf = Inr (r, bf')"
    using t(1) IH(1) nz by (simp add: probe_at_def add.commute split: if_splits)
  moreover have "bf_bit bf' (probe_at a b (word_of_int B) (of_nat (j + k)))" if "k < Suc n" for k
  proof (cases k)
    case 0
    then show ?thesis using t(3) IH(4) by simp
  next
    case (Suc k')
    then show ?thesis using IH(5) [of k'] that by simp
  qed
  ultimately show ?case using IH t by (intro exI [of _ r] exI [of _ bf']) auto
qed auto

lemma bloom_probe_check:
  assumes B: "0 < B" "B < 2 ^ 31" and bf: "length bf = nat ((B + 7) div 8)" and "hits + int n = hashes"
  shows "bloom_probe a b (word_of_int B) False hashes n (of_nat j) hits bf =
         Inr (if \<forall>k < n. bf_bit bf (probe_at a b (word_of_int B) (of_nat (j + k))) then 1 else 0, bf)"
  using assms(4)
proof (induction n arbitrary: j hits)
  case (Suc n)
  let ?x = "probe_at a b (word_of_int B) (of_nat j)"
  note nz = unat_bits(2) [OF B]
  have t: "test_bit_set_bit bf ?x False = Inr (bf_bit bf ?x, bf)"
    using test_bit_ok [OF probe_in_range [OF B bf], of a b "of_nat j" False] by auto
  have all: "(\<forall>k < Suc n. bf_bit bf (probe_at a b (word_of_int B) (of_nat (j + k)))) \<longleftrightarrow>
      bf_bit bf ?x \<and> (\<forall>k < n. bf_bit bf (probe_at a b (word_of_int B) (of_nat (Suc j + k))))"
    by (simp add: All_less_Suc2 ac_simps)
  show ?case
    using t nz Suc.IH [of "hits + 1" "Suc j"] Suc.prems unfolding all
    by (simp add: probe_at_def add.commute)
qed auto

section \<open>The operations on well-formed filters\<close>

text \<open>
  What a filter of seen keys promises to its client: an addition never fails, keeps the filter
  well-formed and what it covers, and covers the new key; a check says whether the key is covered.
  \<open>add_all\<close> is the client's run of additions.
\<close>

fun add_all :: "('s \<Rightarrow> bytes \<Rightarrow> (int \<times> 's) res) \<Rightarrow> 's \<Rightarrow> bytes list \<Rightarrow> 's res" where
  "add_all add s [] = Inr s"
| "add_all add s (x # xs) = bindr (add s x) (\<lambda>(_, s'). add_all add s' xs)"

lemma add_all_append:
  "add_all add s (xs @ ys) = bindr (add_all add s xs) (\<lambda>s'. add_all add s' ys)"
  by (induction xs arbitrary: s) (auto simp: bindr_assoc intro!: arg_cong [where f = "bindr _"])

locale seen_filter =
  fixes invar :: "'s \<Rightarrow> bool"
    and covers :: "'s \<Rightarrow> bytes \<Rightarrow> bool"
    and add :: "'s \<Rightarrow> bytes \<Rightarrow> (int \<times> 's) res"
    and check :: "'s \<Rightarrow> bytes \<Rightarrow> (int \<times> 's) res"
  assumes add_ok: "invar s \<Longrightarrow> \<exists>r s'. add s x = Inr (r, s') \<and> r \<noteq> -1 \<and> invar s' \<and> covers s' x \<and>
                     (\<forall>y. covers s y \<longrightarrow> covers s' y)"
    and check_ok: "invar s \<Longrightarrow> check s x = Inr (if covers s x then 1 else 0, s)"
begin

lemma add_all_covers:
  assumes "invar s"
  shows "\<exists>s'. add_all add s xs = Inr s' \<and> invar s' \<and> (\<forall>y. covers s y \<or> y \<in> set xs \<longrightarrow> covers s' y)"
  using assms
proof (induction xs arbitrary: s)
  case (Cons x xs)
  obtain r s1 where s1: "add s x = Inr (r, s1)" "invar s1" "covers s1 x" "\<And>y. covers s y \<Longrightarrow> covers s1 y"
    using add_ok [OF Cons.prems, of x] by auto
  then show ?case using Cons.IH [OF s1(2)] by auto
qed simp

lemma check_after_add_all:
  assumes "invar s" "x \<in> set xs" "add_all add s xs = Inr s'"
  shows "check s' x = Inr (1, s')"
  using add_all_covers [OF assms(1), of xs] assms(2,3) check_ok by auto

end

locale resettable_filter = seen_filter +
  fixes reset :: "'s \<Rightarrow> int \<times> 's"
  assumes reset_ok: "invar s \<Longrightarrow> \<exists>s'. reset s = (0, s') \<and> invar s'"

lemma bloom_hashes_nat:
  "bloom_ok bl \<Longrightarrow> unat (word_of_int (bl_hashes bl) :: u32) = nat (bl_hashes bl)"
  by (cases "bl_hashes bl = 0") (auto simp: bloom_ok_def unat_bits)

lemma bloom_add_ok:
  assumes ok: "bloom_ok bl"
  shows "\<exists>r bl'. bloom_add bl x = Inr (r, bl') \<and> r \<noteq> -1 \<and> bloom_ok bl' \<and> bloom_covers bl' x \<and>
           (\<forall>y. bloom_covers bl y \<longrightarrow> bloom_covers bl' y)"
proof -
  let ?a = "murmurhash2 x 0x9747b28c"
  let ?b = "murmurhash2 x ?a"
  let ?B = "bl_bits bl"
  have B: "0 < ?B" "?B < 2 ^ 31" "length (bl_bf bl) = nat ((?B + 7) div 8)"
    using ok by (auto simp: bloom_ok_def)
  obtain r bf' where p: "bloom_probe ?a ?b (word_of_int ?B) True (bl_hashes bl) (nat (bl_hashes bl)) 0 0
        (bl_bf bl) = Inr (r, bf')" "r = 0 \<or> r = 1" "length bf' = length (bl_bf bl)"
      "\<And>y. bf_bit (bl_bf bl) y \<Longrightarrow> bf_bit bf' y"
      "\<And>k. k < nat (bl_hashes bl) \<Longrightarrow> bf_bit bf' (probe_at ?a ?b (word_of_int ?B) (of_nat k))"
    using bloom_probe_add [OF B, of ?a ?b "bl_hashes bl" "nat (bl_hashes bl)" 0 0] by auto
  have "bloom_add bl x = Inr (r, bl\<lparr>bl_bf := bf'\<rparr>)"
    using p(1) ok bloom_hashes_nat [OF ok]
    by (simp add: bloom_add_def bloom_check_add_def Let_def bloom_ok_def)
  moreover have "bloom_ok (bl\<lparr>bl_bf := bf'\<rparr>)" using ok p(3) by (simp add: bloom_ok_def)
  moreover have "bloom_covers (bl\<lparr>bl_bf := bf'\<rparr>) x" using p(5) by (simp add: bloom_covers_def Let_def)
  moreover have "bloom_covers (bl\<lparr>bl_bf := bf'\<rparr>) y" if "bloom_covers bl y" for y
    using that p(4) by (simp add: bloom_covers_def Let_def)
  ultimately show ?thesis using p(2) by auto
qed

lemma bloom_check_ok:
  assumes ok: "bloom_ok bl"
  shows "bloom_check bl x = Inr (if bloom_covers bl x then 1 else 0, bl)"
proof -
  let ?a = "murmurhash2 x 0x9747b28c"
  let ?b = "murmurhash2 x ?a"
  let ?B = "bl_bits bl"
  have B: "0 < ?B" "?B < 2 ^ 31" "length (bl_bf bl) = nat ((?B + 7) div 8)"
    using ok by (auto simp: bloom_ok_def)
  have "bloom_probe ?a ?b (word_of_int ?B) False (bl_hashes bl) (nat (bl_hashes bl)) 0 0 (bl_bf bl) =
        Inr (if bloom_covers bl x then 1 else 0, bl_bf bl)"
    using bloom_probe_check [OF B, of 0 "nat (bl_hashes bl)" "bl_hashes bl" ?a ?b 0] ok
    by (simp add: bloom_covers_def Let_def bloom_ok_def)
  then show ?thesis
    using ok bloom_hashes_nat [OF ok]
    by (simp add: bloom_check_def bloom_check_add_def Let_def bloom_ok_def)
qed

lemma bloom_reset_ok:
  assumes "bloom_ok bl"
  shows "\<exists>bl'. bloom_reset bl = (0, bl') \<and> bloom_ok bl'"
  using assms by (auto simp: bloom_reset_def bloom_ok_def)

text \<open>A filter with no bit set recognises nothing.\<close>

lemma bloom_empty_covers:
  assumes ok: "bloom_ok bl" and "bl_bf bl = replicate n 0" "0 < bl_hashes bl"
  shows "\<not> bloom_covers bl x"
proof -
  let ?a = "murmurhash2 x 0x9747b28c"
  let ?p = "probe_at ?a (murmurhash2 x ?a) (word_of_int (bl_bits bl)) (of_nat 0)"
  have "unat (drop_bit 3 ?p) < length (bl_bf bl)"
    using ok by (intro probe_in_range) (auto simp: bloom_ok_def)
  then have "\<not> bf_bit (bl_bf bl) ?p" using assms(2) by (simp add: bf_bit_def)
  moreover have "0 < nat (bl_hashes bl)" using assms(3) by simp
  ultimately show ?thesis unfolding bloom_covers_def Let_def by blast
qed

interpretation blf: resettable_filter bloom_ok bloom_covers bloom_add bloom_check bloom_reset
  by unfold_locales (use bloom_add_ok bloom_check_ok bloom_reset_ok in blast)+

text \<open>
  \<open>bloom_sane E n e\<close>: the size computation of \<open>bloom_init\<close> gives a positive number of bits and a
  number of hash functions that both fit an \<open>int\<close>, as it does for the entries and error rates the
  program uses.
\<close>

definition bloom_sane :: "'d bloom_env \<Rightarrow> int \<Rightarrow> 'd \<Rightarrow> bool" where
  "bloom_sane E ents err =
     (let bpe = fp_neg E (fp_div E (fp_log E err) (fp_ln2_squared E));
          bits = fp_to_int E (fp_mul E (fp_of_int E ents) bpe);
          hashes = fp_to_int E (fp_ceil E (fp_mul E (fp_ln2 E) bpe))
      in 0 < bits \<and> bits < 2 ^ 31 \<and> 0 \<le> hashes \<and> hashes < 2 ^ 31)"

lemma sdiv8_ceil:
  assumes "0 < (B::int)"
  shows "B smod 8 \<noteq> 0 \<Longrightarrow> B sdiv 8 + 1 = (B + 7) div 8" "B smod 8 = 0 \<Longrightarrow> B sdiv 8 = (B + 7) div 8"
proof -
  have sm: "B smod 8 = B mod 8" "B sdiv 8 = B div 8"
    using assms by (simp_all add: signed_modulo_int_def signed_divide_int_def)
  have q: "(B + 7) div 8 = B div 8 + (B mod 8 + 7) div 8"
    using div_mult_self2 [of 8 "B mod 8 + 7" "B div 8"] mult_div_mod_eq [of 8 B]
    by (simp add: algebra_simps)
  have "0 \<le> B mod 8" "B mod 8 < 8" by simp_all
  then show "B smod 8 \<noteq> 0 \<Longrightarrow> B sdiv 8 + 1 = (B + 7) div 8" "B smod 8 = 0 \<Longrightarrow> B sdiv 8 = (B + 7) div 8"
    unfolding sm q by linarith+
qed

lemma bloom_init_ok:
  assumes sane: "bloom_sane E ents err" and init: "bloom_init E bl ents err = (0, bl')"
  shows "bloom_ok bl'"
proof -
  define bpe where "bpe = fp_neg E (fp_div E (fp_log E err) (fp_ln2_squared E))"
  define B where "B = fp_to_int E (fp_mul E (fp_of_int E ents) bpe)"
  define H where "H = fp_to_int E (fp_ceil E (fp_mul E (fp_ln2 E) bpe))"
  have B: "0 < B" "B < 2 ^ 31" "0 \<le> H" "H < 2 ^ 31"
    using sane by (simp_all add: bloom_sane_def Let_def B_def H_def bpe_def)
  have "bl_ready bl' = 1 \<and> bl_bits bl' = B \<and> bl_hashes bl' = H \<and> bl_bytes bl' = (B + 7) div 8 \<and>
        length (bl_bf bl') = nat ((B + 7) div 8 mod 2 ^ 64)"
    using init unfolding bloom_init_def Let_def
    by (auto simp add: B_def [symmetric] H_def [symmetric] bpe_def [symmetric] sdiv8_ceil [OF B(1)]
             split: if_splits)
  moreover have "(B + 7) div 8 mod 2 ^ 64 = (B + 7) div 8"
    using B(1,2) by (intro mod_pos_pos_trivial) auto
  ultimately show ?thesis using B by (simp add: bloom_ok_def)
qed

text \<open>
  A Bloom filter has no false negative: after a successful \<open>bloom_init\<close>, adding any keys never
  faults and \<open>bloom_check\<close> then answers 1 for each of them.
\<close>

theorem bloom_no_false_negative:
  assumes "bloom_sane E ents err" "bloom_init E bl ents err = (0, bl')" "x \<in> set xs"
  shows "\<exists>bl''. add_all bloom_add bl' xs = Inr bl'' \<and> bloom_check bl'' x = Inr (1, bl'')"
  using blf.add_all_covers [OF bloom_init_ok [OF assms(1,2)], of xs] assms(3)
  by (auto simp: blf.check_ok)

text \<open>
  A concrete arithmetic for the witnesses: seven bits and seven hash functions per entry.
\<close>

definition env7 :: "int bloom_env" where
  "env7 = \<lparr>fp_is_zero = (\<lambda>d. d = 0), fp_log = (\<lambda>_. -7), fp_neg = uminus, fp_div = (\<lambda>a b. a div b),
           fp_mul = (*), fp_ceil = id, fp_of_int = id, fp_to_int = id, fp_ln2_squared = 1,
           fp_ln2 = 1, calloc_ok = (\<lambda>_. True)\<rparr>"

definition bloom_blank :: "'d \<Rightarrow> 'd bloom" where
  "bloom_blank z = \<lparr>bl_entries = 0, bl_error = z, bl_bits = 0, bl_bytes = 0, bl_hashes = 0,
                   bl_bpe = z, bl_bf = [], bl_ready = 0\<rparr>"

theorem bloom_no_false_negative_witness:
  "\<exists>bl''. add_all bloom_add (snd (bloom_init env7 (bloom_blank 0) 3 1)) [[1, 2, 3], [4]] = Inr bl'' \<and>
     bloom_check bl'' [4] = Inr (1, bl'')"
  by (rule bloom_no_false_negative [where E = env7 and ents = 3 and err = 1 and bl = "bloom_blank 0"])
     (simp_all add: bloom_sane_def env7_def bloom_init_def Let_def signed_divide_int_def signed_modulo_int_def)

end
