(* ===== verification/PPBloom.thy ===== *)
theory PPBloom
  imports Bloom
begin

text \<open>
  The ping-pong filter of \<^verbatim>\<open>src/ppbloom.c\<close>: two Bloom filters of half the configured size, written
  one after the other, so that the memory of seen salts is bounded and the most recent ones are
  never forgotten. The static variables of the file are the record \<open>ppbloom_state\<close>; the arrays
  \<open>ppbloom\<close> and \<open>bloom_count\<close> are lists of length two indexed by \<open>current\<close>.

  The main lemma is the replay window: whatever was added before, a salt is recognised until at
  least \<open>entries\<close> further salts have been added.
\<close>

section \<open>The module\<close>

definition PING :: nat where "PING = 0"

definition PONG :: nat where "PONG = 1"

record 'd ppbloom_state =
  pp_bloom :: "'d bloom list"
  pp_count :: "int list"
  pp_current :: nat
  pp_entries :: int
  pp_error :: 'd

definition ppbloom_init ::
    "'d bloom_env \<Rightarrow> 'd ppbloom_state \<Rightarrow> int \<Rightarrow> 'd \<Rightarrow> int \<times> 'd ppbloom_state" where
  "ppbloom_init E pp n e =
     (let pp = pp\<lparr>pp_entries := n sdiv 2, pp_error := e\<rparr>;
          (err, ping) = bloom_init E (pp_bloom pp ! PING) (pp_entries pp) (pp_error pp);
          pp = pp\<lparr>pp_bloom := (pp_bloom pp)[PING := ping]\<rparr>
      in if err \<noteq> 0 then (err, pp)
         else
           let (err, pong) = bloom_init E (pp_bloom pp ! PONG) (pp_entries pp) (pp_error pp);
               pp = pp\<lparr>pp_bloom := (pp_bloom pp)[PONG := pong]\<rparr>
           in if err \<noteq> 0 then (err, pp)
              else (0, pp\<lparr>pp_count := (pp_count pp)[PING := 0, PONG := 0], pp_current := PING\<rparr>))"

definition ppbloom_check :: "'d ppbloom_state \<Rightarrow> bytes \<Rightarrow> (int \<times> 'd ppbloom_state) res" where
  "ppbloom_check pp buffer =
     bindr (bloom_check (pp_bloom pp ! PING) buffer) (\<lambda>(ret, ping).
       let pp = pp\<lparr>pp_bloom := (pp_bloom pp)[PING := ping]\<rparr> in
       if ret \<noteq> 0 then Inr (ret, pp)
       else bindr (bloom_check (pp_bloom pp ! PONG) buffer) (\<lambda>(ret, pong).
              let pp = pp\<lparr>pp_bloom := (pp_bloom pp)[PONG := pong]\<rparr> in
              if ret \<noteq> 0 then Inr (ret, pp) else Inr (0, pp)))"

definition ppbloom_add :: "'d ppbloom_state \<Rightarrow> bytes \<Rightarrow> (int \<times> 'd ppbloom_state) res" where
  "ppbloom_add pp buffer =
     bindr (bloom_add (pp_bloom pp ! pp_current pp) buffer) (\<lambda>(err, b).
       let cur = pp_current pp; pp = pp\<lparr>pp_bloom := (pp_bloom pp)[cur := b]\<rparr> in
       if err = -1 then Inr (err, pp)
       else
         let pp = pp\<lparr>pp_count := (pp_count pp)[cur := pp_count pp ! cur + 1]\<rparr> in
         if pp_count pp ! cur \<ge> pp_entries pp then
           let pp = pp\<lparr>pp_count := (pp_count pp)[cur := 0]\<rparr>;
               nxt = (if cur = PING then PONG else PING);
               (_, b') = bloom_reset (pp_bloom pp ! nxt)
           in Inr (0, pp\<lparr>pp_current := nxt, pp_bloom := (pp_bloom pp)[nxt := b']\<rparr>)
         else Inr (0, pp))"

definition ppbloom_free :: "'d ppbloom_state \<Rightarrow> 'd ppbloom_state" where
  "ppbloom_free pp =
     pp\<lparr>pp_bloom := (pp_bloom pp)[PING := bloom_free (pp_bloom pp ! PING),
                                    PONG := bloom_free (pp_bloom pp ! PONG)]\<rparr>"

text \<open>The static storage before \<open>ppbloom_init\<close>: all zero.\<close>

definition ppbloom_zero :: "'d \<Rightarrow> 'd ppbloom_state" where
  "ppbloom_zero z = \<lparr>pp_bloom = [bloom_blank z, bloom_blank z], pp_count = [0, 0], pp_current = 0,
                     pp_entries = 0, pp_error = z\<rparr>"

section \<open>Invariant\<close>

text \<open>
  \<open>pp_other\<close> is the filter that is not written; \<open>pp_covers\<close> what a check recognises.
\<close>

definition pp_other :: "'d ppbloom_state \<Rightarrow> nat" where
  "pp_other pp = (if pp_current pp = PING then PONG else PING)"

definition ppbloom_ok :: "'d ppbloom_state \<Rightarrow> bool" where
  "ppbloom_ok pp \<longleftrightarrow>
     length (pp_bloom pp) = 2 \<and> length (pp_count pp) = 2 \<and> pp_current pp < 2 \<and>
     bloom_ok (pp_bloom pp ! PING) \<and> bloom_ok (pp_bloom pp ! PONG) \<and>
     pp_count pp ! pp_other pp = 0 \<and>
     0 \<le> pp_count pp ! pp_current pp \<and> pp_count pp ! pp_current pp < pp_entries pp"

definition pp_covers :: "'d ppbloom_state \<Rightarrow> bytes \<Rightarrow> bool" where
  "pp_covers pp x \<longleftrightarrow> bloom_covers (pp_bloom pp ! PING) x \<or> bloom_covers (pp_bloom pp ! PONG) x"

lemmas pp_index = PING_def PONG_def pp_other_def

lemma current_cases: "ppbloom_ok pp \<Longrightarrow> pp_current pp = 0 \<or> pp_current pp = Suc 0"
  by (auto simp: ppbloom_ok_def)

lemma ppbloom_check_ok:
  assumes "ppbloom_ok pp"
  shows "ppbloom_check pp x = Inr (if pp_covers pp x then 1 else 0, pp)"
  using assms
  by (auto simp: ppbloom_check_def ppbloom_ok_def pp_covers_def PING_def PONG_def Let_def blf.check_ok)

text \<open>
  One addition: it succeeds, keeps the invariant, and what the written filter covers stays
  covered either by the filter still written or, after the swap, by the other one, whose
  replacement starts from a count of zero.
\<close>

definition pp_kept :: "'d ppbloom_state \<Rightarrow> bytes \<Rightarrow> int \<Rightarrow> bool" where
  "pp_kept pp x d \<longleftrightarrow>
     bloom_covers (pp_bloom pp ! pp_current pp) x \<or>
     bloom_covers (pp_bloom pp ! pp_other pp) x \<and> pp_count pp ! pp_current pp \<le> d"

lemma ppbloom_add_ok:
  assumes ok: "ppbloom_ok pp"
  shows "\<exists>pp'. ppbloom_add pp x = Inr (0, pp') \<and> ppbloom_ok pp' \<and> pp_entries pp' = pp_entries pp \<and>
           pp_kept pp' x 0 \<and>
           (\<forall>y d. pp_kept pp y d \<and> 0 \<le> d \<and> d + 1 < pp_entries pp \<longrightarrow> pp_kept pp' y (d + 1))"
proof -
  let ?c = "pp_current pp"
  let ?o = "pp_other pp"
  have len: "length (pp_bloom pp) = 2" "length (pp_count pp) = 2" and c: "?c < 2"
    and bo: "bloom_ok (pp_bloom pp ! ?c)" "bloom_ok (pp_bloom pp ! ?o)" and o: "?o < 2" "?o \<noteq> ?c"
    and cnt: "pp_count pp ! ?o = 0" "0 \<le> pp_count pp ! ?c" "pp_count pp ! ?c < pp_entries pp"
    using ok by (auto simp: ppbloom_ok_def pp_index less_2_cases_iff)
  obtain r b where b: "bloom_add (pp_bloom pp ! ?c) x = Inr (r, b)" "r \<noteq> -1" "bloom_ok b"
      "bloom_covers b x" "\<And>y. bloom_covers (pp_bloom pp ! ?c) y \<Longrightarrow> bloom_covers b y"
    using blf.add_ok [OF bo(1), of x] by blast
  obtain b' where b': "bloom_reset (pp_bloom pp ! ?o) = (0, b')" "bloom_ok b'"
    using blf.reset_ok [OF bo(2)] by blast
  show ?thesis
  proof (cases "pp_count pp ! ?c + 1 \<ge> pp_entries pp")
    case True
    define pp' where "pp' = pp\<lparr>pp_bloom := (pp_bloom pp)[?c := b, ?o := b'],
      pp_count := (pp_count pp)[?c := 0], pp_current := ?o\<rparr>"
    have "ppbloom_add pp x = Inr (0, pp')"
      using b b' True o c len unfolding ppbloom_add_def pp'_def
      by (simp add: Let_def pp_other_def [symmetric])
    moreover have "ppbloom_ok pp'"
      using b(3) b'(2) len c cnt current_cases [OF ok]
      by (auto simp: ppbloom_ok_def pp'_def pp_index nth_list_update)
    moreover have "pp_kept pp' y e" if "bloom_covers b y" "0 \<le> e" for y e
      using that len c cnt current_cases [OF ok]
      by (auto simp: pp_kept_def pp'_def pp_index nth_list_update)
    moreover have "bloom_covers b y" if "pp_kept pp y d" "d + 1 < pp_entries pp" for y d
      using that b(5) True by (auto simp: pp_kept_def)
    moreover have "pp_entries pp' = pp_entries pp" by (simp add: pp'_def)
    ultimately show ?thesis using b(4) by (intro exI [of _ pp']) auto
  next
    case False
    define pp' where "pp' = pp\<lparr>pp_bloom := (pp_bloom pp)[?c := b],
      pp_count := (pp_count pp)[?c := pp_count pp ! ?c + 1]\<rparr>"
    have "ppbloom_add pp x = Inr (0, pp')"
      using b False c len unfolding ppbloom_add_def pp'_def by (simp add: Let_def)
    moreover have "ppbloom_ok pp'"
      using ok b(3) len c cnt False current_cases [OF ok]
      by (auto simp: ppbloom_ok_def pp'_def pp_index nth_list_update)
    moreover have "pp_kept pp' y (d + 1)" if "pp_kept pp y d" for y d
      using that b(5) len c current_cases [OF ok]
      by (auto simp: pp_kept_def pp'_def pp_index nth_list_update)
    moreover have "pp_kept pp' x 0"
      using b(4) len c by (auto simp: pp_kept_def pp'_def)
    ultimately show ?thesis by (auto simp: pp'_def)
  qed
qed

lemma pp_kept_covers: "ppbloom_ok pp \<Longrightarrow> pp_kept pp x d \<Longrightarrow> pp_covers pp x"
  by (auto simp: pp_kept_def pp_covers_def pp_index ppbloom_ok_def less_2_cases_iff split: if_splits)

section \<open>The replay window\<close>

lemma add_all_pp_ok:
  assumes "ppbloom_ok pp"
  shows "\<exists>pp'. add_all ppbloom_add pp xs = Inr pp' \<and> ppbloom_ok pp' \<and> pp_entries pp' = pp_entries pp"
  using assms
proof (induction xs arbitrary: pp)
  case (Cons x xs)
  obtain pp1 where "ppbloom_add pp x = Inr (0, pp1)" "ppbloom_ok pp1" "pp_entries pp1 = pp_entries pp"
    using ppbloom_add_ok [OF Cons.prems, of x] by blast
  then show ?case using Cons.IH [of pp1] by simp
qed simp

lemma add_all_pp_kept:
  assumes "ppbloom_ok pp" "pp_kept pp x d" "0 \<le> d" "d + int (length xs) < pp_entries pp"
  shows "\<exists>pp'. add_all ppbloom_add pp xs = Inr pp' \<and> ppbloom_ok pp' \<and> pp_covers pp' x"
  using assms
proof (induction xs arbitrary: pp d)
  case Nil
  then show ?case by (auto intro: pp_kept_covers)
next
  case (Cons y xs)
  obtain pp1 where pp1: "ppbloom_add pp y = Inr (0, pp1)" "ppbloom_ok pp1"
      "pp_entries pp1 = pp_entries pp" "pp_kept pp1 x (d + 1)"
    using ppbloom_add_ok [OF Cons.prems(1), of y] Cons.prems(2-) by auto
  show ?case using Cons.IH [OF pp1(2,4)] Cons.prems(3,4) pp1(1,3) by simp
qed

lemma ppbloom_window:
  assumes "ppbloom_ok pp" "int (length post) < pp_entries pp"
  shows "\<exists>pp'. add_all ppbloom_add pp (pre @ x # post) = Inr pp' \<and> ppbloom_ok pp' \<and>
           ppbloom_check pp' x = Inr (1, pp')"
proof -
  obtain pp1 where 1: "add_all ppbloom_add pp pre = Inr pp1" "ppbloom_ok pp1" "pp_entries pp1 = pp_entries pp"
    using add_all_pp_ok [OF assms(1)] by blast
  obtain pp2 where 2: "ppbloom_add pp1 x = Inr (0, pp2)" "ppbloom_ok pp2" "pp_entries pp2 = pp_entries pp1"
      "pp_kept pp2 x 0"
    using ppbloom_add_ok [OF 1(2), of x] by blast
  obtain pp' where 3: "add_all ppbloom_add pp2 post = Inr pp'" "ppbloom_ok pp'" "pp_covers pp' x"
    using add_all_pp_kept [OF 2(2,4)] assms(2) 1(3) 2(3) by auto
  show ?thesis using 1 2 3 by (simp add: add_all_append ppbloom_check_ok)
qed

lemma sdiv_2: "0 \<le> (n::int) \<Longrightarrow> n sdiv 2 = n div 2"
  by (cases "n = 0") (simp_all add: signed_divide_int_def)

lemma bloom_init_pos: "bloom_init E bl ents err = (0, bl') \<Longrightarrow> 0 < ents"
  by (auto simp: bloom_init_def Let_def split: if_splits)

lemma ppbloom_init_ok:
  assumes "ppbloom_init E pp n e = (0, pp')" "bloom_sane E (n sdiv 2) e"
    "length (pp_bloom pp) = 2" "length (pp_count pp) = 2"
  shows "ppbloom_ok pp' \<and> pp_entries pp' = n sdiv 2"
  using assms
  by (auto simp: ppbloom_init_def ppbloom_ok_def Let_def pp_index split: prod.splits if_splits
           intro: bloom_init_ok dest: bloom_init_pos)

section \<open>The guard its clients see\<close>

text \<open>
  The ciphers present the salt of each new session: a salt recognised is refused, any other one is
  recorded. \<open>guard_run\<close> is a sequence of such sessions; it returns the salts it accepted.
\<close>

fun guard_run :: "('s \<Rightarrow> bytes \<Rightarrow> (int \<times> 's) res) \<Rightarrow> ('s \<Rightarrow> bytes \<Rightarrow> (int \<times> 's) res) \<Rightarrow>
    's \<Rightarrow> bytes list \<Rightarrow> (bytes list \<times> 's) res" where
  "guard_run check add s [] = Inr ([], s)"
| "guard_run check add s (x # xs) =
     bindr (check s x) (\<lambda>(r, s).
       if r = 1 then guard_run check add s xs
       else bindr (add s x) (\<lambda>(_, s).
              bindr (guard_run check add s xs) (\<lambda>(acc, s'). Inr (x # acc, s'))))"

locale replay_guard =
  fixes invar :: "'s \<Rightarrow> bool"
    and check :: "'s \<Rightarrow> bytes \<Rightarrow> (int \<times> 's) res"
    and add :: "'s \<Rightarrow> bytes \<Rightarrow> (int \<times> 's) res"
    and window :: "'s \<Rightarrow> int"
  assumes check_total: "invar s \<Longrightarrow> \<exists>r. check s x = Inr (r, s)"
    and add_total: "invar s \<Longrightarrow> \<exists>s'. add s x = Inr (0, s') \<and> invar s' \<and> window s' = window s"
    and remembers: "invar s \<Longrightarrow> int (length post) < window s \<Longrightarrow>
                      add_all add s (x # post) = Inr s' \<Longrightarrow> check s' x = Inr (1, s')"
begin

lemma add_all_total:
  assumes "invar s"
  shows "\<exists>s'. add_all add s xs = Inr s' \<and> invar s' \<and> window s' = window s"
  using assms
proof (induction xs arbitrary: s)
  case (Cons x xs)
  then show ?case using add_total [OF Cons.prems, of x] by fastforce
qed simp

lemma guard_run_total:
  assumes "invar s"
  shows "\<exists>acc s'. guard_run check add s xs = Inr (acc, s')"
  using assms
proof (induction xs arbitrary: s)
  case (Cons x xs)
  then show ?case
    using check_total [OF Cons.prems, of x] add_total [OF Cons.prems, of x] by fastforce
qed simp

lemma guard_run_fresh:
  assumes "invar s" "guard_run check add s xs = Inr (p @ x # q, s')"
  shows "\<exists>t. add_all add s p = Inr t \<and> check t x \<noteq> Inr (1, t)"
  using assms
proof (induction xs arbitrary: s p)
  case (Cons y xs)
  obtain r where r: "check s y = Inr (r, s)" using check_total [OF Cons.prems(1)] by blast
  obtain s1 where s1: "add s y = Inr (0, s1)" "invar s1" using add_total [OF Cons.prems(1)] by blast
  show ?case
  proof (cases "r = 1")
    case True
    then show ?thesis using Cons.IH [OF Cons.prems(1)] Cons.prems(2) r by simp
  next
    case False
    then obtain acc where acc: "guard_run check add s1 xs = Inr (acc, s')" "p @ x # q = y # acc"
      using Cons.prems(2) r s1 by (auto simp: bindr_Inr_iff)
    then show ?thesis
      using Cons.IH [OF s1(2)] r s1 False by (cases p) auto
  qed
qed simp

lemma guard_run_no_replay:
  assumes "invar s" "guard_run check add s xs = Inr (u @ x # v @ x # w, s')"
  shows "window s \<le> int (length v)"
proof (rule ccontr)
  assume *: "\<not> window s \<le> int (length v)"
  obtain t where t: "add_all add s (u @ x # v) = Inr t" "check t x \<noteq> Inr (1, t)"
    using guard_run_fresh [OF assms(1), of xs "u @ x # v"] assms(2) by auto
  obtain s1 where s1: "add_all add s u = Inr s1" "invar s1" "window s1 = window s"
    using add_all_total [OF assms(1)] by blast
  have "add_all add s1 (x # v) = Inr t" using t(1) s1(1) by (simp add: add_all_append)
  then show False using remembers [OF s1(2), of v x t] * s1(3) t(2) by simp
qed

end

interpretation ppg: replay_guard ppbloom_ok ppbloom_check ppbloom_add pp_entries
proof unfold_locales
  fix pp :: "'a ppbloom_state" and x
  assume ok: "ppbloom_ok pp"
  show "\<exists>r. ppbloom_check pp x = Inr (r, pp)" by (simp add: ppbloom_check_ok [OF ok])
  show "\<exists>pp'. ppbloom_add pp x = Inr (0, pp') \<and> ppbloom_ok pp' \<and> pp_entries pp' = pp_entries pp"
    using ppbloom_add_ok [OF ok, of x] by blast
  fix post pp'
  assume "int (length post) < pp_entries pp" "add_all ppbloom_add pp (x # post) = Inr pp'"
  then show "ppbloom_check pp' x = Inr (1, pp')"
    using ppbloom_window [OF ok, of post "[]" x] by simp
qed

text \<open>
  C28. After a successful \<open>ppbloom_init(n, e)\<close>, and whatever sequence \<open>pre\<close> of salts was added
  before, a salt \<open>x\<close> is still recognised by \<open>ppbloom_check\<close> after fewer than \<open>n/2\<close> further additions;
  no addition fails or leaves the bit array.
\<close>

theorem ppbloom_replay_window:
  assumes "ppbloom_init E (ppbloom_zero z) n e = (0, pp)" "bloom_sane E (n sdiv 2) e"
    and "int (length post) < n sdiv 2"
  shows "\<exists>pp'. add_all ppbloom_add pp (pre @ x # post) = Inr pp' \<and> ppbloom_check pp' x = Inr (1, pp')"
  using ppbloom_window [of pp post pre x] ppbloom_init_ok [OF assms(1,2)] assms(3)
  by (auto simp: ppbloom_zero_def)

text \<open>
  A server that refuses every recognised salt and records the others never faults, and
  it accepts the same salt a second time only after at least \<open>n/2\<close> other salts were accepted
  in between.
\<close>

theorem ppbloom_no_early_replay:
  assumes "ppbloom_init E (ppbloom_zero z) n e = (0, pp)" "bloom_sane E (n sdiv 2) e"
  shows "\<exists>acc pp'. guard_run ppbloom_check ppbloom_add pp xs = Inr (acc, pp') \<and>
           (\<forall>u x v w. acc = u @ x # v @ x # w \<longrightarrow> n sdiv 2 \<le> int (length v))"
proof -
  have ok: "ppbloom_ok pp" "pp_entries pp = n sdiv 2"
    using ppbloom_init_ok [OF assms] by (auto simp: ppbloom_zero_def)
  obtain acc pp' where "guard_run ppbloom_check ppbloom_add pp xs = Inr (acc, pp')"
    using ppg.guard_run_total [OF ok(1)] by blast
  then show ?thesis using ppg.guard_run_no_replay [OF ok(1)] ok(2) by force
qed

definition pp7 :: "int ppbloom_state" where
  "pp7 = snd (ppbloom_init env7 (ppbloom_zero 0) 4 1)"

lemma pp7_init: "ppbloom_init env7 (ppbloom_zero 0) 4 1 = (0, pp7)"
  by (simp add: pp7_def ppbloom_init_def env7_def ppbloom_zero_def bloom_blank_def bloom_init_def
      Let_def pp_index signed_divide_int_def signed_modulo_int_def)

lemma sane7: "bloom_sane env7 (4 sdiv 2) 1"
  by (simp add: bloom_sane_def env7_def Let_def signed_divide_int_def)

theorem ppbloom_replay_window_witness:
  "\<exists>pp'. add_all ppbloom_add pp7 ([[1, 2], [3]] @ [4, 5, 6] # [[7]]) = Inr pp' \<and>
     ppbloom_check pp' [4, 5, 6] = Inr (1, pp')"
  by (rule ppbloom_replay_window [OF pp7_init sane7]) (simp add: signed_divide_int_def)

theorem ppbloom_no_early_replay_witness:
  "\<exists>acc pp'. guard_run ppbloom_check ppbloom_add pp7 [[1], [2], [1], [3], [1]] = Inr (acc, pp') \<and>
     (\<forall>u x v w. acc = u @ x # v @ x # w \<longrightarrow> 4 sdiv 2 \<le> int (length v))"
  by (rule ppbloom_no_early_replay [OF pp7_init sane7])

end
