(* ===== verification/Netutils.thy ===== *)
theory Netutils
  imports SS_Prelude "HOL-Library.Signed_Division"
begin

text \<open>
  The helpers of \<^verbatim>\<open>src/utils.c\<close> and \<^verbatim>\<open>src/netutils.c\<close> the components share: number formatting,
  bounded string copies, socket address lengths and comparison, the choice among resolved
  addresses, and the check of host names.

  A \<open>sockaddr_storage\<close> is a \<open>sockaddr\<close>: the two families the program uses with their port field as
  it lies in memory and their address bytes, and any other family with the raw bytes of the
  storage. \<open>memcmp\<close> is -1, 0 or 1 (C fixes only the sign). \<open>cork_ip_init\<close> and \<open>inet_pton\<close> together are
  the parameter \<open>ip_parse\<close>; \<open>getaddrinfo\<close> is its result list. The host name check runs on the memory
  of the caller's buffer, where a string search that meets no NUL is \<open>Out_of_bounds\<close>.
\<close>

section \<open>utils.c\<close>

definition INT_DIGITS :: nat where "INT_DIGITS = 19"

text \<open>The two \<open>do\<close> loops, which fill the static buffer from its end; \<open>acc\<close> is what is filled so far.\<close>

function itoa_pos :: "int \<Rightarrow> bytes \<Rightarrow> bytes" where
  "itoa_pos i acc =
     (let acc = of_int (48 + i smod 10) # acc; i = i sdiv 10
      in if i \<noteq> 0 then itoa_pos i acc else acc)"
  by auto

function itoa_neg :: "int \<Rightarrow> bytes \<Rightarrow> bytes" where
  "itoa_neg i acc =
     (let acc = of_int (48 - i smod 10) # acc; i = i sdiv 10
      in if i \<noteq> 0 then itoa_neg i acc else acc)"
  by auto

lemma sdiv_10_less: "i sdiv 10 \<noteq> 0 \<Longrightarrow> \<bar>i sdiv 10\<bar> < \<bar>i :: int\<bar>"
  by (simp add: signed_divide_int_def abs_mult abs_sgn_eq) (auto simp: sgn_if)

termination itoa_pos
  by (relation "measure (\<lambda>(i, _). nat \<bar>i\<bar>)") (use sdiv_10_less in auto)

termination itoa_neg
  by (relation "measure (\<lambda>(i, _). nat \<bar>i\<bar>)") (use sdiv_10_less in auto)

declare itoa_pos.simps [simp del] itoa_neg.simps [simp del]

definition ss_itoa :: "int \<Rightarrow> bytes" where
  "ss_itoa i = (if i \<ge> 0 then itoa_pos i [] else 45 # itoa_neg i [])"

definition is_digit :: "byte \<Rightarrow> bool" where
  "is_digit c \<longleftrightarrow> 48 \<le> c \<and> c \<le> 57"

definition ss_isnumeric :: "bytes \<Rightarrow> bool" where
  "ss_isnumeric s = (if s = [] then False else dropWhile is_digit s = [])"

definition ss_strndup :: "bytes \<Rightarrow> nat \<Rightarrow> bytes" where
  "ss_strndup s n = (if length s \<le> n then s else take n s)"

section \<open>Socket addresses\<close>

datatype sockaddr =
  SIN u16 bytes
| SIN6 u16 bytes
| SOther nat bytes

definition AF_INET :: nat where "AF_INET = 2"
definition AF_INET6 :: nat where "AF_INET6 = 10"

fun sa_family :: "sockaddr \<Rightarrow> nat" where
  "sa_family (SIN _ _) = AF_INET"
| "sa_family (SIN6 _ _) = AF_INET6"
| "sa_family (SOther f _) = f"

text \<open>\<open>sin_port\<close> and \<open>sin6_port\<close> lie at the same place, the third and fourth byte of the storage.\<close>

fun sa_port :: "sockaddr \<Rightarrow> u16" where
  "sa_port (SIN p _) = p"
| "sa_port (SIN6 p _) = p"
| "sa_port (SOther _ raw) =
     (if length raw \<ge> 4 then ucast (raw ! 2) OR push_bit 8 (ucast (raw ! 3)) else 0)"

fun get_sockaddr_len :: "sockaddr \<Rightarrow> nat" where
  "get_sockaddr_len (SIN _ _) = 16"
| "get_sockaddr_len (SIN6 _ _) = 28"
| "get_sockaddr_len (SOther _ _) = 0"

fun memcmp :: "bytes \<Rightarrow> bytes \<Rightarrow> int" where
  "memcmp (a # as) (b # bs) = (if a < b then -1 else if b < a then 1 else memcmp as bs)"
| "memcmp [] [] = 0"
| "memcmp [] (b # bs) = -1"
| "memcmp (a # as) [] = 1"

definition sockaddr_cmp :: "sockaddr \<Rightarrow> sockaddr \<Rightarrow> nat \<Rightarrow> int" where
  "sockaddr_cmp a1 a2 len =
     (if sa_family a1 < sa_family a2 then -1
      else if sa_family a1 > sa_family a2 then 1
      else
        case (a1, a2) of
          (SIN p1 x1, SIN p2 x2) \<Rightarrow> if p1 < p2 then -1 else if p1 > p2 then 1 else memcmp x1 x2
        | (SIN6 p1 x1, SIN6 p2 x2) \<Rightarrow> if p1 < p2 then -1 else if p1 > p2 then 1 else memcmp x1 x2
        | (SOther _ r1, SOther _ r2) \<Rightarrow> memcmp (take len r1) (take len r2)
        | _ \<Rightarrow> 0)"

definition sockaddr_cmp_addr :: "sockaddr \<Rightarrow> sockaddr \<Rightarrow> nat \<Rightarrow> int" where
  "sockaddr_cmp_addr a1 a2 len =
     (if sa_family a1 < sa_family a2 then -1
      else if sa_family a1 > sa_family a2 then 1
      else
        case (a1, a2) of
          (SIN p1 x1, SIN p2 x2) \<Rightarrow> memcmp x1 x2
        | (SIN6 p1 x1, SIN6 p2 x2) \<Rightarrow> memcmp x1 x2
        | (SOther _ r1, SOther _ r2) \<Rightarrow> memcmp (take len r1) (take len r2)
        | _ \<Rightarrow> 0)"

text \<open>A parsed numeric address: its version and its bytes.\<close>

datatype cork_ip = V4 bytes | V6 bytes

type_synonym ip_parse = "bytes \<Rightarrow> cork_ip option"

definition parse_local_addr :: "ip_parse \<Rightarrow> sockaddr \<Rightarrow> sockaddr \<Rightarrow> bytes option \<Rightarrow> nat \<times> sockaddr \<times> sockaddr" where
  "parse_local_addr ip_parse st4 st6 host =
     (case host of
        Some h \<Rightarrow>
          (case ip_parse h of
             Some (V4 a) \<Rightarrow> (AF_INET, SIN 0 a, st6)
           | Some (V6 a) \<Rightarrow> (AF_INET6, st4, SIN6 0 a)
           | None \<Rightarrow> (0, st4, st6))
      | None \<Rightarrow> (0, st4, st6))"

text \<open>
  \<open>htons(atoi(port))\<close> on a little-endian machine; \<open>atoi\<close> skips blanks, reads a sign and digits.
\<close>

definition is_space :: "byte \<Rightarrow> bool" where
  "is_space c \<longleftrightarrow> c = 32 \<or> 9 \<le> c \<and> c \<le> 13"

fun atoi_digits :: "bytes \<Rightarrow> int \<Rightarrow> int" where
  "atoi_digits [] acc = acc"
| "atoi_digits (c # s) acc = (if is_digit c then atoi_digits s (10 * acc + (uint c - 48)) else acc)"

definition atoi :: "bytes \<Rightarrow> int" where
  "atoi s =
     (case dropWhile is_space s of
        [] \<Rightarrow> 0
      | c # t \<Rightarrow> if c = 45 then - atoi_digits t 0 else if c = 43 then atoi_digits t 0
                 else atoi_digits (c # t) 0)"

definition bswap16 :: "u16 \<Rightarrow> u16" where
  "bswap16 x = (push_bit 8 x) OR (drop_bit 8 x)"

definition htons :: "int \<Rightarrow> u16" where
  "htons i = bswap16 (of_int i)"

text \<open>
  \<open>get_sockaddr\<close>: \<open>resolved\<close> is what \<open>getaddrinfo\<close> returns for the host and port, \<open>None\<close> on failure;
  \<open>old\<close> is the storage before the call.
\<close>

fun is_af :: "nat \<Rightarrow> sockaddr \<Rightarrow> bool" where
  "is_af f a = (sa_family a = f)"

definition store_addr :: "sockaddr \<Rightarrow> sockaddr \<Rightarrow> sockaddr" where
  "store_addr old a = (case a of SOther _ _ \<Rightarrow> old | _ \<Rightarrow> a)"

definition get_sockaddr ::
    "ip_parse \<Rightarrow> (bytes \<Rightarrow> bytes option \<Rightarrow> sockaddr list option) \<Rightarrow> bytes \<Rightarrow> bytes option \<Rightarrow> sockaddr \<Rightarrow>
     bool \<Rightarrow> int \<times> sockaddr" where
  "get_sockaddr ip_parse getaddrinfo host port old ipv6first =
     (case ip_parse host of
        Some (V4 a) \<Rightarrow>
          (0, SIN (case port of Some p \<Rightarrow> htons (atoi p) | None \<Rightarrow> sa_port old) a)
      | Some (V6 a) \<Rightarrow>
          (0, SIN6 (case port of Some p \<Rightarrow> htons (atoi p) | None \<Rightarrow> sa_port old) a)
      | None \<Rightarrow>
          (case getaddrinfo host port of
             None \<Rightarrow> (-1, old)
           | Some result \<Rightarrow>
               let prefer_af = (if ipv6first then AF_INET6 else AF_INET) in
               (case List.find (is_af prefer_af) result of
                  Some rp \<Rightarrow> (0, store_addr old rp)
                | None \<Rightarrow>
                    (case result of
                       rp # _ \<Rightarrow> (0, store_addr old rp)
                     | [] \<Rightarrow> (-1, old)))))"

section \<open>Host names\<close>

definition valid_label_bytes :: bytes where
  "valid_label_bytes = bstr ''-0123456789ABCDEFGHIJKLMNOPQRSTUVWXYZ_abcdefghijklmnopqrstuvwxyz''"

text \<open>\<open>strchr\<close> and \<open>strspn\<close> from an offset of a buffer; both read up to a NUL.\<close>

fun strchr_from :: "byte \<Rightarrow> bytes \<Rightarrow> nat option res" where
  "strchr_from c [] = Inl Out_of_bounds"
| "strchr_from c (b # m) =
     (if b = c then Inr (Some 0) else if b = 0 then Inr None
      else bindr (strchr_from c m) (\<lambda>r. Inr (map_option Suc r)))"

fun strspn_from :: "bytes \<Rightarrow> nat res" where
  "strspn_from [] = Inl Out_of_bounds"
| "strspn_from (b # m) =
     (if b \<in> set valid_label_bytes then bindr (strspn_from m) (\<lambda>n. Inr (Suc n)) else Inr 0)"

definition byte_at :: "bytes \<Rightarrow> nat \<Rightarrow> byte res" where
  "byte_at m i = (if i < length m then Inr (m ! i) else Inl Out_of_bounds)"

text \<open>The loop over the labels; \<open>n\<close> is the length, \<open>l\<close> the offset of the current label.\<close>

function validate_labels :: "bytes \<Rightarrow> nat \<Rightarrow> nat \<Rightarrow> bool res" where
  "validate_labels m n l =
     (if l < n then
        bindr (strchr_from 46 (drop l m)) (\<lambda>next_dot.
          let label_len = (case next_dot of None \<Rightarrow> n - l | Some d \<Rightarrow> d) in
          if l + label_len > n then Inr False
          else if label_len > 63 \<or> label_len < 1 then Inr False
          else
            bindr (byte_at m l) (\<lambda>first.
              bindr (byte_at m (l + label_len - 1)) (\<lambda>end_byte.
                if first = 45 \<or> end_byte = 45 then Inr False
                else
                  bindr (strspn_from (drop l m)) (\<lambda>k.
                    if k < label_len then Inr False
                    else validate_labels m n (l + label_len + 1)))))
      else Inr True)"
  by auto

termination
  by (relation "measure (\<lambda>(m, n, l). n - l)") auto

declare validate_labels.simps [simp del]

definition validate_hostname :: "bytes option \<Rightarrow> nat \<Rightarrow> bool res" where
  "validate_hostname hostname n =
     (case hostname of
        None \<Rightarrow> Inr False
      | Some m \<Rightarrow>
          if n < 1 \<or> n > 255 then Inr False
          else bindr (byte_at m 0) (\<lambda>c. if c = 46 then Inr False else validate_labels m n 0))"

section \<open>Lemmas\<close>

lemma of_nat_mod_10: "(of_int (int k mod 10) :: byte) = of_nat (k mod 10)"
  by (metis of_int_of_nat_eq of_nat_numeral zmod_int)

lemma itoa_pos_dec: "0 \<le> i \<Longrightarrow> itoa_pos i acc = dec_str (nat i) @ acc"
proof (induction i acc rule: itoa_pos.induct)
  case (1 i acc)
  have q: "i sdiv 10 = i div 10" "i smod 10 = i mod 10"
    using 1 by (auto simp: signed_divide_int_def signed_modulo_int_def sgn_if minus_mult_div_eq_mod [symmetric])
  have n: "nat (i div 10) = nat i div 10" "(of_int (48 + i mod 10) :: byte) = of_nat (48 + nat i mod 10)"
    using 1(2) by (auto simp: nat_div_distrib of_nat_mod_10 elim!: nonneg_int_cases)
  show ?case
  proof (cases "i div 10 = 0")
    case True
    then have "nat i < 10" using 1 by simp
    then show ?thesis using True q n by (subst itoa_pos.simps, subst dec_str.simps) simp
  next
    case False
    then have "\<not> nat i < 10" using 1 by auto
    then have "itoa_pos (i div 10) (of_int (48 + i mod 10) # acc) =
        dec_str (nat (i div 10)) @ of_int (48 + i mod 10) # acc"
      using 1(1) [OF refl refl] False 1(2) unfolding q by simp
    then show ?thesis
      using False \<open>\<not> nat i < 10\<close> unfolding n(1)
      by (subst itoa_pos.simps, subst dec_str.simps) (simp add: Let_def q n(2) del: of_int_add)
  qed
qed

lemma itoa_neg_pos: "i \<le> 0 \<Longrightarrow> itoa_neg i acc = itoa_pos (- i) acc"
proof (induction i acc rule: itoa_neg.induct)
  case (1 i acc)
  have q: "(- i) sdiv 10 = - (i sdiv 10)" "(- i) smod 10 = - (i smod 10)" "i sdiv 10 \<le> 0"
    using 1 by (auto simp: signed_divide_int_def signed_modulo_int_def sgn_if)
  then show ?case
    using 1 by (subst itoa_neg.simps, subst itoa_pos.simps) (simp add: Let_def)
qed

lemma ss_itoa_dec: "ss_itoa i = (if 0 \<le> i then dec_str (nat i) else 45 # dec_str (nat (- i)))"
  by (simp add: ss_itoa_def itoa_pos_dec itoa_neg_pos)

lemma dec_str_length: "n < 10 ^ k \<Longrightarrow> 0 < k \<Longrightarrow> length (dec_str n) \<le> k"
proof (induction n arbitrary: k rule: dec_str.induct)
  case (1 n)
  show ?case
  proof (cases "n < 10")
    case True
    then show ?thesis using 1 by (subst dec_str.simps) simp
  next
    case False
    then obtain j where j: "k = Suc j" "0 < j" using 1(2,3) by (cases k; cases "k - 1") auto
    have "n div 10 < 10 ^ j" using 1(2) j by (simp add: div_less_iff_less_mult mult.commute)
    then show ?thesis using 1(1) [OF False, of j] False j by (subst dec_str.simps) simp
  qed
qed

lemma memcmp_refl: "memcmp a a = 0"
  by (induction a) auto

lemma memcmp_0: "memcmp a b = 0 \<longleftrightarrow> a = b"
  by (induction a b rule: memcmp.induct) auto

lemma memcmp_antisym: "memcmp b a = - memcmp a b"
  by (induction a b rule: memcmp.induct) auto

lemma memcmp_trans: "memcmp a b \<le> 0 \<Longrightarrow> memcmp b c \<le> 0 \<Longrightarrow> memcmp a c \<le> 0"
proof (induction a arbitrary: b c)
  case Nil
  then show ?case by (cases b; cases c) auto
next
  case (Cons x a)
  then obtain y b' z c' where "b = y # b'" "c = z # c'" by (cases b; cases c) auto
  then show ?case using Cons by (auto split: if_splits)
qed

lemma sockaddr_cmp_cases:
  "sockaddr_cmp a b len =
     (if sa_family a \<noteq> sa_family b then (if sa_family a < sa_family b then -1 else 1)
      else case (a, b) of
          (SIN p1 x1, SIN p2 x2) \<Rightarrow> if p1 < p2 then -1 else if p1 > p2 then 1 else memcmp x1 x2
        | (SIN6 p1 x1, SIN6 p2 x2) \<Rightarrow> if p1 < p2 then -1 else if p1 > p2 then 1 else memcmp x1 x2
        | (SOther _ r1, SOther _ r2) \<Rightarrow> memcmp (take len r1) (take len r2)
        | _ \<Rightarrow> 0)"
  by (auto simp: sockaddr_cmp_def)

text \<open>
  Storage of one of the two families, or of another family held entirely in the compared bytes.
\<close>

definition sa_wf :: "nat \<Rightarrow> sockaddr \<Rightarrow> bool" where
  "sa_wf len a = (case a of SOther f r \<Rightarrow> f \<noteq> AF_INET \<and> f \<noteq> AF_INET6 \<and> length r \<le> len | _ \<Rightarrow> True)"

lemmas sa_defs = sa_wf_def AF_INET_def AF_INET6_def

lemma sockaddr_cmp_0:
  assumes "sa_wf len a" "sa_wf len b"
  shows "sockaddr_cmp a b len = 0 \<longleftrightarrow> a = b"
  using assms by (cases a; cases b) (auto simp: sockaddr_cmp_def sa_defs memcmp_0)

lemma sockaddr_cmp_antisym:
  assumes "sa_wf len a" "sa_wf len b"
  shows "sockaddr_cmp b a len = - sockaddr_cmp a b len"
  using assms by (cases a; cases b) (auto simp: sockaddr_cmp_def sa_defs intro: memcmp_antisym)

lemma sockaddr_cmp_trans:
  assumes "sa_wf len a" "sa_wf len b" "sa_wf len c" "sockaddr_cmp a b len \<le> 0" "sockaddr_cmp b c len \<le> 0"
  shows "sockaddr_cmp a c len \<le> 0"
proof -
  have f: "sa_family a \<le> sa_family b" "sa_family b \<le> sa_family c"
    using assms(4,5) by (auto simp: sockaddr_cmp_def split: if_splits)
  show ?thesis
  proof (cases "sa_family a = sa_family c")
    case False
    then show ?thesis using f by (simp add: sockaddr_cmp_def)
  next
    case True
    then have "sa_family b = sa_family a" using f by simp
    then show ?thesis
      using assms True
      by (cases a; cases b; cases c)
        (auto simp: sockaddr_cmp_def sa_defs split: if_splits intro: memcmp_trans)
  qed
qed

section \<open>Host names: what is accepted\<close>

text \<open>The labels of a name, and a well-formed one.\<close>

fun split_dot :: "bytes \<Rightarrow> bytes list" where
  "split_dot [] = [[]]"
| "split_dot (c # s) =
     (if c = 46 then [] # split_dot s
      else case split_dot s of l # ls \<Rightarrow> (c # l) # ls | [] \<Rightarrow> [[c]])"

definition label_ok :: "bytes \<Rightarrow> bool" where
  "label_ok l \<longleftrightarrow> 1 \<le> length l \<and> length l \<le> 63 \<and> hd l \<noteq> 45 \<and> last l \<noteq> 45 \<and>
     set l \<subseteq> set valid_label_bytes"

text \<open>A sequence of labels, the last of which may be empty (a trailing dot), unless it is the only one.\<close>

fun labels_ok :: "bytes list \<Rightarrow> bool" where
  "labels_ok [] = False"
| "labels_ok [l] = label_ok l"
| "labels_ok [l, []] = label_ok l"
| "labels_ok (l # ls) = (label_ok l \<and> labels_ok ls)"

definition hostname_ok :: "bytes \<Rightarrow> bool" where
  "hostname_ok s \<longleftrightarrow> length s \<le> 255 \<and> labels_ok (split_dot s)"

lemma valid_bytes: "0 \<notin> set valid_label_bytes" "46 \<notin> set valid_label_bytes"
  by (auto simp: valid_label_bytes_def bstr_def)

lemma split_dot_no_dot: "46 \<notin> set s \<Longrightarrow> split_dot s = [s]"
  by (induction s) auto

lemma split_dot_append: "46 \<notin> set l \<Longrightarrow> split_dot (l @ 46 # r) = l # split_dot r"
  by (induction l) auto

lemma split_dot_nonempty: "split_dot s \<noteq> []"
  by (induction s) (auto split: list.splits)

lemma strchr_found: "0 \<notin> set l \<Longrightarrow> 46 \<notin> set l \<Longrightarrow> strchr_from 46 (l @ 46 # r) = Inr (Some (length l))"
  by (induction l) auto

lemma strchr_none: "46 \<notin> set l \<Longrightarrow> strchr_from 46 (l @ 0 # r) = Inr None"
  by (induction l) auto

lemma strchr_cases:
  assumes "0 \<in> set m"
  obtains (found) l r where "m = l @ 46 # r" "0 \<notin> set l" "46 \<notin> set l"
      "strchr_from 46 m = Inr (Some (length l))"
  | (none) l r where "m = l @ 0 # r" "0 \<notin> set l" "46 \<notin> set l" "strchr_from 46 m = Inr None"
proof -
  obtain l r where m: "m = l @ 0 # r" "0 \<notin> set l" using assms by (metis split_list_first)
  show ?thesis
  proof (cases "46 \<in> set l")
    case True
    then obtain l1 l2 where "l = l1 @ 46 # l2" "46 \<notin> set l1" by (metis split_list_first)
    then show ?thesis using m that(1) [of l1 "l2 @ 0 # r"] strchr_found [of l1 "l2 @ 0 # r"] by auto
  next
    case False
    then show ?thesis using m that(2) strchr_none by metis
  qed
qed

lemma strspn_whole: "set l \<subseteq> set valid_label_bytes \<Longrightarrow> 0 \<in> set r \<Longrightarrow> \<exists>k\<ge>length l. strspn_from (l @ r) = Inr k"
proof (induction l)
  case Nil
  then show ?case using valid_bytes by (induction r) auto
qed auto

lemma strspn_part:
  "\<not> set l \<subseteq> set valid_label_bytes \<Longrightarrow> \<exists>k<length l. strspn_from (l @ r) = Inr k"
proof (induction l)
  case (Cons a l)
  show ?case
  proof (cases "a \<in> set valid_label_bytes")
    case True
    then obtain k where "k < length l" "strspn_from (l @ r) = Inr k" using Cons by auto
    then show ?thesis using True by (intro exI [of _ "Suc k"]) simp
  qed (intro exI [of _ 0], simp)
qed simp

lemma label_step:
  assumes d: "drop l m = lab @ z" "0 \<in> set z"
  shows "(if length lab > 63 \<or> length lab < 1 then Inr False
          else bindr (byte_at m l) (\<lambda>first. bindr (byte_at m (l + length lab - 1)) (\<lambda>end_byte.
                 if first = 45 \<or> end_byte = 45 then Inr False
                 else bindr (strspn_from (drop l m)) (\<lambda>k. if k < length lab then Inr False else K)))) =
         (if label_ok lab then K else Inr False)"
proof (cases "length lab > 63 \<or> length lab < 1")
  case True
  then show ?thesis by (auto simp: label_ok_def)
next
  case False
  have len: "l + length lab \<le> length m"
    using arg_cong [OF d(1), of length] False by (cases "l \<le> length m") auto
  have "m ! (l + j) = lab ! j" if "j < length lab" for j
    using that d(1) len by (metis nth_append nth_drop add_leE)
  from this [of 0] this [of "length lab - 1"] False len
  have ends: "byte_at m l = Inr (hd lab)" "byte_at m (l + length lab - 1) = Inr (last lab)"
    by (cases lab; simp add: byte_at_def hd_conv_nth last_conv_nth)+
  show ?thesis
  proof (cases "set lab \<subseteq> set valid_label_bytes")
    case True
    then obtain k where "k \<ge> length lab" "strspn_from (drop l m) = Inr k"
      using strspn_whole [of lab z] d by auto
    then show ?thesis using False True ends by (auto simp: label_ok_def Suc_le_eq)
  next
    case bad: False
    then obtain k where "k < length lab" "strspn_from (drop l m) = Inr k"
      using strspn_part [of lab z] d by auto
    then show ?thesis using False bad ends by (auto simp: label_ok_def Suc_le_eq)
  qed
qed

lemma labels_ok_Cons:
  "labels_ok (lab # split_dot t) \<longleftrightarrow> label_ok lab \<and> (t = [] \<or> labels_ok (split_dot t))"
proof (cases "split_dot t")
  case (Cons x xs)
  have "split_dot t = [[]] \<longleftrightarrow> t = []" by (cases t) (auto simp: split_dot_nonempty split: list.splits if_splits)
  then show ?thesis using Cons by (cases xs; cases x) auto
qed (simp add: split_dot_nonempty)

lemma labels_ok_bytes: "labels_ok ls \<Longrightarrow> \<forall>l\<in>set ls. set l \<subseteq> set valid_label_bytes"
  by (induction ls rule: labels_ok.induct) (auto simp: label_ok_def)

lemma split_dot_set: "set s \<subseteq> \<Union> (set ` set (split_dot s)) \<union> {46}"
  by (induction s) (auto split: list.splits, blast)

lemma labels_ok_no_nul: "labels_ok (split_dot s) \<Longrightarrow> 0 \<notin> set s"
  using labels_ok_bytes [of "split_dot s"] split_dot_set [of s] valid_bytes by fastforce

lemma validate_labels_spec:
  assumes m: "m = s @ 0 # r" and n: "n = length s" and "l \<le> n"
  shows "validate_labels m n l = Inr (l = n \<or> labels_ok (split_dot (drop l s)))"
  using assms(3)
proof (induction "n - l" arbitrary: l rule: less_induct)
  case less
  show ?case
  proof (cases "l < n")
    case True
    have dl: "drop l m = drop l s @ 0 # r" using m n True by simp
    have "0 \<in> set (drop l m)" using dl by simp
    then show ?thesis
    proof (cases rule: strchr_cases)
      case (found lab rest)
      have "\<not> length lab \<ge> length (drop l s)"
      proof
        assume ge: "length lab \<ge> length (drop l s)"
        have "(lab @ 46 # rest) ! length (drop l s) = 0" using found(1) dl by (metis nth_append_length)
        then show False using ge found(2) by (auto simp: nth_append nth_mem in_set_conv_nth split: if_splits)
      qed
      then obtain t where t: "drop l s = lab @ 46 # t" "rest = t @ 0 # r"
        using found(1) dl
        by (auto simp: append_eq_append_conv2) (metis append_Nil append_Nil2 length_append le_add1
            list.inject neq_Nil_conv append_Cons length_drop order_refl)
      have n': "l + length lab + 1 \<le> n" "drop (l + length lab + 1) s = t"
        using arg_cong [OF t(1), of length] arg_cong [OF t(1), of "drop (length lab + 1)"] n True
        by (auto simp: add.commute)
      have "l + length lab + 1 = n \<longleftrightarrow> t = []"
        using arg_cong [OF t(1), of length] n True by (auto simp flip: length_0_conv)
      then have rec: "validate_labels m n (l + length lab + 1) = Inr (t = [] \<or> labels_ok (split_dot t))"
        using less(1) [of "l + length lab + 1"] n' True by simp
      have ngt: "(l + length lab > n) = False" using n' by simp
      have z: "0 \<in> set (46 # rest)" using t(2) by simp
      have "validate_labels m n l = (if label_ok lab then Inr (t = [] \<or> labels_ok (split_dot t)) else Inr False)"
        by (subst validate_labels.simps)
          (simp only: True if_True found(4) bindr.simps Let_def option.case ngt if_False
            label_step [OF found(1) z] rec)
      then show ?thesis using True t(1) found(3) by (simp add: split_dot_append labels_ok_Cons)
    next
      case (none lab rest)
      have len: "length (drop l s) = n - l" using n by simp
      have eqs: "l + (n - l) = n" and ngt: "(n > n) = False" and z: "0 \<in> set (0 # r)" using True by simp_all
      have "validate_labels m n l = (if label_ok (drop l s) then validate_labels m n (n + 1) else Inr False)"
        by (subst validate_labels.simps)
          (simp only: True if_True none(4) bindr.simps Let_def option.case ngt if_False eqs
            label_step [OF dl z, unfolded len eqs])
      also have "validate_labels m n (n + 1) = Inr True" by (subst validate_labels.simps) simp
      finally have v: "validate_labels m n l = Inr (label_ok (drop l s))" by simp
      show ?thesis
      proof (cases "0 \<in> set (drop l s)")
        case True
        then have "\<not> label_ok (drop l s)" "\<not> labels_ok (split_dot (drop l s))"
          using valid_bytes labels_ok_no_nul by (auto simp: label_ok_def)
        then show ?thesis using v \<open>l < n\<close> by simp
      next
        case False
        then have "drop l s = lab" using dl none(1,2) by (metis append_eq_conv_conj takeWhile_append2 c_str_append_nul)
        then show ?thesis using v \<open>l < n\<close> none(3) by (simp add: split_dot_no_dot)
      qed
    qed
  qed (use less.prems in \<open>subst validate_labels.simps, simp\<close>)
qed

lemma validate_hostname_eq:
  "validate_hostname (Some (s @ 0 # r)) (length s) = Inr (hostname_ok s)"
proof (cases s)
  case Nil
  then show ?thesis by (simp add: validate_hostname_def hostname_ok_def label_ok_def)
next
  case (Cons c t)
  have dot: "c = 46 \<Longrightarrow> \<not> labels_ok (split_dot s)"
    using Cons labels_ok_Cons [of "[]" t] by (simp add: label_ok_def)
  have "validate_labels (s @ 0 # r) (length s) 0 = Inr (labels_ok (split_dot s))"
    using validate_labels_spec [of _ s r "length s" 0] Cons by simp
  then show ?thesis
    using Cons dot by (auto simp: validate_hostname_def hostname_ok_def byte_at_def)
qed

section \<open>Properties\<close>

text \<open>
  C35. Host names: on a buffer that holds the name followed by a NUL, \<open>validate_hostname\<close> reads
  nothing outside the buffer and accepts exactly the names of 1 to 255 bytes whose dot-separated
  labels have 1 to 63 letters, digits, hyphens and underscores, with no hyphen at either end, one
  trailing dot allowed.
\<close>

theorem validate_hostname_correct:
  "validate_hostname (Some (s @ 0 # r)) (length s) = Inr (hostname_ok s)"
  by (rule validate_hostname_eq)

text \<open>
  Decimal conversion: for every integer, the smallest included, \<open>ss_itoa\<close> produces its
  decimal digits with a leading minus sign for negative ones, and for a 64-bit value the digits and
  the sign fit the static buffer.
\<close>

theorem ss_itoa_correct:
  assumes "- (2 ^ 63) \<le> i" "i < 2 ^ 63"
  shows "ss_itoa i = (if 0 \<le> i then dec_str (nat i) else 45 # dec_str (nat (- i))) \<and>
         length (ss_itoa i) < INT_DIGITS + 2"
proof -
  have "nat \<bar>i\<bar> < 10 ^ 19" using assms by (auto simp: nat_less_iff)
  then have "length (dec_str (nat \<bar>i\<bar>)) \<le> 19" by (rule dec_str_length) simp
  then show ?thesis by (auto simp: ss_itoa_dec INT_DIGITS_def)
qed

theorem ss_itoa_correct_witness:
  "ss_itoa (-2147483648) = 45 # dec_str 2147483648 \<and>
   length (ss_itoa (-2147483648)) < INT_DIGITS + 2"
proof -
  have eqs: "(0 \<le> (-2147483648 :: int)) = False" "nat (- (-2147483648)) = 2147483648" by simp_all
  have "- (2 ^ 63) \<le> (-2147483648 :: int)" "(-2147483648 :: int) < 2 ^ 63" by simp_all
  from ss_itoa_correct [OF this] show ?thesis unfolding eqs if_False .
qed

text \<open>
  \<open>sockaddr_cmp\<close> is a total order on socket addresses whose equality is equality of family,
  port and address: the connection cache of the UDP relay may use it to recognise a client.
\<close>

theorem sockaddr_cmp_order:
  assumes "sa_wf len a" "sa_wf len b" "sa_wf len c"
  shows "(sockaddr_cmp a b len = 0 \<longleftrightarrow> a = b) \<and>
         sockaddr_cmp b a len = - sockaddr_cmp a b len \<and>
         (sockaddr_cmp a b len \<le> 0 \<and> sockaddr_cmp b c len \<le> 0 \<longrightarrow> sockaddr_cmp a c len \<le> 0)"
  using sockaddr_cmp_0 sockaddr_cmp_antisym sockaddr_cmp_trans assms by blast

theorem sockaddr_cmp_order_witness:
  "sockaddr_cmp (SIN 1 [10, 0, 0, 1]) (SIN6 2 [1]) 28 \<le> 0 \<and>
   sockaddr_cmp (SIN6 2 [1]) (SIN 1 [10, 0, 0, 1]) 28 = - sockaddr_cmp (SIN 1 [10, 0, 0, 1]) (SIN6 2 [1]) 28"
  using sockaddr_cmp_order [of 28 "SIN 1 [10, 0, 0, 1]" "SIN6 2 [1]" "SIN6 2 [1]"]
  by (simp add: sa_defs) (simp add: sockaddr_cmp_def sa_defs)

end
