(* ===== verification/Resolv.thy ===== *)
theory Resolv
  imports Netutils
begin

text \<open>
  Name resolution, \<^verbatim>\<open>src/resolv.c\<close>: a query asks c-ares for the IPv4 and the IPv6 addresses of a name,
  collects the answers, and when both have come calls the client once with the preferred address.

  A \<open>resolv_query\<close> is an object of an explicit heap, as in \<open>Server\<close>; a socket address built from an
  answer is the block of memory the code allocates (16 bytes for IPv4, 28 for IPv6), with checked
  writes. c-ares is outside: it may call back at once, inside \<open>ares_gethostbyname\<close>, or later, and calls
  back once for each request; \<open>rstep\<close> is the system made of the two. The calls of \<open>client_cb\<close> and
  \<open>free_cb\<close> are recorded in \<open>rs_trace\<close>. The watchers of c-ares' sockets are the six slots \<open>ios\<close>.
\<close>

section \<open>Socket addresses in memory\<close>

definition le16 :: "nat \<Rightarrow> bytes" where
  "le16 n = [of_nat n, of_nat (n div 256)]"

text \<open>A \<open>uint16_t\<close> as it lies in memory.\<close>

definition mem16 :: "u16 \<Rightarrow> bytes" where
  "mem16 p = [ucast p, ucast (drop_bit 8 p)]"

definition raw_family :: "bytes \<Rightarrow> nat" where
  "raw_family m = (if length m \<ge> 2 then unat (m ! 0) + 256 * unat (m ! 1) else 0)"

definition raw_port :: "bytes \<Rightarrow> u16" where
  "raw_port m = (if length m \<ge> 4 then ucast (m ! 2) OR push_bit 8 (ucast (m ! 3)) else 0)"

text \<open>The address a block of memory holds.\<close>

definition sa_view :: "bytes \<Rightarrow> sockaddr" where
  "sa_view m =
     (if raw_family m = AF_INET then SIN (raw_port m) (take 4 (drop 4 m))
      else if raw_family m = AF_INET6 then SIN6 (raw_port m) (take 16 (drop 8 m))
      else SOther (raw_family m) m)"

section \<open>Queries\<close>

record ('cb, 'f) resolv_query =
  rq_requests :: "nat list"
  rq_responses :: "bytes list"
  rq_client_cb :: 'cb
  rq_free_cb :: "'f option"
  rq_port :: u16
  rq_data :: nat

record hostent =
  h_addr_list :: "bytes list"
  h_length :: nat

datatype ('cb, 'f) resolv_out =
  Client_cb nat 'cb "bytes option" nat
| Free_cb nat 'f nat
| Ss_free nat nat

datatype resolv_mode = MODE_IPV4_FIRST | MODE_IPV6_FIRST

record ('cb, 'f) resolv =
  rs_mode :: resolv_mode
  rs_queries :: "nat \<Rightarrow> ('cb, 'f) resolv_query option"
  rs_next :: nat
  rs_trace :: "('cb, 'f) resolv_out list"

definition ARES_SUCCESS :: nat where "ARES_SUCCESS = 0"
definition ARES_EDESTRUCTION :: nat where "ARES_EDESTRUCTION = 16"

definition get_rquery :: "('cb, 'f) resolv \<Rightarrow> nat \<Rightarrow> ('cb, 'f) resolv_query res" where
  "get_rquery s q = (case rs_queries s q of Some x \<Rightarrow> Inr x | None \<Rightarrow> Inl Dangling)"

definition set_rquery :: "nat \<Rightarrow> ('cb, 'f) resolv_query \<Rightarrow> ('cb, 'f) resolv \<Rightarrow> ('cb, 'f) resolv" where
  "set_rquery q x s = s\<lparr>rs_queries := (rs_queries s)(q \<mapsto> x)\<rparr>"

subsection \<open>Choosing an address\<close>

definition choose_any :: "('cb, 'f) resolv_query \<Rightarrow> bytes option" where
  "choose_any x = (case rq_responses x of [] \<Rightarrow> None | r # _ \<Rightarrow> Some r)"

fun first_of_family :: "nat \<Rightarrow> bytes list \<Rightarrow> bytes option" where
  "first_of_family f [] = None"
| "first_of_family f (r # rs) = (if raw_family r = f then Some r else first_of_family f rs)"

definition choose_ipv4_first :: "('cb, 'f) resolv_query \<Rightarrow> bytes option" where
  "choose_ipv4_first x =
     (case first_of_family AF_INET (rq_responses x) of Some r \<Rightarrow> Some r | None \<Rightarrow> choose_any x)"

definition choose_ipv6_first :: "('cb, 'f) resolv_query \<Rightarrow> bytes option" where
  "choose_ipv6_first x =
     (case first_of_family AF_INET6 (rq_responses x) of Some r \<Rightarrow> Some r | None \<Rightarrow> choose_any x)"

definition all_requests_are_null :: "('cb, 'f) resolv_query \<Rightarrow> bool" where
  "all_requests_are_null x \<longleftrightarrow> list_all (\<lambda>r. r = 0) (rq_requests x)"

subsection \<open>Callbacks\<close>

definition process_client_callback :: "nat \<Rightarrow> ('cb, 'f) resolv \<Rightarrow> ('cb, 'f) resolv res" where
  "process_client_callback q s =
     bindr (get_rquery s q) (\<lambda>x.
       let best = (case rs_mode s of MODE_IPV4_FIRST \<Rightarrow> choose_ipv4_first x
                                   | MODE_IPV6_FIRST \<Rightarrow> choose_ipv6_first x);
           s = s\<lparr>rs_trace := rs_trace s @ [Client_cb q (rq_client_cb x) best (rq_data x)]\<rparr>;
           s = s\<lparr>rs_trace := rs_trace s @
                  [case rq_free_cb x of Some f \<Rightarrow> Free_cb q f (rq_data x) | None \<Rightarrow> Ss_free q (rq_data x)]\<rparr>
       in Inr (s\<lparr>rs_queries := (rs_queries s)(q := None)\<rparr>))"

text \<open>
  The loop over the addresses of an answer: each is copied into a zeroed block, \<open>sz\<close> bytes long, at
  the offset \<open>off\<close> of its address field, after the family and the port.
\<close>

fun add_responses :: "nat \<Rightarrow> nat \<Rightarrow> nat \<Rightarrow> u16 \<Rightarrow> nat \<Rightarrow> bytes list \<Rightarrow> bytes list \<Rightarrow> bytes list res" where
  "add_responses af sz off port len [] rs = Inr rs"
| "add_responses af sz off port len (a # as) rs =
     bindr (mem_write (replicate sz 0) 0 (le16 af)) (\<lambda>sa.
     bindr (mem_write sa 2 (mem16 port)) (\<lambda>sa.
     bindr (mem_read a 0 len) (\<lambda>addr.
     bindr (mem_write sa off addr) (\<lambda>sa.
       add_responses af sz off port len as (rs @ [sa])))))"

definition dns_query_cleanup :: "nat \<Rightarrow> nat \<Rightarrow> ('cb, 'f) resolv \<Rightarrow> ('cb, 'f) resolv res" where
  "dns_query_cleanup i q s =
     bindr (get_rquery s q) (\<lambda>x.
       let x = x\<lparr>rq_requests := (rq_requests x)[i := 0]\<rparr>;
           s = set_rquery q x s
       in if all_requests_are_null x then process_client_callback q s else Inr s)"

definition dns_query_v4_cb :: "nat \<Rightarrow> nat \<Rightarrow> hostent option \<Rightarrow> ('cb, 'f) resolv \<Rightarrow> ('cb, 'f) resolv res" where
  "dns_query_v4_cb q status he s =
     (if status = ARES_EDESTRUCTION then Inr s
      else
        case he of
          None \<Rightarrow> dns_query_cleanup 0 q s
        | Some h \<Rightarrow>
            if status \<noteq> ARES_SUCCESS then dns_query_cleanup 0 q s
            else
              bindr (get_rquery s q) (\<lambda>x.
              bindr (add_responses AF_INET 16 4 (rq_port x) (h_length h) (h_addr_list h) (rq_responses x)) (\<lambda>rs.
                dns_query_cleanup 0 q (set_rquery q (x\<lparr>rq_responses := rs\<rparr>) s))))"

definition dns_query_v6_cb :: "nat \<Rightarrow> nat \<Rightarrow> hostent option \<Rightarrow> ('cb, 'f) resolv \<Rightarrow> ('cb, 'f) resolv res" where
  "dns_query_v6_cb q status he s =
     (if status = ARES_EDESTRUCTION then Inr s
      else
        case he of
          None \<Rightarrow> dns_query_cleanup 1 q s
        | Some h \<Rightarrow>
            if status \<noteq> ARES_SUCCESS then dns_query_cleanup 1 q s
            else
              bindr (get_rquery s q) (\<lambda>x.
              bindr (add_responses AF_INET6 28 8 (rq_port x) (h_length h) (h_addr_list h) (rq_responses x)) (\<lambda>rs.
                dns_query_cleanup 1 q (set_rquery q (x\<lparr>rq_responses := rs\<rparr>) s))))"

text \<open>
  \<open>resolv_start\<close>: each call of \<open>ares_gethostbyname\<close> may call back before it returns; \<open>now4\<close> and \<open>now6\<close>
  are those immediate answers.
\<close>

type_synonym answer = "nat \<times> hostent option"

definition new_rquery :: "u16 \<Rightarrow> 'cb \<Rightarrow> 'f option \<Rightarrow> nat \<Rightarrow> ('cb, 'f) resolv_query" where
  "new_rquery port client_cb free_cb data =
     \<lparr>rq_requests = [AF_INET, AF_INET6], rq_responses = [], rq_client_cb = client_cb, rq_free_cb = free_cb,
      rq_port = port, rq_data = data\<rparr>"

definition resolv_start ::
    "answer option \<Rightarrow> answer option \<Rightarrow> u16 \<Rightarrow> 'cb \<Rightarrow> 'f option \<Rightarrow> nat \<Rightarrow> ('cb, 'f) resolv \<Rightarrow> (nat \<times> ('cb, 'f) resolv) res" where
  "resolv_start now4 now6 port client_cb free_cb data s =
     (let q = rs_next s;
          s = set_rquery q (new_rquery port client_cb free_cb data) (s\<lparr>rs_next := q + 1\<rparr>)
      in bindr (case now4 of Some (st, he) \<Rightarrow> dns_query_v4_cb q st he s | None \<Rightarrow> Inr s) (\<lambda>s.
         bindr (case now6 of Some (st, he) \<Rightarrow> dns_query_v6_cb q st he s | None \<Rightarrow> Inr s) (\<lambda>s.
           Inr (q, s))))"

definition resolv_init :: "bool \<Rightarrow> ('cb, 'f) resolv" where
  "resolv_init ipv6first =
     \<lparr>rs_mode = (if ipv6first then MODE_IPV6_FIRST else MODE_IPV4_FIRST), rs_queries = Map.empty, rs_next = 0,
      rs_trace = []\<rparr>"

section \<open>Watchers of the c-ares sockets\<close>

text \<open>A slot is the descriptor and the watched events (read, write); \<open>SS_INVALID_FD\<close> is -1.\<close>

type_synonym ios = "(int \<times> bool \<times> bool) list"

definition SS_NUM_IOS :: nat where "SS_NUM_IOS = 6"
definition SS_INVALID_FD :: int where "SS_INVALID_FD = -1"

fun find_slot :: "int \<Rightarrow> ios \<Rightarrow> nat \<Rightarrow> nat option" where
  "find_slot fd [] i = None"
| "find_slot fd (x # xs) i = (if fst x = fd then Some i else find_slot fd xs (Suc i))"

definition resolv_sock_state_cb :: "int \<Rightarrow> bool \<Rightarrow> bool \<Rightarrow> ios \<Rightarrow> ios" where
  "resolv_sock_state_cb s rd wr ios =
     (let i = (case find_slot s ios 0 of
                 Some i \<Rightarrow> i
               | None \<Rightarrow> (case find_slot SS_INVALID_FD ios 0 of Some ffi \<Rightarrow> ffi | None \<Rightarrow> 0))
      in if rd \<or> wr then ios[i := (s, rd, wr)] else ios[i := (SS_INVALID_FD, False, False)])"

text \<open>The timer: what it is set to, and whether c-ares is given the time.\<close>

definition resolv_timer_cb :: "'t::linordered_idom \<Rightarrow> 't \<Rightarrow> 't \<times> 't \<times> bool" where
  "resolv_timer_cb now last_tick =
     (let after = last_tick - now + 1
      in if after < 0 then (now, 1, True) else (last_tick, after, False))"

section \<open>The resolver with c-ares\<close>

text \<open>
  \<open>sy_pend\<close> is what c-ares has been asked and has not answered: query and 0 (IPv4) or 1 (IPv6). For
  the statements, \<open>sy_asked\<close> keeps what a query was started with and \<open>sy_got\<close> the addresses each of its
  two requests was answered with.
\<close>

type_synonym ('cb, 'f) asked = "u16 \<times> 'cb \<times> 'f option \<times> nat"

record ('cb, 'f) rsys =
  sy_code :: "('cb, 'f) resolv"
  sy_pend :: "(nat \<times> nat) set"
  sy_asked :: "nat \<Rightarrow> ('cb, 'f) asked"
  sy_got :: "nat \<Rightarrow> bytes list option \<times> bytes list option"

datatype ('cb, 'f) rev =
  Start "answer option" "answer option" u16 'cb "'f option" nat
| Answer nat nat answer

fun delivered :: "answer \<Rightarrow> bytes list" where
  "delivered (st, he) = (if st = ARES_SUCCESS then case he of Some h \<Rightarrow> h_addr_list h | None \<Rightarrow> [] else [])"

text \<open>An answer as c-ares documents it: addresses of the length of their family.\<close>

definition answer_ok :: "nat \<Rightarrow> answer \<Rightarrow> bool" where
  "answer_ok n a =
     (case snd a of Some h \<Rightarrow> h_length h = n \<and> list_all (\<lambda>x. length x = n) (h_addr_list h) | None \<Rightarrow> True)"

definition got_of :: "answer \<Rightarrow> bytes list option" where
  "got_of a = (if fst a = ARES_EDESTRUCTION then None else Some (delivered a))"

definition got_now :: "answer option \<Rightarrow> bytes list option" where
  "got_now a = (case a of Some x \<Rightarrow> got_of x | None \<Rightarrow> None)"

fun renabled :: "('cb, 'f) rsys \<Rightarrow> ('cb, 'f) rev \<Rightarrow> bool" where
  "renabled sy (Start now4 now6 port cb f d) =
     (pred_option (answer_ok 4) now4 \<and> pred_option (answer_ok 16) now6)"
| "renabled sy (Answer q i a) = ((q, i) \<in> sy_pend sy \<and> answer_ok (if i = 0 then 4 else 16) a)"

fun rhandle :: "('cb, 'f) rev \<Rightarrow> ('cb, 'f) rsys \<Rightarrow> ('cb, 'f) rsys res" where
  "rhandle (Start now4 now6 port cb f d) sy =
     bindr (resolv_start now4 now6 port cb f d (sy_code sy)) (\<lambda>(q, s).
       Inr \<lparr>sy_code = s,
            sy_pend = sy_pend sy \<union> (if now4 = None then {(q, 0)} else {}) \<union> (if now6 = None then {(q, 1)} else {}),
            sy_asked = (sy_asked sy)(q := (port, cb, f, d)),
            sy_got = (sy_got sy)(q := (got_now now4, got_now now6))\<rparr>)"
| "rhandle (Answer q i (st, he)) sy =
     bindr (if i = 0 then dns_query_v4_cb q st he (sy_code sy) else dns_query_v6_cb q st he (sy_code sy)) (\<lambda>s.
       Inr \<lparr>sy_code = s, sy_pend = sy_pend sy - {(q, i)}, sy_asked = sy_asked sy,
            sy_got = (sy_got sy)(q := (if i = 0 then (got_of (st, he), snd (sy_got sy q))
                                       else (fst (sy_got sy q), got_of (st, he))))\<rparr>)"

definition rsys_init :: "bool \<Rightarrow> ('cb, 'f) asked \<Rightarrow> ('cb, 'f) rsys" where
  "rsys_init ipv6first z =
     \<lparr>sy_code = resolv_init ipv6first, sy_pend = {}, sy_asked = (\<lambda>_. z), sy_got = (\<lambda>_. (None, None))\<rparr>"

inductive rreach :: "('cb, 'f) rsys \<Rightarrow> ('cb, 'f) rsys \<Rightarrow> bool" for sy0 where
  rreach_init: "rreach sy0 sy0"
| rreach_step: "rreach sy0 sy \<Longrightarrow> renabled sy e \<Longrightarrow> rhandle e sy = Inr sy' \<Longrightarrow> rreach sy0 sy'"

section \<open>What the client is told\<close>

definition sin_block :: "u16 \<Rightarrow> bytes \<Rightarrow> bytes" where
  "sin_block port a = le16 AF_INET @ mem16 port @ a @ replicate 8 0"

definition sin6_block :: "u16 \<Rightarrow> bytes \<Rightarrow> bytes" where
  "sin6_block port a = le16 AF_INET6 @ mem16 port @ replicate 4 0 @ a @ replicate 4 0"

text \<open>The address of the preferred family, the first one c-ares gave; of the other one if there is none.\<close>

definition preferred :: "resolv_mode \<Rightarrow> u16 \<Rightarrow> bytes list \<Rightarrow> bytes list \<Rightarrow> bytes option" where
  "preferred mode port a4 a6 =
     (let l4 = map (sin_block port) a4; l6 = map (sin6_block port) a6
      in case (if mode = MODE_IPV4_FIRST then l4 @ l6 else l6 @ l4) of [] \<Rightarrow> None | r # _ \<Rightarrow> Some r)"

fun out_query :: "('cb, 'f) resolv_out \<Rightarrow> nat" where
  "out_query (Client_cb q _ _ _) = q"
| "out_query (Free_cb q _ _) = q"
| "out_query (Ss_free q _) = q"

definition events_of :: "nat \<Rightarrow> ('cb, 'f) resolv_out list \<Rightarrow> ('cb, 'f) resolv_out list" where
  "events_of q t = filter (\<lambda>e. out_query e = q) t"

fun final_events :: "resolv_mode \<Rightarrow> nat \<Rightarrow> ('cb, 'f) asked \<Rightarrow> bytes list \<Rightarrow> bytes list \<Rightarrow> ('cb, 'f) resolv_out list" where
  "final_events mode q (port, cb, f, d) a4 a6 =
     [Client_cb q cb (preferred mode port a4 a6) d, case f of Some g \<Rightarrow> Free_cb q g d | None \<Rightarrow> Ss_free q d]"

section \<open>Answering a query\<close>

definition opt_list :: "'a list option \<Rightarrow> 'a list" where
  "opt_list g = (case g of Some l \<Rightarrow> l | None \<Rightarrow> [])"

fun open_query :: "('cb, 'f) asked \<Rightarrow> bytes list option \<times> bytes list option \<Rightarrow> ('cb, 'f) resolv_query" where
  "open_query (port, cb, f, d) (g4, g6) =
     \<lparr>rq_requests = [if g4 = None then AF_INET else 0, if g6 = None then AF_INET6 else 0],
      rq_responses = map (sin_block port) (opt_list g4) @ map (sin6_block port) (opt_list g6),
      rq_client_cb = cb, rq_free_cb = f, rq_port = port, rq_data = d\<rparr>"

text \<open>The state after the two requests of a query were answered with \<open>g4\<close> and \<open>g6\<close>.\<close>

fun settled :: "nat \<Rightarrow> ('cb, 'f) asked \<Rightarrow> bytes list option \<times> bytes list option \<Rightarrow> ('cb, 'f) resolv \<Rightarrow> ('cb, 'f) resolv" where
  "settled q asked (Some a4, Some a6) s =
     s\<lparr>rs_trace := rs_trace s @ final_events (rs_mode s) q asked a4 a6, rs_queries := (rs_queries s)(q := None)\<rparr>"
| "settled q asked (g4, g6) s = set_rquery q (open_query asked (g4, g6)) s"

lemma le16_length [simp]: "length (le16 n) = 2" and mem16_length [simp]: "length (mem16 p) = 2"
  by (simp_all add: le16_def mem16_def)

lemma raw_family_blocks [simp]:
  "raw_family (sin_block port a) = AF_INET" "raw_family (sin6_block port a) = AF_INET6"
  by (simp_all add: raw_family_def sin_block_def sin6_block_def le16_def AF_INET_def AF_INET6_def nth_append)

lemma AF_distinct [simp]: "AF_INET \<noteq> AF_INET6" "AF_INET6 \<noteq> AF_INET" "AF_INET \<noteq> 0" "AF_INET6 \<noteq> 0"
  by (simp_all add: AF_INET_def AF_INET6_def)

lemma add_response_v4:
  "length a = 4 \<Longrightarrow> add_responses AF_INET 16 4 port 4 (a # as) rs = add_responses AF_INET 16 4 port 4 as (rs @ [sin_block port a])"
  by (simp add: sin_block_def)

lemma add_response_v6:
  "length a = 16 \<Longrightarrow> add_responses AF_INET6 28 8 port 16 (a # as) rs = add_responses AF_INET6 28 8 port 16 as (rs @ [sin6_block port a])"
  by (simp add: sin6_block_def)

lemma add_responses_v4:
  assumes "list_all (\<lambda>x. length x = 4) as"
  shows "add_responses AF_INET 16 4 port 4 as rs = Inr (rs @ map (sin_block port) as)"
  using assms by (induction as arbitrary: rs) (auto simp: add_response_v4 simp del: add_responses.simps(2))

lemma add_responses_v6:
  assumes "list_all (\<lambda>x. length x = 16) as"
  shows "add_responses AF_INET6 28 8 port 16 as rs = Inr (rs @ map (sin6_block port) as)"
  using assms by (induction as arbitrary: rs) (auto simp: add_response_v6 simp del: add_responses.simps(2))

lemma first_of_family_map [simp]:
  "first_of_family AF_INET (map (sin_block p) l) = (case l of [] \<Rightarrow> None | a # _ \<Rightarrow> Some (sin_block p a))"
  "first_of_family AF_INET6 (map (sin6_block p) l) = (case l of [] \<Rightarrow> None | a # _ \<Rightarrow> Some (sin6_block p a))"
  "first_of_family AF_INET (map (sin6_block p) l) = None"
  "first_of_family AF_INET6 (map (sin_block p) l) = None"
  by (induction l) auto

lemma first_of_family_append:
  "first_of_family f (as @ bs) = (case first_of_family f as of Some r \<Rightarrow> Some r | None \<Rightarrow> first_of_family f bs)"
  by (induction as) auto

text \<open>In whichever order the answers came, the choice is the preferred address.\<close>

lemma choose_preferred:
  fixes x :: "('cb, 'f) resolv_query"
  assumes "rq_responses x = map (sin_block p) a4 @ map (sin6_block p) a6 \<or>
           rq_responses x = map (sin6_block p) a6 @ map (sin_block p) a4"
  shows "choose_ipv4_first x = preferred MODE_IPV4_FIRST p a4 a6"
    and "choose_ipv6_first x = preferred MODE_IPV6_FIRST p a4 a6"
  using assms
  by (cases a4; cases a6; auto simp: choose_ipv4_first_def choose_ipv6_first_def choose_any_def preferred_def
        first_of_family_append)+

lemma cleanup_settled:
  fixes s :: "('cb, 'f) resolv"
  assumes q: "rs_queries s q = Some x"
    and x: "rq_client_cb x = cb" "rq_free_cb x = f" "rq_port x = port" "rq_data x = d"
    and req: "rq_requests x = [if g4 = None then AF_INET else 0, if g6 = None then AF_INET6 else 0]"
    and i: "i = 0 \<and> g4 = None \<and> h = (Some a, g6) \<or> i = 1 \<and> g6 = None \<and> h = (g4, Some a)"
    and resp: "rq_responses x = (if i = 0 then map (sin6_block port) (opt_list g6) @ map (sin_block port) a
                                 else map (sin_block port) (opt_list g4) @ map (sin6_block port) a)"
  shows "dns_query_cleanup i q s = Inr (settled q (port, cb, f, d) h s)"
proof -
  define y where "y = x\<lparr>rq_requests := (rq_requests x)[i := 0]\<rparr>"
  have y: "rq_client_cb y = cb" "rq_free_cb y = f" "rq_data y = d" "rq_responses y = rq_responses x"
    using x by (simp_all add: y_def)
  have c: "choose_ipv4_first y = preferred MODE_IPV4_FIRST port (opt_list (fst h)) (opt_list (snd h))"
    "choose_ipv6_first y = preferred MODE_IPV6_FIRST port (opt_list (fst h)) (opt_list (snd h))"
    using i resp y(4) by (auto simp: opt_list_def intro!: choose_preferred)
  have n: "all_requests_are_null y \<longleftrightarrow> fst h \<noteq> None \<and> snd h \<noteq> None"
    using i req by (auto simp: y_def all_requests_are_null_def split: if_splits)
  show ?thesis
  proof (cases "fst h \<noteq> None \<and> snd h \<noteq> None")
    case True
    then obtain a4 a6 where h: "h = (Some a4, Some a6)" by (cases h) auto
    show ?thesis
      using q n c y h by (cases "rs_mode s"; cases f)
        (simp_all add: dns_query_cleanup_def get_rquery_def y_def [symmetric] set_rquery_def
          process_client_callback_def opt_list_def)
  next
    case False
    have "y = open_query (port, cb, f, d) h"
      using i x req resp False by (cases x) (auto simp: y_def opt_list_def)
    then show ?thesis
      using q n False by (cases h; cases "fst h"; cases "snd h")
        (simp_all add: dns_query_cleanup_def get_rquery_def y_def [symmetric])
  qed
qed

lemma answer_v4:
  assumes "rs_queries s q = Some (open_query (port, cb, f, d) (None, g6))" "answer_ok 4 (st, he)"
    "st \<noteq> ARES_EDESTRUCTION"
  shows "dns_query_v4_cb q st he s = Inr (settled q (port, cb, f, d) (Some (delivered (st, he)), g6) s)"
proof -
  let ?x = "open_query (port, cb, f, d) (None, g6)"
  let ?s = "set_rquery q (?x\<lparr>rq_responses := rq_responses ?x @ map (sin_block port) (delivered (st, he))\<rparr>) s"
  have c: "dns_query_cleanup 0 q ?s = Inr (settled q (port, cb, f, d) (Some (delivered (st, he)), g6) ?s)"
    by (rule cleanup_settled [where ?g4.0 = None]) (auto simp: set_rquery_def opt_list_def)
  have s: "settled q (port, cb, f, d) (Some (delivered (st, he)), g6) ?s =
           settled q (port, cb, f, d) (Some (delivered (st, he)), g6) s"
    by (cases g6) (auto simp: set_rquery_def)
  have n: "?s = s" if "delivered (st, he) = []"
    using that assms(1) by (auto simp: set_rquery_def fun_upd_idem)
  show ?thesis
    using c s n assms
    by (auto simp: dns_query_v4_cb_def get_rquery_def answer_ok_def add_responses_v4 split: option.splits)
qed

lemma answer_v6:
  assumes "rs_queries s q = Some (open_query (port, cb, f, d) (g4, None))" "answer_ok 16 (st, he)"
    "st \<noteq> ARES_EDESTRUCTION"
  shows "dns_query_v6_cb q st he s = Inr (settled q (port, cb, f, d) (g4, Some (delivered (st, he))) s)"
proof -
  let ?x = "open_query (port, cb, f, d) (g4, None)"
  let ?s = "set_rquery q (?x\<lparr>rq_responses := rq_responses ?x @ map (sin6_block port) (delivered (st, he))\<rparr>) s"
  have c: "dns_query_cleanup 1 q ?s = Inr (settled q (port, cb, f, d) (g4, Some (delivered (st, he))) ?s)"
    by (rule cleanup_settled [where ?g6.0 = None]) (auto simp: set_rquery_def opt_list_def)
  have s: "settled q (port, cb, f, d) (g4, Some (delivered (st, he))) ?s =
           settled q (port, cb, f, d) (g4, Some (delivered (st, he))) s"
    by (cases g4) (auto simp: set_rquery_def)
  have n: "?s = s" if "delivered (st, he) = []"
    using that assms(1) by (auto simp: set_rquery_def fun_upd_idem)
  show ?thesis
    using c s n assms
    by (auto simp: dns_query_v6_cb_def get_rquery_def answer_ok_def add_responses_v6 split: option.splits)
qed

text \<open>Either answer, destruction included (which leaves the query as it was).\<close>

fun both_got :: "bytes list option \<times> bytes list option \<Rightarrow> bool" where
  "both_got (g4, g6) = (g4 \<noteq> None \<and> g6 \<noteq> None)"

lemma settled_open:
  "\<not> both_got g \<Longrightarrow> settled q asked g s = set_rquery q (open_query asked g) s"
  by (cases g; cases "fst g"; cases "snd g") auto

lemma answer_eq:
  fixes i :: nat
  assumes q: "rs_queries s q = Some (open_query asked g)" and g: "\<not> both_got g"
    and a: "answer_ok (if i = 0 then 4 else 16) (st, he)" "i = 0 \<and> fst g = None \<or> i = 1 \<and> snd g = None"
  shows "(if i = 0 then dns_query_v4_cb q st he s else dns_query_v6_cb q st he s) =
           Inr (settled q asked (if i = 0 then (got_of (st, he), snd g) else (fst g, got_of (st, he))) s)"
proof (cases "st = ARES_EDESTRUCTION")
  case True
  have "settled q asked g s = s" using q g by (auto simp: settled_open set_rquery_def fun_upd_idem)
  then show ?thesis
    using True a by (cases g) (auto simp: dns_query_v4_cb_def dns_query_v6_cb_def got_of_def)
next
  case False
  obtain port cb f d where asked: "asked = (port, cb, f, d)" by (cases asked)
  have 4: ?thesis if "i = 0" "g = (None, snd g)"
    using answer_v4 [of s q port cb f d "snd g" st he] q a(1) False asked that by (simp add: got_of_def del: open_query.simps)
  have 6: ?thesis if "i = 1" "g = (fst g, None)"
    using answer_v6 [of s q port cb f d "fst g" st he] q a(1) False asked that by (simp add: got_of_def del: open_query.simps)
  show ?thesis using 4 6 a(2) by (cases g) auto
qed

lemma start_eq:
  assumes "pred_option (answer_ok 4) now4" "pred_option (answer_ok 16) now6"
  shows "resolv_start now4 now6 port cb f d s =
           Inr (rs_next s, settled (rs_next s) (port, cb, f, d) (got_now now4, got_now now6) (s\<lparr>rs_next := rs_next s + 1\<rparr>))"
proof -
  let ?q = "rs_next s" and ?a = "(port, cb, f, d)" and ?s = "s\<lparr>rs_next := rs_next s + 1\<rparr>"
  let ?new = "set_rquery ?q (open_query ?a (None, None)) ?s"
  have new: "new_rquery port cb f d = open_query ?a (None, None)"
    by (simp add: new_rquery_def opt_list_def)
  have 4: "(case now4 of Some (st, he) \<Rightarrow> dns_query_v4_cb ?q st he ?new | None \<Rightarrow> Inr ?new) =
           Inr (set_rquery ?q (open_query ?a (got_now now4, None)) ?s)"
  proof (cases now4)
    case (Some x)
    then show ?thesis
      using answer_eq [of ?new ?q ?a "(None, None)" 0 "fst x" "snd x"] assms(1)
      by (cases x; cases "got_of x") (auto simp: got_now_def set_rquery_def)
  next
    case None
    show ?thesis unfolding None got_now_def option.case by (simp add: set_rquery_def)
  qed
  let ?mid = "set_rquery ?q (open_query ?a (got_now now4, None)) ?s"
  have 6: "(case now6 of Some (st, he) \<Rightarrow> dns_query_v6_cb ?q st he ?mid | None \<Rightarrow> Inr ?mid) =
           Inr (settled ?q ?a (got_now now4, got_now now6) ?s)"
  proof (cases now6)
    case (Some x)
    then show ?thesis
      using answer_eq [of ?mid ?q ?a "(got_now now4, None)" 1 "fst x" "snd x"] assms(2)
      by (cases x; cases "got_of x"; cases "got_now now4") (auto simp: got_now_def set_rquery_def)
  next
    case None
    then show ?thesis by (cases "got_now now4") (simp_all add: got_now_def)
  qed
  show ?thesis
    unfolding resolv_start_def Let_def new 4 bindr.simps 6 ..
qed

section \<open>Every reachable state\<close>

definition query_inv :: "('cb, 'f) rsys \<Rightarrow> nat \<Rightarrow> bool" where
  "query_inv sy q =
     (case sy_got sy q of
        (Some a4, Some a6) \<Rightarrow>
          rs_queries (sy_code sy) q = None \<and>
          events_of q (rs_trace (sy_code sy)) = final_events (rs_mode (sy_code sy)) q (sy_asked sy q) a4 a6
      | g \<Rightarrow> rs_queries (sy_code sy) q = Some (open_query (sy_asked sy q) g) \<and>
             events_of q (rs_trace (sy_code sy)) = [])"

definition rinv :: "resolv_mode \<Rightarrow> ('cb, 'f) rsys \<Rightarrow> bool" where
  "rinv mode sy \<longleftrightarrow>
     rs_mode (sy_code sy) = mode \<and>
     (\<forall>(q, i) \<in> sy_pend sy. q < rs_next (sy_code sy) \<and>
        (i = 0 \<and> fst (sy_got sy q) = None \<or> i = 1 \<and> snd (sy_got sy q) = None)) \<and>
     (\<forall>e \<in> set (rs_trace (sy_code sy)). out_query e < rs_next (sy_code sy)) \<and>
     (\<forall>q < rs_next (sy_code sy). query_inv sy q)"

lemma events_of_append [simp]: "events_of q (s @ t) = events_of q s @ events_of q t"
  by (simp add: events_of_def)

lemma final_events_of [simp]:
  "events_of p (final_events mode q asked a4 a6) = (if p = q then final_events mode q asked a4 a6 else [])"
  by (cases asked) (auto simp: events_of_def split: option.splits)

lemma final_events_query: "e \<in> set (final_events mode q asked a4 a6) \<Longrightarrow> out_query e = q"
  by (cases asked) (auto split: option.splits)

lemma settled_fields [simp]:
  "rs_mode (settled q asked g s) = rs_mode s" "rs_next (settled q asked g s) = rs_next s"
  "p \<noteq> q \<Longrightarrow> rs_queries (settled q asked g s) p = rs_queries s p"
  "p \<noteq> q \<Longrightarrow> events_of p (rs_trace (settled q asked g s)) = events_of p (rs_trace s)"
  by (cases g; cases "fst g"; cases "snd g"; simp add: set_rquery_def)+

lemma settled_trace:
  "e \<in> set (rs_trace (settled q asked g s)) \<Longrightarrow> e \<in> set (rs_trace s) \<or> out_query e = q"
  by (cases g; cases "fst g"; cases "snd g") (auto simp: set_rquery_def dest: final_events_query)

lemma settled_query_inv:
  assumes "events_of q (rs_trace s) = []" "sy_code sy = settled q asked g s" "sy_asked sy q = asked" "sy_got sy q = g"
  shows "query_inv sy q"
  using assms by (cases g; cases "fst g"; cases "snd g") (auto simp: query_inv_def set_rquery_def)

text \<open>Settling query \<open>q\<close> keeps the invariant of the others.\<close>

lemma rinv_settle:
  assumes i: "rinv mode sy" and s: "rs_mode s = mode" "rs_trace s = rs_trace (sy_code sy)"
    "rs_queries s = rs_queries (sy_code sy)" "rs_next (sy_code sy) \<le> rs_next s" "q < rs_next s"
    "\<And>p. p < rs_next s \<Longrightarrow> p \<noteq> q \<Longrightarrow> p < rs_next (sy_code sy)"
    and e: "events_of q (rs_trace s) = []"
    and sy': "sy_code sy' = settled q asked g s" "sy_asked sy' = (sy_asked sy)(q := asked)" "sy_got sy' = (sy_got sy)(q := g)"
    and pend: "\<And>p i. (p, i) \<in> sy_pend sy' \<Longrightarrow> p \<noteq> q \<Longrightarrow> (p, i) \<in> sy_pend sy"
    and pend_q: "\<And>i. (q, i) \<in> sy_pend sy' \<Longrightarrow> i = 0 \<and> fst g = None \<or> i = 1 \<and> snd g = None"
  shows "rinv mode sy'"
proof -
  have "query_inv sy' p" if p: "p < rs_next s" for p
  proof (cases "p = q")
    case True
    then show ?thesis using e sy' by (auto intro: settled_query_inv)
  next
    case False
    then have "query_inv sy p" using i s(6) [OF p] by (simp add: rinv_def)
    then show ?thesis
      unfolding query_inv_def sy' using False s(1,2,3) i
      by (auto simp: rinv_def split: prod.splits option.splits)
  qed
  moreover have "case x of (p, i) \<Rightarrow>
      p < rs_next s \<and> (i = 0 \<and> fst (sy_got sy' p) = None \<or> i = 1 \<and> snd (sy_got sy' p) = None)"
    if x: "x \<in> sy_pend sy'" for x
  proof (cases x)
    case (Pair p i)
    then show ?thesis
    using x pend [of p i] pend_q [of i] i s(4,5) sy' by (cases "p = q") (auto simp: rinv_def)
  qed
  moreover have "out_query e < rs_next s" if "e \<in> set (rs_trace (settled q asked g s))" for e
    using settled_trace [OF that] i s(2,4,5) by (auto simp: rinv_def)
  ultimately show ?thesis
    unfolding rinv_def using s(1) sy'(1) by (simp del: fun_upd_apply)
qed

lemma rinv_handle:
  assumes i: "rinv mode sy" and e: "renabled sy e"
  shows "\<exists>sy'. rhandle e sy = Inr sy' \<and> rinv mode sy'"
proof (cases e)
  case (Start now4 now6 port cb f d)
  let ?q = "rs_next (sy_code sy)"
  have ev: "events_of ?q (rs_trace (sy_code sy)) = []"
    using i by (auto simp: rinv_def events_of_def filter_empty_conv)
  let ?g = "(got_now now4, got_now now6)"
  let ?sy = "\<lparr>sy_code = settled ?q (port, cb, f, d) ?g ((sy_code sy)\<lparr>rs_next := ?q + 1\<rparr>),
              sy_pend = sy_pend sy \<union> (if now4 = None then {(?q, 0)} else {}) \<union> (if now6 = None then {(?q, 1)} else {}),
              sy_asked = (sy_asked sy)(?q := (port, cb, f, d)), sy_got = (sy_got sy)(?q := ?g)\<rparr>"
  have "rhandle e sy = Inr ?sy"
    using e start_eq [of now4 now6 port cb f d "sy_code sy"] unfolding Start by simp
  moreover have "rinv mode ?sy"
  proof (rule rinv_settle [OF i, where q = ?q and s = "(sy_code sy)\<lparr>rs_next := ?q + 1\<rparr>"
        and asked = "(port, cb, f, d)" and g = ?g])
    show "k = 0 \<and> fst ?g = None \<or> k = 1 \<and> snd ?g = None" if "(?q, k) \<in> sy_pend ?sy" for k
    proof -
      have "(?q, k) \<notin> sy_pend sy" using i by (auto simp: rinv_def)
      then show ?thesis using that by (auto simp: got_now_def split: if_splits)
    qed
    show "(p, k) \<in> sy_pend sy" if "(p, k) \<in> sy_pend ?sy" "p \<noteq> ?q" for p k
      using that by (auto split: if_splits)
  qed (use i ev in \<open>auto simp: rinv_def\<close>)
  ultimately show ?thesis by blast
next
  case (Answer q k a)
  obtain st he where a: "a = (st, he)" by (cases a)
  let ?g = "sy_got sy q"
  have en: "(q, k) \<in> sy_pend sy" "answer_ok (if k = 0 then 4 else 16) (st, he)" using e Answer a by auto
  then have q: "q < rs_next (sy_code sy)" "query_inv sy q"
    and k: "k = 0 \<and> fst ?g = None \<or> k = 1 \<and> snd ?g = None"
    using i by (auto simp: rinv_def)
  have n: "\<not> both_got ?g" using k by (cases ?g) auto
  have o: "rs_queries (sy_code sy) q = Some (open_query (sy_asked sy q) ?g)" "events_of q (rs_trace (sy_code sy)) = []"
    using q(2) n by (auto simp: query_inv_def split: prod.splits option.splits)
  note eq = answer_eq [OF o(1) n en(2) k]
  let ?h = "if k = 0 then (got_of (st, he), snd ?g) else (fst ?g, got_of (st, he))"
  let ?sy = "\<lparr>sy_code = settled q (sy_asked sy q) ?h (sy_code sy), sy_pend = sy_pend sy - {(q, k)}, sy_asked = sy_asked sy,
              sy_got = (sy_got sy)(q := ?h)\<rparr>"
  have "rhandle e sy = Inr ?sy" unfolding Answer a by (simp only: rhandle.simps eq bindr.simps)
  moreover have "rinv mode ?sy"
    by (rule rinv_settle [OF i, where q = q and s = "sy_code sy" and asked = "sy_asked sy q" and g = ?h])
       (use i q o k in \<open>auto simp: rinv_def\<close>)
  ultimately show ?thesis by blast
qed

lemma rinv_init: "rinv (rs_mode (resolv_init six)) (rsys_init six z)"
  by (simp add: rinv_def rsys_init_def resolv_init_def)

lemma rinv_reach: "rreach (rsys_init six z) sy \<Longrightarrow> rinv (rs_mode (resolv_init six)) sy"
proof (induction rule: rreach.induct)
  case (rreach_step sy e sy')
  then show ?case using rinv_handle [OF rreach_step.IH rreach_step.hyps(2)] by auto
qed (rule rinv_init)

text \<open>
  C20. Whatever the order and the number of concurrent lookups, a callback of c-ares never touches a
  freed query, and the client of every query is called exactly once, after both its requests were
  answered: with the preferred address among the answers, or \<open>NULL\<close> when there is none. Then its data
  is freed once, and the query; until then it is told nothing.
\<close>

theorem resolv_answers_once:
  assumes "rreach (rsys_init six z) sy"
  shows "(\<forall>e. renabled sy e \<longrightarrow> (\<exists>sy'. rhandle e sy = Inr sy')) \<and>
         (\<forall>q < rs_next (sy_code sy).
            case sy_got sy q of
              (Some a4, Some a6) \<Rightarrow>
                rs_queries (sy_code sy) q = None \<and>
                events_of q (rs_trace (sy_code sy)) =
                  final_events (if six then MODE_IPV6_FIRST else MODE_IPV4_FIRST) q (sy_asked sy q) a4 a6
            | _ \<Rightarrow> rs_queries (sy_code sy) q \<noteq> None \<and> events_of q (rs_trace (sy_code sy)) = [])"
proof -
  note i = rinv_reach [OF assms]
  have "case sy_got sy q of
              (Some a4, Some a6) \<Rightarrow>
                rs_queries (sy_code sy) q = None \<and>
                events_of q (rs_trace (sy_code sy)) =
                  final_events (if six then MODE_IPV6_FIRST else MODE_IPV4_FIRST) q (sy_asked sy q) a4 a6
            | _ \<Rightarrow> rs_queries (sy_code sy) q \<noteq> None \<and> events_of q (rs_trace (sy_code sy)) = []"
    if "q < rs_next (sy_code sy)" for q
    using i that by (auto simp: rinv_def query_inv_def resolv_init_def split: prod.splits option.splits)
  then show ?thesis using rinv_handle [OF i] by blast
qed

definition resolved1 :: "(nat, nat) rsys" where
  "resolved1 =
     (let s0 = rsys_init True (0, 0, None, 0);
          s1 = projr (rhandle (Start (Some (0, Some \<lparr>h_addr_list = [[1, 2, 3, 4]], h_length = 4\<rparr>)) None 80 7 None 5) s0)
      in projr (rhandle (Answer 0 1 (1, None)) s1))"

lemma resolved1_reach: "rreach (rsys_init True (0, 0, None, 0)) resolved1"
proof -
  let ?z = "rsys_init True (0::u16, 0::nat, None :: nat option, 0::nat)"
  let ?e1 = "Start (Some (0, Some \<lparr>h_addr_list = [[1, 2, 3, 4]], h_length = 4\<rparr>)) None 80 (7::nat) (None :: nat option) 5"
  obtain s1 where 1: "rhandle ?e1 ?z = Inr s1" "rinv (rs_mode (resolv_init True)) s1" "(0, 1) \<in> sy_pend s1"
    using rinv_handle [OF rinv_init, of True "(0, 0, None, 0)" ?e1]
    by (auto simp: answer_ok_def rsys_init_def resolv_init_def resolv_start_def res_simps)
  let ?e2 = "Answer 0 1 (1, None) :: (nat, nat) rev"
  obtain s2 where 2: "rhandle ?e2 s1 = Inr s2" using rinv_handle [OF 1(2), of ?e2] 1(3) by (auto simp: answer_ok_def)
  have "rreach ?z s1" by (rule rreach_step [OF rreach_init _ 1(1)]) (simp add: answer_ok_def)
  then have "rreach ?z s2" by (rule rreach_step [OF _ _ 2]) (use 1(3) in \<open>simp add: answer_ok_def\<close>)
  then show ?thesis using 1(1) 2 by (simp add: resolved1_def)
qed

text \<open>An IPv6-first lookup whose AAAA request fails: the client gets the IPv4 address.\<close>

theorem resolv_answers_once_witness:
  "rs_queries (sy_code resolved1) 0 = None \<and>
   events_of 0 (rs_trace (sy_code resolved1)) =
     [Client_cb 0 7 (Some (sin_block 80 [1, 2, 3, 4])) 5, Ss_free 0 5]"
proof -
  have "sy_got resolved1 0 = (Some [[1, 2, 3, 4]], Some [])" "sy_asked resolved1 0 = (80, 7, None, 5)"
    "rs_next (sy_code resolved1) = 1"
    by (simp_all add: resolved1_def rsys_init_def resolv_init_def start_eq answer_ok_def got_now_def got_of_def
        ARES_SUCCESS_def ARES_EDESTRUCTION_def set_rquery_def dns_query_v6_cb_def dns_query_cleanup_def get_rquery_def
        process_client_callback_def all_requests_are_null_def)
  then show ?thesis
    using resolv_answers_once [OF resolved1_reach] by (simp add: preferred_def)
qed

section \<open>The watchers follow c-ares\<close>

lemma find_slot_Some:
  "find_slot fd xs k = Some i \<Longrightarrow> k \<le> i \<and> i - k < length xs \<and> fst (xs ! (i - k)) = fd"
proof (induction fd xs k rule: find_slot.induct)
  case (2 fd x xs k)
  then show ?case by (cases "fst x = fd") (auto simp: nth_Cons' Suc_diff_le split: if_splits)
qed simp

lemma find_slot_None: "find_slot fd xs k = None \<longleftrightarrow> fd \<notin> fst ` set xs"
  by (induction fd xs k rule: find_slot.induct) auto

text \<open>No two slots watch the same descriptor.\<close>

definition ios_ok :: "ios \<Rightarrow> bool" where
  "ios_ok ios \<longleftrightarrow> (\<forall>i < length ios. \<forall>j < length ios. fst (ios ! i) = fst (ios ! j) \<longrightarrow> fst (ios ! i) = SS_INVALID_FD \<or> i = j)"

lemma resolv_sock_state_exact:
  assumes ok: "ios_ok ios" and s: "s \<noteq> SS_INVALID_FD" "s \<in> fst ` set ios \<or> SS_INVALID_FD \<in> fst ` set ios"
    and fd: "fd \<noteq> SS_INVALID_FD"
  shows "(fd, ev) \<in> set (resolv_sock_state_cb s rd wr ios) \<longleftrightarrow>
         (if fd = s then (rd \<or> wr) \<and> ev = (rd, wr) else (fd, ev) \<in> set ios)"
    and "ios_ok (resolv_sock_state_cb s rd wr ios)"
proof -
  obtain i where i: "i < length ios" "fst (ios ! i) = s \<or> fst (ios ! i) = SS_INVALID_FD \<and> s \<notin> fst ` set ios"
    and eq: "resolv_sock_state_cb s rd wr ios = ios[i := if rd \<or> wr then (s, rd, wr) else (SS_INVALID_FD, False, False)]"
    using s find_slot_Some [of s ios 0] find_slot_Some [of SS_INVALID_FD ios 0] find_slot_None [of s ios 0]
      find_slot_None [of SS_INVALID_FD ios 0]
    by (cases "find_slot s ios 0"; cases "find_slot SS_INVALID_FD ios 0") (auto simp: resolv_sock_state_cb_def Let_def)
  have o: "j = i" if "j < length ios" "fst (ios ! j) = s" for j
    using i that ok s(1) by (auto simp: ios_ok_def)
  show "(fd, ev) \<in> set (resolv_sock_state_cb s rd wr ios) \<longleftrightarrow>
         (if fd = s then (rd \<or> wr) \<and> ev = (rd, wr) else (fd, ev) \<in> set ios)"
  proof -
    let ?n = "if rd \<or> wr then (s, rd, wr) else (SS_INVALID_FD, False, False)"
    have "(fd, ev) \<in> set (ios[i := ?n]) \<longleftrightarrow> (fd, ev) = ?n \<or> (\<exists>j < length ios. j \<noteq> i \<and> ios ! j = (fd, ev))"
      using i(1) by (auto simp: in_set_conv_nth nth_list_update)
    moreover have "(\<exists>j < length ios. j \<noteq> i \<and> ios ! j = (fd, ev)) \<longleftrightarrow> fd \<noteq> s \<and> (fd, ev) \<in> set ios"
      using i o fd unfolding in_set_conv_nth by fastforce
    ultimately show ?thesis using fd unfolding eq by auto
  qed
  show "ios_ok (resolv_sock_state_cb s rd wr ios)"
    unfolding ios_ok_def
  proof (intro allI impI)
    let ?n = "if rd \<or> wr then (s, rd, wr) else (SS_INVALID_FD, False, False)"
    fix j k assume j: "j < length (resolv_sock_state_cb s rd wr ios)" "k < length (resolv_sock_state_cb s rd wr ios)"
      "fst (resolv_sock_state_cb s rd wr ios ! j) = fst (resolv_sock_state_cb s rd wr ios ! k)"
    consider "j = k" | "j \<noteq> i" "k \<noteq> i" | "j = i" "k \<noteq> i" | "j \<noteq> i" "k = i" by blast
    then show "fst (resolv_sock_state_cb s rd wr ios ! j) = SS_INVALID_FD \<or> j = k"
    proof cases
      case 2
      then show ?thesis using j ok by (simp add: eq ios_ok_def)
    next
      case 3
      then show ?thesis using j i(1) o [of k] by (auto simp: eq split: if_splits)
    next
      case 4
      then show ?thesis using j i(1) o [of j] by (auto simp: eq split: if_splits)
    qed simp
  qed
qed

end
