(* ===== verification/Cache.thy ===== *)
theory Cache
  imports SS_Prelude "HOL-Library.Multiset"
begin

text \<open>
  The connection cache of \<^verbatim>\<open>src/cache.c\<close> (used by the UDP relay): a uthash table of entries with a
  time stamp, a capacity, and a callback that frees the data of evicted entries.

  The table is the list of its entries in insertion order, which is the order \<open>HASH_ITER\<close> follows
  (\<open>HASH_ADD\<close> appends). \<open>HASH_FIND\<close> returns an entry with the key when there is one; which one, if
  several have it, depends on the bucket history, so the choice is a parameter \<open>hfind\<close> with the law
  \<open>hash_find_ok\<close>. Every operation also returns the data it freed, in order, as the argument pairs of
  \<open>free_cb\<close> (or of \<open>ss_free\<close>, when no callback is set); \<open>None\<close> is a \<open>NULL\<close> data pointer, which is not
  freed. Time stamps (\<open>ev_tstamp\<close>) are of any type with subtraction and comparison.
\<close>

section \<open>The module\<close>

record ('d, 't) cache_entry =
  ce_key :: bytes
  ce_data :: "'d option"
  ce_ts :: 't

record ('d, 't) cache =
  c_max_entries :: nat
  c_entries :: "('d, 't) cache_entry list"

type_synonym 'd freed = "(bytes \<times> 'd) list"
type_synonym ('d, 't) hash_find = "('d, 't) cache_entry list \<Rightarrow> bytes \<Rightarrow> nat option"

definition EINVAL :: int where "EINVAL = 22"
definition ENOMEM :: int where "ENOMEM = 12"

definition hash_find_ok :: "('d, 't) hash_find \<Rightarrow> bool" where
  "hash_find_ok hfind \<longleftrightarrow>
     (\<forall>es k. case hfind es k of Some i \<Rightarrow> i < length es \<and> ce_key (es ! i) = k
                             | None \<Rightarrow> k \<notin> ce_key ` set es)"

definition hash_del :: "'a list \<Rightarrow> nat \<Rightarrow> 'a list" where
  "hash_del es i = take i es @ drop (Suc i) es"

definition cache_free_data :: "('d, 't) cache_entry \<Rightarrow> 'd freed" where
  "cache_free_data e = (case ce_data e of Some d \<Rightarrow> [(ce_key e, d)] | None \<Rightarrow> [])"

definition cache_create :: "bool \<Rightarrow> bool \<Rightarrow> nat \<Rightarrow> int \<times> ('d, 't) cache option" where
  "cache_create dst_ok malloc_ok capacity =
     (if \<not> dst_ok then (EINVAL, None)
      else if \<not> malloc_ok then (ENOMEM, None)
      else (0, Some \<lparr>c_max_entries = capacity, c_entries = []\<rparr>))"

fun cache_iter_free :: "(('d, 't) cache_entry \<Rightarrow> bool) \<Rightarrow> ('d, 't) cache_entry list \<Rightarrow>
    ('d, 't) cache_entry list \<times> 'd freed" where
  "cache_iter_free P [] = ([], [])"
| "cache_iter_free P (e # es) =
     (let (kept, freed) = cache_iter_free P es
      in if P e then (kept, cache_free_data e @ freed) else (e # kept, freed))"

definition cache_delete :: "('d, 't) cache option \<Rightarrow> bool \<Rightarrow> int \<times> 'd freed" where
  "cache_delete co keep_data =
     (case co of
        None \<Rightarrow> (EINVAL, [])
      | Some c \<Rightarrow>
          if keep_data then (0, [])
          else (0, snd (cache_iter_free (\<lambda>_. True) (c_entries c))))"

definition cache_clear ::
    "'t::{minus,ord} \<Rightarrow> ('d, 't) cache option \<Rightarrow> 't \<Rightarrow> int \<times> ('d, 't) cache option \<times> 'd freed" where
  "cache_clear now co age =
     (case co of
        None \<Rightarrow> (EINVAL, None, [])
      | Some c \<Rightarrow>
          let (kept, freed) = cache_iter_free (\<lambda>e. now - ce_ts e > age) (c_entries c)
          in (0, Some (c\<lparr>c_entries := kept\<rparr>), freed))"

definition cache_remove ::
    "('d, 't) hash_find \<Rightarrow> ('d, 't) cache option \<Rightarrow> bytes option \<Rightarrow> int \<times> ('d, 't) cache option \<times> 'd freed" where
  "cache_remove hfind co ko =
     (case (co, ko) of
        (Some c, Some key) \<Rightarrow>
          (case hfind (c_entries c) key of
             Some i \<Rightarrow> (0, Some (c\<lparr>c_entries := hash_del (c_entries c) i\<rparr>), cache_free_data (c_entries c ! i))
           | None \<Rightarrow> (0, co, []))
      | _ \<Rightarrow> (EINVAL, co, []))"

text \<open>\<open>HASH_DELETE\<close>, a new time stamp, \<open>HASH_ADD_KEYPTR\<close>: the entry moves to the end.\<close>

definition cache_touch :: "'t \<Rightarrow> ('d, 't) cache_entry list \<Rightarrow> nat \<Rightarrow> ('d, 't) cache_entry list" where
  "cache_touch now es i = hash_del es i @ [(es ! i)\<lparr>ce_ts := now\<rparr>]"

definition cache_lookup ::
    "('d, 't) hash_find \<Rightarrow> 't \<Rightarrow> ('d, 't) cache option \<Rightarrow> bytes option \<Rightarrow> bool \<Rightarrow>
     int \<times> ('d, 't) cache option \<times> 'd option" where
  "cache_lookup hfind now co ko result_ok =
     (case (co, ko, result_ok) of
        (Some c, Some key, True) \<Rightarrow>
          (case hfind (c_entries c) key of
             Some i \<Rightarrow> (0, Some (c\<lparr>c_entries := cache_touch now (c_entries c) i\<rparr>), ce_data (c_entries c ! i))
           | None \<Rightarrow> (0, co, None))
      | _ \<Rightarrow> (EINVAL, co, None))"

definition cache_key_exist ::
    "('d, 't) hash_find \<Rightarrow> 't \<Rightarrow> ('d, 't) cache option \<Rightarrow> bytes option \<Rightarrow> int \<times> ('d, 't) cache option" where
  "cache_key_exist hfind now co ko =
     (case (co, ko) of
        (Some c, Some key) \<Rightarrow>
          (case hfind (c_entries c) key of
             Some i \<Rightarrow> (1, Some (c\<lparr>c_entries := cache_touch now (c_entries c) i\<rparr>))
           | None \<Rightarrow> (0, co))
      | _ \<Rightarrow> (0, co))"

definition cache_insert ::
    "bool \<Rightarrow> 't \<Rightarrow> ('d, 't) cache option \<Rightarrow> bytes \<Rightarrow> 'd option \<Rightarrow> int \<times> ('d, 't) cache option \<times> 'd freed" where
  "cache_insert malloc_ok now co key data =
     (case co of
        None \<Rightarrow> (EINVAL, None, [])
      | Some c \<Rightarrow>
          if \<not> malloc_ok then (ENOMEM, co, [])
          else
            let es = c_entries c @ [\<lparr>ce_key = key, ce_data = data, ce_ts = now\<rparr>] in
            if length es \<ge> c_max_entries c then
              (case es of
                 e # rest \<Rightarrow> (0, Some (c\<lparr>c_entries := rest\<rparr>), cache_free_data e)
               | [] \<Rightarrow> (0, Some (c\<lparr>c_entries := es\<rparr>), []))
            else (0, Some (c\<lparr>c_entries := es\<rparr>), []))"

section \<open>Ownership of the data\<close>

text \<open>
  \<open>owned\<close> is the multiset of key and data pairs the table holds. Each operation either keeps a
  pair or frees it, once.
\<close>

definition owned :: "('d, 't) cache_entry list \<Rightarrow> (bytes \<times> 'd) multiset" where
  "owned es = mset (concat (map cache_free_data es))"

lemma owned_simps [simp]:
  "owned [] = {#}" "owned (e # es) = mset (cache_free_data e) + owned es"
  "owned (es @ fs) = owned es + owned fs"
  by (auto simp: owned_def)

lemma cache_free_data_ts [simp]: "cache_free_data (e\<lparr>ce_ts := t\<rparr>) = cache_free_data e"
  by (simp add: cache_free_data_def split: option.split)

lemma owned_hash_del: "i < length es \<Longrightarrow> mset (cache_free_data (es ! i)) + owned (hash_del es i) = owned es"
  by (subst (3) id_take_nth_drop [of i]) (auto simp: hash_del_def)

lemma owned_touch: "i < length es \<Longrightarrow> owned (cache_touch now es i) = owned es"
  using owned_hash_del [of i es] by (simp add: cache_touch_def add.commute)

lemma cache_iter_free_fst: "fst (cache_iter_free P es) = filter (\<lambda>e. \<not> P e) es"
  by (induction es) (auto simp: Let_def split: prod.splits)

lemma cache_iter_free_snd: "snd (cache_iter_free P es) = concat (map cache_free_data (filter P es))"
  by (induction es) (auto simp: Let_def split: prod.splits)

lemma owned_filter: "owned (filter P es) + owned (filter (\<lambda>e. \<not> P e) es) = owned es"
  by (induction es) auto

lemma hash_find_Some: "hash_find_ok hfind \<Longrightarrow> hfind es k = Some i \<Longrightarrow> i < length es \<and> ce_key (es ! i) = k"
  unfolding hash_find_ok_def by (drule spec [of _ es], drule spec [of _ k]) simp

lemma hash_find_None: "hash_find_ok hfind \<Longrightarrow> hfind es k = None \<longleftrightarrow> k \<notin> ce_key ` set es"
  unfolding hash_find_ok_def
  by (drule spec [of _ es], drule spec [of _ k]) (auto split: option.splits)

section \<open>Runs of operations\<close>

datatype ('d, 't) cache_op =
  Insert bytes "'d option"
| Lookup bytes
| Exist bytes
| Remove bytes
| Clear 't

text \<open>
  One call on an existing cache with working allocation, at time \<open>now\<close>: the cache after it and the
  data it freed.
\<close>

fun cache_call :: "('d, 't::{minus,ord}) hash_find \<Rightarrow> 't \<times> ('d, 't) cache_op \<Rightarrow> ('d, 't) cache \<Rightarrow>
    ('d, 't) cache \<times> 'd freed" where
  "cache_call hfind (now, Insert k d) c =
     (case cache_insert True now (Some c) k d of (_, Some c', fr) \<Rightarrow> (c', fr) | (_, None, fr) \<Rightarrow> (c, fr))"
| "cache_call hfind (now, Lookup k) c =
     (case cache_lookup hfind now (Some c) (Some k) True of (_, Some c', _) \<Rightarrow> (c', []) | _ \<Rightarrow> (c, []))"
| "cache_call hfind (now, Exist k) c =
     (case cache_key_exist hfind now (Some c) (Some k) of (_, Some c') \<Rightarrow> (c', []) | _ \<Rightarrow> (c, []))"
| "cache_call hfind (now, Remove k) c =
     (case cache_remove hfind (Some c) (Some k) of (_, Some c', fr) \<Rightarrow> (c', fr) | (_, None, fr) \<Rightarrow> (c, fr))"
| "cache_call hfind (now, Clear age) c =
     (case cache_clear now (Some c) age of (_, Some c', fr) \<Rightarrow> (c', fr) | (_, None, fr) \<Rightarrow> (c, fr))"

fun cache_run :: "('d, 't::{minus,ord}) hash_find \<Rightarrow> ('t \<times> ('d, 't) cache_op) list \<Rightarrow> ('d, 't) cache \<Rightarrow>
    ('d, 't) cache \<times> 'd freed" where
  "cache_run hfind [] c = (c, [])"
| "cache_run hfind (x # xs) c =
     (let (c, f1) = cache_call hfind x c; (c, f2) = cache_run hfind xs c in (c, f1 @ f2))"

fun given :: "('t \<times> ('d, 't) cache_op) list \<Rightarrow> (bytes \<times> 'd) list" where
  "given [] = []"
| "given ((_, Insert k (Some d)) # xs) = (k, d) # given xs"
| "given (_ # xs) = given xs"

lemmas cache_op_defs = cache_insert_def cache_lookup_def cache_key_exist_def cache_remove_def cache_clear_def

definition cache_new :: "('d, 't) cache_entry list \<Rightarrow> bytes \<Rightarrow> 'd option \<Rightarrow> 't \<Rightarrow> ('d, 't) cache_entry list" where
  "cache_new es k d now = es @ [\<lparr>ce_key = k, ce_data = d, ce_ts = now\<rparr>]"

lemma cache_insert_eq:
  "cache_insert True now (Some c) k d =
     (if length (c_entries c) + 1 \<ge> c_max_entries c
      then (0, Some (c\<lparr>c_entries := tl (cache_new (c_entries c) k d now)\<rparr>),
            cache_free_data (hd (cache_new (c_entries c) k d now)))
      else (0, Some (c\<lparr>c_entries := cache_new (c_entries c) k d now\<rparr>), []))"
  by (cases "c_entries c") (auto simp: cache_insert_def cache_new_def)

lemma cache_call_Insert:
  "cache_call hfind (now, Insert k d) c =
     (if length (c_entries c) + 1 \<ge> c_max_entries c
      then (c\<lparr>c_entries := tl (cache_new (c_entries c) k d now)\<rparr>,
            cache_free_data (hd (cache_new (c_entries c) k d now)))
      else (c\<lparr>c_entries := cache_new (c_entries c) k d now\<rparr>, []))"
  by (simp add: cache_insert_eq)

lemma cache_call_touch:
  "cache_call hfind (now, Lookup k) c =
     (case hfind (c_entries c) k of Some i \<Rightarrow> c\<lparr>c_entries := cache_touch now (c_entries c) i\<rparr> | None \<Rightarrow> c, [])"
  "cache_call hfind (now, Exist k) c =
     (case hfind (c_entries c) k of Some i \<Rightarrow> c\<lparr>c_entries := cache_touch now (c_entries c) i\<rparr> | None \<Rightarrow> c, [])"
  by (auto simp: cache_lookup_def cache_key_exist_def split: option.splits)

lemma cache_call_Remove:
  "cache_call hfind (now, Remove k) c =
     (case hfind (c_entries c) k of
        Some i \<Rightarrow> (c\<lparr>c_entries := hash_del (c_entries c) i\<rparr>, cache_free_data (c_entries c ! i))
      | None \<Rightarrow> (c, []))"
  by (auto simp: cache_remove_def split: option.splits)

lemma cache_call_Clear:
  "cache_call hfind (now, Clear age) c =
     (c\<lparr>c_entries := filter (\<lambda>e. \<not> now - ce_ts e > age) (c_entries c)\<rparr>,
      concat (map cache_free_data (filter (\<lambda>e. now - ce_ts e > age) (c_entries c))))"
  using cache_iter_free_fst [of "\<lambda>e. now - ce_ts e > age" "c_entries c"]
    cache_iter_free_snd [of "\<lambda>e. now - ce_ts e > age" "c_entries c"]
  by (auto simp: cache_clear_def split: prod.splits)

lemmas cache_call_eqs = cache_call_Insert cache_call_touch cache_call_Remove cache_call_Clear

lemma length_hash_del: "i < length es \<Longrightarrow> length (hash_del es i) = length es - 1"
  by (auto simp: hash_del_def)

lemma length_touch: "i < length es \<Longrightarrow> length (cache_touch now es i) = length es"
  by (simp add: cache_touch_def length_hash_del)

lemma cache_call_step:
  fixes c c' :: "('d, 't::{minus,ord}) cache"
  assumes f: "hash_find_ok hfind" and call: "cache_call hfind (now, x) c = (c', fr)"
    and size: "length (c_entries c) < c_max_entries c"
  shows "mset (given [(now, x)]) + owned (c_entries c) = mset fr + owned (c_entries c')"
    and "length (c_entries c') < c_max_entries c'" and "c_max_entries c' = c_max_entries c"
proof -
  have found: "hfind (c_entries c) k = Some i \<Longrightarrow> i < length (c_entries c)" for k i
    using hash_find_Some [OF f] by blast
  have ins: "mset (given [(now, Insert k d)]) + owned es =
      mset (cache_free_data (hd (cache_new es k d now))) + owned (tl (cache_new es k d now))"
    "mset (given [(now, Insert k d)]) + owned es = owned (cache_new es k d now)"
    for k d and es :: "('d, 't) cache_entry list"
    by (cases es; cases d; simp add: cache_new_def cache_free_data_def)+
  have clear: "mset (concat (map cache_free_data (filter P es))) + owned (filter (\<lambda>e. \<not> P e) es) = owned es"
    for P and es :: "('d, 't) cache_entry list"
    using owned_filter [of P es] by (simp add: owned_def)
  show "mset (given [(now, x)]) + owned (c_entries c) = mset fr + owned (c_entries c')"
    using call clear ins found
    by (cases x)
      (auto simp: cache_call_eqs owned_touch owned_hash_del simp del: cache_call.simps
        split: if_splits option.splits)
  have len: "length (filter P (c_entries c)) < c_max_entries c" for P
    using size by (rule le_less_trans [OF length_filter_le])
  have "length (c_entries c') < c_max_entries c' \<and> c_max_entries c' = c_max_entries c"
    using call size found len
    by (cases x)
      (auto simp: cache_call_eqs length_touch length_hash_del cache_new_def
        simp del: cache_call.simps split: if_splits option.splits)
  then show "length (c_entries c') < c_max_entries c'" "c_max_entries c' = c_max_entries c" by auto
qed

lemma given_append: "given (xs @ ys) = given xs @ given ys"
  by (induction xs rule: given.induct) auto

lemma cache_run_step:
  assumes f: "hash_find_ok hfind" and "cache_run hfind xs c = (c', fr)"
    and "length (c_entries c) < c_max_entries c"
  shows "mset (given xs) + owned (c_entries c) = mset fr + owned (c_entries c') \<and>
         length (c_entries c') < c_max_entries c' \<and> c_max_entries c' = c_max_entries c"
  using assms(2,3)
proof (induction xs arbitrary: c c' fr)
  case (Cons x xs)
  obtain now y where x: "x = (now, y)" by (cases x)
  obtain c1 f1 where 1: "cache_call hfind (now, y) c = (c1, f1)" by (cases "cache_call hfind (now, y) c")
  obtain c2 f2 where 2: "cache_run hfind xs c1 = (c2, f2)" by (cases "cache_run hfind xs c1")
  have g: "given (x # xs) = given [(now, y)] @ given xs"
    using given_append [of "[(now, y)]" xs] x by simp
  have eq: "c' = c2" "fr = f1 @ f2" using Cons.prems(1) 1 2 x by (auto simp del: cache_call.simps)
  note st = cache_call_step [OF f 1 Cons.prems(2)]
  note ih = Cons.IH [OF 2 st(2)]
  have "mset (given (x # xs)) + owned (c_entries c) =
      mset (given xs) + (mset (given [(now, y)]) + owned (c_entries c))"
    unfolding g by (simp only: mset_append ac_simps)
  also have "\<dots> = mset f1 + (mset (given xs) + owned (c_entries c1))"
    unfolding st(1) by (simp only: ac_simps)
  also have "\<dots> = mset f1 + (mset f2 + owned (c_entries c2))"
    using ih by (simp only:)
  finally show ?case using ih st(3) unfolding eq by (simp add: ac_simps)
qed auto

section \<open>Recently used entries stay\<close>

text \<open>\<open>within n k d es\<close>: an entry for \<open>k\<close> with data \<open>d\<close> has at most \<open>n\<close> entries behind it.\<close>

definition within :: "nat \<Rightarrow> bytes \<Rightarrow> 'd option \<Rightarrow> ('d, 't) cache_entry list \<Rightarrow> bool" where
  "within n k d es \<longleftrightarrow>
     (\<exists>pre e post. es = pre @ e # post \<and> ce_key e = k \<and> ce_data e = d \<and> length post \<le> n)"

lemma within_touch:
  assumes w: "within n k d es" and i: "i < length es"
  shows "within (Suc n) k d (cache_touch now es i)"
proof -
  obtain pre e post where es: "es = pre @ e # post" "ce_key e = k" "ce_data e = d" "length post \<le> n"
    using w by (auto simp: within_def)
  consider "i < length pre" | "i = length pre" | "i > length pre" by linarith
  then show ?thesis
  proof cases
    case 1
    then have "cache_touch now es i = hash_del pre i @ e # (post @ [(es ! i)\<lparr>ce_ts := now\<rparr>])"
      using es by (simp add: cache_touch_def hash_del_def)
    moreover have "length (post @ [(es ! i)\<lparr>ce_ts := now\<rparr>]) \<le> Suc n" using es by simp
    ultimately show ?thesis using es unfolding within_def by blast
  next
    case 2
    then have "cache_touch now es i = (pre @ post) @ e\<lparr>ce_ts := now\<rparr> # []"
      using es by (simp add: cache_touch_def hash_del_def)
    moreover have "ce_key (e\<lparr>ce_ts := now\<rparr>) = k" "ce_data (e\<lparr>ce_ts := now\<rparr>) = d" using es by auto
    ultimately show ?thesis unfolding within_def by (metis le0 list.size(3))
  next
    case 3
    then obtain j where j: "i = length pre + Suc j" using less_iff_Suc_add by auto
    then have "cache_touch now es i = pre @ e # (hash_del post j @ [(es ! i)\<lparr>ce_ts := now\<rparr>])"
      using es by (simp add: cache_touch_def hash_del_def)
    moreover have "length (hash_del post j @ [(es ! i)\<lparr>ce_ts := now\<rparr>]) \<le> Suc n"
      using es i j length_hash_del [of j post] by simp
    ultimately show ?thesis using es unfolding within_def by blast
  qed
qed

text \<open>The entry just used is the last one.\<close>

lemma within_touched: "ce_key (es ! i) = k \<Longrightarrow> within 0 k (ce_data (es ! i)) (cache_touch now es i)"
  unfolding within_def cache_touch_def
  by (rule exI [of _ "hash_del es i"], rule exI [of _ "(es ! i)\<lparr>ce_ts := now\<rparr>"], rule exI [of _ "[]"]) simp

lemma within_insert:
  assumes w: "within n k d es"
  shows "within (Suc n) k d (cache_new es k' d' now)"
    and "Suc n < length es \<Longrightarrow> within (Suc n) k d (tl (cache_new es k' d' now))"
proof -
  obtain pre e post where es: "es = pre @ e # post" "ce_key e = k" "ce_data e = d" "length post \<le> n"
    using w by (auto simp: within_def)
  let ?x = "\<lparr>ce_key = k', ce_data = d', ce_ts = now\<rparr>"
  have new: "cache_new es k' d' now = pre @ e # (post @ [?x])" "length (post @ [?x]) \<le> Suc n"
    using es by (auto simp: cache_new_def)
  then show "within (Suc n) k d (cache_new es k' d' now)" using es unfolding within_def by blast
  assume "Suc n < length es"
  then have "pre \<noteq> []" using es by auto
  then have "tl (cache_new es k' d' now) = tl pre @ e # (post @ [?x])" using new by (simp add: tl_append2)
  then show "within (Suc n) k d (tl (cache_new es k' d' now))" using es new(2) unfolding within_def by blast
qed

lemma within_mono: "within n k d es \<Longrightarrow> n \<le> m \<Longrightarrow> within m k d es"
  unfolding within_def by (elim exE conjE) (intro exI conjI, assumption+, simp)

fun uses_only :: "('t \<times> ('d, 't) cache_op) list \<Rightarrow> bool" where
  "uses_only [] = True"
| "uses_only ((_, Insert _ _) # xs) = uses_only xs"
| "uses_only ((_, Lookup _) # xs) = uses_only xs"
| "uses_only ((_, Exist _) # xs) = uses_only xs"
| "uses_only (_ # xs) = False"

lemma within_call:
  assumes f: "hash_find_ok hfind" and w: "within n k d (c_entries c)" and n: "Suc n < c_max_entries c - 1"
    and u: "uses_only [(now, x)]" and call: "cache_call hfind (now, x) c = (c', fr)"
    and size: "length (c_entries c) < c_max_entries c"
  shows "within (Suc n) k d (c_entries c')"
proof (cases x)
  case (Insert k' d')
  then show ?thesis
    using call n size within_insert [OF w, of k' d' now]
    by (auto simp: cache_call_Insert simp del: cache_call.simps split: if_splits)
next
  case (Lookup k')
  then show ?thesis
    using call within_mono [OF w, of "Suc n"] within_touch [OF w] hash_find_Some [OF f]
    by (auto simp: cache_call_touch simp del: cache_call.simps split: option.splits)
next
  case (Exist k')
  then show ?thesis
    using call within_mono [OF w, of "Suc n"] within_touch [OF w] hash_find_Some [OF f]
    by (auto simp: cache_call_touch simp del: cache_call.simps split: option.splits)
qed (use u in auto)

lemma uses_only_Cons: "uses_only (x # xs) \<Longrightarrow> uses_only [x] \<and> uses_only xs"
  by (cases x rule: prod.exhaust; cases "snd x") auto

lemma within_run:
  assumes f: "hash_find_ok hfind" and "within n k d (c_entries c)"
    and "n + length xs < c_max_entries c - 1" "uses_only xs" "cache_run hfind xs c = (c', fr)"
    and "length (c_entries c) < c_max_entries c"
  shows "within (n + length xs) k d (c_entries c')"
  using assms(2-)
proof (induction xs arbitrary: n c fr)
  case (Cons x xs)
  obtain now y where x: "x = (now, y)" by (cases x)
  obtain c1 f1 where 1: "cache_call hfind (now, y) c = (c1, f1)" by (cases "cache_call hfind (now, y) c")
  obtain c2 f2 where 2: "cache_run hfind xs c1 = (c2, f2)" by (cases "cache_run hfind xs c1")
  have eq: "c' = c2" using Cons.prems(4) 1 2 x by (auto simp del: cache_call.simps)
  have u: "uses_only [(now, y)]" "uses_only xs" using uses_only_Cons [OF Cons.prems(3)] x by auto
  have "within (Suc n) k d (c_entries c1)"
    using within_call [OF f Cons.prems(1) _ u(1) 1 Cons.prems(5)] Cons.prems(2) by simp
  from Cons.IH [OF this _ u(2) 2 [folded eq]] cache_call_step(2,3) [OF f 1 Cons.prems(5)] Cons.prems(2)
  show ?case by simp
qed simp

section \<open>Properties\<close>

text \<open>
  C31. Whatever sequence of insertions, lookups, removals and clearings a cache of positive
  capacity goes through, starting empty, it never holds as many entries as its capacity, and the
  data handed to it is exactly the data it freed together with the data it still holds: nothing
  is lost and nothing is freed twice.
\<close>

theorem cache_owns_data:
  assumes "hash_find_ok hfind" "0 < capacity" "cache_create True True capacity = (0, Some c)"
    and "cache_run hfind xs c = (c', fr)"
  shows "length (c_entries c') < capacity \<and> mset (given xs) = mset fr + owned (c_entries c')"
proof -
  have c: "c_entries c = []" "c_max_entries c = capacity"
    using assms(3) by (auto simp: cache_create_def)
  show ?thesis using cache_run_step [OF assms(1,4)] assms(2) c by simp
qed

text \<open>A concrete table lookup, for instances: the entry found first from the front.\<close>

fun find_first :: "('d, 't) cache_entry list \<Rightarrow> bytes \<Rightarrow> nat option" where
  "find_first [] k = None"
| "find_first (e # es) k = (if ce_key e = k then Some 0 else map_option Suc (find_first es k))"

lemma find_first_ok: "hash_find_ok find_first"
proof -
  have "case find_first es k of Some i \<Rightarrow> i < length es \<and> ce_key (es ! i) = k
        | None \<Rightarrow> k \<notin> ce_key ` set es" for es :: "('d, 't) cache_entry list" and k
    by (induction es) (auto split: option.splits)
  then show ?thesis by (auto simp: hash_find_ok_def)
qed

theorem cache_owns_data_witness:
  "case cache_run find_first [(1 :: int, Insert [1] (Some True)), (2, Insert [2] (Some False))]
          \<lparr>c_max_entries = 2, c_entries = []\<rparr> of
     (c', fr) \<Rightarrow> length (c_entries c') < 2 \<and>
       mset (given [(1 :: int, Insert [1] (Some True)), (2, Insert [2] (Some False))]) =
         mset fr + owned (c_entries c')"
  using cache_owns_data [OF find_first_ok, of 2 "\<lparr>c_max_entries = 2, c_entries = []\<rparr>"
      "[(1 :: int, Insert [1] (Some True)), (2, Insert [2] (Some False))]"]
  by (simp add: cache_create_def del: cache_run.simps given.simps split: prod.splits)

text \<open>
  C30. Least recently used goes first: when \<open>cache_lookup\<close> or \<open>cache_key_exist\<close> finds a key, wherever its
  entry stood in the table, the entry is still there with its data after any run of insertions and
  lookups shorter than the capacity minus one, so the use counts and not the time of insertion; a
  lookup of the key then succeeds.
\<close>

theorem cache_recently_used_stays:
  assumes "hash_find_ok hfind" "length (c_entries c) < c_max_entries c"
    and "op = Lookup k \<or> op = Exist k" "hfind (c_entries c) k = Some i"
    and "length xs + 1 < c_max_entries c" "uses_only xs" "cache_run hfind ((t, op) # xs) c = (c', fr)"
  shows "(\<exists>e'\<in>set (c_entries c'). ce_key e' = k \<and> ce_data e' = ce_data (c_entries c ! i)) \<and>
         fst (cache_key_exist hfind now (Some c') (Some k)) = 1"
proof -
  let ?c1 = "c\<lparr>c_entries := cache_touch t (c_entries c) i\<rparr>"
  have i: "i < length (c_entries c)" "ce_key (c_entries c ! i) = k" using hash_find_Some [OF assms(1,4)] by auto
  have w: "within 0 k (ce_data (c_entries c ! i)) (c_entries ?c1)" using i by (simp add: within_touched)
  have "cache_call hfind (t, op) c = (?c1, [])" using assms(3,4) by (auto simp: cache_call_touch simp del: cache_call.simps)
  then obtain fr' where r: "cache_run hfind xs ?c1 = (c', fr')"
    using assms(7) by (cases "cache_run hfind xs ?c1") (simp del: cache_call.simps)
  have "within (length xs) k (ce_data (c_entries c ! i)) (c_entries c')"
    using within_run [OF assms(1) w _ assms(6) r] assms(2,5) length_touch [OF i(1)] by simp
  then have e': "\<exists>e'\<in>set (c_entries c'). ce_key e' = k \<and> ce_data e' = ce_data (c_entries c ! i)"
    by (auto simp: within_def)
  then have "hfind (c_entries c') k \<noteq> None" using hash_find_None [OF assms(1)] by blast
  then show ?thesis using e' by (auto simp: cache_key_exist_def)
qed

text \<open>A full table: the oldest entry is looked up, and the insertion evicts the other one.\<close>

theorem cache_recently_used_stays_witness:
  "case cache_run find_first [(3 :: int, Lookup [1]), (4, Insert [3] (Some True))]
          \<lparr>c_max_entries = 3, c_entries = [\<lparr>ce_key = [1], ce_data = Some True, ce_ts = 1\<rparr>,
             \<lparr>ce_key = [2], ce_data = Some False, ce_ts = 2\<rparr>]\<rparr> of
     (c', fr) \<Rightarrow> fst (cache_key_exist find_first 5 (Some c') (Some [1])) = 1"
  using cache_recently_used_stays [OF find_first_ok,
      of "\<lparr>c_max_entries = 3, c_entries = [\<lparr>ce_key = [1], ce_data = Some True, ce_ts = 1 :: int\<rparr>,
             \<lparr>ce_key = [2], ce_data = Some False, ce_ts = 2\<rparr>]\<rparr>" "Lookup [1]" "[1]" 0 "[(4, Insert [3] (Some True))]" 3]
  by (simp del: cache_run.simps split: prod.splits)

text \<open>
  Insertion and lookup: with a capacity of at least two, a key that was not in the table is
  found after its insertion with the data given; with
  a capacity of one the entry is evicted by its own insertion.
\<close>

theorem cache_insert_lookup:
  assumes "hash_find_ok hfind" "k \<notin> ce_key ` set (c_entries c)"
    and "length (c_entries c) < c_max_entries c"
    and "cache_insert True now (Some c) k d = (err, Some c', fr)"
  shows "err = 0 \<and>
         (case cache_lookup hfind now' (Some c') (Some k) True of
            (err', c'', r) \<Rightarrow> err' = 0 \<and> r = (if 2 \<le> c_max_entries c then d else None))"
proof -
  let ?x = "\<lparr>ce_key = k, ce_data = d, ce_ts = now\<rparr>"
  have c': "err = 0" "c_entries c' = (if length (c_entries c) + 1 \<ge> c_max_entries c
      then tl (c_entries c @ [?x]) else c_entries c @ [?x])"
    using assms(4) unfolding cache_insert_eq cache_new_def by (auto split: if_splits)
  show ?thesis
  proof (cases "2 \<le> c_max_entries c")
    case True
    then obtain pre where pre: "c_entries c' = pre @ [?x]" "set pre \<subseteq> set (c_entries c)"
      using c'(2) by (cases "c_entries c") (simp, metis append_Cons list.sel(3) list.set_intros(2) order_refl subsetI)
    have "hfind (c_entries c') k \<noteq> None" using hash_find_None [OF assms(1)] pre by auto
    then obtain i where i: "hfind (c_entries c') k = Some i" by auto
    have "i < length (c_entries c')" "ce_key (c_entries c' ! i) = k"
      using hash_find_Some [OF assms(1) i] by auto
    moreover have "\<not> i < length pre"
    proof
      assume "i < length pre"
      then have "k \<in> ce_key ` set pre" using calculation(2) pre by (auto simp: nth_append)
      then show False using assms(2) pre(2) by auto
    qed
    ultimately have "c_entries c' ! i = ?x" using pre by (auto simp: nth_append less_Suc_eq)
    then show ?thesis using True i c'(1) by (simp add: cache_lookup_def)
  next
    case False
    then have "c_entries c = []" using assms(3) by (cases "c_entries c") auto
    then have "c_entries c' = []" using False c'(2) by auto
    then show ?thesis
      using False c'(1) hash_find_None [OF assms(1), of "[]" k] by (simp add: cache_lookup_def)
  qed
qed

theorem cache_insert_lookup_witness:
  "fst (cache_insert True (1 :: int) (Some \<lparr>c_max_entries = 2, c_entries = []\<rparr>) [1] (Some True)) = 0"
  using cache_insert_lookup [OF find_first_ok, of "[1]" "\<lparr>c_max_entries = 2, c_entries = []\<rparr>" 1 "Some True"]
  by (simp add: cache_insert_def)

end
