(* ===== verification/Buffer.thy ===== *)
theory Buffer
  imports SS_Prelude
begin

text \<open>
  The growable byte buffer \<open>buffer_t\<close> of \<^verbatim>\<open>src/crypto.h\<close> with its operations in \<^verbatim>\<open>src/crypto.c\<close>:
  \<open>balloc\<close>, \<open>brealloc\<close>, \<open>bfree\<close>, \<open>bprepend\<close> and \<open>bswap_data\<close>. The allocated block is \<open>buf_data\<close>,
  so its allocation size is its length, and the null pointer is the empty block. Bytes the
  allocator hands out are not initialised: they are given by an arbitrary function \<open>junk\<close>, over
  which all theorems quantify. Allocation itself succeeds (\<open>ss_malloc\<close> and \<open>ss_realloc\<close> end the
  process otherwise).

  \<open>buf_wf\<close> ties the three length fields to the block; \<open>buf_bytes\<close> is the content a reader sees.
\<close>

record buffer =
  buf_idx :: nat
  buf_len :: nat
  buf_capacity :: nat
  buf_data :: bytes

type_synonym junk = "nat \<Rightarrow> byte"

definition buffer_null :: buffer where
  "buffer_null = \<lparr>buf_idx = 0, buf_len = 0, buf_capacity = 0, buf_data = []\<rparr>"

definition fresh_block :: "junk \<Rightarrow> nat \<Rightarrow> nat \<Rightarrow> bytes" where
  "fresh_block junk lo hi = map junk [lo..<hi]"

definition balloc :: "junk \<Rightarrow> nat \<Rightarrow> buffer" where
  "balloc junk capacity = buffer_null\<lparr>buf_data := fresh_block junk 0 capacity, buf_capacity := capacity\<rparr>"

definition brealloc :: "junk \<Rightarrow> buffer \<Rightarrow> nat \<Rightarrow> nat \<Rightarrow> buffer" where
  "brealloc junk ptr len capacity =
     (let real_capacity = max len capacity in
      if buf_capacity ptr < real_capacity
      then ptr\<lparr>buf_data := take real_capacity (buf_data ptr) @
                             fresh_block junk (length (buf_data ptr)) real_capacity,
               buf_capacity := real_capacity\<rparr>
      else ptr)"

definition bfree :: "buffer \<Rightarrow> buffer" where
  "bfree ptr = ptr\<lparr>buf_idx := 0, buf_len := 0, buf_capacity := 0, buf_data := []\<rparr>"

definition bprepend :: "junk \<Rightarrow> buffer \<Rightarrow> buffer \<Rightarrow> nat \<Rightarrow> (nat \<times> buffer) res" where
  "bprepend junk dst src capacity =
     (let dst = brealloc junk dst (buf_len dst + buf_len src) capacity in
      bindr (mem_read (buf_data dst) 0 (buf_len dst)) (\<lambda>old.
      bindr (mem_write (buf_data dst) (buf_len src) old) (\<lambda>d1.
      bindr (mem_read (buf_data src) 0 (buf_len src)) (\<lambda>new.
      bindr (mem_write d1 0 new) (\<lambda>d2.
        let dst = dst\<lparr>buf_data := d2, buf_len := buf_len dst + buf_len src\<rparr>
        in Inr (buf_len dst, dst))))))"

definition bswap_data :: "buffer \<Rightarrow> buffer \<Rightarrow> buffer \<times> buffer" where
  "bswap_data a b =
     (let tmp_data = buf_data a; tmp_capacity = buf_capacity a in
      (a\<lparr>buf_data := buf_data b, buf_capacity := buf_capacity b\<rparr>,
       b\<lparr>buf_data := tmp_data, buf_capacity := tmp_capacity\<rparr>))"

section \<open>Invariant and content\<close>

definition buf_wf :: "buffer \<Rightarrow> bool" where
  "buf_wf b \<longleftrightarrow> length (buf_data b) = buf_capacity b \<and> buf_idx b + buf_len b \<le> buf_capacity b"

definition buf_bytes :: "buffer \<Rightarrow> bytes" where
  "buf_bytes b = take (buf_len b) (drop (buf_idx b) (buf_data b))"

named_theorems buf_simps "the fields of a buffer after each buffer operation"

lemma length_fresh_block [simp]: "length (fresh_block junk a b) = b - a"
  by (simp add: fresh_block_def)

lemma length_buf_bytes [simp]: "buf_wf b \<Longrightarrow> length (buf_bytes b) = buf_len b"
  by (auto simp: buf_wf_def buf_bytes_def)

lemma buf_wf_null [simp]: "buf_wf buffer_null"
  by (simp add: buf_wf_def buffer_null_def)

lemma buf_wf_balloc [simp]: "buf_wf (balloc junk n)"
  by (simp add: buf_wf_def balloc_def buffer_null_def)

lemma balloc_fields [buf_simps]:
  "buf_len (balloc junk n) = 0" "buf_idx (balloc junk n) = 0" "buf_capacity (balloc junk n) = n"
  "length (buf_data (balloc junk n)) = n"
  by (simp_all add: balloc_def buffer_null_def)

lemma brealloc_fields [buf_simps]:
  "buf_len (brealloc junk b l c) = buf_len b" "buf_idx (brealloc junk b l c) = buf_idx b"
  "buf_capacity (brealloc junk b l c) = max (buf_capacity b) (max l c)"
  by (auto simp: brealloc_def Let_def)

lemma brealloc_length:
  "length (buf_data b) = buf_capacity b \<Longrightarrow>
   length (buf_data (brealloc junk b l c)) = buf_capacity (brealloc junk b l c)"
  by (auto simp: brealloc_def Let_def)

lemma brealloc_prefix:
  assumes "length (buf_data b) = buf_capacity b" "n \<le> buf_capacity b"
  shows "take n (buf_data (brealloc junk b l c)) = take n (buf_data b)"
  using assms by (auto simp: brealloc_def Let_def)

lemma brealloc_window:
  assumes "length (buf_data b) = buf_capacity b" "i + n \<le> buf_capacity b"
  shows "take n (drop i (buf_data (brealloc junk b l c))) = take n (drop i (buf_data b))"
  using brealloc_prefix [OF assms, of junk l c] by (simp add: take_drop add.commute)

lemma brealloc_wf: "buf_wf b \<Longrightarrow> buf_wf (brealloc junk b l c)"
  by (auto simp: buf_wf_def brealloc_length buf_simps(5,6,7))

lemma brealloc_bytes: "buf_wf b \<Longrightarrow> buf_bytes (brealloc junk b l c) = buf_bytes b"
  by (simp add: buf_bytes_def buf_simps buf_wf_def brealloc_window)

lemma bfree_wf: "buf_wf (bfree b)"
  by (simp add: bfree_def buf_wf_def)

text \<open>
  \<open>bprepend\<close> on well-formed buffers never leaves a block, and the result holds the source's
  bytes followed by what the destination held.
\<close>

theorem bprepend_correct:
  assumes "buf_wf dst" "buf_wf src" "buf_idx dst = 0" "buf_idx src = 0"
  shows "\<exists>dst'. bprepend junk dst src capacity = Inr (buf_len dst + buf_len src, dst') \<and>
           buf_wf dst' \<and> buf_bytes dst' = buf_bytes src @ buf_bytes dst"
proof -
  let ?d = "brealloc junk dst (buf_len dst + buf_len src) capacity"
  let ?o = "take (buf_len dst) (buf_data ?d)"
  let ?n = "take (buf_len src) (buf_data src)"
  have l: "length (buf_data ?d) = buf_capacity ?d" "buf_len dst + buf_len src \<le> buf_capacity ?d"
    using assms(1) by (auto simp: brealloc_length buf_wf_def) (simp add: buf_simps)
  have o: "?o = take (buf_len dst) (buf_data dst)" "length ?o = buf_len dst"
    using assms(1) l by (auto simp: buf_wf_def intro: brealloc_prefix)
  have n: "length ?n = buf_len src" "buf_len src \<le> length (buf_data src)"
    using assms(2) by (auto simp: buf_wf_def)
  define rest where "rest = drop (buf_len src + buf_len dst) (buf_data ?d)"
  define dst' where "dst' = ?d\<lparr>buf_data := ?n @ ?o @ rest, buf_len := buf_len dst + buf_len src\<rparr>"
  have "bprepend junk dst src capacity = Inr (buf_len dst + buf_len src, dst')"
    using l o(2) n by (simp add: bprepend_def Let_def buf_simps dst'_def rest_def)
  moreover have "buf_wf dst'"
    using l o(2) n assms(3) by (auto simp: buf_wf_def dst'_def rest_def buf_simps)
  moreover have "buf_bytes dst' = buf_bytes src @ buf_bytes dst"
    using o n assms(3,4) by (simp add: buf_bytes_def dst'_def buf_simps)
  ultimately show ?thesis by blast
qed

theorem bprepend_correct_witness:
  "\<exists>dst'. bprepend (\<lambda>_. 9) \<lparr>buf_idx = 0, buf_len = 2, buf_capacity = 3, buf_data = [1, 2, 0]\<rparr>
            \<lparr>buf_idx = 0, buf_len = 2, buf_capacity = 2, buf_data = [7, 8]\<rparr> 3 = Inr (4, dst') \<and>
          buf_wf dst' \<and> buf_bytes dst' = [7, 8, 1, 2]"
  using bprepend_correct [of "\<lparr>buf_idx = 0, buf_len = 2, buf_capacity = 3, buf_data = [1, 2, 0]\<rparr>"
      "\<lparr>buf_idx = 0, buf_len = 2, buf_capacity = 2, buf_data = [7, 8]\<rparr>" "\<lambda>_. 9" 3]
  by (simp add: buf_wf_def buf_bytes_def)

end
