(* ===== verification/Udprelay.thy ===== *)
theory Udprelay
  imports Resolv Cache Buffer
begin

text \<open>
  The UDP relay of \<^verbatim>\<open>ss-server\<close> (\<^verbatim>\<open>src/udprelay.c\<close> as compiled with \<open>MODULE_REMOTE\<close>): a datagram of a
  client is decrypted, its header read, and its payload sent from a socket of the session; sessions
  (\<open>remote_ctx_t\<close>) are kept in the connection cache of the listening context (\<open>server_ctx_t\<close>), keyed by
  address family and client address, and are closed by their timer or by eviction.

  The heap is explicit as in \<open>Server\<close>. A \<open>sockaddr_storage\<close> is its 128 bytes of memory, read through
  \<open>sa_view\<close>; a packet, the host and port strings and the reply header are checked memory. The cache is
  the model of \<open>Cache\<close> with session addresses as its data; the free callback is applied to what a
  cache operation frees, in its order. Results of system calls are the input record \<open>uio\<close>; what
  leaves the process is recorded in \<open>up_trace\<close>. A name lookup is a pending \<open>query_ctx\<close> that the
  resolver answers once (\<open>Resolv\<close>); c-ares calling back inside \<open>resolv_start\<close> is the answer coming
  next, since \<open>server_recv_cb\<close> does nothing after it but free its packet.

  Left out: log messages, socket options, and the header and cache use of the clients (the
  \<open>MODULE_LOCAL\<close> branches). \<open>malloc\<close> in \<open>cache_insert\<close> succeeds.
\<close>

section \<open>State\<close>

record uremote =
  ur_io :: bool
  ur_timer :: bool
  ur_af :: nat
  ur_src :: bytes
  ur_dst :: bytes
  ur_server :: "nat option"

record userver =
  us_io :: bool
  us_timeout :: int
  us_cache :: "(nat, int) cache option"

record uquery =
  uq_src :: bytes
  uq_buf :: "buffer option"
  uq_addr_header_len :: nat
  uq_addr_header :: bytes
  uq_server :: "nat option"
  uq_remote :: "nat option"

datatype udp_out =
  To_remote nat bytes bytes
| To_client nat bytes bytes
| Asked nat bytes u16
| Closed_session nat
| Closed_listen nat

record 'w up =
  up_servers :: "nat \<Rightarrow> userver option"
  up_remotes :: "nat \<Rightarrow> uremote option"
  up_queries :: "nat \<Rightarrow> uquery option"
  up_list :: "nat list"
  up_next :: nat
  up_packet_size :: int
  up_buf_size :: int
  up_world :: 'w
  up_tx :: u64
  up_rx :: u64
  up_trace :: "udp_out list"

text \<open>
  \<open>ue_pton4\<close> is \<open>inet_pton\<close> with \<open>AF_INET\<close>; \<open>ue_bind_local\<close> is \<open>is_bind_local_addr\<close> and the families of
  \<open>local_addr_v4\<close> and \<open>local_addr_v6\<close>.
\<close>

record 'w uenv =
  ue_encrypt_all :: "'w \<Rightarrow> buffer \<Rightarrow> nat \<Rightarrow> (int \<times> buffer \<times> 'w) res"
  ue_decrypt_all :: "'w \<Rightarrow> buffer \<Rightarrow> nat \<Rightarrow> (int \<times> buffer \<times> 'w) res"
  ue_ip_parse :: ip_parse
  ue_pton4 :: "bytes \<Rightarrow> bytes option"
  ue_ntop :: "sockaddr \<Rightarrow> bytes"
  ue_hfind :: "(nat, int) hash_find"
  ue_bind_local :: bool
  ue_local4 :: nat
  ue_local6 :: nat
  ue_junk :: junk

record uio =
  uio_recv :: "(bytes \<times> bytes) option"
  uio_send :: bool
  uio_again :: bool
  uio_socket :: bool
  uio_bind :: bool
  uio_now :: int

definition AF_UNSPEC :: nat where "AF_UNSPEC = 0"
definition MAX_UDP_CONN_NUM :: nat where "MAX_UDP_CONN_NUM = 512"
definition PACKET_HEADER_SIZE :: nat where "PACKET_HEADER_SIZE = 1 + 28 + 2 + 64"
definition DEFAULT_PACKET_SIZE :: nat where "DEFAULT_PACKET_SIZE = 1397"
definition MAX_ADDR_HEADER_SIZE :: nat where "MAX_ADDR_HEADER_SIZE = 1 + 256 + 2"
definition UDP_MAX_HOSTNAME_LEN :: nat where "UDP_MAX_HOSTNAME_LEN = 256"
definition MAX_PORT_STR_LEN :: nat where "MAX_PORT_STR_LEN = 6"
definition MIN_UDP_TIMEOUT :: int where "MIN_UDP_TIMEOUT = 10"
definition STORAGE_SIZE :: nat where "STORAGE_SIZE = 128"

section \<open>Objects\<close>

definition get_uremote :: "'w up \<Rightarrow> nat \<Rightarrow> uremote res" where
  "get_uremote s rid = (case up_remotes s rid of Some r \<Rightarrow> Inr r | None \<Rightarrow> Inl Dangling)"

definition get_userver :: "'w up \<Rightarrow> nat option \<Rightarrow> (nat \<times> userver) res" where
  "get_userver s p =
     (case p of
        Some sid \<Rightarrow> (case up_servers s sid of Some sv \<Rightarrow> Inr (sid, sv) | None \<Rightarrow> Inl Dangling)
      | None \<Rightarrow> Inl Dangling)"

definition get_uquery :: "'w up \<Rightarrow> nat \<Rightarrow> uquery res" where
  "get_uquery s qid = (case up_queries s qid of Some q \<Rightarrow> Inr q | None \<Rightarrow> Inl Dangling)"

definition upd_uremote :: "nat \<Rightarrow> (uremote \<Rightarrow> uremote) \<Rightarrow> 'w up \<Rightarrow> 'w up res" where
  "upd_uremote rid f s =
     bindr (get_uremote s rid) (\<lambda>r. Inr (s\<lparr>up_remotes := (up_remotes s)(rid \<mapsto> f r)\<rparr>))"

definition set_cache :: "nat \<Rightarrow> (nat, int) cache option \<Rightarrow> 'w up \<Rightarrow> 'w up res" where
  "set_cache sid co s =
     bindr (get_userver s (Some sid)) (\<lambda>(_, sv). Inr (s\<lparr>up_servers := (up_servers s)(sid \<mapsto> sv\<lparr>us_cache := co\<rparr>)\<rparr>))"

definition utrace :: "udp_out \<Rightarrow> 'w up \<Rightarrow> 'w up" where
  "utrace e s = s\<lparr>up_trace := up_trace s @ [e]\<rparr>"

section \<open>Keys and headers\<close>

definition int32_le :: "nat \<Rightarrow> bytes" where
  "int32_le n = [of_nat n, of_nat (n div 2 ^ 8), of_nat (n div 2 ^ 16), of_nat (n div 2 ^ 24)]"

definition hash_key :: "nat \<Rightarrow> bytes \<Rightarrow> bytes" where
  "hash_key af addr = int32_le af @ addr"

definition construct_udprelay_header :: "bytes \<Rightarrow> bytes \<Rightarrow> (nat \<times> bytes) res" where
  "construct_udprelay_header in_addr addr_header =
     (if raw_family in_addr = AF_INET then
        bindr (mem_write addr_header 0 [1]) (\<lambda>h.
        bindr (mem_read in_addr 4 4) (\<lambda>a.
        bindr (mem_write h 1 a) (\<lambda>h.
        bindr (mem_read in_addr 2 2) (\<lambda>p.
        bindr (mem_write h 5 p) (\<lambda>h. Inr (7, h))))))
      else if raw_family in_addr = AF_INET6 then
        bindr (mem_write addr_header 0 [4]) (\<lambda>h.
        bindr (mem_read in_addr 8 16) (\<lambda>a.
        bindr (mem_write h 1 a) (\<lambda>h.
        bindr (mem_read in_addr 2 2) (\<lambda>p.
        bindr (mem_write h 17 p) (\<lambda>h. Inr (19, h))))))
      else Inr (0, addr_header))"

text \<open>
  \<open>parse_udprelay_header\<close> on the memory \<open>buf\<close> of a packet of \<open>len\<close> bytes. \<open>host\<close>, \<open>port\<close> and \<open>storage\<close>
  are the caller's memory, \<open>None\<close> for \<open>NULL\<close>; the result is the header's length, 0 on error, and that
  memory. \<open>put_addr\<close> writes family, port and address.
\<close>

definition put_addr :: "bytes option \<Rightarrow> nat \<Rightarrow> nat \<Rightarrow> bytes \<Rightarrow> bytes \<Rightarrow> bytes option res" where
  "put_addr storage af off addr port =
     (case storage of
        None \<Rightarrow> Inr None
      | Some m \<Rightarrow>
          bindr (mem_write m 0 (le16 af)) (\<lambda>m.
          bindr (mem_write m off addr) (\<lambda>m.
          bindr (mem_write m 2 port) (\<lambda>m. Inr (Some m)))))"

definition put_host :: "bytes option \<Rightarrow> bytes \<Rightarrow> bytes option res" where
  "put_host host s =
     (case host of None \<Rightarrow> Inr None | Some h \<Rightarrow> bindr (mem_write h 0 s) (\<lambda>h. Inr (Some h)))"

definition port_of :: "bytes \<Rightarrow> nat" where
  "port_of b = 256 * unat (b ! 0) + unat (b ! 1)"

definition put_port :: "bytes \<Rightarrow> nat \<Rightarrow> bytes option \<Rightarrow> bytes option res" where
  "put_port buf offset port =
     (case port of
        None \<Rightarrow> Inr None
      | Some m \<Rightarrow>
          bindr (mem_read buf offset 2) (\<lambda>p.
          bindr (mem_write m 0 (dec_str (port_of p) @ [0])) (\<lambda>m. Inr (Some m))))"

definition parse_domain_addr :: "'w uenv \<Rightarrow> bytes \<Rightarrow> nat \<Rightarrow> bytes option \<Rightarrow> bytes option res" where
  "parse_domain_addr E buf name_len storage =
     (case storage of
        None \<Rightarrow> Inr None
      | Some m \<Rightarrow>
          bindr (mem_read buf 2 name_len) (\<lambda>name.
          bindr (mem_write (replicate UDP_MAX_HOSTNAME_LEN 0) 0 name) (\<lambda>tmp.
            case ue_ip_parse E (c_str tmp) of
              None \<Rightarrow> Inr (Some m)
            | Some (V4 _) \<Rightarrow>
                bindr (case ue_pton4 E (c_str tmp) of Some a \<Rightarrow> mem_write m 4 a | None \<Rightarrow> Inr m) (\<lambda>m.
                bindr (mem_read buf (2 + name_len) 2) (\<lambda>p.
                bindr (mem_write m 2 p) (\<lambda>m.
                bindr (mem_write m 0 (le16 AF_INET)) (\<lambda>m. Inr (Some m)))))
            | Some (V6 _) \<Rightarrow>
                bindr (case ue_pton4 E (c_str tmp) of Some a \<Rightarrow> mem_write m 8 a | None \<Rightarrow> Inr m) (\<lambda>m.
                bindr (mem_read buf (2 + name_len) 2) (\<lambda>p.
                bindr (mem_write m 2 p) (\<lambda>m.
                bindr (mem_write m 0 (le16 AF_INET6)) (\<lambda>m. Inr (Some m))))))))"

definition parse_udprelay_header ::
    "'w uenv \<Rightarrow> bytes \<Rightarrow> nat \<Rightarrow> bytes option \<Rightarrow> bytes option \<Rightarrow> bytes option \<Rightarrow>
     (nat \<times> bytes option \<times> bytes option \<times> bytes option) res" where
  "parse_udprelay_header E buf len host port storage =
     bindr (mem_read buf 0 1) (\<lambda>t.
     let atyp = unat (hd t AND 0xF) in
     bindr
       (if atyp = 1 then
          if len \<ge> 4 + 3 then
            bindr (mem_read buf 1 4) (\<lambda>a.
            bindr (mem_read buf 5 2) (\<lambda>p.
            bindr (put_addr storage AF_INET 4 a p) (\<lambda>storage.
            bindr (put_host host (ue_ntop E (SIN 0 a) @ [0])) (\<lambda>host. Inr (5::nat, host, storage)))))
          else Inr (1, host, storage)
        else if atyp = 3 then
          bindr (mem_read buf 1 1) (\<lambda>l.
          let name_len = unat (hd l) in
          if name_len + 4 \<le> len then
            bindr (parse_domain_addr E buf name_len storage) (\<lambda>storage.
            bindr (mem_read buf 2 name_len) (\<lambda>name.
            bindr (put_host host name) (\<lambda>host. Inr (2 + name_len, host, storage))))
          else Inr (1, host, storage))
        else if atyp = 4 then
          if len \<ge> 16 + 3 then
            bindr (mem_read buf 1 16) (\<lambda>a.
            bindr (mem_read buf 17 2) (\<lambda>p.
            bindr (put_addr storage AF_INET6 8 a p) (\<lambda>storage.
            bindr (put_host host (ue_ntop E (SIN6 0 a) @ [0])) (\<lambda>host. Inr (17, host, storage)))))
          else Inr (1, host, storage)
        else Inr (1, host, storage))
       (\<lambda>(offset, host, storage).
          if offset = 1 then Inr (0, host, port, storage)
          else bindr (put_port buf offset port) (\<lambda>port. Inr (offset + 2, host, port, storage))))"

section \<open>Sessions\<close>

definition bind_remote :: "'w uenv \<Rightarrow> uio \<Rightarrow> nat \<Rightarrow> nat \<Rightarrow> bool res" where
  "bind_remote E io local_family af =
     (if ue_bind_local E then
        if local_family = af \<and> \<not> uio_bind io then Inl (Fatal ''[udp] cannot bind socket'') else Inr True
      else if \<not> uio_bind io then
        Inl (Fatal (if af = AF_INET6 then ''[udp] cannot bind socket'' else ''[udp] cannot bind remote''))
      else Inr True)"

definition create_remote_socket :: "'w uenv \<Rightarrow> uio \<Rightarrow> bool \<Rightarrow> bool res" where
  "create_remote_socket E io ipv6 =
     (if ipv6 then
        if \<not> uio_socket io then Inr False else bind_remote E io (ue_local6 E) AF_INET6
      else
        if \<not> uio_socket io then Inr False else bind_remote E io (ue_local4 E) AF_INET)"

definition udp_new_remote :: "nat \<Rightarrow> 'w up \<Rightarrow> nat \<times> 'w up" where
  "udp_new_remote sid s =
     (let rid = up_next s;
          r = \<lparr>ur_io = False, ur_timer = False, ur_af = AF_UNSPEC, ur_src = replicate STORAGE_SIZE 0,
               ur_dst = replicate STORAGE_SIZE 0, ur_server = Some sid\<rparr>
      in (rid, s\<lparr>up_next := rid + 1, up_remotes := (up_remotes s)(rid \<mapsto> r)\<rparr>))"

definition udp_close_and_free_remote :: "nat \<Rightarrow> 'w up \<Rightarrow> 'w up res" where
  "udp_close_and_free_remote rid s =
     bindr (upd_uremote rid (\<lambda>r. r\<lparr>ur_timer := False, ur_io := False\<rparr>) s) (\<lambda>s.
       let s = utrace (Closed_session rid) s in Inr (s\<lparr>up_remotes := (up_remotes s)(rid := None)\<rparr>))"

text \<open>\<open>free_cb\<close> on everything a cache operation frees.\<close>

fun udp_free_cbs :: "nat freed \<Rightarrow> 'w up \<Rightarrow> 'w up res" where
  "udp_free_cbs [] s = Inr s"
| "udp_free_cbs ((k, rid) # fs) s = bindr (udp_close_and_free_remote rid s) (udp_free_cbs fs)"

definition udp_cache_lookup :: "'w uenv \<Rightarrow> uio \<Rightarrow> nat \<Rightarrow> bytes \<Rightarrow> 'w up \<Rightarrow> (nat option \<times> 'w up) res" where
  "udp_cache_lookup E io sid key s =
     bindr (get_userver s (Some sid)) (\<lambda>(_, sv).
       let (_, co, d) = cache_lookup (ue_hfind E) (uio_now io) (us_cache sv) (Some key) True in
       bindr (set_cache sid co s) (\<lambda>s. Inr (d, s)))"

definition udp_cache_insert :: "uio \<Rightarrow> nat \<Rightarrow> bytes \<Rightarrow> nat \<Rightarrow> 'w up \<Rightarrow> 'w up res" where
  "udp_cache_insert io sid key rid s =
     bindr (get_userver s (Some sid)) (\<lambda>(_, sv).
       let (_, co, freed) = cache_insert True (uio_now io) (us_cache sv) key (Some rid) in
       bindr (set_cache sid co s) (udp_free_cbs freed))"

definition udp_cache_remove :: "'w uenv \<Rightarrow> nat \<Rightarrow> bytes \<Rightarrow> 'w up \<Rightarrow> 'w up res" where
  "udp_cache_remove E sid key s =
     bindr (get_userver s (Some sid)) (\<lambda>(_, sv).
       let (_, co, freed) = cache_remove (ue_hfind E) (us_cache sv) (Some key) in
       bindr (set_cache sid co s) (udp_free_cbs freed))"

definition udp_remote_timeout_cb :: "'w uenv \<Rightarrow> nat \<Rightarrow> 'w up \<Rightarrow> 'w up res" where
  "udp_remote_timeout_cb E rid s =
     bindr (get_uremote s rid) (\<lambda>r.
     bindr (get_userver s (ur_server r)) (\<lambda>(sid, _).
       udp_cache_remove E sid (hash_key (ur_af r) (ur_src r)) s))"

section \<open>Name lookups\<close>

definition new_query_ctx :: "junk \<Rightarrow> bytes \<Rightarrow> uquery res" where
  "new_query_ctx junk data =
     (let b = balloc junk (length data) in
      bindr (mem_write (buf_data b) 0 data) (\<lambda>d.
        Inr \<lparr>uq_src = replicate STORAGE_SIZE 0, uq_buf = Some (b\<lparr>buf_data := d, buf_len := length data\<rparr>),
             uq_addr_header_len = 0, uq_addr_header = replicate MAX_ADDR_HEADER_SIZE 0,
             uq_server = None, uq_remote = None\<rparr>))"

definition udp_resolv_free_cb :: "nat \<Rightarrow> 'w up \<Rightarrow> 'w up res" where
  "udp_resolv_free_cb qid s =
     bindr (get_uquery s qid) (\<lambda>_. Inr (s\<lparr>up_queries := (up_queries s)(qid := None)\<rparr>))"

text \<open>A session that was sent its first datagram goes into the cache and is watched.\<close>

definition udp_start_session :: "uio \<Rightarrow> nat \<Rightarrow> bytes \<Rightarrow> nat \<Rightarrow> 'w up \<Rightarrow> 'w up res" where
  "udp_start_session io sid key rid s =
     bindr (udp_cache_insert io sid key rid s)
       (upd_uremote rid (\<lambda>r. r\<lparr>ur_io := True, ur_timer := True\<rparr>))"

definition udp_resolv_send :: "uio \<Rightarrow> nat \<Rightarrow> bool \<Rightarrow> nat \<Rightarrow> bytes \<Rightarrow> uquery \<Rightarrow> 'w up \<Rightarrow> 'w up res" where
  "udp_resolv_send io sid cache_hit rid addr q s =
     bindr (get_uremote s rid) (\<lambda>r.
     bindr (mem_read addr 0 (if raw_family addr = AF_INET then 16 else 28)) (\<lambda>a.
     bindr (mem_write (ur_dst r) 0 a) (\<lambda>dst.
     bindr (upd_uremote rid (\<lambda>r. r\<lparr>ur_dst := dst\<rparr>) s) (\<lambda>s.
     bindr (case uq_buf q of Some b \<Rightarrow> mem_read (buf_data b) 0 (buf_len b) | None \<Rightarrow> Inl Dangling) (\<lambda>data.
       if \<not> uio_send io then
         if \<not> cache_hit then udp_close_and_free_remote rid s else Inr s
       else
         let s = utrace (To_remote rid addr data) s in
         if \<not> cache_hit then udp_start_session io sid (hash_key AF_UNSPEC (ur_src r)) rid s else Inr s)))))"

definition udp_resolv_cb :: "'w uenv \<Rightarrow> uio \<Rightarrow> bytes option \<Rightarrow> nat \<Rightarrow> 'w up \<Rightarrow> 'w up res" where
  "udp_resolv_cb E io addr qid s =
     bindr (get_uquery s qid) (\<lambda>q.
     bindr (get_userver s (uq_server q)) (\<lambda>(sid, _).
       case addr of
         None \<Rightarrow> Inr s
       | Some a \<Rightarrow>
           bindr (case uq_remote q of
                    Some rid \<Rightarrow> Inr (Some rid, s)
                  | None \<Rightarrow> udp_cache_lookup E io sid (hash_key AF_UNSPEC (uq_src q)) s) (\<lambda>(ro, s).
             case ro of
               Some rid \<Rightarrow> udp_resolv_send io sid True rid a q s
             | None \<Rightarrow>
                 bindr (create_remote_socket E io (raw_family a = AF_INET6)) (\<lambda>ok.
                   if ok then
                     let (rid, s) = udp_new_remote sid s in
                     bindr (upd_uremote rid (\<lambda>r. r\<lparr>ur_src := uq_src q, ur_server := Some sid\<rparr>) s)
                       (udp_resolv_send io sid False rid a q)
                   else Inr s))))"

definition udp_resolved :: "'w uenv \<Rightarrow> uio \<Rightarrow> bytes option \<Rightarrow> nat \<Rightarrow> 'w up \<Rightarrow> 'w up res" where
  "udp_resolved E io addr qid s =
     bindr (udp_resolv_cb E io addr qid s) (udp_resolv_free_cb qid)"

section \<open>Datagrams from the remote\<close>

text \<open>
  \<open>buf\<close> as \<open>recvfrom\<close> leaves it: fresh memory of \<open>buf_size\<close> bytes, the datagram at its start. A negative
  \<open>buf_size\<close> (an MTU below the header size) is a huge \<open>size_t\<close>, for which \<open>ss_malloc\<close> ends the process.
\<close>

definition recv_buf :: "junk \<Rightarrow> int \<Rightarrow> bytes \<Rightarrow> buffer res" where
  "recv_buf junk sz data =
     (if sz < 0 then Inl (Fatal ''Failed to allocate memory.'') else
      let b = balloc junk (nat sz) in
      bindr (mem_write (buf_data b) 0 data) (\<lambda>d. Inr (b\<lparr>buf_data := d, buf_len := length data\<rparr>)))"

text \<open>The packet moved back by the length of the header, which is put in front.\<close>

definition prepend_header :: "junk \<Rightarrow> buffer \<Rightarrow> nat \<Rightarrow> bytes \<Rightarrow> nat \<Rightarrow> buffer res" where
  "prepend_header junk b hlen header sz =
     (let b = brealloc junk b (buf_len b + hlen) sz in
      bindr (mem_read (buf_data b) 0 (buf_len b)) (\<lambda>old.
      bindr (mem_write (buf_data b) hlen old) (\<lambda>d.
      bindr (mem_read header 0 hlen) (\<lambda>h.
      bindr (mem_write d 0 h) (\<lambda>d.
        Inr (b\<lparr>buf_data := d, buf_len := buf_len b + hlen\<rparr>))))))"

definition udp_remote_recv_cb :: "'w uenv \<Rightarrow> uio \<Rightarrow> nat \<Rightarrow> 'w up \<Rightarrow> 'w up res" where
  "udp_remote_recv_cb E io rid s =
     bindr (get_uremote s rid) (\<lambda>r.
     if ur_server r = None then udp_close_and_free_remote rid s
     else
       bindr (get_userver s (ur_server r)) (\<lambda>(sid, sv).
       case uio_recv io of
         None \<Rightarrow> Inr s
       | Some (src, data) \<Rightarrow>
           bindr (recv_buf (ue_junk E) (up_buf_size s) data) (\<lambda>b.
           let s = s\<lparr>up_rx := up_rx s + of_nat (buf_len b)\<rparr> in
           bindr (construct_udprelay_header src (fresh_block (ue_junk E) 0 MAX_ADDR_HEADER_SIZE)) (\<lambda>(hlen, header).
           bindr (prepend_header (ue_junk E) b hlen header (nat (up_buf_size s))) (\<lambda>b.
           bindr (ue_encrypt_all E (up_world s) b (nat (up_buf_size s))) (\<lambda>(err, b, w).
           let s = s\<lparr>up_world := w\<rparr> in
           if err \<noteq> 0 then Inr s
           else
             bindr (mem_read (buf_data b) 0 (buf_len b)) (\<lambda>out.
             if \<not> uio_send io then
               if \<not> uio_again io then Inr s
               else upd_uremote rid (\<lambda>r. r\<lparr>ur_timer := True\<rparr>) s
             else upd_uremote rid (\<lambda>r. r\<lparr>ur_timer := True\<rparr>) (utrace (To_client sid (ur_src r) out) s))))))))"

section \<open>Datagrams from a client\<close>

text \<open>A numeric destination: the datagram leaves at once, from the session's socket or a new one.\<close>

definition udp_send_known :: "uio \<Rightarrow> nat \<Rightarrow> bool \<Rightarrow> nat \<Rightarrow> bytes \<Rightarrow> bytes \<Rightarrow> 'w up \<Rightarrow> 'w up res" where
  "udp_send_known io sid cache_hit rid dst data s =
     bindr (get_uremote s rid) (\<lambda>r.
       if \<not> uio_send io then
         if \<not> cache_hit then udp_close_and_free_remote rid s else Inr s
       else
         let s = utrace (To_remote rid dst data) s in
         if \<not> cache_hit then
           bindr (upd_uremote rid (\<lambda>r. r\<lparr>ur_af := raw_family dst\<rparr>) s)
             (udp_start_session io sid (hash_key (raw_family dst) (ur_src r)) rid)
         else Inr s)"

text \<open>A host name: the datagram waits in a \<open>query_ctx\<close> for the resolver.\<close>

definition udp_ask :: "'w uenv \<Rightarrow> nat \<Rightarrow> nat option \<Rightarrow> bytes \<Rightarrow> bytes \<Rightarrow> nat \<Rightarrow> bytes \<Rightarrow> bytes \<Rightarrow> bytes \<Rightarrow> 'w up \<Rightarrow> 'w up res" where
  "udp_ask E sid ro src buf hlen host port data s =
     bindr (new_query_ctx (ue_junk E) data) (\<lambda>q.
     bindr (mem_read buf 0 hlen) (\<lambda>h.
     bindr (mem_write (uq_addr_header q) 0 h) (\<lambda>h.
       let qid = up_next s;
           q = q\<lparr>uq_src := src, uq_addr_header_len := hlen, uq_addr_header := h, uq_server := Some sid, uq_remote := ro\<rparr>
       in Inr (utrace (Asked qid (c_str host) (htons (atoi (c_str port))))
                (s\<lparr>up_next := qid + 1, up_queries := (up_queries s)(qid \<mapsto> q)\<rparr>)))))"

definition udp_dispatch ::
    "'w uenv \<Rightarrow> uio \<Rightarrow> nat \<Rightarrow> nat option \<Rightarrow> bytes \<Rightarrow> buffer \<Rightarrow> nat \<Rightarrow> bytes \<Rightarrow> bytes \<Rightarrow> bytes \<Rightarrow> 'w up \<Rightarrow> 'w up res" where
  "udp_dispatch E io sid ro src b hlen host port dst s =
     bindr (mem_read (buf_data b) hlen (buf_len b - hlen)) (\<lambda>data.
       let known = (raw_family dst = AF_INET \<or> raw_family dst = AF_INET6) in
       case ro of
         Some rid \<Rightarrow>
           if known then udp_send_known io sid True rid dst data s
           else udp_ask E sid (Some rid) src (buf_data b) hlen host port data s
       | None \<Rightarrow>
           if known then
             bindr (create_remote_socket E io (raw_family dst = AF_INET6)) (\<lambda>ok.
               if ok then
                 let (rid, s) = udp_new_remote sid s in
                 bindr (upd_uremote rid (\<lambda>r. r\<lparr>ur_src := src, ur_server := Some sid, ur_dst := dst\<rparr>) s)
                   (udp_send_known io sid False rid dst data)
               else Inr s)
           else udp_ask E sid None src (buf_data b) hlen host port data s)"

definition udp_server_recv_cb :: "'w uenv \<Rightarrow> uio \<Rightarrow> nat \<Rightarrow> 'w up \<Rightarrow> 'w up res" where
  "udp_server_recv_cb E io sid s =
     bindr (get_userver s (Some sid)) (\<lambda>_.
     case uio_recv io of
       None \<Rightarrow> Inr s
     | Some (src, data) \<Rightarrow>
         bindr (recv_buf (ue_junk E) (up_buf_size s) data) (\<lambda>b.
         let s = s\<lparr>up_tx := up_tx s + of_nat (buf_len b)\<rparr> in
         bindr (ue_decrypt_all E (up_world s) b (nat (up_buf_size s))) (\<lambda>(err, b, w).
         let s = s\<lparr>up_world := w\<rparr> in
         if err \<noteq> 0 then Inr s
         else
           bindr (parse_udprelay_header E (buf_data b) (buf_len b) (Some (replicate UDP_MAX_HOSTNAME_LEN 0))
                    (Some (replicate MAX_PORT_STR_LEN 0)) (Some (replicate STORAGE_SIZE 0))) (\<lambda>(hlen, host, port, dst).
           let host = the host; port = the port; dst = the dst in
           if hlen = 0 then Inr s
           else
             bindr (udp_cache_lookup E io sid (hash_key (raw_family dst) src) s) (\<lambda>(ro, s).
             bindr (case ro of
                      None \<Rightarrow> Inr None
                    | Some rid \<Rightarrow>
                        bindr (get_uremote s rid) (\<lambda>r.
                          if sockaddr_cmp (sa_view src) (sa_view (ur_src r)) STORAGE_SIZE \<noteq> 0 then Inr None
                          else Inr (Some rid))) (\<lambda>ro.
             bindr (case ro of
                      None \<Rightarrow> Inr s
                    | Some rid \<Rightarrow> upd_uremote rid (\<lambda>r. r\<lparr>ur_timer := True\<rparr>) s)
               (udp_dispatch E io sid ro src b hlen host port dst)))))))"

section \<open>Starting, stopping, steps\<close>

definition init_udprelay :: "bool \<Rightarrow> int \<Rightarrow> int \<Rightarrow> 'w up \<Rightarrow> nat option \<times> 'w up" where
  "init_udprelay bound mtu timeout s =
     (let s = (if mtu > 0
               then s\<lparr>up_packet_size := mtu - int PACKET_HEADER_SIZE,
                      up_buf_size := (mtu - int PACKET_HEADER_SIZE) * 2\<rparr>
               else s)
      in if \<not> bound then (None, s)
         else
           let sid = up_next s;
               (_, co) = cache_create True True MAX_UDP_CONN_NUM;
               sv = \<lparr>us_io = True, us_timeout = max timeout MIN_UDP_TIMEOUT, us_cache = co\<rparr>
           in (Some sid, s\<lparr>up_next := sid + 1, up_servers := (up_servers s)(sid \<mapsto> sv), up_list := sid # up_list s\<rparr>))"

text \<open>\<open>free_udprelay\<close> takes the contexts from the end of \<open>server_ctx_list\<close>, which is the head of \<open>up_list\<close>.\<close>

fun free_contexts :: "nat list \<Rightarrow> 'w up \<Rightarrow> 'w up res" where
  "free_contexts [] s = Inr (s\<lparr>up_list := []\<rparr>)"
| "free_contexts (sid # sids) s =
     bindr (get_userver s (Some sid)) (\<lambda>(_, sv).
       let s = utrace (Closed_listen sid) s in
       bindr (udp_free_cbs (snd (cache_delete (us_cache sv) False)) s) (\<lambda>s.
         free_contexts sids (s\<lparr>up_servers := (up_servers s)(sid := None)\<rparr>)))"

definition free_udprelay :: "'w up \<Rightarrow> 'w up res" where
  "free_udprelay s = free_contexts (up_list s) s"

text \<open>\<open>recvfrom\<close> stores at most \<open>buf_size\<close> bytes and fills in the sender's address.\<close>

definition uio_ok :: "int \<Rightarrow> uio \<Rightarrow> bool" where
  "uio_ok sz io =
     (case uio_recv io of
        Some (src, data) \<Rightarrow> int (length data) \<le> max 0 sz \<and> length src = STORAGE_SIZE
      | None \<Rightarrow> True)"

text \<open>An answer of the resolver is one of the blocks \<open>Resolv\<close> builds.\<close>

definition answer_block :: "bytes \<Rightarrow> bool" where
  "answer_block a \<longleftrightarrow>
     raw_family a = AF_INET \<and> length a = 16 \<or> raw_family a = AF_INET6 \<and> length a = 28"

datatype uev =
  From_client uio nat
| From_remote uio nat
| Timeout nat
| Answered uio "bytes option" nat

fun uenabled :: "'w up \<Rightarrow> uev \<Rightarrow> bool" where
  "uenabled s (From_client io sid) =
     (uio_ok (up_buf_size s) io \<and> (case up_servers s sid of Some sv \<Rightarrow> us_io sv | None \<Rightarrow> False))"
| "uenabled s (From_remote io rid) =
     (uio_ok (up_buf_size s) io \<and> (case up_remotes s rid of Some r \<Rightarrow> ur_io r | None \<Rightarrow> False))"
| "uenabled s (Timeout rid) = (case up_remotes s rid of Some r \<Rightarrow> ur_timer r | None \<Rightarrow> False)"
| "uenabled s (Answered io a qid) = (pred_option answer_block a \<and> up_queries s qid \<noteq> None)"

fun uhandle :: "'w uenv \<Rightarrow> uev \<Rightarrow> 'w up \<Rightarrow> 'w up res" where
  "uhandle E (From_client io sid) s = udp_server_recv_cb E io sid s"
| "uhandle E (From_remote io rid) s = udp_remote_recv_cb E io rid s"
| "uhandle E (Timeout rid) s = udp_remote_timeout_cb E rid s"
| "uhandle E (Answered io a qid) s = udp_resolved E io a qid s"

definition up_start :: "'w \<Rightarrow> 'w up" where
  "up_start w =
     \<lparr>up_servers = Map.empty, up_remotes = Map.empty, up_queries = Map.empty, up_list = [], up_next = 0,
      up_packet_size = int DEFAULT_PACKET_SIZE, up_buf_size = int DEFAULT_PACKET_SIZE * 2, up_world = w, up_tx = 0,
      up_rx = 0, up_trace = []\<rparr>"

text \<open>The listening contexts of the command line: whether the socket could be bound, MTU and timeout.\<close>

fun usetup :: "(bool \<times> int \<times> int) list \<Rightarrow> 'w up \<Rightarrow> 'w up" where
  "usetup [] s = s"
| "usetup ((bound, mtu, timeout) # xs) s = usetup xs (snd (init_udprelay bound mtu timeout s))"

text \<open>A run, with the events so far.\<close>

inductive ureach :: "'w uenv \<Rightarrow> 'w up \<Rightarrow> uev list \<Rightarrow> 'w up \<Rightarrow> bool" for E s0 where
  ureach_start: "ureach E s0 [] s0"
| ureach_step: "ureach E s0 es s \<Longrightarrow> uenabled s e \<Longrightarrow> uhandle E e s = Inr s' \<Longrightarrow> ureach E s0 (es @ [e]) s'"

text \<open>The client addresses a context has received datagrams from.\<close>

definition heard :: "uev list \<Rightarrow> (nat \<times> bytes) set" where
  "heard es = {(sid, src). \<exists>io data. From_client io sid \<in> set es \<and> uio_recv io = Some (src, data)}"

end
