(* ===== verification/Udprelay_Inv.thy ===== *)
theory Udprelay_Inv
  imports Udprelay
begin

text \<open>
  The invariant of the UDP relay: every session is the datum of exactly one entry of its context's
  cache, under its own key, is watched, and belongs to an address the context heard from; each cache
  is below its capacity. \<open>uinv W H X U\<close> is the invariant in the middle of a callback: \<open>W\<close> is what
  holds of the cipher's world, \<open>H\<close> holds the pairs
  of contexts and client addresses heard so far, the sessions of \<open>X\<close> are in no cache, those of \<open>U\<close> not
  yet watched. A pending query may name a session that no longer exists: nothing the code does
  prevents it, and it is the one way the relay can follow a freed pointer.
\<close>

section \<open>The invariant\<close>

type_synonym uentry = "(nat, int) cache_entry"

definition entries :: "'w up \<Rightarrow> nat \<Rightarrow> uentry list" where
  "entries s sid =
     (case up_servers s sid of
        Some sv \<Rightarrow> (case us_cache sv of Some c \<Rightarrow> c_entries c | None \<Rightarrow> [])
      | None \<Rightarrow> [])"

definition entry_ok :: "'w up \<Rightarrow> nat \<Rightarrow> uentry \<Rightarrow> bool" where
  "entry_ok s sid e \<longleftrightarrow>
     (\<exists>rid r. ce_data e = Some rid \<and> up_remotes s rid = Some r \<and> ur_server r = Some sid \<and>
              ce_key e = hash_key (ur_af r) (ur_src r))"

definition cached :: "'w up \<Rightarrow> nat \<Rightarrow> bool" where
  "cached s rid \<longleftrightarrow> (\<exists>sid. \<exists>e \<in> set (entries s sid). ce_data e = Some rid)"

definition servers_ok :: "'w up \<Rightarrow> bool" where
  "servers_ok s \<longleftrightarrow>
     (\<forall>sid sv. up_servers s sid = Some sv \<longrightarrow> us_io sv \<and>
        (\<exists>es. us_cache sv = Some \<lparr>c_max_entries = MAX_UDP_CONN_NUM, c_entries = es\<rparr> \<and>
              length es < MAX_UDP_CONN_NUM \<and> distinct (map ce_key es) \<and> (\<forall>e \<in> set es. entry_ok s sid e)))"

definition remotes_ok :: "(nat \<times> bytes) set \<Rightarrow> nat set \<Rightarrow> nat set \<Rightarrow> 'w up \<Rightarrow> bool" where
  "remotes_ok H X U s \<longleftrightarrow>
     (\<forall>rid r. up_remotes s rid = Some r \<longrightarrow>
        rid < up_next s \<and> length (ur_src r) = STORAGE_SIZE \<and> length (ur_dst r) = STORAGE_SIZE \<and>
        (\<exists>sid. ur_server r = Some sid \<and> (sid, ur_src r) \<in> H \<and> up_servers s sid \<noteq> None) \<and>
        (cached s rid \<longleftrightarrow> rid \<notin> X) \<and> (rid \<notin> U \<longrightarrow> ur_io r \<and> ur_timer r))"

definition queries_ok :: "(nat \<times> bytes) set \<Rightarrow> 'w up \<Rightarrow> bool" where
  "queries_ok H s \<longleftrightarrow>
     (\<forall>qid q. up_queries s qid = Some q \<longrightarrow>
        qid < up_next s \<and> length (uq_src q) = STORAGE_SIZE \<and>
        (\<exists>b. uq_buf q = Some b \<and> buf_len b \<le> length (buf_data b)) \<and>
        (\<exists>sid. uq_server q = Some sid \<and> (sid, uq_src q) \<in> H \<and> up_servers s sid \<noteq> None))"

definition trace_ok :: "(nat \<times> bytes) set \<Rightarrow> 'w up \<Rightarrow> bool" where
  "trace_ok H s \<longleftrightarrow> (\<forall>sid a out. To_client sid a out \<in> set (up_trace s) \<longrightarrow> (sid, a) \<in> H)"

definition list_ok :: "'w up \<Rightarrow> bool" where
  "list_ok s \<longleftrightarrow> distinct (up_list s) \<and>
     (\<forall>sid. sid \<in> set (up_list s) \<longleftrightarrow> up_servers s sid \<noteq> None) \<and> (\<forall>sid \<in> set (up_list s). sid < up_next s)"

definition uinv :: "('w \<Rightarrow> bool) \<Rightarrow> (nat \<times> bytes) set \<Rightarrow> nat set \<Rightarrow> nat set \<Rightarrow> 'w up \<Rightarrow> bool" where
  "uinv W H X U s \<longleftrightarrow> servers_ok s \<and> remotes_ok H X U s \<and> queries_ok H s \<and> trace_ok H s \<and> list_ok s \<and> W (up_world s)"

text \<open>
  The outcome of a callback: it may end the process deliberately, and, only if \<open>stale\<close>, follow a
  freed pointer; otherwise it ends in a state with \<open>Q\<close>.
\<close>

definition uok :: "bool \<Rightarrow> ('a \<Rightarrow> bool) \<Rightarrow> 'a res \<Rightarrow> bool" where
  "uok stale Q m =
     (case m of
        Inr x \<Rightarrow> Q x
      | Inl (Fatal _) \<Rightarrow> True
      | Inl Dangling \<Rightarrow> stale
      | Inl _ \<Rightarrow> False)"

lemma uok_simps [simp]:
  "uok st Q (Inr x) = Q x" "uok st Q (Inl (Fatal f))" "uok st Q (Inl Dangling) = st"
  "\<not> uok st Q (Inl Out_of_bounds)" "\<not> uok st Q (Inl Assert_fail)" "\<not> uok st Q (Inl Div_by_zero)"
  by (simp_all add: uok_def)

lemma uok_bind: "uok st Q m \<Longrightarrow> (\<And>x. Q x \<Longrightarrow> uok st R (f x)) \<Longrightarrow> uok st R (bindr m f)"
  by (cases m) (auto simp: uok_def split: fault.splits)

lemma uok_mono: "uok st Q m \<Longrightarrow> (st \<Longrightarrow> st') \<Longrightarrow> (\<And>x. Q x \<Longrightarrow> R x) \<Longrightarrow> uok st' R m"
  by (auto simp: uok_def split: sum.splits fault.splits)

section \<open>Reading objects\<close>

lemma get_uremote_Inr [simp]: "up_remotes s rid = Some r \<Longrightarrow> get_uremote s rid = Inr r"
  by (simp add: get_uremote_def)

lemma get_userver_Inr [simp]: "up_servers s sid = Some sv \<Longrightarrow> get_userver s (Some sid) = Inr (sid, sv)"
  by (simp add: get_userver_def)

lemma get_uquery_Inr [simp]: "up_queries s qid = Some q \<Longrightarrow> get_uquery s qid = Inr q"
  by (simp add: get_uquery_def)

lemma upd_uremote_Inr [simp]:
  "up_remotes s rid = Some r \<Longrightarrow> upd_uremote rid f s = Inr (s\<lparr>up_remotes := (up_remotes s)(rid \<mapsto> f r)\<rparr>)"
  by (simp add: upd_uremote_def)

lemma set_cache_Inr [simp]:
  "up_servers s sid = Some sv \<Longrightarrow>
   set_cache sid co s = Inr (s\<lparr>up_servers := (up_servers s)(sid \<mapsto> sv\<lparr>us_cache := co\<rparr>)\<rparr>)"
  by (simp add: set_cache_def)

lemma uinv_server:
  assumes "uinv W H X U s" "up_servers s sid = Some sv"
  obtains es where "us_cache sv = Some \<lparr>c_max_entries = MAX_UDP_CONN_NUM, c_entries = es\<rparr>"
    "entries s sid = es" "length es < MAX_UDP_CONN_NUM" "distinct (map ce_key es)" "\<And>e. e \<in> set es \<Longrightarrow> entry_ok s sid e"
    "us_io sv"
  using assms unfolding uinv_def servers_ok_def entries_def by force

lemma uinv_remote:
  assumes "uinv W H X U s" "up_remotes s rid = Some r"
  obtains sid sv where "ur_server r = Some sid" "up_servers s sid = Some sv" "(sid, ur_src r) \<in> H"
    "rid < up_next s" "length (ur_src r) = STORAGE_SIZE" "length (ur_dst r) = STORAGE_SIZE"
    "cached s rid \<longleftrightarrow> rid \<notin> X" "rid \<notin> U \<longrightarrow> ur_io r \<and> ur_timer r"
  using assms unfolding uinv_def remotes_ok_def by blast

lemma uinv_query:
  assumes "uinv W H X U s" "up_queries s qid = Some q"
  obtains sid sv b where "uq_server q = Some sid" "up_servers s sid = Some sv" "(sid, uq_src q) \<in> H"
    "qid < up_next s" "length (uq_src q) = STORAGE_SIZE" "uq_buf q = Some b" "buf_len b \<le> length (buf_data b)"
  using assms unfolding uinv_def queries_ok_def by blast

lemma uinv_entry:
  assumes "uinv W H X U s" "e \<in> set (entries s sid)"
  obtains rid r sv where "ce_data e = Some rid" "up_remotes s rid = Some r" "ur_server r = Some sid"
    "ce_key e = hash_key (ur_af r) (ur_src r)" "up_servers s sid = Some sv" "rid \<notin> X"
proof -
  obtain sv where sv: "up_servers s sid = Some sv"
    using assms(2) by (cases "up_servers s sid") (auto simp: entries_def)
  obtain es where es: "entries s sid = es" "\<And>e. e \<in> set es \<Longrightarrow> entry_ok s sid e"
    using uinv_server [OF assms(1) sv] by metis
  obtain rid r where r: "ce_data e = Some rid" "up_remotes s rid = Some r" "ur_server r = Some sid"
    "ce_key e = hash_key (ur_af r) (ur_src r)"
    using es assms(2) unfolding entry_ok_def by blast
  have "cached s rid" using assms(2) r(1) by (auto simp: cached_def)
  then have "rid \<notin> X" using uinv_remote [OF assms(1) r(2)] by metis
  then show ?thesis using that r sv by blast
qed

text \<open>Two entries for one session are the same entry.\<close>

lemma uinv_entry_unique:
  assumes i: "uinv W H X U s" and e: "e \<in> set (entries s sid)" "e' \<in> set (entries s sid')" "ce_data e = ce_data e'"
  shows "sid' = sid \<and> e' = e"
proof -
  obtain rid r sv where r: "ce_data e = Some rid" "up_remotes s rid = Some r" "ur_server r = Some sid"
    "ce_key e = hash_key (ur_af r) (ur_src r)" "up_servers s sid = Some sv"
    by (rule uinv_entry [OF i e(1)]) blast
  obtain rid' r' sv' where r': "ce_data e' = Some rid'" "up_remotes s rid' = Some r'" "ur_server r' = Some sid'"
    "ce_key e' = hash_key (ur_af r') (ur_src r')"
    by (rule uinv_entry [OF i e(2)]) blast
  have *: "sid' = sid" "ce_key e' = ce_key e" using r r' e(3) by auto
  obtain es where "entries s sid = es" "distinct (map ce_key es)"
    using uinv_server [OF i r(5)] by metis
  then have "e' = e" using * e by (auto simp: distinct_map dest: inj_onD)
  then show ?thesis using * by simp
qed

section \<open>Closing sessions\<close>

lemma entries_remotes [simp]: "entries (s\<lparr>up_remotes := R\<rparr>) sid = entries s sid"
  and entries_queries [simp]: "entries (s\<lparr>up_queries := Q\<rparr>) sid = entries s sid"
  and entries_trace [simp]: "entries (s\<lparr>up_trace := T\<rparr>) sid = entries s sid"
  and entries_next [simp]: "entries (s\<lparr>up_next := n\<rparr>) sid = entries s sid"
  by (simp_all add: entries_def)

lemma cached_simps [simp]:
  "cached (s\<lparr>up_remotes := R\<rparr>) rid = cached s rid" "cached (s\<lparr>up_queries := Q\<rparr>) rid = cached s rid"
  "cached (s\<lparr>up_trace := T\<rparr>) rid = cached s rid" "cached (s\<lparr>up_next := n\<rparr>) rid = cached s rid"
  by (simp_all add: cached_def)

lemma servers_ok_entries:
  assumes "servers_ok s" "up_servers s' = up_servers s"
    "\<And>sid e. e \<in> set (entries s sid) \<Longrightarrow> entry_ok s' sid e"
  shows "servers_ok s'"
  using assms unfolding servers_ok_def entries_def by force

text \<open>What a closed session leaves behind.\<close>

definition closed_state :: "nat \<Rightarrow> 'w up \<Rightarrow> 'w up" where
  "closed_state rid s = s\<lparr>up_remotes := (up_remotes s)(rid := None), up_trace := up_trace s @ [Closed_session rid]\<rparr>"

lemma close_eq:
  "up_remotes s rid = Some r \<Longrightarrow> udp_close_and_free_remote rid s = Inr (closed_state rid s)"
  by (simp add: udp_close_and_free_remote_def utrace_def closed_state_def)

lemma closed_inv:
  assumes i: "uinv W H (insert rid X) U s"
  shows "uinv W H X U (closed_state rid s)"
proof -
  have e: "entry_ok (closed_state rid s) sid e" if in_c: "e \<in> set (entries s sid)" for sid e
  proof -
    obtain p r where "ce_data e = Some p" "up_remotes s p = Some r" "ur_server r = Some sid"
      "ce_key e = hash_key (ur_af r) (ur_src r)" "p \<noteq> rid"
      by (rule uinv_entry [OF i in_c]) blast
    then show ?thesis by (simp add: entry_ok_def closed_state_def)
  qed
  have "servers_ok (closed_state rid s)"
    by (rule servers_ok_entries [of s]) (use i e in \<open>auto simp: uinv_def closed_state_def\<close>)
  moreover have "remotes_ok H X U (closed_state rid s)"
    using i unfolding uinv_def remotes_ok_def closed_state_def by (auto simp: cached_def)
  ultimately show ?thesis
    using i by (auto simp: uinv_def queries_ok_def trace_ok_def list_ok_def closed_state_def)
qed

lemma free_cbs_inv:
  assumes "uinv W H (set (map snd fs) \<union> X) U s" "distinct (map snd fs)" "\<forall>rid \<in> set (map snd fs). up_remotes s rid \<noteq> None"
    "set (map snd fs) \<inter> X = {}"
  shows "\<exists>s'. udp_free_cbs fs s = Inr s' \<and> uinv W H X U s' \<and>
    up_remotes s' = (\<lambda>rid. if rid \<in> set (map snd fs) then None else up_remotes s rid) \<and>
    up_servers s' = up_servers s \<and> up_queries s' = up_queries s \<and> up_next s' = up_next s \<and>
    up_trace s' = up_trace s @ map (Closed_session \<circ> snd) fs"
  using assms
proof (induction fs arbitrary: s)
  case (Cons f fs)
  obtain k rid where f: "f = (k, rid)" by (cases f)
  then obtain r where r: "up_remotes s rid = Some r" using Cons.prems(3) by auto
  have i: "uinv W H (set (map snd fs) \<union> X) U (closed_state rid s)"
    using Cons.prems(1) f by (intro closed_inv) simp
  have "rid \<notin> set (map snd fs)" "\<forall>p \<in> set (map snd fs). up_remotes (closed_state rid s) p \<noteq> None"
    using Cons.prems(2,3) f by (auto simp: closed_state_def)
  then obtain s' where "udp_free_cbs fs (closed_state rid s) = Inr s'" "uinv W H X U s'"
    "up_remotes s' = (\<lambda>p. if p \<in> set (map snd fs) then None else up_remotes (closed_state rid s) p)"
    "up_servers s' = up_servers s" "up_queries s' = up_queries s" "up_next s' = up_next s"
    "up_trace s' = up_trace (closed_state rid s) @ map (Closed_session \<circ> snd) fs"
    using Cons.IH [OF i] Cons.prems(2,4) by (auto simp: closed_state_def)
  then show ?case using f r by (auto simp: close_eq closed_state_def fun_eq_iff)
qed (auto simp: fun_eq_iff)

section \<open>Using the cache\<close>

definition with_entries :: "nat \<Rightarrow> userver \<Rightarrow> uentry list \<Rightarrow> 'w up \<Rightarrow> 'w up" where
  "with_entries sid sv es s =
     s\<lparr>up_servers := (up_servers s)(sid \<mapsto>
         sv\<lparr>us_cache := Some \<lparr>c_max_entries = MAX_UDP_CONN_NUM, c_entries = es\<rparr>\<rparr>)\<rparr>"

lemma with_entries_simps [simp]:
  "up_remotes (with_entries sid sv es s) = up_remotes s" "up_queries (with_entries sid sv es s) = up_queries s"
  "up_next (with_entries sid sv es s) = up_next s" "up_trace (with_entries sid sv es s) = up_trace s"
  "up_world (with_entries sid sv es s) = up_world s" "up_buf_size (with_entries sid sv es s) = up_buf_size s"
  "up_list (with_entries sid sv es s) = up_list s"
  "up_servers (with_entries sid sv es s) p = None \<longleftrightarrow> p \<noteq> sid \<and> up_servers s p = None"
  "entries (with_entries sid sv es s) p = (if p = sid then es else entries s p)"
  "entry_ok (with_entries sid sv es s) p e = entry_ok s p e"
  by (auto simp: with_entries_def entries_def entry_ok_def)

text \<open>Replacing the entries of a cache: the sessions that go become the ones in no cache.\<close>

lemma with_entries_inv:
  assumes i: "uinv W H X U s" and sv: "up_servers s sid = Some sv"
    and es: "length es < MAX_UDP_CONN_NUM" "distinct (map ce_key es)" "\<And>e. e \<in> set es \<Longrightarrow> entry_ok s sid e"
    and X: "\<And>rid. up_remotes s rid \<noteq> None \<Longrightarrow>
        rid \<in> X' \<longleftrightarrow> (rid \<in> X \<or> (\<exists>e \<in> set (entries s sid). ce_data e = Some rid)) \<and> (\<forall>e \<in> set es. ce_data e \<noteq> Some rid)"
  shows "uinv W H X' U (with_entries sid sv es s)"
proof -
  let ?s = "with_entries sid sv es s"
  have "us_io sv" using uinv_server [OF i sv] by metis
  then have "servers_ok ?s"
    using i es unfolding uinv_def servers_ok_def
    by (auto simp: with_entries_def entry_ok_def cong: conj_cong) (metis (no_types, lifting))?
  moreover have "remotes_ok H X' U ?s"
  proof -
    have "cached ?s rid \<longleftrightarrow> rid \<notin> X'" if r: "up_remotes s rid = Some r" for rid r
    proof -
      have c: "cached s rid \<longleftrightarrow> rid \<notin> X" using uinv_remote [OF i r] by metis
      have "cached ?s rid \<longleftrightarrow> (\<exists>e \<in> set es. ce_data e = Some rid) \<or> (\<exists>p. p \<noteq> sid \<and> (\<exists>e \<in> set (entries s p). ce_data e = Some rid))"
        by (auto simp: cached_def split: if_splits)
      moreover have "\<not> (\<exists>e \<in> set (entries s sid). ce_data e = Some rid)"
        if "p \<noteq> sid" "e \<in> set (entries s p)" "ce_data e = Some rid" for p e
        using uinv_entry_unique [OF i that(2), of _ sid] that by metis
      ultimately show ?thesis using X [of rid] r c unfolding cached_def by (metis option.distinct(1))
    qed
    then show ?thesis using i unfolding uinv_def remotes_ok_def by (simp del: not_None_eq) blast
  qed
  moreover have "list_ok ?s" using i sv by (auto simp: uinv_def list_ok_def)
  moreover have "queries_ok H ?s"
    using i unfolding uinv_def queries_ok_def by (simp del: not_None_eq) blast
  ultimately show ?thesis using i by (simp add: uinv_def trace_ok_def)
qed

definition kd :: "uentry \<Rightarrow> bytes \<times> nat option" where
  "kd e = (ce_key e, ce_data e)"

lemma entry_ok_kd: "kd e = kd e' \<Longrightarrow> entry_ok s sid e = entry_ok s sid e'"
  by (simp add: kd_def entry_ok_def)

lemma kd_perm:
  assumes "mset (map kd es') = mset (map kd es)"
  shows "length es' = length es" "distinct (map ce_key es') = distinct (map ce_key es)"
    "(\<forall>e \<in> set es'. entry_ok s sid e) = (\<forall>e \<in> set es. entry_ok s sid e)"
    "(\<exists>e \<in> set es'. ce_data e = d) = (\<exists>e \<in> set es. ce_data e = d)"
    "ce_key ` set es' = ce_key ` set es"
proof -
  have s: "kd ` set es' = kd ` set es" using mset_eq_setD [OF assms] by simp
  show "length es' = length es" using mset_eq_length [OF assms] by simp
  have m: "mset (map ce_key es') = mset (map ce_key es)"
    using arg_cong [OF assms, of "image_mset fst"] by (simp add: kd_def image_mset.compositionality comp_def)
  then show "distinct (map ce_key es') = distinct (map ce_key es)" by (rule mset_eq_imp_distinct_iff)
  show "ce_key ` set es' = ce_key ` set es" using mset_eq_setD [OF m] by simp
  have sub: "\<exists>e' \<in> set bs. kd e' = kd e" if "kd ` set as = kd ` set bs" "e \<in> set as" for as bs e
    using that by (metis image_iff)
  show "(\<forall>e \<in> set es'. entry_ok s sid e) = (\<forall>e \<in> set es. entry_ok s sid e)"
    using sub [OF s] sub [OF s [symmetric]] entry_ok_kd by metis
  show "(\<exists>e \<in> set es'. ce_data e = d) = (\<exists>e \<in> set es. ce_data e = d)"
    using sub [OF s] sub [OF s [symmetric]] unfolding kd_def by (metis prod.inject)
qed

lemma kd_touch: "i < length es \<Longrightarrow> mset (map kd (cache_touch now es i)) = mset (map kd es)"
  by (subst (3) id_take_nth_drop [of i]) (auto simp: cache_touch_def hash_del_def kd_def)

lemma hash_key_inj: "length a = length b \<Longrightarrow> hash_key x a = hash_key y b \<Longrightarrow> a = b"
  by (simp add: hash_key_def)

lemma with_entries_perm:
  assumes i: "uinv W H X U s" and sv: "up_servers s sid = Some sv" and m: "mset (map kd es) = mset (map kd (entries s sid))"
  shows "uinv W H X U (with_entries sid sv es s)"
proof -
  obtain es0 where e: "entries s sid = es0" and l: "length es0 < MAX_UDP_CONN_NUM" and d: "distinct (map ce_key es0)"
    and ok: "\<And>e. e \<in> set es0 \<Longrightarrow> entry_ok s sid e"
    by (rule uinv_server [OF i sv]) blast
  note k = kd_perm [OF m [unfolded e]]
  have n: "rid \<notin> X" if "\<exists>e \<in> set es0. ce_data e = Some rid" for rid
    using that e uinv_entry [OF i, of _ sid] by (metis option.inject)
  show ?thesis
  proof (rule with_entries_inv [OF i sv])
    show "length es < MAX_UDP_CONN_NUM" "distinct (map ce_key es)" using k(1,2) l d by simp_all
    show "entry_ok s sid x" if "x \<in> set es" for x using k(3) [of s sid] ok that by blast
    show "rid \<in> X \<longleftrightarrow> (rid \<in> X \<or> (\<exists>e \<in> set (entries s sid). ce_data e = Some rid)) \<and> (\<forall>e \<in> set es. ce_data e \<noteq> Some rid)" for rid
      using k(4) [of "Some rid"] n [of rid] e by auto
  qed
qed

text \<open>A lookup finds the session with the key, if there is one, and changes nothing else.\<close>

lemma lookup_inv:
  assumes f: "hash_find_ok (ue_hfind E)" and i: "uinv W H X U s" and sv: "up_servers s sid = Some sv"
  shows "\<exists>d es. udp_cache_lookup E io sid key s = Inr (d, with_entries sid sv es s) \<and>
    uinv W H X U (with_entries sid sv es s) \<and>
    (case d of
       Some rid \<Rightarrow> \<exists>r. up_remotes s rid = Some r \<and> ur_server r = Some sid \<and> key = hash_key (ur_af r) (ur_src r) \<and> rid \<notin> X
     | None \<Rightarrow> key \<notin> ce_key ` set es)"
proof -
  obtain es where c: "us_cache sv = Some \<lparr>c_max_entries = MAX_UDP_CONN_NUM, c_entries = es\<rparr>" and e: "entries s sid = es"
    and l: "length es < MAX_UDP_CONN_NUM" and d: "distinct (map ce_key es)" and ok: "\<And>e. e \<in> set es \<Longrightarrow> entry_ok s sid e"
    by (rule uinv_server [OF i sv]) blast
  have same: "uinv W H X U (with_entries sid sv es' s)" if "mset (map kd es') = mset (map kd es)" for es'
    using with_entries_perm [OF i sv] that e by simp
  show ?thesis
  proof (cases "ue_hfind E es key")
    case None
    then have "udp_cache_lookup E io sid key s = Inr (None, with_entries sid sv es s)"
      using sv c by (simp add: udp_cache_lookup_def cache_lookup_def with_entries_def)
    then show ?thesis using same [of es] hash_find_None [OF f, of es key] None by auto
  next
    case (Some j)
    have j: "j < length es" "ce_key (es ! j) = key" using hash_find_Some [OF f Some] by auto
    let ?es = "cache_touch (uio_now io) es j"
    obtain rid r where r: "ce_data (es ! j) = Some rid" "up_remotes s rid = Some r" "ur_server r = Some sid"
      "ce_key (es ! j) = hash_key (ur_af r) (ur_src r)" "rid \<notin> X"
      by (rule uinv_entry [OF i, of "es ! j" sid]) (use e j in auto)
    have "udp_cache_lookup E io sid key s = Inr (Some rid, with_entries sid sv ?es s)"
      using sv c Some r(1) by (simp add: udp_cache_lookup_def cache_lookup_def with_entries_def)
    then show ?thesis using same [OF kd_touch [OF j(1)]] r j(2) by auto
  qed
qed

text \<open>Removing an entry closes its session.\<close>

lemma remove_inv:
  assumes f: "hash_find_ok (ue_hfind E)" and i: "uinv W H {} U s" and sv: "up_servers s sid = Some sv"
  shows "\<exists>s'. udp_cache_remove E sid key s = Inr s' \<and> uinv W H {} U s'"
proof -
  obtain es where c: "us_cache sv = Some \<lparr>c_max_entries = MAX_UDP_CONN_NUM, c_entries = es\<rparr>" and e: "entries s sid = es"
    and l: "length es < MAX_UDP_CONN_NUM" and d: "distinct (map ce_key es)" and ok: "\<And>e. e \<in> set es \<Longrightarrow> entry_ok s sid e"
    by (rule uinv_server [OF i sv]) blast
  show ?thesis
  proof (cases "ue_hfind E es key")
    case None
    have "uinv W H {} U (with_entries sid sv es s)"
      by (rule with_entries_inv [OF i sv l d ok]) (use e in auto)
    moreover have "udp_cache_remove E sid key s = Inr (with_entries sid sv es s)"
      using sv c None by (simp add: udp_cache_remove_def cache_remove_def with_entries_def)
    ultimately show ?thesis by blast
  next
    case (Some j)
    have j: "j < length es" using hash_find_Some [OF f Some] by auto
    define e0 es' where "e0 = es ! j" and "es' = hash_del es j"
    have split: "es = take j es @ e0 # drop (Suc j) es" unfolding e0_def using j by (rule id_take_nth_drop)
    have mem: "set es = insert e0 (set es')" unfolding es'_def hash_del_def by (subst split) simp
    have dk: "distinct (map ce_key (take j es @ e0 # drop (Suc j) es))" using d split by simp
    have dd: "distinct (map ce_key es')" "ce_key e0 \<notin> ce_key ` set es'"
      using dk unfolding es'_def hash_del_def by auto
    obtain rid r where r: "ce_data e0 = Some rid" "up_remotes s rid = Some r"
      by (rule uinv_entry [OF i, of e0 sid]) (use e mem in auto)
    have gone: "ce_data x \<noteq> Some rid" if x: "x \<in> set es'" for x
    proof
      assume "ce_data x = Some rid"
      then have "x = e0" using uinv_entry_unique [OF i, of e0 sid x sid] e mem x r(1) by auto
      then show False using dd(2) x by auto
    qed
    have inv: "uinv W H {rid} U (with_entries sid sv es' s)"
    proof (rule with_entries_inv [OF i sv _ dd(1)])
      show "length es' < MAX_UDP_CONN_NUM" using l j by (simp add: es'_def length_hash_del)
      show "entry_ok s sid x" if "x \<in> set es'" for x using ok mem that by blast
      show "p \<in> {rid} \<longleftrightarrow> (p \<in> {} \<or> (\<exists>x \<in> set (entries s sid). ce_data x = Some p)) \<and> (\<forall>x \<in> set es'. ce_data x \<noteq> Some p)" for p
        unfolding e mem using r(1) gone by auto
    qed
    have "udp_cache_remove E sid key s = udp_free_cbs [(ce_key e0, rid)] (with_entries sid sv es' s)"
      using sv c Some r(1) by (simp add: udp_cache_remove_def cache_remove_def with_entries_def cache_free_data_def e0_def es'_def)
    moreover have "\<exists>s'. udp_free_cbs [(ce_key e0, rid)] (with_entries sid sv es' s) = Inr s' \<and> uinv W H {} U s'"
      using free_cbs_inv [of W H "[(ce_key e0, rid)]" "{}" U "with_entries sid sv es' s"] inv r(2) by auto
    ultimately show ?thesis by metis
  qed
qed

section \<open>Starting sessions\<close>

lemma watch_inv:
  assumes i: "uinv W H X (insert rid U) s" and r: "up_remotes s rid = Some r"
  shows "uinv W H X U (s\<lparr>up_remotes := (up_remotes s)(rid \<mapsto> r\<lparr>ur_io := True, ur_timer := True\<rparr>)\<rparr>)"
proof -
  let ?s = "s\<lparr>up_remotes := (up_remotes s)(rid \<mapsto> r\<lparr>ur_io := True, ur_timer := True\<rparr>)\<rparr>"
  have "servers_ok ?s"
  proof (rule servers_ok_entries [of s])
    show "entry_ok ?s sid e" if in_c: "e \<in> set (entries s sid)" for sid e
      by (rule uinv_entry [OF i in_c]) (use r in \<open>auto simp: entry_ok_def\<close>)
  qed (use i in \<open>auto simp: uinv_def\<close>)
  moreover have "remotes_ok H X U ?s"
    using i r unfolding uinv_def remotes_ok_def by (simp del: not_None_eq)
  ultimately show ?thesis using i by (simp add: uinv_def queries_ok_def trace_ok_def list_ok_def)
qed

lemma start_session_inv:
  assumes i: "uinv W H {rid} {rid} s" and sv: "up_servers s sid = Some sv"
    and r: "up_remotes s rid = Some r" "ur_server r = Some sid"
    and key: "key = hash_key (ur_af r) (ur_src r)" "key \<notin> ce_key ` set (entries s sid)"
  shows "\<exists>s' cl. udp_start_session io sid key rid s = Inr s' \<and> uinv W H {} {} s' \<and>
           up_queries s' = up_queries s \<and> up_remotes s' rid = Some (r\<lparr>ur_io := True, ur_timer := True\<rparr>) \<and>
           up_trace s' = up_trace s @ map Closed_session cl"
proof -
  obtain es where c: "us_cache sv = Some \<lparr>c_max_entries = MAX_UDP_CONN_NUM, c_entries = es\<rparr>" and e: "entries s sid = es"
    and l: "length es < MAX_UDP_CONN_NUM" and d: "distinct (map ce_key es)" and ok: "\<And>e. e \<in> set es \<Longrightarrow> entry_ok s sid e"
    by (rule uinv_server [OF i sv]) blast
  let ?new = "\<lparr>ce_key = key, ce_data = Some rid, ce_ts = uio_now io\<rparr> :: uentry"
  have new: "entry_ok s sid ?new" using r key(1) by (simp add: entry_ok_def)
  have nr: "ce_data x \<noteq> Some rid" if "x \<in> set es" for x
    using uinv_entry [OF i, of x sid] e that by (metis insertI1 option.inject)
  have data: "\<exists>p. ce_data x = Some p \<and> up_remotes s p \<noteq> None" if "x \<in> set es" for x
    using ok [OF that] by (auto simp: entry_ok_def)
  obtain fs es' where ins: "udp_cache_insert io sid key rid s = udp_free_cbs fs (with_entries sid sv es' s)"
    and inv: "uinv W H (set (map snd fs)) {rid} (with_entries sid sv es' s)"
    and fs: "distinct (map snd fs)" "\<forall>p \<in> set (map snd fs). up_remotes s p \<noteq> None" "rid \<notin> set (map snd fs)"
  proof (cases "length es + 1 \<ge> MAX_UDP_CONN_NUM")
    case True
    then obtain x xs where es: "es = x # xs" using l by (cases es) (auto simp: MAX_UDP_CONN_NUM_def)
    obtain p where p: "ce_data x = Some p" "up_remotes s p \<noteq> None" "p \<noteq> rid" using data [of x] nr [of x] es by auto
    have gone: "ce_data y \<noteq> Some p" if y: "y \<in> set xs" for y
    proof
      assume "ce_data y = Some p"
      then have "y = x" using uinv_entry_unique [OF i, of x sid y sid] e es y p(1) by auto
      then show False using d es y by auto
    qed
    have "uinv W H {p} {rid} (with_entries sid sv (xs @ [?new]) s)"
    proof (rule with_entries_inv [OF i sv])
      show "q \<in> {p} \<longleftrightarrow> (q \<in> {rid} \<or> (\<exists>y \<in> set (entries s sid). ce_data y = Some q)) \<and>
              (\<forall>y \<in> set (xs @ [?new]). ce_data y \<noteq> Some q)" for q
        unfolding e es using p(1,3) gone by auto
    qed (use l d ok new es key(2) e in auto)
    moreover have "udp_cache_insert io sid key rid s =
        udp_free_cbs [(ce_key x, p)] (with_entries sid sv (xs @ [?new]) s)"
      using sv c es p(1) True
      by (simp add: udp_cache_insert_def cache_insert_eq cache_new_def with_entries_def cache_free_data_def)
    ultimately show ?thesis using that [of "[(ce_key x, p)]" "xs @ [?new]"] p by auto
  next
    case False
    have "uinv W H {} {rid} (with_entries sid sv (es @ [?new]) s)"
    proof (rule with_entries_inv [OF i sv])
      show "q \<in> {} \<longleftrightarrow> (q \<in> {rid} \<or> (\<exists>y \<in> set (entries s sid). ce_data y = Some q)) \<and>
              (\<forall>y \<in> set (es @ [?new]). ce_data y \<noteq> Some q)" for q
        unfolding e by auto
    qed (use False l d ok new key(2) e in auto)
    moreover have "udp_cache_insert io sid key rid s = udp_free_cbs [] (with_entries sid sv (es @ [?new]) s)"
      using sv c False
      by (simp add: udp_cache_insert_def cache_insert_eq cache_new_def with_entries_def)
    ultimately show ?thesis using that [of "[]" "es @ [?new]"] by auto
  qed
  obtain s' where s': "udp_free_cbs fs (with_entries sid sv es' s) = Inr s'" "uinv W H {} {rid} s'"
    "up_remotes s' rid = up_remotes s rid" "up_trace s' = up_trace s @ map (Closed_session \<circ> snd) fs"
    "up_queries s' = up_queries s"
    using free_cbs_inv [of W H fs "{}" "{rid}" "with_entries sid sv es' s"] inv fs by auto
  have r': "up_remotes s' rid = Some r" using s'(3) r(1) by simp
  have "uinv W H {} {} (s'\<lparr>up_remotes := (up_remotes s')(rid \<mapsto> r\<lparr>ur_io := True, ur_timer := True\<rparr>)\<rparr>)"
    by (rule watch_inv [OF s'(2) r'])
  then show ?thesis
    using ins s'(1,4,5) r' by (intro exI [of _ "s'\<lparr>up_remotes := (up_remotes s')(rid \<mapsto> r\<lparr>ur_io := True, ur_timer := True\<rparr>)\<rparr>"] exI [of _ "map snd fs"])
      (simp add: udp_start_session_def)
qed

text \<open>A fresh session object: in no cache, not yet watched.\<close>

definition fresh_session :: "nat \<Rightarrow> bytes \<Rightarrow> bytes \<Rightarrow> uremote" where
  "fresh_session sid src dst =
     \<lparr>ur_io = False, ur_timer = False, ur_af = AF_UNSPEC, ur_src = src, ur_dst = dst, ur_server = Some sid\<rparr>"

definition with_fresh :: "nat \<Rightarrow> bytes \<Rightarrow> bytes \<Rightarrow> 'w up \<Rightarrow> 'w up" where
  "with_fresh sid src dst s =
     s\<lparr>up_next := up_next s + 1, up_remotes := (up_remotes s)(up_next s \<mapsto> fresh_session sid src dst)\<rparr>"

lemma uinv_fresh_id: "uinv W H X U s \<Longrightarrow> up_remotes s (up_next s) = None"
  by (cases "up_remotes s (up_next s)") (auto elim: uinv_remote)

lemma fresh_inv:
  assumes i: "uinv W H {} {} s" and sv: "up_servers s sid = Some sv"
    and src: "(sid, src) \<in> H" "length src = STORAGE_SIZE" "length dst = STORAGE_SIZE"
  shows "uinv W H {up_next s} {up_next s} (with_fresh sid src dst s)"
proof -
  let ?s = "with_fresh sid src dst s"
  have n: "up_remotes s (up_next s) = None" by (rule uinv_fresh_id [OF i])
  have "servers_ok ?s"
  proof (rule servers_ok_entries [of s])
    show "entry_ok ?s p e" if in_c: "e \<in> set (entries s p)" for p e
      by (rule uinv_entry [OF i in_c]) (use n in \<open>auto simp: entry_ok_def with_fresh_def\<close>)
  qed (use i in \<open>auto simp: uinv_def with_fresh_def\<close>)
  moreover have nc: "\<not> cached s (up_next s)"
  proof
    assume "cached s (up_next s)"
    then obtain p e where "e \<in> set (entries s p)" "ce_data e = Some (up_next s)" by (auto simp: cached_def)
    then show False using uinv_entry [OF i] n by (metis option.distinct(1) option.inject)
  qed
  have "remotes_ok H {up_next s} {up_next s} ?s"
    unfolding remotes_ok_def
  proof (intro allI impI)
    fix p r assume r: "up_remotes ?s p = Some r"
    show "p < up_next ?s \<and> length (ur_src r) = STORAGE_SIZE \<and> length (ur_dst r) = STORAGE_SIZE \<and>
        (\<exists>sid. ur_server r = Some sid \<and> (sid, ur_src r) \<in> H \<and> up_servers ?s sid \<noteq> None) \<and>
        (cached ?s p \<longleftrightarrow> p \<notin> {up_next s}) \<and> (p \<notin> {up_next s} \<longrightarrow> ur_io r \<and> ur_timer r)"
    proof (cases "p = up_next s")
      case True
      then show ?thesis using r sv src nc by (auto simp: with_fresh_def fresh_session_def)
    next
      case False
      then have "up_remotes s p = Some r" using r by (simp add: with_fresh_def)
      then show ?thesis by (rule uinv_remote [OF i]) (use False in \<open>auto simp: with_fresh_def\<close>)
    qed
  qed
  ultimately show ?thesis
    using i by (auto simp: uinv_def queries_ok_def trace_ok_def list_ok_def with_fresh_def intro: less_SucI)
qed

section \<open>Small changes\<close>

lemma upd_inv:
  assumes i: "uinv W H X U s" and r: "up_remotes s rid = Some r"
    and r': "ur_server r' = ur_server r" "ur_src r' = ur_src r" "length (ur_dst r') = STORAGE_SIZE"
      "rid \<notin> X \<longrightarrow> ur_af r' = ur_af r" "rid \<notin> U \<longrightarrow> ur_io r' \<and> ur_timer r'"
  shows "uinv W H X U (s\<lparr>up_remotes := (up_remotes s)(rid \<mapsto> r')\<rparr>)"
proof -
  let ?s = "s\<lparr>up_remotes := (up_remotes s)(rid \<mapsto> r')\<rparr>"
  have "servers_ok ?s"
  proof (rule servers_ok_entries [of s])
    show "entry_ok ?s sid e" if in_c: "e \<in> set (entries s sid)" for sid e
      by (rule uinv_entry [OF i in_c]) (use r r' in \<open>auto simp: entry_ok_def\<close>)
  qed (use i in \<open>auto simp: uinv_def\<close>)
  moreover have "remotes_ok H X U ?s"
    using i r r' unfolding uinv_def remotes_ok_def by (simp del: not_None_eq)
  ultimately show ?thesis using i by (simp add: uinv_def queries_ok_def trace_ok_def list_ok_def)
qed

lemma frame_inv:
  assumes "uinv W H X U s" "up_servers s' = up_servers s" "up_remotes s' = up_remotes s" "up_queries s' = up_queries s"
    "up_next s' = up_next s" "up_world s' = up_world s" "up_list s' = up_list s" "trace_ok H s'"
  shows "uinv W H X U s'"
proof -
  have e: "entries s' = entries s" "cached s' = cached s" "entry_ok s' = entry_ok s"
    using assms by (auto simp: fun_eq_iff entries_def cached_def entry_ok_def)
  show ?thesis using assms e by (simp add: uinv_def servers_ok_def remotes_ok_def queries_ok_def list_ok_def)
qed

lemma frame_same:
  assumes "uinv W H X U s" "up_servers s' = up_servers s" "up_remotes s' = up_remotes s" "up_queries s' = up_queries s"
    "up_next s' = up_next s" "up_world s' = up_world s" "up_list s' = up_list s" "up_trace s' = up_trace s"
  shows "uinv W H X U s'"
  by (rule frame_inv [OF assms(1-7)]) (use assms in \<open>simp add: uinv_def trace_ok_def\<close>)

lemma counters_inv [simp]:
  "uinv W H X U (s\<lparr>up_tx := a\<rparr>) = uinv W H X U s" "uinv W H X U (s\<lparr>up_rx := a\<rparr>) = uinv W H X U s"
  by (rule iffI; erule frame_same; simp)+

lemma world_inv: "uinv W H X U s \<Longrightarrow> W w \<Longrightarrow> uinv W H X U (s\<lparr>up_world := w\<rparr>)"
  by (simp add: uinv_def servers_ok_def remotes_ok_def queries_ok_def trace_ok_def list_ok_def entry_ok_def cached_def entries_def)

lemma utrace_inv:
  "uinv W H X U s \<Longrightarrow> (\<And>sid a out. e = To_client sid a out \<Longrightarrow> (sid, a) \<in> H) \<Longrightarrow> uinv W H X U (utrace e s)"
  by (rule frame_inv [of W H X U s]) (simp_all add: uinv_def trace_ok_def list_ok_def utrace_def, metis)

lemma utrace_fields [simp]:
  "up_remotes (utrace e s) = up_remotes s" "up_servers (utrace e s) = up_servers s"
  "up_trace (utrace e s) = up_trace s @ [e]" "up_next (utrace e s) = up_next s" "entries (utrace e s) = entries s"
  "up_queries (utrace e s) = up_queries s" "up_world (utrace e s) = up_world s" "up_list (utrace e s) = up_list s"
  by (auto simp: utrace_def fun_eq_iff)

lemma uinv_mono: "uinv W H X U s \<Longrightarrow> H \<subseteq> H' \<Longrightarrow> uinv W H' X U s"
  unfolding uinv_def remotes_ok_def queries_ok_def trace_ok_def list_ok_def by (elim conjE, intro conjI) blast+

lemma unwatched_dead: "uinv W H X (insert rid U) s \<Longrightarrow> up_remotes s rid = None \<Longrightarrow> uinv W H X U s"
  unfolding uinv_def remotes_ok_def by (elim conjE, intro conjI) (force | assumption)+

lemma close_fresh_inv:
  "uinv W H {rid} {rid} s \<Longrightarrow> up_remotes s rid = Some r \<Longrightarrow>
   udp_close_and_free_remote rid s = Inr (closed_state rid s) \<and> uinv W H {} {} (closed_state rid s)"
  using closed_inv [of W H rid "{}" "{rid}" s] unwatched_dead [of W H "{}" rid "{}" "closed_state rid s"]
  by (auto simp: close_eq closed_state_def)

section \<open>Sending\<close>

text \<open>
  What a send leaves in the trace: the datagram, if the kernel took it, and the sessions closed in its
  course (an evicted one, or the new one after a failure).
\<close>

definition sent_as :: "bool \<Rightarrow> udp_out \<Rightarrow> 'w up \<Rightarrow> 'w up \<Rightarrow> bool" where
  "sent_as ok e s s' \<longleftrightarrow> (\<exists>cl. up_trace s' = up_trace s @ (if ok then [e] else []) @ map Closed_session cl)"

lemma send_known_hit:
  assumes i: "uinv W H {} {} s" and r: "up_remotes s rid = Some r"
  shows "\<exists>s'. udp_send_known io sid True rid dst data s = Inr s' \<and> uinv W H {} {} s' \<and> up_remotes s' rid = Some r \<and>
           sent_as (uio_send io) (To_remote rid dst data) s s'"
proof (cases "uio_send io")
  case True
  have "sent_as True (To_remote rid dst data) s (utrace (To_remote rid dst data) s)"
    unfolding sent_as_def by (rule exI [of _ "[]"]) simp
  then show ?thesis using r True utrace_inv [OF i, of "To_remote rid dst data"] by (auto simp: udp_send_known_def)
next
  case False
  have "sent_as False (To_remote rid dst data) s s" unfolding sent_as_def by (rule exI [of _ "[]"]) simp
  then show ?thesis using r False i by (auto simp: udp_send_known_def)
qed

lemma send_known_new:
  assumes i: "uinv W H {rid} {rid} s" and sv: "up_servers s sid = Some sv"
    and r: "up_remotes s rid = Some r" "ur_server r = Some sid"
    and key: "hash_key (raw_family dst) (ur_src r) \<notin> ce_key ` set (entries s sid)"
  shows "\<exists>s'. udp_send_known io sid False rid dst data s = Inr s' \<and> uinv W H {} {} s' \<and>
           (uio_send io \<longrightarrow> (\<exists>r'. up_remotes s' rid = Some r' \<and> ur_src r' = ur_src r)) \<and>
           sent_as (uio_send io) (To_remote rid dst data) s s'"
proof (cases "uio_send io")
  case False
  have "sent_as False (To_remote rid dst data) s (closed_state rid s)"
    unfolding sent_as_def by (rule exI [of _ "[rid]"]) (simp add: closed_state_def)
  then show ?thesis using False close_fresh_inv [OF i r(1)] r by (auto simp: udp_send_known_def)
next
  case True
  let ?r = "r\<lparr>ur_af := raw_family dst\<rparr>"
  let ?s = "utrace (To_remote rid dst data) s"
  let ?t = "?s\<lparr>up_remotes := (up_remotes ?s)(rid \<mapsto> ?r)\<rparr>"
  have l: "length (ur_dst r) = STORAGE_SIZE" by (rule uinv_remote [OF i r(1)])
  have it: "uinv W H {rid} {rid} ?t"
    by (rule upd_inv [OF utrace_inv [OF i]]) (use r l in auto)
  have "\<exists>s' cl. udp_start_session io sid (hash_key (raw_family dst) (ur_src r)) rid ?t = Inr s' \<and> uinv W H {} {} s' \<and>
           up_queries s' = up_queries ?t \<and> up_remotes s' rid = Some (?r\<lparr>ur_io := True, ur_timer := True\<rparr>) \<and> up_trace s' = up_trace ?t @ map Closed_session cl"
    by (rule start_session_inv [OF it, of sid sv ?r]) (use sv r key in auto)
  then obtain s' cl where s': "udp_start_session io sid (hash_key (raw_family dst) (ur_src r)) rid ?t = Inr s'"
    "uinv W H {} {} s'" "up_remotes s' rid = Some (?r\<lparr>ur_io := True, ur_timer := True\<rparr>)"
    "up_trace s' = up_trace s @ [To_remote rid dst data] @ map Closed_session cl" by auto
  have "sent_as True (To_remote rid dst data) s s'" using s'(4) unfolding sent_as_def by auto
  then show ?thesis using True s'(1,2,3) r by (auto simp: udp_send_known_def)
qed

end
