(* ===== verification/Udprelay_Header.thy ===== *)
theory Udprelay_Header
  imports Udprelay
begin

text \<open>
  The address header of a UDP packet (\<open>construct_udprelay_header\<close> and \<open>parse_udprelay_header\<close> of
  \<^verbatim>\<open>src/udprelay.c\<close>): what each form of the header is read as, that reading never leaves the packet or
  the caller's arrays, and that the header put in front of a reply is read back as its address.
\<close>

section \<open>Destinations\<close>

text \<open>The three forms of a header; the port is its two bytes on the wire.\<close>

datatype udest = Ip4 bytes bytes | Ip6 bytes bytes | Name bytes bytes

fun dest_ok :: "udest \<Rightarrow> bool" where
  "dest_ok (Ip4 a p) = (length a = 4 \<and> length p = 2)"
| "dest_ok (Ip6 a p) = (length a = 16 \<and> length p = 2)"
| "dest_ok (Name n p) = (length n < 256 \<and> length p = 2)"

fun header_body :: "udest \<Rightarrow> bytes" where
  "header_body (Ip4 a p) = a @ p"
| "header_body (Ip6 a p) = a @ p"
| "header_body (Name n p) = of_nat (length n) # n @ p"

fun atyp_of :: "udest \<Rightarrow> nat" where
  "atyp_of (Ip4 a p) = 1"
| "atyp_of (Ip6 a p) = 4"
| "atyp_of (Name n p) = 3"

text \<open>The code looks at the low four bits of the type byte only.\<close>

definition begins_with :: "bytes \<Rightarrow> udest \<Rightarrow> bytes \<Rightarrow> bool" where
  "begins_with m d data \<longleftrightarrow>
     dest_ok d \<and> (\<exists>t. m = t # header_body d @ data \<and> unat (t AND 0xF) = atyp_of d)"

definition header_of :: "udest \<Rightarrow> bytes" where
  "header_of d = of_nat (atyp_of d) # header_body d"

text \<open>The \<open>sockaddr_storage\<close> of a numeric destination.\<close>

definition storage4 :: "bytes \<Rightarrow> bytes \<Rightarrow> bytes" where
  "storage4 a p = le16 AF_INET @ p @ a @ replicate 120 0"

definition storage6 :: "bytes \<Rightarrow> bytes \<Rightarrow> bytes" where
  "storage6 a p = le16 AF_INET6 @ p @ replicate 4 0 @ a @ replicate 104 0"

text \<open>What the libraries document: textual addresses fit their buffers, parsed ones have four bytes.\<close>

definition text_ok :: "'w uenv \<Rightarrow> bool" where
  "text_ok E \<longleftrightarrow>
     (\<forall>a. length a = 4 \<longrightarrow> length (ue_ntop E (SIN 0 a)) < 16) \<and>
     (\<forall>a. length a = 16 \<longrightarrow> length (ue_ntop E (SIN6 0 a)) < 46) \<and>
     (\<forall>h a. ue_pton4 E h = Some a \<longrightarrow> length a = 4)"

definition dest_len :: "udest \<Rightarrow> nat" where
  "dest_len d = Suc (length (header_body d))"

lemma header_begins: "dest_ok d \<Longrightarrow> begins_with (header_of d @ data) d data"
  by (cases d) (auto simp: begins_with_def header_of_def)

lemma dest_len_simps [simp]:
  "dest_ok (Ip4 a p) \<Longrightarrow> dest_len (Ip4 a p) = 7" "dest_ok (Ip6 a p) \<Longrightarrow> dest_len (Ip6 a p) = 19"
  "dest_ok (Name n p) \<Longrightarrow> dest_len (Name n p) = length n + 4"
  by (simp_all add: dest_len_def)

lemma dest_len_bounds: "dest_ok d \<Longrightarrow> 4 \<le> dest_len d \<and> dest_len d \<le> MAX_ADDR_HEADER_SIZE"
  by (cases d) (auto simp: dest_len_def MAX_ADDR_HEADER_SIZE_def)

lemma begins_length: "begins_with m d data \<Longrightarrow> length m = dest_len d + length data"
  by (auto simp: begins_with_def dest_len_def)

lemma port_of_bound: "port_of p < 65536"
proof -
  have "unat (p ! 0) < 256" "unat (p ! 1) < 256" using unsigned_less [where 'a = nat and w = "p ! 0"]
      unsigned_less [where 'a = nat and w = "p ! 1"] by simp_all
  then show ?thesis by (simp add: port_of_def)
qed

lemma port_str_fits: "length (dec_str (port_of p)) \<le> 5"
  using dec_str_length [of "port_of p" 5] port_of_bound [of p] by simp

lemma put_port_ok:
  assumes "off + 2 \<le> length buf" "length m = MAX_PORT_STR_LEN"
  shows "\<exists>m'. put_port buf off (Some m) = Inr (Some m') \<and> length m' = MAX_PORT_STR_LEN \<and>
           c_str m' = dec_str (port_of (take 2 (drop off buf)))"
proof -
  let ?d = "dec_str (port_of (take 2 (drop off buf)))"
  have f: "length ?d + 1 \<le> length m" using port_str_fits [of "take 2 (drop off buf)"] assms(2) by (simp add: MAX_PORT_STR_LEN_def)
  have "put_port buf off (Some m) = Inr (Some (?d @ 0 # drop (length ?d + 1) m))"
    using assms(1) f by (simp add: put_port_def)
  moreover have "0 \<notin> set ?d" by (rule dec_str_no_nul)
  ultimately show ?thesis using f assms(2) by auto
qed

section \<open>Reading a header\<close>

lemma read_part:
  "take len buf = xs @ ys @ zs \<Longrightarrow> len \<le> length buf \<Longrightarrow> off = length xs \<Longrightarrow> n = length ys \<Longrightarrow> mem_read buf off n = Inr ys"
proof -
  assume a: "take len buf = xs @ ys @ zs" "len \<le> length buf" "off = length xs" "n = length ys"
  have b: "buf = xs @ ys @ zs @ drop len buf" using a(1) by (metis append_assoc append_take_drop_id)
  show "mem_read buf off n = Inr ys" using a by (subst b) (simp add: mem_read_def)
qed

lemma put_addr4: "length a = 4 \<Longrightarrow> length p = 2 \<Longrightarrow> put_addr (Some (replicate STORAGE_SIZE 0)) AF_INET 4 a p = Inr (Some (storage4 a p))"
  by (simp add: put_addr_def storage4_def STORAGE_SIZE_def)

lemma put_addr6: "length a = 16 \<Longrightarrow> length p = 2 \<Longrightarrow> put_addr (Some (replicate STORAGE_SIZE 0)) AF_INET6 8 a p = Inr (Some (storage6 a p))"
  by (simp add: put_addr_def storage6_def STORAGE_SIZE_def)

lemma put_host_ok: "length x \<le> length h \<Longrightarrow> \<exists>h'. put_host (Some h) x = Inr (Some h') \<and> length h' = length h"
  by (simp add: put_host_def)

abbreviation host0 :: bytes where "host0 \<equiv> replicate UDP_MAX_HOSTNAME_LEN 0"
abbreviation port0 :: bytes where "port0 \<equiv> replicate MAX_PORT_STR_LEN 0"
abbreviation storage0 :: bytes where "storage0 \<equiv> replicate STORAGE_SIZE 0"

lemma parse_ip4:
  assumes E: "text_ok E" and l: "len \<le> length buf" and b: "begins_with (take len buf) (Ip4 a p) data"
  shows "\<exists>h pt. parse_udprelay_header E buf len (Some host0) (Some port0) (Some storage0) =
           Inr (7, Some h, Some pt, Some (storage4 a p)) \<and> length h = UDP_MAX_HOSTNAME_LEN"
proof -
  obtain t where d: "take len buf = t # a @ p @ data" "length a = 4 \<and> length p = 2" "unat (t AND 0xF) = 1"
    using b by (auto simp: begins_with_def)
  have r: "mem_read buf 0 1 = Inr [t]" "mem_read buf 1 4 = Inr a" "mem_read buf 5 2 = Inr p"
    using read_part [of len buf "[]" "[t]" "a @ p @ data"] read_part [of len buf "[t]" a "p @ data"]
      read_part [of len buf "t # a" p data] l d by simp_all
  have len: "7 \<le> len" using arg_cong [OF d(1), of length] l d(2) by simp
  have "length (ue_ntop E (SIN 0 a) @ [0]) \<le> length host0"
    using E d(2) unfolding text_ok_def by (auto simp: UDP_MAX_HOSTNAME_LEN_def dest: spec [of _ a])
  then obtain h where h: "put_host (Some host0) (ue_ntop E (SIN 0 a) @ [0]) = Inr (Some h)" "length h = UDP_MAX_HOSTNAME_LEN"
    using put_host_ok by fastforce
  obtain pt where pt: "put_port buf 5 (Some port0) = Inr (Some pt)"
    using put_port_ok [of 5 buf port0] len l by auto
  show ?thesis
    using r h pt len d(2,3) by (simp add: parse_udprelay_header_def Let_def put_addr4)
qed

lemma parse_ip6:
  assumes E: "text_ok E" and l: "len \<le> length buf" and b: "begins_with (take len buf) (Ip6 a p) data"
  shows "\<exists>h pt. parse_udprelay_header E buf len (Some host0) (Some port0) (Some storage0) =
           Inr (19, Some h, Some pt, Some (storage6 a p)) \<and> length h = UDP_MAX_HOSTNAME_LEN"
proof -
  obtain t where d: "take len buf = t # a @ p @ data" "length a = 16 \<and> length p = 2" "unat (t AND 0xF) = 4"
    using b by (auto simp: begins_with_def)
  have r: "mem_read buf 0 1 = Inr [t]" "mem_read buf 1 16 = Inr a" "mem_read buf 17 2 = Inr p"
    using read_part [of len buf "[]" "[t]" "a @ p @ data"] read_part [of len buf "[t]" a "p @ data"]
      read_part [of len buf "t # a" p data] l d by simp_all
  have len: "19 \<le> len" using arg_cong [OF d(1), of length] l d(2) by simp
  have "length (ue_ntop E (SIN6 0 a) @ [0]) \<le> length host0"
    using E d(2) unfolding text_ok_def by (auto simp: UDP_MAX_HOSTNAME_LEN_def dest: spec [of _ a])
  then obtain h where h: "put_host (Some host0) (ue_ntop E (SIN6 0 a) @ [0]) = Inr (Some h)" "length h = UDP_MAX_HOSTNAME_LEN"
    using put_host_ok by fastforce
  obtain pt where pt: "put_port buf 17 (Some port0) = Inr (Some pt)"
    using put_port_ok [of 17 buf port0] len l by auto
  show ?thesis
    using r h pt len d(2,3) by (simp add: parse_udprelay_header_def Let_def put_addr6)
qed

text \<open>The address a name gets when it is a number, and the port it is looked up with.\<close>

definition name_storage :: "'w uenv \<Rightarrow> bytes \<Rightarrow> bytes \<Rightarrow> bytes" where
  "name_storage E n p =
     (case ue_ip_parse E (c_str (n @ [0])) of
        None \<Rightarrow> storage0
      | Some (V4 _) \<Rightarrow> storage4 (case ue_pton4 E (c_str (n @ [0])) of Some a \<Rightarrow> a | None \<Rightarrow> replicate 4 0) p
      | Some (V6 _) \<Rightarrow> storage6 (case ue_pton4 E (c_str (n @ [0])) of Some a \<Rightarrow> a @ replicate 12 0 | None \<Rightarrow> replicate 16 0) p)"

lemma parse_name:
  assumes E: "text_ok E" and l: "len \<le> length buf" and b: "begins_with (take len buf) (Name n p) data"
  shows "\<exists>pt. parse_udprelay_header E buf len (Some host0) (Some port0) (Some storage0) =
           Inr (length n + 4, Some (n @ replicate (256 - length n) 0), Some pt, Some (name_storage E n p)) \<and>
           c_str pt = dec_str (port_of p)"
proof -
  let ?l = "of_nat (length n) :: byte"
  obtain t where d: "take len buf = t # ?l # n @ p @ data" "length n < 256 \<and> length p = 2" "unat (t AND 0xF) = 3"
    using b by (auto simp: begins_with_def)
  have ul: "unat ?l = length n" using d(2) by (simp add: unat_of_nat)
  have r: "mem_read buf 0 1 = Inr [t]" "mem_read buf 1 1 = Inr [?l]" "mem_read buf 2 (length n) = Inr n"
    "mem_read buf (2 + length n) 2 = Inr p"
    by (rule read_part [OF _ l, of "[]" _ "?l # n @ p @ data"], simp_all add: d(1))
      (rule read_part [OF _ l, of "[t]" _ "n @ p @ data"], simp_all add: d(1),
       rule read_part [OF _ l, of "[t, ?l]" _ "p @ data"], simp_all add: d(1),
       rule read_part [OF _ l, of "t # ?l # n" _ data], simp_all add: d(1,2))
  have len: "length n + 4 \<le> len" using arg_cong [OF d(1), of length] l d(2) by simp
  have p2: "take 2 (drop (2 + length n) buf) = p" using r(4) by (simp add: mem_read_def split: if_splits)
  obtain pt where pt: "put_port buf (2 + length n) (Some port0) = Inr (Some pt)" "c_str pt = dec_str (port_of p)"
    using put_port_ok [of "2 + length n" buf port0] len l p2 by auto
  let ?tmp = "n @ replicate (256 - length n) 0"
  have tmp: "mem_write host0 0 n = Inr ?tmp" using d(2) by (simp add: UDP_MAX_HOSTNAME_LEN_def)
  have cs: "c_str ?tmp = c_str (n @ [0])"
  proof -
    have "256 - length n = Suc (255 - length n)" using d(2) by arith
    then show ?thesis using c_str_zeros [of n "255 - length n"] c_str_zeros [of n 0] by simp
  qed
  have dom: "parse_domain_addr E buf (length n) (Some storage0) = Inr (Some (name_storage E n p))"
  proof (cases "ue_ip_parse E (c_str (n @ [0]))")
    case None
    then show ?thesis using r tmp cs by (simp add: parse_domain_addr_def name_storage_def)
  next
    case (Some v)
    have a4: "length a = 4" if "ue_pton4 E (c_str (n @ [0])) = Some a" for a
      using E that by (auto simp: text_ok_def)
    show ?thesis
      using Some r tmp cs d(2) a4
      by (cases v; cases "ue_pton4 E (c_str (n @ [0]))")
        (simp_all add: parse_domain_addr_def name_storage_def storage4_def storage6_def STORAGE_SIZE_def flip: replicate_add)
  qed
  have hst: "put_host (Some host0) n = Inr (Some ?tmp)" using tmp by (simp add: put_host_def)
  show ?thesis
    using r pt len dom hst ul d(3) by (simp add: parse_udprelay_header_def Let_def)
qed

lemma split3: "xs = take i xs @ take j (drop i xs) @ drop (i + j) xs"
  by (metis add.commute append_take_drop_id drop_drop)

text \<open>Every packet begins with a header or is refused; the second byte may be read of a packet of one byte.\<close>

lemma parse_cases:
  assumes l: "len \<le> length buf" "2 \<le> length buf"
  obtains (header) d data where "begins_with (take len buf) d data"
  | (refused) "parse_udprelay_header E buf len (Some host0) (Some port0) (Some storage0) =
      Inr (0, Some host0, Some port0, Some storage0)"
proof -
  obtain t u rest where buf: "buf = t # u # rest" using l(2) by (cases buf; cases "tl buf") auto
  let ?refused = "parse_udprelay_header E buf len (Some host0) (Some port0) (Some storage0) =
      Inr (0, Some host0, Some port0, Some storage0)"
  have rd: "mem_read buf 0 1 = Inr [t]" "mem_read buf 1 1 = Inr [u]" using buf by simp_all
  have refd: "?refused" if "unat (t AND 0xF) = 1 \<longrightarrow> \<not> 7 \<le> len" "unat (t AND 0xF) = 4 \<longrightarrow> \<not> 19 \<le> len"
        "unat (t AND 0xF) = 3 \<longrightarrow> \<not> unat u + 4 \<le> len"
    using rd that by (auto simp: parse_udprelay_header_def Let_def)
  define m where "m = tl (take len buf)"
  have m: "take len buf = t # m" "length m = len - 1" if "0 < len"
    using that l buf by (cases len; simp add: m_def)+
  consider (a1) "unat (t AND 0xF) = 1" "7 \<le> len" | (a4) "unat (t AND 0xF) = 4" "19 \<le> len"
    | (a3) "unat (t AND 0xF) = 3" "unat u + 4 \<le> len" | (bad) ?refused
    using refd by blast
  then show ?thesis
  proof cases
    case a1
    have "begins_with (take len buf) (Ip4 (take 4 m) (take 2 (drop 4 m))) (drop 6 m)"
      using a1 m split3 [of m 4 2] by (auto simp: begins_with_def)
    then show ?thesis by (rule header)
  next
    case a4
    have "begins_with (take len buf) (Ip6 (take 16 m) (take 2 (drop 16 m))) (drop 18 m)"
      using a4 m split3 [of m 16 2] by (auto simp: begins_with_def)
    then show ?thesis by (rule header)
  next
    case a3
    define k n where "k = unat u" and "n = tl m"
    have k: "k < 256" using unsigned_less [where 'a = nat and w = u] by (simp add: k_def)
    have n: "m = u # n" "length n = len - 2" using a3 m l buf by (cases "len - 1"; simp add: n_def m_def take_Cons')+
    have "begins_with (take len buf) (Name (take k n) (take 2 (drop k n))) (drop (k + 2) n)"
      using a3 m n k split3 [of n k 2] by (auto simp: begins_with_def k_def)
    then show ?thesis by (rule header)
  qed (rule refused)
qed

text \<open>What the storage holds after a header was read.\<close>

fun dest_storage :: "'w uenv \<Rightarrow> udest \<Rightarrow> bytes" where
  "dest_storage E (Ip4 a p) = storage4 a p"
| "dest_storage E (Ip6 a p) = storage6 a p"
| "dest_storage E (Name n p) = name_storage E n p"

lemma length_storages [simp]:
  "length a = 4 \<Longrightarrow> length p = 2 \<Longrightarrow> length (storage4 a p) = STORAGE_SIZE"
  "length a = 16 \<Longrightarrow> length p = 2 \<Longrightarrow> length (storage6 a p) = STORAGE_SIZE"
  by (simp_all add: storage4_def storage6_def le16_length STORAGE_SIZE_def)

lemma raw_family_storages [simp]:
  "raw_family (storage4 a p) = AF_INET" "raw_family (storage6 a p) = AF_INET6" "raw_family storage0 = AF_UNSPEC"
  by (simp_all add: raw_family_def storage4_def storage6_def le16_def AF_INET_def AF_INET6_def AF_UNSPEC_def
      STORAGE_SIZE_def nth_append)

lemma length_dest_storage: "text_ok E \<Longrightarrow> dest_ok d \<Longrightarrow> length (dest_storage E d) = STORAGE_SIZE"
  by (cases d) (auto simp: name_storage_def text_ok_def split: option.split cork_ip.split)

lemma parse_ok:
  assumes "text_ok E" "len \<le> length buf" "begins_with (take len buf) d data"
  obtains h pt where "parse_udprelay_header E buf len (Some host0) (Some port0) (Some storage0) =
      Inr (dest_len d, Some h, Some pt, Some (dest_storage E d))" "length h = UDP_MAX_HOSTNAME_LEN"
    "\<And>n p. d = Name n p \<Longrightarrow> h = n @ replicate (256 - length n) 0 \<and> c_str pt = dec_str (port_of p)"
proof (cases d)
  case (Ip4 a p)
  have "dest_ok d" using assms(3) by (simp add: begins_with_def)
  then show ?thesis using parse_ip4 [OF assms(1,2) assms(3) [unfolded Ip4]] Ip4 that by auto
next
  case (Ip6 a p)
  have "dest_ok d" using assms(3) by (simp add: begins_with_def)
  then show ?thesis using parse_ip6 [OF assms(1,2) assms(3) [unfolded Ip6]] Ip6 that by auto
next
  case (Name n p)
  have d: "dest_ok d" using assms(3) by (simp add: begins_with_def)
  obtain pt where pt: "parse_udprelay_header E buf len (Some host0) (Some port0) (Some storage0) =
           Inr (length n + 4, Some (n @ replicate (256 - length n) 0), Some pt, Some (name_storage E n p))"
    "c_str pt = dec_str (port_of p)"
    using parse_name [OF assms(1,2) assms(3) [unfolded Name]] by blast
  show ?thesis
    by (rule that [of "n @ replicate (256 - length n) 0" pt]) (use pt d Name in \<open>auto simp: UDP_MAX_HOSTNAME_LEN_def\<close>)
qed

section \<open>Writing a header\<close>

text \<open>The numeric destination a storage holds.\<close>

definition storage_dest :: "bytes \<Rightarrow> udest" where
  "storage_dest m =
     (if raw_family m = AF_INET then Ip4 (take 4 (drop 4 m)) (take 2 (drop 2 m))
      else Ip6 (take 16 (drop 8 m)) (take 2 (drop 2 m)))"

lemma construct_ok:
  assumes "length m = STORAGE_SIZE" "length h0 = MAX_ADDR_HEADER_SIZE"
  shows "\<exists>h. length h = MAX_ADDR_HEADER_SIZE \<and>
    construct_udprelay_header m h0 =
      Inr (if raw_family m = AF_INET \<or> raw_family m = AF_INET6 then dest_len (storage_dest m) else 0, h) \<and>
    (raw_family m = AF_INET \<or> raw_family m = AF_INET6 \<longrightarrow>
       dest_ok (storage_dest m) \<and> take (dest_len (storage_dest m)) h = header_of (storage_dest m))"
proof -
  have l: "length (take 4 (drop 4 m)) = 4" "length (take 2 (drop 2 m)) = 2" "length (take 16 (drop 8 m)) = 16"
    using assms(1) by (simp_all add: STORAGE_SIZE_def)
  show ?thesis
    using assms l by (auto simp: construct_udprelay_header_def storage_dest_def header_of_def dest_len_def
        MAX_ADDR_HEADER_SIZE_def STORAGE_SIZE_def)
qed

lemma sa_view_storage4: "length a = 4 \<Longrightarrow> sa_view (storage4 a [p0, p1]) = SIN (ucast p0 OR push_bit 8 (ucast p1)) a"
  by (simp add: sa_view_def raw_port_def STORAGE_SIZE_def) (simp add: storage4_def le16_def)

lemma sa_view_storage6: "length a = 16 \<Longrightarrow> sa_view (storage6 a [p0, p1]) = SIN6 (ucast p0 OR push_bit 8 (ucast p1)) a"
  by (simp add: sa_view_def raw_port_def STORAGE_SIZE_def) (simp add: storage6_def le16_def AF_INET_def AF_INET6_def)

lemma view_storage_dest:
  assumes "length m = STORAGE_SIZE" "raw_family m = AF_INET \<or> raw_family m = AF_INET6"
  shows "sa_view (dest_storage E (storage_dest m)) = sa_view m"
proof -
  obtain m0 m1 m2 m3 r where m: "m = m0 # m1 # m2 # m3 # r" "length r = 124"
    using assms(1) by (auto simp: STORAGE_SIZE_def numeral_eq_Suc length_Suc_conv)
  have v: "sa_view m = (if raw_family m = AF_INET then SIN (ucast m2 OR push_bit 8 (ucast m3)) (take 4 r)
      else SIN6 (ucast m2 OR push_bit 8 (ucast m3)) (take 16 (drop 4 r)))"
    using assms(2) by (auto simp: sa_view_def raw_port_def m)
  show ?thesis
    unfolding v using m by (simp add: storage_dest_def sa_view_storage4 sa_view_storage6)
qed

text \<open>
  C26. The header \<open>construct_udprelay_header\<close> writes for a socket address stays in its array, and
  \<open>parse_udprelay_header\<close> reads it back from the front of any packet: same length, family, address and
  port.
\<close>

theorem udp_header_roundtrip:
  assumes "text_ok E" "length m = STORAGE_SIZE" "raw_family m = AF_INET \<or> raw_family m = AF_INET6"
    "length h0 = MAX_ADDR_HEADER_SIZE"
  shows "\<exists>hlen h. construct_udprelay_header m h0 = Inr (hlen, h) \<and>
    (\<forall>buf len data. len \<le> length buf \<and> take len buf = take hlen h @ data \<longrightarrow>
       (\<exists>ho po st. parse_udprelay_header E buf len (Some host0) (Some port0) (Some storage0) = Inr (hlen, ho, po, Some st) \<and>
          sa_view st = sa_view m))"
proof -
  let ?d = "storage_dest m"
  obtain h where h: "construct_udprelay_header m h0 = Inr (dest_len ?d, h)" "dest_ok ?d"
    "take (dest_len ?d) h = header_of ?d"
    using construct_ok [OF assms(2,4)] assms(3) by auto
  have "\<exists>ho po st. parse_udprelay_header E buf len (Some host0) (Some port0) (Some storage0) =
           Inr (dest_len ?d, ho, po, Some st) \<and> sa_view st = sa_view m"
    if "len \<le> length buf" "take len buf = take (dest_len ?d) h @ data" for buf len data
  proof -
    have "begins_with (take len buf) ?d data" using that(2) h header_begins [OF h(2)] by simp
    then show ?thesis
      using parse_ok [OF assms(1) that(1), of ?d data] view_storage_dest [OF assms(2,3), of E] by metis
  qed
  then show ?thesis using h(1) by blast
qed

definition uenv1 :: "nat uenv" where
  "uenv1 =
     \<lparr>ue_encrypt_all = (\<lambda>w b cap. Inr (0, b, w)),
      ue_decrypt_all = (\<lambda>w b cap. if buf_len b < 2 then Inr (1, b, w) else Inr (0, b\<lparr>buf_len := buf_len b - 1\<rparr>, w)),
      ue_ip_parse = (\<lambda>h. if h = [58, 58, 49] then Some (V6 (replicate 15 0 @ [1])) else None),
      ue_pton4 = (\<lambda>_. None), ue_ntop = (\<lambda>_. []),
      ue_hfind = find_first,
      ue_bind_local = False, ue_local4 = 0, ue_local6 = 0, ue_junk = (\<lambda>_. 0)\<rparr>"

lemma text_ok_uenv1: "text_ok uenv1"
  by (simp add: text_ok_def uenv1_def)

theorem udp_header_roundtrip_witness:
  "\<exists>hlen h. construct_udprelay_header (storage4 [1, 2, 3, 4] [0, 53]) (replicate 259 0) = Inr (hlen, h) \<and>
    (\<forall>buf len data. len \<le> length buf \<and> take len buf = take hlen h @ data \<longrightarrow>
       (\<exists>ho po st. parse_udprelay_header uenv1 buf len (Some host0) (Some port0) (Some storage0) = Inr (hlen, ho, po, Some st) \<and>
          sa_view st = sa_view (storage4 [1, 2, 3, 4] [0, 53])))"
  by (rule udp_header_roundtrip [OF text_ok_uenv1]) (simp_all add: MAX_ADDR_HEADER_SIZE_def)

end
