(* ===== verification/Udprelay_Safe.thy ===== *)
theory Udprelay_Safe
  imports Udprelay_Inv Udprelay_Header
begin

text \<open>
  The callbacks of the UDP relay keep its invariant, and what they send. Those that use the cipher are
  treated inside the locale \<open>packet_crypto\<close>, which states what the relay relies on of the cipher
  module.
\<close>

section \<open>Dispatching a datagram\<close>

lemma sockaddr_cmp_refl: "sockaddr_cmp a a n = 0"
proof -
  have "memcmp m m = 0" for m by (induction m) auto
  then show ?thesis by (cases a) (simp_all add: sockaddr_cmp_def)
qed

lemma create_cases:
  obtains "create_remote_socket E io v6 = Inr True" | "create_remote_socket E io v6 = Inr False"
  | f where "create_remote_socket E io v6 = Inl (Fatal f)"
  by (cases v6; cases "uio_socket io"; cases "ue_bind_local E"; cases "uio_bind io"; cases "ue_local6 E = AF_INET6";
      cases "ue_local4 E = AF_INET"; simp add: create_remote_socket_def bind_remote_def)

lemma create_ok: "uio_socket io \<Longrightarrow> uio_bind io \<Longrightarrow> create_remote_socket E io v6 = Inr True"
  by (simp add: create_remote_socket_def bind_remote_def)

lemma new_remote_eq:
  "udp_new_remote sid s = (up_next s, s') \<Longrightarrow>
   upd_uremote (up_next s) (\<lambda>r. r\<lparr>ur_src := src, ur_server := Some sid, ur_dst := dst\<rparr>) s' = Inr (with_fresh sid src dst s)"
  "udp_new_remote sid s = (up_next s, s') \<Longrightarrow>
   upd_uremote (up_next s) (\<lambda>r. r\<lparr>ur_src := src, ur_server := Some sid\<rparr>) s' = Inr (with_fresh sid src storage0 s)"
  by (auto simp: udp_new_remote_def with_fresh_def fresh_session_def Let_def)

text \<open>A name: the payload waits in a query.\<close>

lemma ask_inv:
  assumes i: "uinv W H {} {} s" and sv: "up_servers s sid = Some sv" and src: "(sid, src) \<in> H" "length src = STORAGE_SIZE"
    and h: "hlen \<le> length buf" "hlen \<le> MAX_ADDR_HEADER_SIZE"
  shows "\<exists>s' q b. udp_ask E sid ro src buf hlen host port data s = Inr s' \<and> uinv W H {} {} s' \<and>
     up_trace s' = up_trace s @ [Asked (up_next s) (c_str host) (htons (atoi (c_str port)))] \<and>
     up_queries s' (up_next s) = Some q \<and> uq_src q = src \<and> uq_server q = Some sid \<and> uq_remote q = ro \<and>
     uq_buf q = Some b \<and> take (buf_len b) (buf_data b) = data"
proof -
  let ?b = "(balloc (ue_junk E) (length data))\<lparr>buf_data := data, buf_len := length data\<rparr>"
  let ?q = "\<lparr>uq_src = src, uq_buf = Some ?b, uq_addr_header_len = hlen,
      uq_addr_header = take hlen buf @ drop hlen (replicate MAX_ADDR_HEADER_SIZE 0), uq_server = Some sid, uq_remote = ro\<rparr>"
  let ?s = "utrace (Asked (up_next s) (c_str host) (htons (atoi (c_str port))))
      (s\<lparr>up_next := up_next s + 1, up_queries := (up_queries s)(up_next s \<mapsto> ?q)\<rparr>)"
  have e: "udp_ask E sid ro src buf hlen host port data s = Inr ?s"
    using h by (simp add: udp_ask_def new_query_ctx_def Let_def balloc_fields)
  have en: "entries ?s = entries s" "cached ?s = cached s" "entry_ok ?s = entry_ok s"
    by (auto simp: fun_eq_iff entries_def cached_def entry_ok_def)
  have "servers_ok ?s" using i en by (simp add: uinv_def servers_ok_def utrace_def)
  moreover have "remotes_ok H {} {} ?s"
    using i en unfolding uinv_def remotes_ok_def by (simp add: utrace_def del: not_None_eq) (metis less_Suc_eq)
  moreover have "queries_ok H ?s"
    using i sv src unfolding uinv_def queries_ok_def by (simp add: utrace_def del: not_None_eq) (metis less_Suc_eq option.distinct(1))
  ultimately have "uinv W H {} {} ?s"
    using i by (simp add: uinv_def trace_ok_def list_ok_def utrace_def less_Suc_eq)
  then show ?thesis using e by (intro exI [of _ ?s] exI [of _ ?q] exI [of _ ?b]) simp
qed

lemma dispatch_inv:
  assumes i: "uinv W H {} {} s" and sv: "up_servers s sid = Some sv" and src: "(sid, src) \<in> H" "length src = STORAGE_SIZE"
    and b: "hlen \<le> buf_len b" "buf_len b \<le> length (buf_data b)" "hlen \<le> MAX_ADDR_HEADER_SIZE" "length dst = STORAGE_SIZE"
    and ro: "case ro of Some rid \<Rightarrow> up_remotes s rid \<noteq> None | None \<Rightarrow> hash_key (raw_family dst) src \<notin> ce_key ` set (entries s sid)"
  shows "uok False (uinv W H {} {}) (udp_dispatch E io sid ro src b hlen host port dst s)"
proof -
  have hb: "hlen \<le> length (buf_data b)" using b by simp
  have ask: "uok False (uinv W H {} {}) (udp_ask E sid ro src (buf_data b) hlen host port data s)" for ro data
    using ask_inv [OF i sv src hb b(3), of E ro host port data] by auto
  have rd: "hlen + (buf_len b - hlen) \<le> length (buf_data b)" using b by simp
  show ?thesis
  proof (cases "raw_family dst = AF_INET \<or> raw_family dst = AF_INET6")
    case False
    then show ?thesis using ask rd by (cases ro) (simp_all add: udp_dispatch_def Let_def)
  next
    case known: True
    show ?thesis
    proof (cases ro)
      case (Some rid)
      then obtain r where "up_remotes s rid = Some r" using ro by auto
      then obtain s' where "udp_send_known io sid True rid dst (take (buf_len b - hlen) (drop hlen (buf_data b))) s = Inr s'"
        "uinv W H {} {} s'" using send_known_hit [OF i] by blast
      then show ?thesis using known Some rd by (simp add: udp_dispatch_def Let_def)
    next
      case None
      let ?s = "with_fresh sid src dst s"
      have fi: "uinv W H {up_next s} {up_next s} ?s" by (rule fresh_inv [OF i sv src b(4)])
      have f: "up_remotes ?s (up_next s) = Some (fresh_session sid src dst)" "up_servers ?s sid = Some sv" "entries ?s sid = entries s sid"
        using sv by (auto simp: with_fresh_def entries_def)
      obtain s' where s': "udp_send_known io sid False (up_next s) dst (take (buf_len b - hlen) (drop hlen (buf_data b))) ?s = Inr s'"
        "uinv W H {} {} s'"
        using send_known_new [OF fi f(2,1), of dst io] ro None f(3) by (auto simp: fresh_session_def)
      show ?thesis
      proof (cases rule: create_cases [of E io "raw_family dst = AF_INET6"])
        case 1
        obtain t where t: "udp_new_remote sid s = (up_next s, t)" by (simp add: udp_new_remote_def Let_def)
        show ?thesis using 1 known None rd s' t new_remote_eq(1) [OF t, of dst src] by (simp add: udp_dispatch_def Let_def)
      qed (use known None rd i in \<open>simp_all add: udp_dispatch_def Let_def\<close>)
    qed
  qed
qed

text \<open>A numeric destination: the payload leaves for it, from the socket of a session of the client.\<close>

lemma dispatch_known:
  assumes i: "uinv W H {} {} s" and sv: "up_servers s sid = Some sv" and src: "(sid, src) \<in> H" "length src = STORAGE_SIZE"
    and b: "hlen \<le> buf_len b" "buf_len b \<le> length (buf_data b)" "length dst = STORAGE_SIZE"
    and known: "raw_family dst = AF_INET \<or> raw_family dst = AF_INET6" and sock: "uio_socket io" "uio_bind io"
    and ro: "case ro of Some rid \<Rightarrow> \<exists>r. up_remotes s rid = Some r \<and> ur_src r = src
             | None \<Rightarrow> hash_key (raw_family dst) src \<notin> ce_key ` set (entries s sid)"
  shows "\<exists>s' rid. udp_dispatch E io sid ro src b hlen host port dst s = Inr s' \<and>
           sent_as (uio_send io) (To_remote rid dst (drop hlen (take (buf_len b) (buf_data b)))) s s' \<and>
           (uio_send io \<longrightarrow> (\<exists>r. up_remotes s' rid = Some r \<and> ur_src r = src))"
proof -
  let ?data = "take (buf_len b - hlen) (drop hlen (buf_data b))"
  have dt: "drop hlen (take (buf_len b) (buf_data b)) = ?data" by (simp add: drop_take)
  have rd: "hlen + (buf_len b - hlen) \<le> length (buf_data b)" using b by simp
  show ?thesis
  proof (cases ro)
    case (Some rid)
    then obtain r where r: "up_remotes s rid = Some r" "ur_src r = src" using ro by auto
    then obtain s' where "udp_send_known io sid True rid dst ?data s = Inr s'" "up_remotes s' rid = Some r"
      "sent_as (uio_send io) (To_remote rid dst ?data) s s'" using send_known_hit [OF i] by blast
    then show ?thesis using known Some rd r(2) dt by (intro exI [of _ s'] exI [of _ rid]) (simp add: udp_dispatch_def Let_def)
  next
    case None
    let ?s = "with_fresh sid src dst s"
    have fi: "uinv W H {up_next s} {up_next s} ?s" by (rule fresh_inv [OF i sv src b(3)])
    have f: "up_remotes ?s (up_next s) = Some (fresh_session sid src dst)" "up_servers ?s sid = Some sv" "entries ?s sid = entries s sid"
        "up_trace ?s = up_trace s"
      using sv by (auto simp: with_fresh_def entries_def)
    obtain s' where s': "udp_send_known io sid False (up_next s) dst ?data ?s = Inr s'"
      "uio_send io \<longrightarrow> (\<exists>r'. up_remotes s' (up_next s) = Some r' \<and> ur_src r' = src)"
      "sent_as (uio_send io) (To_remote (up_next s) dst ?data) ?s s'"
      using send_known_new [OF fi f(2,1), of dst io ?data] ro None f(3) by (auto simp: fresh_session_def)
    obtain t where t: "udp_new_remote sid s = (up_next s, t)" by (simp add: udp_new_remote_def Let_def)
    show ?thesis
      using known None rd s' t new_remote_eq(1) [OF t, of dst src] create_ok [OF sock, of E "raw_family dst = AF_INET6"] dt f(4)
      by (intro exI [of _ s'] exI [of _ "up_next s"]) (simp add: udp_dispatch_def Let_def sent_as_def)
  qed
qed

section \<open>Answers of the resolver\<close>

text \<open>The session a query names was closed while the lookup was pending.\<close>

definition stale_query :: "'w up \<Rightarrow> nat \<Rightarrow> bool" where
  "stale_query s qid \<longleftrightarrow>
     (\<exists>q rid. up_queries s qid = Some q \<and> uq_remote q = Some rid \<and> up_remotes s rid = None)"

definition stale_event :: "'w up \<Rightarrow> uev \<Rightarrow> bool" where
  "stale_event s e = (case e of Answered io (Some a) qid \<Rightarrow> stale_query s qid | _ \<Rightarrow> False)"

lemma free_query_inv: "uinv W H X U s \<Longrightarrow> up_queries s qid \<noteq> None \<Longrightarrow> uok st (uinv W H X U) (udp_resolv_free_cb qid s)"
proof -
  assume i: "uinv W H X U s" and q: "up_queries s qid \<noteq> None"
  have "uinv W H X U (s\<lparr>up_queries := (up_queries s)(qid := None)\<rparr>)"
    using i unfolding uinv_def servers_ok_def remotes_ok_def queries_ok_def trace_ok_def list_ok_def entry_ok_def
    by (simp del: not_None_eq) blast?
  then show ?thesis using q by (auto simp: udp_resolv_free_cb_def)
qed

lemma answer_len:
  "answer_block a \<Longrightarrow> length a = (if raw_family a = AF_INET then 16 else 28)"
  by (auto simp: answer_block_def)

text \<open>The freshly started session of \<open>resolv_send\<close> keeps the family \<open>AF_UNSPEC\<close>, under which it is cached.\<close>

lemma resolv_send_inv:
  assumes i: "uinv W H (if hit then {} else {rid}) (if hit then {} else {rid}) s" and sv: "up_servers s sid = Some sv"
    and r: "up_remotes s rid = Some r" and a: "answer_block a" and b: "uq_buf q = Some b" "buf_len b \<le> length (buf_data b)"
    and new: "\<not> hit \<Longrightarrow> ur_server r = Some sid \<and> ur_af r = AF_UNSPEC \<and> hash_key AF_UNSPEC (ur_src r) \<notin> ce_key ` set (entries s sid)"
  shows "\<exists>s'. udp_resolv_send io sid hit rid a q s = Inr s' \<and> uinv W H {} {} s' \<and>
           up_queries s' = up_queries s \<and>
           sent_as (uio_send io) (To_remote rid a (take (buf_len b) (buf_data b))) s s'"
proof -
  let ?X = "if hit then {} else {rid}"
  let ?dst = "a @ drop (length a) (ur_dst r)" and ?data = "take (buf_len b) (buf_data b)"
  let ?r = "r\<lparr>ur_dst := ?dst\<rparr>"
  let ?s = "s\<lparr>up_remotes := (up_remotes s)(rid \<mapsto> ?r)\<rparr>"
  have l: "length (ur_dst r) = STORAGE_SIZE" "rid \<notin> ?X \<longrightarrow> ur_io r \<and> ur_timer r" using uinv_remote [OF i r] by metis+
  have al: "length a \<le> STORAGE_SIZE" using a by (auto simp: answer_block_def STORAGE_SIZE_def)
  have iu: "uinv W H ?X ?X ?s" by (rule upd_inv [OF i r]) (use l al in auto)
  have eq: "udp_resolv_send io sid hit rid a q s =
      (if \<not> uio_send io then if \<not> hit then udp_close_and_free_remote rid ?s else Inr ?s
       else if \<not> hit then udp_start_session io sid (hash_key AF_UNSPEC (ur_src r)) rid (utrace (To_remote rid a ?data) ?s)
       else Inr (utrace (To_remote rid a ?data) ?s))"
    using r b answer_len [OF a] l(1) al by (simp add: udp_resolv_send_def)
  consider "\<not> uio_send io" "hit" | "\<not> uio_send io" "\<not> hit" | "uio_send io" "hit" | "uio_send io" "\<not> hit" by blast
  then show ?thesis
  proof cases
    case 1
    then show ?thesis using eq iu by (auto simp: sent_as_def intro: exI [of _ "[]"])
  next
    case 2
    then have "uinv W H {rid} {rid} ?s" using iu by simp
    then have "udp_close_and_free_remote rid ?s = Inr (closed_state rid ?s) \<and> uinv W H {} {} (closed_state rid ?s)"
      by (rule close_fresh_inv) simp
    then show ?thesis using 2 eq by (auto simp: sent_as_def closed_state_def intro: exI [of _ "[rid]"])
  next
    case 3
    then have "uinv W H {} {} (utrace (To_remote rid a ?data) ?s)" using iu by (intro utrace_inv) auto
    then show ?thesis using 3 eq by (auto simp: sent_as_def intro: exI [of _ "[]"])
  next
    case 4
    let ?t = "utrace (To_remote rid a ?data) ?s"
    have it: "uinv W H {rid} {rid} ?t" using iu 4 by (intro utrace_inv) auto
    have "\<exists>s' cl. udp_start_session io sid (hash_key AF_UNSPEC (ur_src r)) rid ?t = Inr s' \<and> uinv W H {} {} s' \<and>
             up_queries s' = up_queries ?t \<and> up_remotes s' rid = Some (?r\<lparr>ur_io := True, ur_timer := True\<rparr>) \<and>
             up_trace s' = up_trace ?t @ map Closed_session cl"
      by (rule start_session_inv [OF it, of sid sv ?r]) (use sv new [OF 4(2)] in \<open>auto simp: entries_def\<close>)
    then show ?thesis using 4 eq by (auto simp: sent_as_def)
  qed
qed

lemma resolv_inv:
  assumes f: "hash_find_ok (ue_hfind E)" and i: "uinv W H {} {} s" and q: "up_queries s qid = Some q"
    and a: "pred_option answer_block a"
  shows "uok (a \<noteq> None \<and> stale_query s qid) (\<lambda>s'. uinv W H {} {} s' \<and> up_queries s' qid \<noteq> None) (udp_resolv_cb E io a qid s)"
proof -
  obtain sid sv b where o: "uq_server q = Some sid" "up_servers s sid = Some sv" "(sid, uq_src q) \<in> H"
    "length (uq_src q) = STORAGE_SIZE" "uq_buf q = Some b" "buf_len b \<le> length (buf_data b)"
    by (rule uinv_query [OF i q]) blast
  show ?thesis
  proof (cases a)
    case None
    then show ?thesis using q o i by (simp add: udp_resolv_cb_def)
  next
    case (Some x)
    then have x: "answer_block x" using a by simp
    show ?thesis
    proof (cases "uq_remote q")
      case (Some rid)
      show ?thesis
      proof (cases "up_remotes s rid")
        case None
        then have "udp_resolv_cb E io a qid s = Inl Dangling"
          using \<open>a = Some x\<close> Some q o by (simp add: udp_resolv_cb_def udp_resolv_send_def get_uremote_def)
        then show ?thesis using \<open>a = Some x\<close> Some None q by (simp add: stale_query_def)
      next
        case r: (Some r)
        then show ?thesis
          using resolv_send_inv [OF _ o(2) r x o(5,6), of W H True io] \<open>a = Some x\<close> Some q o i
          by (auto simp: udp_resolv_cb_def)
      qed
    next
      case None
      obtain d es where lk: "udp_cache_lookup E io sid (hash_key AF_UNSPEC (uq_src q)) s = Inr (d, with_entries sid sv es s)"
        and li: "uinv W H {} {} (with_entries sid sv es s)"
        and d: "case d of
           Some rid \<Rightarrow> \<exists>r. up_remotes s rid = Some r \<and> ur_server r = Some sid \<and> hash_key AF_UNSPEC (uq_src q) = hash_key (ur_af r) (ur_src r) \<and> rid \<notin> {}
         | None \<Rightarrow> hash_key AF_UNSPEC (uq_src q) \<notin> ce_key ` set es"
        using lookup_inv [OF f i o(2), of io "hash_key AF_UNSPEC (uq_src q)"] by blast
      let ?s = "with_entries sid sv es s"
      have sv': "\<exists>sv'. up_servers ?s sid = Some sv'" by (simp add: with_entries_def)
      then obtain sv' where sv': "up_servers ?s sid = Some sv'" by blast
      show ?thesis
      proof (cases d)
        case (Some rid)
        then obtain r where r: "up_remotes ?s rid = Some r" using d by auto
        then show ?thesis
          using resolv_send_inv [OF _ sv' r x o(5,6), of W H True io] \<open>a = Some x\<close> Some None q o lk li
          by (auto simp: udp_resolv_cb_def)
      next
        case new: None
        let ?t = "with_fresh sid (uq_src q) storage0 ?s"
        have ti: "uinv W H {up_next ?s} {up_next ?s} ?t" by (rule fresh_inv [OF li sv' o(3,4)]) simp
        have tr: "up_remotes ?t (up_next ?s) = Some (fresh_session sid (uq_src q) storage0)" "up_servers ?t sid = Some sv'"
            "entries ?t sid = es" "up_queries ?t = up_queries s"
          using sv' by (auto simp: with_fresh_def entries_def with_entries_def)
        show ?thesis
        proof (cases rule: create_cases [of E io "raw_family x = AF_INET6"])
          case 1
          obtain t where t: "udp_new_remote sid ?s = (up_next ?s, t)" by (simp add: udp_new_remote_def Let_def)
          obtain s' where s': "udp_resolv_send io sid False (up_next ?s) x q ?t = Inr s'" "uinv W H {} {} s'"
              "up_queries s' = up_queries s"
            using resolv_send_inv [OF _ tr(2,1) x o(5,6), of W H False io] ti tr(3,4) d new
            by (auto simp: fresh_session_def)
          show ?thesis
            using 1 t s' new_remote_eq(2) [OF t, of "uq_src q"] \<open>a = Some x\<close> None new q o lk
            by (simp add: udp_resolv_cb_def)
        qed (use \<open>a = Some x\<close> None new q o lk li in \<open>simp_all add: udp_resolv_cb_def\<close>)
      qed
    qed
  qed
qed

lemma resolved_inv:
  assumes "hash_find_ok (ue_hfind E)" "uinv W H {} {} s" "uenabled s (Answered io a qid)"
  shows "uok (stale_event s (Answered io a qid)) (uinv W H {} {}) (udp_resolved E io a qid s)"
proof -
  obtain q where q: "up_queries s qid = Some q" "pred_option answer_block a" using assms(3) by auto
  have st: "(a \<noteq> None \<and> stale_query s qid) = stale_event s (Answered io a qid)"
    by (cases a) (auto simp: stale_event_def)
  show ?thesis
    unfolding udp_resolved_def
    by (rule uok_bind [OF resolv_inv [OF assms(1,2) q, of io, unfolded st]]) (auto intro: free_query_inv)
qed

section \<open>Packets\<close>

definition pkt_ok :: "buffer \<Rightarrow> bool" where
  "pkt_ok b \<longleftrightarrow> length (buf_data b) = buf_capacity b \<and> buf_len b \<le> buf_capacity b"

definition content :: "buffer \<Rightarrow> bytes" where
  "content b = take (buf_len b) (buf_data b)"

lemma content_length: "pkt_ok b \<Longrightarrow> length (content b) = buf_len b"
  by (simp add: pkt_ok_def content_def)

lemma recv_buf_ok:
  assumes "int (length data) \<le> n" "0 \<le> n"
  obtains b where "recv_buf junk n data = Inr b" "pkt_ok b" "content b = data" "buf_len b = length data"
proof
  let ?b = "(balloc junk (nat n))\<lparr>buf_data := data @ drop (length data) (buf_data (balloc junk (nat n))), buf_len := length data\<rparr>"
  show "recv_buf junk n data = Inr ?b" "pkt_ok ?b" "content ?b = data" "buf_len ?b = length data"
    using assms by (simp_all add: recv_buf_def Let_def pkt_ok_def content_def balloc_fields)
qed

lemma recv_buf_cases:
  assumes "int (length data) \<le> max 0 n"
  obtains (ok) b where "recv_buf junk n data = Inr b" "pkt_ok b" "content b = data" "buf_len b = length data" "0 \<le> n"
  | (fatal) f where "recv_buf junk n data = Inl (Fatal f)"
proof (cases "n < 0")
  case True
  then show ?thesis using fatal by (simp add: recv_buf_def)
next
  case False
  with assms have n: "int (length data) \<le> n" "0 \<le> n" by simp_all
  obtain b where "recv_buf junk n data = Inr b" "pkt_ok b" "content b = data" "buf_len b = length data"
    using n by (rule recv_buf_ok [of data n junk])
  then show ?thesis using ok n(2) by blast
qed

lemma prepend_ok:
  assumes b: "pkt_ok b" and h: "hlen \<le> length h"
  shows "\<exists>b'. prepend_header junk b hlen h cap = Inr b' \<and> pkt_ok b' \<and> content b' = take hlen h @ content b"
proof -
  let ?d = "brealloc junk b (buf_len b + hlen) cap"
  have l: "length (buf_data ?d) = buf_capacity ?d" "buf_len b + hlen \<le> buf_capacity ?d"
    using b by (auto simp: brealloc_length pkt_ok_def) (simp add: buf_simps)
  have c: "take (buf_len b) (buf_data ?d) = content b"
    using b by (auto simp: pkt_ok_def content_def intro: brealloc_prefix)
  let ?b = "?d\<lparr>buf_data := take hlen h @ content b @ drop (buf_len b + hlen) (buf_data ?d), buf_len := buf_len b + hlen\<rparr>"
  have "prepend_header junk b hlen h cap = Inr ?b"
    using l c h content_length [OF b] by (simp add: prepend_header_def Let_def buf_simps add.commute)
  moreover have "pkt_ok ?b" "content ?b = take hlen h @ content b"
    using l h content_length [OF b] by (simp_all add: pkt_ok_def content_def)
  ultimately show ?thesis by blast
qed

section \<open>The cipher module as the relay relies on it\<close>

locale packet_crypto =
  fixes E :: "'w uenv" and winv :: "'w \<Rightarrow> bool"
  assumes seals: "winv w \<Longrightarrow> pkt_ok b \<Longrightarrow>
      \<exists>r b' w'. ue_encrypt_all E w b cap = Inr (r, b', w') \<and> winv w' \<and> (r = 0 \<longrightarrow> pkt_ok b')"
    and opens: "winv w \<Longrightarrow> pkt_ok b \<Longrightarrow>
      \<exists>r b' w'. ue_decrypt_all E w b cap = Inr (r, b', w') \<and> winv w' \<and>
        (r = 0 \<longrightarrow> pkt_ok b' \<and> 2 \<le> length (buf_data b'))"

section \<open>Replies and timeouts\<close>

lemma timeout_inv:
  assumes "hash_find_ok (ue_hfind E)" "uinv W H {} {} s" "up_remotes s rid = Some r"
  shows "uok st (uinv W H {} {}) (udp_remote_timeout_cb E rid s)"
proof -
  obtain sid sv where "ur_server r = Some sid" "up_servers s sid = Some sv"
    by (rule uinv_remote [OF assms(2,3)]) blast
  then show ?thesis
    using remove_inv [OF assms(1,2), of sid sv "hash_key (ur_af r) (ur_src r)"] assms(3)
    by (auto simp: udp_remote_timeout_cb_def)
qed

context packet_crypto
begin

text \<open>A reply is put behind the header of its sender, sealed, and sent to the client of the session.\<close>

lemma reply_inv:
  assumes i: "uinv winv H {} {} s" and r: "up_remotes s rid = Some r" and io: "uio_ok (up_buf_size s) io"
  shows "uok False (uinv winv H {} {}) (udp_remote_recv_cb E io rid s)"
proof -
  obtain sid sv where o: "ur_server r = Some sid" "up_servers s sid = Some sv" "(sid, ur_src r) \<in> H"
      "length (ur_dst r) = STORAGE_SIZE" "ur_io r" "ur_timer r"
    by (rule uinv_remote [OF i r]) blast
  show ?thesis
  proof (cases "uio_recv io")
    case None
    then show ?thesis using r o i by (simp add: udp_remote_recv_cb_def)
  next
    case (Some p)
    obtain src data where p: "uio_recv io = Some (src, data)" using Some by (cases p) auto
    then have d: "int (length data) \<le> max 0 (up_buf_size s)" "length src = STORAGE_SIZE" using io by (auto simp: uio_ok_def)
    show ?thesis
    proof (cases rule: recv_buf_cases [OF d(1), of "ue_junk E", case_names ok fatal])
      case (ok b)
      let ?h0 = "fresh_block (ue_junk E) 0 MAX_ADDR_HEADER_SIZE"
      obtain hlen h where h: "construct_udprelay_header src ?h0 = Inr (hlen, h)" "hlen \<le> length h"
        using construct_ok [OF d(2), of ?h0] dest_len_bounds [of "storage_dest src"] by (auto split: if_splits)
      obtain b1 where b1: "prepend_header (ue_junk E) b hlen h (nat (up_buf_size s)) = Inr b1" "pkt_ok b1"
        using prepend_ok [OF ok(2) h(2)] by blast
      have w: "winv (up_world s)" using i by (simp add: uinv_def)
      obtain e b2 w2 where e: "ue_encrypt_all E (up_world s) b1 (nat (up_buf_size s)) = Inr (e, b2, w2)" "winv w2"
          "e = 0 \<longrightarrow> pkt_ok b2"
        using seals [OF w b1(2)] by blast
      let ?s = "s\<lparr>up_rx := up_rx s + of_nat (buf_len b), up_world := w2\<rparr>"
      have si: "uinv winv H {} {} ?s" by (rule world_inv) (use i e(2) in simp_all)
      have sr: "up_remotes ?s rid = Some r" using r by simp
      have up: "uinv winv H {} {} (t\<lparr>up_remotes := (up_remotes t)(rid \<mapsto> r\<lparr>ur_timer := True\<rparr>)\<rparr>)"
        if "uinv winv H {} {} t" "up_remotes t rid = Some r" for t
        by (rule upd_inv [OF that]) (use o in auto)
      have ui: "uinv winv H {} {} (utrace (To_client sid (ur_src r) x) ?s)" for x
        by (rule utrace_inv [OF si]) (use o(3) in auto)
      show ?thesis
      proof (cases "e = 0")
        case False
        then show ?thesis using r o p ok(1,4) h(1) b1(1) e(1) si by (simp add: udp_remote_recv_cb_def)
      next
        case True
        then have "buf_len b2 \<le> length (buf_data b2)" using e(3) by (simp add: pkt_ok_def)
        then show ?thesis
          using True r o p ok(1,4) h(1) b1(1) e(1) si up [OF si sr] up [OF ui] sr
          by (cases "uio_send io"; cases "uio_again io") (simp_all add: udp_remote_recv_cb_def)
      qed
    next
      case (fatal f)
      then show ?thesis using r o p by (simp add: udp_remote_recv_cb_def)
    qed
  qed
qed

text \<open>An authentic datagram with a header comes to \<open>udp_dispatch\<close> with the session of its client, if any.\<close>

lemma client_step:
  assumes texts: "text_ok E" and hfind: "hash_find_ok (ue_hfind E)"
    and i: "uinv winv H {} {} s" and sv: "up_servers s sid = Some sv"
    and p: "uio_recv io = Some (src, data)" "length src = STORAGE_SIZE"
    and b: "recv_buf (ue_junk E) (up_buf_size s) data = Inr b"
    and e: "ue_decrypt_all E (up_world s) b (nat (up_buf_size s)) = Inr (0, b2, w2)" "winv w2" "pkt_ok b2"
    and header: "begins_with (content b2) d rest"
  obtains ro u h pt sv' where
    "udp_server_recv_cb E io sid s = udp_dispatch E io sid ro src b2 (dest_len d) h pt (dest_storage E d) u"
    "uinv winv H {} {} u" "up_servers u sid = Some sv'" "up_trace u = up_trace s"
    "case ro of Some rid \<Rightarrow> \<exists>r. up_remotes u rid = Some r \<and> ur_src r = src
     | None \<Rightarrow> hash_key (raw_family (dest_storage E d)) src \<notin> ce_key ` set (entries u sid)"
    "\<forall>n q. d = Name n q \<longrightarrow> h = n @ replicate (256 - length n) 0 \<and> c_str pt = dec_str (port_of q)"
proof -
  let ?s = "s\<lparr>up_tx := up_tx s + of_nat (buf_len b), up_world := w2\<rparr>"
  have si: "uinv winv H {} {} ?s" by (rule world_inv) (use i e(2) in simp_all)
  have ssv: "up_servers ?s sid = Some sv" using sv by simp
  have bl: "buf_len b2 \<le> length (buf_data b2)" using e(3) by (simp add: pkt_ok_def)
  have dok: "dest_ok d" using header by (simp add: begins_with_def)
  obtain h pt where parse: "parse_udprelay_header E (buf_data b2) (buf_len b2) (Some host0) (Some port0) (Some storage0) =
      Inr (dest_len d, Some h, Some pt, Some (dest_storage E d))"
    and name: "\<And>n q. d = Name n q \<Longrightarrow> h = n @ replicate (256 - length n) 0 \<and> c_str pt = dec_str (port_of q)"
    by (rule parse_ok [OF texts bl header [unfolded content_def]]) blast
  let ?dst = "dest_storage E d"
  have hl: "dest_len d \<noteq> 0" using dest_len_bounds [OF dok] by simp
  obtain ro es where lk: "udp_cache_lookup E io sid (hash_key (raw_family ?dst) src) ?s = Inr (ro, with_entries sid sv es ?s)"
    and li: "uinv winv H {} {} (with_entries sid sv es ?s)"
    and rk: "case ro of
       Some rid \<Rightarrow> \<exists>r. up_remotes ?s rid = Some r \<and> ur_server r = Some sid \<and>
           hash_key (raw_family ?dst) src = hash_key (ur_af r) (ur_src r) \<and> rid \<notin> {}
     | None \<Rightarrow> hash_key (raw_family ?dst) src \<notin> ce_key ` set es"
    using lookup_inv [OF hfind si ssv, of io "hash_key (raw_family ?dst) src"] by blast
  let ?t = "with_entries sid sv es ?s"
  obtain sv' where tsv: "up_servers ?t sid = Some sv'" by (simp add: with_entries_def)
  show ?thesis
  proof (cases ro)
    case None
    then have "udp_server_recv_cb E io sid s = udp_dispatch E io sid None src b2 (dest_len d) h pt ?dst ?t"
      using sv p b e(1) parse hl lk by (simp add: udp_server_recv_cb_def)
    then show ?thesis using that [OF _ li tsv] None rk name by simp
  next
    case (Some rid)
    then obtain r where r: "up_remotes ?t rid = Some r" "hash_key (raw_family ?dst) src = hash_key (ur_af r) (ur_src r)"
      using rk by auto
    have rw: "length (ur_src r) = STORAGE_SIZE" "ur_io r" "ur_timer r" "length (ur_dst r) = STORAGE_SIZE"
      using uinv_remote [OF li r(1)] by (metis empty_iff)+
    have src: "ur_src r = src" using hash_key_inj [OF _ r(2)] p(2) rw(1) by simp
    then have cmp: "sockaddr_cmp (sa_view src) (sa_view (ur_src r)) STORAGE_SIZE = 0" by (simp add: sockaddr_cmp_refl)
    let ?u = "?t\<lparr>up_remotes := (up_remotes ?t)(rid \<mapsto> r\<lparr>ur_timer := True\<rparr>)\<rparr>"
    have ui: "uinv winv H {} {} ?u" by (rule upd_inv [OF li r(1)]) (use rw in auto)
    have "udp_server_recv_cb E io sid s = udp_dispatch E io sid (Some rid) src b2 (dest_len d) h pt ?dst ?u"
      using sv p b e(1) parse hl lk Some r(1) cmp by (simp add: udp_server_recv_cb_def)
    then show ?thesis using that [OF _ ui, of "Some rid" h pt sv'] tsv src name by simp
  qed
qed

text \<open>A datagram of a client; its address counts as heard.\<close>

lemma client_inv:
  assumes texts: "text_ok E" and hfind: "hash_find_ok (ue_hfind E)" and i: "uinv winv H {} {} s" and sv: "up_servers s sid = Some sv" and io: "uio_ok (up_buf_size s) io"
    and H: "H \<subseteq> H'" "\<And>src data. uio_recv io = Some (src, data) \<Longrightarrow> (sid, src) \<in> H'"
  shows "uok False (uinv winv H' {} {}) (udp_server_recv_cb E io sid s)"
proof -
  have i': "uinv winv H' {} {} s" by (rule uinv_mono [OF i H(1)])
  show ?thesis
  proof (cases "uio_recv io")
    case None
    then show ?thesis using sv i' by (simp add: udp_server_recv_cb_def)
  next
    case (Some p)
    obtain src data where p: "uio_recv io = Some (src, data)" using Some by (cases p) auto
    then have d: "int (length data) \<le> max 0 (up_buf_size s)" "length src = STORAGE_SIZE" "(sid, src) \<in> H'"
      using io H(2) by (auto simp: uio_ok_def)
    show ?thesis
    proof (cases rule: recv_buf_cases [OF d(1), of "ue_junk E", case_names ok fatal])
      case (fatal f)
      then show ?thesis using sv p by (simp add: udp_server_recv_cb_def)
    next
      case (ok b)
      have w: "winv (up_world s)" using i by (simp add: uinv_def)
      obtain e b2 w2 where e: "ue_decrypt_all E (up_world s) b (nat (up_buf_size s)) = Inr (e, b2, w2)" "winv w2"
          "e = 0 \<longrightarrow> pkt_ok b2 \<and> 2 \<le> length (buf_data b2)"
        using opens [OF w ok(2)] by blast
      have si: "uinv winv H' {} {} (s\<lparr>up_tx := up_tx s + of_nat (buf_len b), up_world := w2\<rparr>)"
        by (rule world_inv) (use i' e(2) in simp_all)
      show ?thesis
      proof (cases "e = 0")
        case False
        then show ?thesis using sv p ok(1,4) e(1) si by (simp add: udp_server_recv_cb_def)
      next
        case True
        then have bl: "buf_len b2 \<le> length (buf_data b2)" "2 \<le> length (buf_data b2)" "pkt_ok b2"
          using e(3) by (simp_all add: pkt_ok_def)
        show ?thesis
        proof (cases rule: parse_cases [OF bl(1,2), where E = E, case_names header refused])
          case refused
          then show ?thesis using sv p ok(1,4) e(1) True si by (simp add: udp_server_recv_cb_def)
        next
          case (header dd rest)
          have dok: "dest_ok dd" using header by (simp add: begins_with_def)
          have hl: "dest_len dd \<le> buf_len b2" "dest_len dd \<le> MAX_ADDR_HEADER_SIZE"
              "length (dest_storage E dd) = STORAGE_SIZE"
            using dest_len_bounds [OF dok] begins_length [OF header] bl length_dest_storage [OF texts dok] by auto
          obtain ro u h pt sv' where
            "udp_server_recv_cb E io sid s = udp_dispatch E io sid ro src b2 (dest_len dd) h pt (dest_storage E dd) u"
            "uinv winv H' {} {} u" "up_servers u sid = Some sv'"
            "case ro of Some rid \<Rightarrow> \<exists>r. up_remotes u rid = Some r \<and> ur_src r = src
             | None \<Rightarrow> hash_key (raw_family (dest_storage E dd)) src \<notin> ce_key ` set (entries u sid)"
            by (rule client_step [OF texts hfind i' sv p d(2) ok(1) e(1) [unfolded True] e(2) bl(3) header [folded content_def]])
          then show ?thesis
            using dispatch_inv [of winv H' u sid sv' src "dest_len dd" b2 "dest_storage E dd" ro E io h pt] d hl bl
            by (auto split: option.splits)
        qed
      qed
    qed
  qed
qed

end

end
