(* ===== verification/Crypto_Kdf.thy ===== *)
theory Crypto_Kdf
  imports SS_Prelude Base64
begin

text \<open>
  Key derivation of \<^verbatim>\<open>src/crypto.c\<close>: \<open>crypto_derive_key\<close> (the master key from a password),
  \<open>crypto_hkdf\<close> with its two halves (the session key from the master key and a salt) and
  \<open>crypto_parse_key\<close> (a master key given in Base64).

  The message digests of mbedTLS are a parameter: the record \<open>md\<close> holds a digest's size, its hash
  and its HMAC. The incremental interface (\<open>starts\<close>, \<open>update\<close>, \<open>finish\<close>) computes the digest of the
  concatenation of the updates, so a sequence of calls is one application to the concatenation;
  HMAC calls may fail with an error code, which the code passes on. \<open>md_ok\<close> states what mbedTLS
  documents of a digest. Output arrays are checked memory.

  The lemmas show that the loops compute the reference constructions (\<open>EVP_BytesToKey\<close> with MD5, and
  the expansion of RFC 5869) and stay inside the output arrays.
\<close>

section \<open>Digests\<close>

record md =
  md_size :: nat
  md_hash :: "bytes \<Rightarrow> bytes"
  md_hmac :: "bytes \<Rightarrow> bytes \<Rightarrow> int \<times> bytes"
  md_setup :: "int \<Rightarrow> int"

text \<open>
  A digest as documented: its size is positive and at most \<open>MBEDTLS_MD_MAX_SIZE\<close>, and every output
  has that size.
\<close>

definition MBEDTLS_MD_MAX_SIZE :: nat where
  "MBEDTLS_MD_MAX_SIZE = 64"

definition md_ok :: "md \<Rightarrow> bool" where
  "md_ok md \<longleftrightarrow> 0 < md_size md \<and> md_size md \<le> MBEDTLS_MD_MAX_SIZE \<and>
     (\<forall>x. length (md_hash md x) = md_size md) \<and> (\<forall>k x. length (snd (md_hmac md k x)) = md_size md)"

definition CRYPTO_ERROR :: int where "CRYPTO_ERROR = -2"

definition CRYPTO_NEED_MORE :: int where "CRYPTO_NEED_MORE = -1"

definition CRYPTO_OK :: int where "CRYPTO_OK = 0"

lemmas crypto_codes = CRYPTO_ERROR_def CRYPTO_NEED_MORE_def CRYPTO_OK_def

section \<open>The master key\<close>

text \<open>
  \<open>copy_digest\<close> is the inner loop (\<open>i\<close>, \<open>j\<close>), which stores a digest byte by byte until the key is
  full; \<open>derive_loop\<close> the outer one, in which \<open>md_buf\<close> holds the previous digest once \<open>addmd\<close> is
  positive. The outer loop has fuel: each round stores at least one byte when the digest is not
  empty, so \<open>key_len\<close> rounds are enough.
\<close>

fun copy_digest :: "bytes \<Rightarrow> bytes \<Rightarrow> nat \<Rightarrow> nat \<Rightarrow> (bytes \<times> nat) res" where
  "copy_digest key [] j key_len = Inr (key, j)"
| "copy_digest key (b # bs) j key_len =
     (if j \<ge> key_len then Inr (key, j)
      else bindr (mem_write key j [b]) (\<lambda>key'. copy_digest key' bs (j + 1) key_len))"

fun derive_loop :: "nat \<Rightarrow> md \<Rightarrow> bytes \<Rightarrow> bytes \<Rightarrow> bytes \<Rightarrow> nat \<Rightarrow> nat \<Rightarrow> nat \<Rightarrow> bytes res option" where
  "derive_loop fuel md pass md_buf key j addmd key_len =
     (if j < key_len then
        case fuel of 0 \<Rightarrow> None
        | Suc fuel' \<Rightarrow>
            let md_buf' = md_hash md ((if addmd \<noteq> 0 then take (md_size md) md_buf else []) @ pass) in
            (case copy_digest key (take (md_size md) md_buf') j key_len of
               Inl e \<Rightarrow> Some (Inl e)
             | Inr (key', j') \<Rightarrow> derive_loop fuel' md pass md_buf' key' j' (addmd + 1) key_len)
      else Some (Inr key))"

declare derive_loop.simps [simp del]

definition crypto_derive_key :: "md option \<Rightarrow> bytes option \<Rightarrow> bytes \<Rightarrow> nat \<Rightarrow> (nat \<times> bytes) res option" where
  "crypto_derive_key md5 pass key key_len =
     (case pass of None \<Rightarrow> Some (Inl Out_of_bounds)
      | Some pass \<Rightarrow>
          case md5 of None \<Rightarrow> Some (Inl (Fatal ''MD5 Digest not found in crypto library''))
          | Some md \<Rightarrow>
              if md_setup md 0 \<noteq> 0 then Some (Inr (0, key))
              else map_option (\<lambda>r. bindr r (\<lambda>key'. Inr (key_len, key')))
                     (derive_loop key_len md (c_str pass) [] key 0 0 key_len))"

text \<open>The reference: \<open>D 1 = H pass\<close>, \<open>D (i+1) = H (D i @ pass)\<close>, and the key is their concatenation.\<close>

fun bytes_to_key_blocks :: "md \<Rightarrow> bytes \<Rightarrow> bytes \<Rightarrow> nat \<Rightarrow> bytes" where
  "bytes_to_key_blocks md pass prev 0 = []"
| "bytes_to_key_blocks md pass prev (Suc n) =
     (let d = md_hash md (prev @ pass) in d @ bytes_to_key_blocks md pass d n)"

section \<open>HKDF\<close>

definition crypto_hkdf_extract :: "md \<Rightarrow> bytes option \<Rightarrow> int \<Rightarrow> bytes \<Rightarrow> int \<times> bytes" where
  "crypto_hkdf_extract md salt salt_len ikm =
     (if salt_len < 0 then (CRYPTO_ERROR, [])
      else
        let salt' = (case salt of None \<Rightarrow> replicate (md_size md) 0 | Some s \<Rightarrow> take (nat salt_len) s)
        in md_hmac md salt' ikm)"

fun expand_loop :: "md \<Rightarrow> bytes \<Rightarrow> bytes \<Rightarrow> int \<Rightarrow> int \<Rightarrow> nat \<Rightarrow> int \<Rightarrow> bytes \<Rightarrow> int \<Rightarrow> bytes \<Rightarrow> (int \<times> bytes) res" where
  "expand_loop md prk info okm_len N 0 i T wh okm = Inr (0, okm)"
| "expand_loop md prk info okm_len N (Suc n) i T wh okm =
     (let c = (word_of_int i :: byte);
          (err, T') = md_hmac md prk (T @ info @ [c])
      in if err \<noteq> 0 then Inr (1, okm)
         else bindr (mem_read T' 0 (nat (if i \<noteq> N then int (md_size md) else okm_len - wh))) (\<lambda>out.
              bindr (mem_write okm (nat wh) out) (\<lambda>okm'.
              expand_loop md prk info okm_len N n (i + 1) (take (md_size md) T') (wh + int (md_size md)) okm')))"

definition crypto_hkdf_expand ::
    "md \<Rightarrow> bytes \<Rightarrow> int \<Rightarrow> bytes option \<Rightarrow> int \<Rightarrow> bytes option \<Rightarrow> int \<Rightarrow> (int \<times> bytes) res" where
  "crypto_hkdf_expand md prk prk_len info info_len okm okm_len =
     (case okm of None \<Rightarrow> Inr (CRYPTO_ERROR, [])
      | Some okm \<Rightarrow>
        if info_len < 0 \<or> okm_len < 0 then Inr (CRYPTO_ERROR, okm)
        else
          let hash_len = int (md_size md) in
          if prk_len < hash_len then Inr (CRYPTO_ERROR, okm)
          else if hash_len = 0 then Inl Div_by_zero
          else
            let info = (case info of None \<Rightarrow> [] | Some s \<Rightarrow> take (nat info_len) s);
                N = (if okm_len mod hash_len \<noteq> 0 then okm_len div hash_len + 1 else okm_len div hash_len)
            in if N > 255 then Inr (CRYPTO_ERROR, okm)
               else if md_setup md 1 \<noteq> 0 then Inr (md_setup md 1, okm)
               else expand_loop md (take (nat prk_len) prk) info okm_len N (nat N) 1 [] 0 okm)"

definition crypto_hkdf ::
    "md \<Rightarrow> bytes option \<Rightarrow> int \<Rightarrow> bytes \<Rightarrow> bytes option \<Rightarrow> int \<Rightarrow> bytes option \<Rightarrow> int \<Rightarrow> (int \<times> bytes) res" where
  "crypto_hkdf md salt salt_len ikm info info_len okm okm_len =
     (let (r, prk) = crypto_hkdf_extract md salt salt_len ikm in
      if r \<noteq> 0 then Inr (1, case okm of None \<Rightarrow> [] | Some o' \<Rightarrow> o')
      else bindr (crypto_hkdf_expand md prk (int (md_size md)) info info_len okm okm_len)
                 (\<lambda>(r, okm'). Inr (if r \<noteq> 0 then 1 else 0, okm')))"

text \<open>RFC 5869, section 2.3: \<open>T(0)\<close> is empty and \<open>T(i) = HMAC(PRK, T(i-1) | info | i)\<close>.\<close>

fun hkdf_T :: "md \<Rightarrow> bytes \<Rightarrow> bytes \<Rightarrow> nat \<Rightarrow> bytes" where
  "hkdf_T md prk info 0 = []"
| "hkdf_T md prk info (Suc i) = snd (md_hmac md prk (hkdf_T md prk info i @ info @ [of_nat (Suc i)]))"

definition hkdf_okm :: "md \<Rightarrow> bytes \<Rightarrow> bytes \<Rightarrow> nat \<Rightarrow> bytes" where
  "hkdf_okm md prk info L = take L (concat (map (hkdf_T md prk info) [1..<Suc ((L + md_size md - 1) div md_size md)]))"

section \<open>Keys given in Base64\<close>

text \<open>
  \<open>out\<close> has room for what the decoder may write; a key too short for the cipher ends the process.
\<close>

definition crypto_parse_key :: "bytes \<Rightarrow> bytes \<Rightarrow> nat \<Rightarrow> (nat \<times> bytes) res" where
  "crypto_parse_key base64 key key_len =
     (let base64 = c_str base64;
          (out_len, out) = base64_decode base64 (BASE64_SIZE (int (length base64)))
      in if out_len > 0 \<and> nat out_len \<ge> key_len
         then bindr (mem_read out 0 key_len) (\<lambda>k. bindr (mem_write key 0 k) (\<lambda>key'. Inr (key_len, key')))
         else Inl (Fatal ''Please use the key above or input a valid key''))"

section \<open>The master key is the reference construction\<close>

lemma mem_write_byte:
  assumes "j < length key"
  shows "mem_write key j [b] = Inr (take j key @ b # drop (Suc j) key)"
  using assms by simp

lemma copy_digest_eq:
  assumes "j \<le> K" "K \<le> length key"
  shows "copy_digest key bs j K =
         Inr (take j key @ take (K - j) bs @ drop (min K (j + length bs)) key, min K (j + length bs))"
  using assms
proof (induction bs arbitrary: key j)
  case (Cons b bs)
  show ?case
  proof (cases "j = K")
    case False
    define key' where "key' = take j key @ b # drop (Suc j) key"
    have j: "j < K" "j < length key" and l: "length key' = length key"
      using False Cons.prems by (auto simp: key'_def)
    have "copy_digest key (b # bs) j K = copy_digest key' bs (Suc j) K"
      using j by (simp add: mem_write_byte key'_def)
    also have "\<dots> = Inr (take (Suc j) key' @ take (K - Suc j) bs @ drop (min K (Suc j + length bs)) key',
                         min K (Suc j + length bs))"
      using Cons.IH [of "Suc j" key'] j Cons.prems l by simp
    also have "take (Suc j) key' = take j key @ [b]" using j by (simp add: key'_def)
    also have "drop (min K (Suc j + length bs)) key' = drop (min K (Suc j + length bs)) key"
      using j by (simp add: key'_def drop_Cons')
    finally show ?thesis using j by (simp add: take_Cons')
  qed auto
qed simp

lemma derive_loop_eq:
  assumes md: "md_ok md" and "K \<le> length key" "j \<le> K" "K - j \<le> fuel"
    "prev = (if addmd \<noteq> 0 then md_buf else [])" "addmd \<noteq> 0 \<Longrightarrow> length md_buf = md_size md"
  shows "derive_loop fuel md pass md_buf key j addmd K =
         Some (Inr (take j key @ take (K - j) (bytes_to_key_blocks md pass prev fuel) @ drop K key))"
  using assms(2-)
proof (induction fuel arbitrary: key j addmd md_buf prev)
  case 0
  then show ?case by (simp add: derive_loop.simps)
next
  case (Suc fuel)
  show ?case
  proof (cases "j = K")
    case True
    then show ?thesis by (simp add: derive_loop.simps)
  next
    case False
    define d where "d = md_hash md (prev @ pass)"
    define j' where "j' = min K (j + md_size md)"
    define key' where "key' = take j key @ take (K - j) d @ drop j' key"
    have d: "length d = md_size md" "0 < md_size md" using md by (auto simp: d_def md_ok_def)
    have l: "length key' = length key" using Suc.prems False d by (auto simp: key'_def j'_def)
    have tj: "take j' key' = take j key @ take (K - j) d"
      using Suc.prems False d by (cases "K \<le> j + md_size md") (auto simp: key'_def j'_def)
    have dK: "drop K key' = drop K key"
      using Suc.prems d by (cases "K \<le> j + md_size md") (auto simp: key'_def j'_def)
    have "derive_loop (Suc fuel) md pass md_buf key j addmd K =
          derive_loop fuel md pass d key' j' (addmd + 1) K"
      using Suc.prems False d copy_digest_eq [of j K key d]
      by (subst derive_loop.simps) (auto simp: Let_def d_def key'_def j'_def)
    also have "\<dots> = Some (Inr (take j' key' @ take (K - j') (bytes_to_key_blocks md pass d fuel) @ drop K key'))"
      by (rule Suc.IH) (use Suc.prems False d l in \<open>auto simp: j'_def\<close>)
    finally show ?thesis
      using d unfolding tj dK by (simp add: Let_def d_def [symmetric] j'_def min_def)
  qed
qed

lemma bytes_to_key_blocks_length:
  assumes "md_ok md"
  shows "n \<le> length (bytes_to_key_blocks md pass prev n)"
proof (induction n arbitrary: prev)
  case (Suc n)
  have "0 < length (md_hash md (prev @ pass))" using assms by (simp add: md_ok_def)
  then show ?case
    using Suc.IH [of "md_hash md (prev @ pass)"]
    unfolding bytes_to_key_blocks.simps Let_def length_append by linarith
qed simp

lemma crypto_derive_key_eq:
  assumes "md_ok md" "md_setup md 0 = 0" "key_len \<le> length key"
  shows "crypto_derive_key (Some md) (Some pass) key key_len =
         Some (Inr (key_len, take key_len (bytes_to_key_blocks md (c_str pass) [] key_len) @ drop key_len key))"
  using derive_loop_eq [OF assms(1,3), of 0 key_len "[]" 0 "[]"] assms(2)
  by (simp add: crypto_derive_key_def)

text \<open>
  C34. Key derivation from a password terminates, stays inside the key array, fills exactly its
  first \<open>key_len\<close> bytes with the chained digests \<open>D 1 @ D 2 @ ...\<close> of \<open>EVP_BytesToKey\<close>, and returns
  \<open>key_len\<close>.
\<close>

theorem crypto_derive_key_correct:
  assumes "md_ok md" "md_setup md 0 = 0" "key_len \<le> length key"
  shows "crypto_derive_key (Some md) (Some pass) key key_len =
         Some (Inr (key_len, take key_len (bytes_to_key_blocks md (c_str pass) [] key_len) @ drop key_len key))"
  by (rule crypto_derive_key_eq [OF assms])

section \<open>HKDF is RFC 5869\<close>

definition hmac_total :: "md \<Rightarrow> bool" where
  "hmac_total md \<longleftrightarrow> (\<forall>k x. fst (md_hmac md k x) = 0)"

lemma hkdf_T_length:
  assumes "md_ok md" "0 < i"
  shows "length (hkdf_T md prk info i) = md_size md"
  using assms by (cases i) (auto simp: md_ok_def)

lemma hkdf_T_concat_length:
  "md_ok md \<Longrightarrow> length (concat (map (hkdf_T md prk info) [1..<Suc k])) = k * md_size md"
proof (induction k)
  case (Suc k)
  then show ?case using hkdf_T_length [of md "Suc k" prk info] by simp
qed simp

lemma expand_loop_eq:
  assumes md: "md_ok md" "hmac_total md"
    and N: "(N - 1) * md_size md < L" "L \<le> N * md_size md"
    and "n + k = N" "L \<le> length okm" "n = 0 \<Longrightarrow> take L okm = take L (concat (map (hkdf_T md prk info) [1..<Suc N]))"
    and "0 < n \<Longrightarrow> take (k * md_size md) okm = concat (map (hkdf_T md prk info) [1..<Suc k])"
  shows "expand_loop md prk info (int L) (int N) n (int k + 1) (hkdf_T md prk info k) (int (k * md_size md)) okm =
         Inr (0, take L (concat (map (hkdf_T md prk info) [1..<Suc N])) @ drop L okm)"
  using assms(5-)
proof (induction n arbitrary: k okm)
  case 0
  then show ?case by (metis append_take_drop_id expand_loop.simps(1))
next
  case (Suc n)
  let ?h = "md_size md"
  let ?T = "hkdf_T md prk info"
  let ?pre = "concat (map ?T [1..<Suc k])"
  have h: "0 < ?h" using md(1) by (simp add: md_ok_def)
  have T: "md_hmac md prk (?T k @ info @ [word_of_int (int k + 1)]) = (0, ?T (Suc k))"
    using md(2) by (auto simp: hmac_total_def prod_eq_iff ac_simps)
  have lT: "length (?T (Suc k)) = ?h" by (rule hkdf_T_length [OF md(1)]) simp
  have lpre: "length ?pre = k * ?h" using hkdf_T_concat_length [OF md(1)] .
  have tk: "take (k * ?h) okm = ?pre" using Suc.prems by simp
  have full: "concat (map ?T [1..<Suc (Suc k)]) = ?pre @ ?T (Suc k)" by simp
  have kN: "k \<le> N - 1" "(k + 1) * ?h \<le> N * ?h" using Suc.prems(1) by (auto simp del: mult_Suc)
  show ?case
  proof (cases n)
    case 0
    then have k: "Suc k = N" using Suc.prems(1) by simp
    have kL: "k * ?h < L" "L \<le> k * ?h + ?h" using N k by auto
    define okm' where "okm' = take (k * ?h) okm @ take (L - k * ?h) (?T (Suc k)) @ drop L okm"
    have "okm' = take L (concat (map ?T [1..<Suc N])) @ drop L okm"
      using kL lpre lT tk full unfolding okm'_def k [symmetric] by simp
    moreover have "expand_loop md prk info (int L) (int N) (Suc n) (int k + 1) (?T k) (int (k * ?h)) okm = Inr (0, okm')"
      using 0 T lT kL k Suc.prems(2) unfolding okm'_def
      by (auto simp del: hkdf_T.simps simp: nat_diff_distrib nat_mult_distrib simp flip: of_nat_mult)
    ultimately show ?thesis by simp
  next
    case n: (Suc n')
    have kL: "k * ?h + ?h < L"
    proof -
      have "(k + 1) * ?h \<le> (N - 1) * ?h" using Suc.prems(1) n by (intro mult_le_mono1) simp
      then show ?thesis using N(1) by simp
    qed
    define okm' where "okm' = take (k * ?h) okm @ ?T (Suc k) @ drop (k * ?h + ?h) okm"
    have l': "length okm' = length okm" using kL lT Suc.prems(2) by (simp add: okm'_def)
    have "expand_loop md prk info (int L) (int N) (Suc n) (int k + 1) (?T k) (int (k * ?h)) okm =
          expand_loop md prk info (int L) (int N) n (int (Suc k) + 1) (?T (Suc k)) (int (Suc k * ?h)) okm'"
      using T lT kL n Suc.prems unfolding okm'_def
      by (auto simp del: hkdf_T.simps simp: ac_simps nat_mult_distrib)
    also have "\<dots> = Inr (0, take L (concat (map ?T [1..<Suc N])) @ drop L okm')"
    proof (rule Suc.IH)
      show "take (Suc k * ?h) okm' = concat (map ?T [1..<Suc (Suc k)])"
        using tk lpre lT full Suc.prems(2) kL by (simp add: okm'_def)
    qed (use Suc.prems n l' in simp_all)
    also have "drop L okm' = drop L okm"
      using kL lT Suc.prems(2) by (simp add: okm'_def)
    finally show ?thesis .
  qed
qed

lemma ceil_div:
  fixes L h :: nat
  assumes "0 < h"
  shows "(if L mod h \<noteq> 0 then L div h + 1 else L div h) = (L + h - 1) div h"
proof -
  have L: "h * (L div h) + L mod h = L" and r: "L mod h < h" using assms by simp_all
  show ?thesis
  proof (cases "L mod h = 0")
    case True
    have "(L + h - 1) div h = L div h"
    proof (rule div_nat_eqI)
      show "h * (L div h) \<le> L + h - 1" using L True assms by linarith
      show "L + h - 1 < h * Suc (L div h)" unfolding mult_Suc_right using L True assms by linarith
    qed
    then show ?thesis using True by simp
  next
    case False
    have "(L + h - 1) div h = Suc (L div h)"
    proof (rule div_nat_eqI)
      show "h * Suc (L div h) \<le> L + h - 1" unfolding mult_Suc_right using L False by linarith
      show "L + h - 1 < h * Suc (Suc (L div h))" unfolding mult_Suc_right using L r by linarith
    qed
    then show ?thesis using False by simp
  qed
qed

lemma ceil_div_bounds:
  fixes L h :: nat
  assumes "0 < h" "0 < L" "N = (L + h - 1) div h"
  shows "(N - 1) * h < L" "L \<le> N * h" "0 < N"
proof -
  have N: "N * h \<le> L + h - 1" "L + h - 1 < N * h + h"
    using div_times_less_eq_dividend [of "L + h - 1" h] dividend_less_times_div [OF assms(1), of "L + h - 1"]
    unfolding assms(3) by (simp_all only: ac_simps)
  then show "L \<le> N * h" by simp
  then show "0 < N" using assms(2) by (cases N) auto
  then show "(N - 1) * h < L" using N(1) assms(1,2) by (cases N) auto
qed

lemma ceil_div_int:
  assumes "0 < h"
  shows "(if int L mod int h \<noteq> 0 then int L div int h + 1 else int L div int h) = int ((L + h - 1) div h)"
proof -
  have i: "int L mod int h = int (L mod h)" "int L div int h = int (L div h)"
    by (simp_all only: zmod_int zdiv_int)
  show ?thesis unfolding i ceil_div [OF assms, of L, symmetric] by simp
qed

lemma crypto_hkdf_expand_eq:
  assumes md: "md_ok md" "hmac_total md" "md_setup md 1 = 0"
    and prk: "length prk = md_size md" and L: "L \<le> length okm" "L \<le> 255 * md_size md"
  shows "crypto_hkdf_expand md prk (int (md_size md)) (Some info) (int (length info)) (Some okm) (int L) =
         Inr (0, hkdf_okm md prk info L @ drop L okm)"
proof -
  define N where "N = (L + md_size md - 1) div md_size md"
  have h: "0 < md_size md" using md(1) by (simp add: md_ok_def)
  have N255: "N \<le> 255"
  proof -
    have "L + md_size md - 1 < 256 * md_size md" using L(2) h by linarith
    then have "N < 256" using h by (simp add: N_def less_mult_imp_div_less)
    then show ?thesis by simp
  qed
  have loop: "expand_loop md prk info (int L) (int N) N 1 [] 0 okm = Inr (0, hkdf_okm md prk info L @ drop L okm)"
  proof (cases "L = 0")
    case True
    then have "N = 0" using h by (simp add: N_def)
    then show ?thesis using True by (simp add: hkdf_okm_def)
  next
    case False
    note b = ceil_div_bounds [OF h _ N_def] False
    have "expand_loop md prk info (int L) (int N) N (int 0 + 1) (hkdf_T md prk info 0) (int (0 * md_size md)) okm =
        Inr (0, take L (concat (map (hkdf_T md prk info) [1..<Suc N])) @ drop L okm)"
      by (rule expand_loop_eq [OF md(1,2)]) (use b L(1) in auto)
    then show ?thesis by (simp add: hkdf_okm_def N_def)
  qed
  note NN = ceil_div_int [OF h, of L, folded N_def]
  show ?thesis
    using loop md(3) prk h N255 by (simp add: crypto_hkdf_expand_def Let_def NN)
qed

lemma crypto_hkdf_eq:
  assumes "md_ok md" "hmac_total md" "md_setup md 1 = 0"
    and "L \<le> length okm" "L \<le> 255 * md_size md"
  shows "crypto_hkdf md (Some salt) (int (length salt)) ikm (Some info) (int (length info)) (Some okm) (int L) =
         Inr (0, hkdf_okm md (snd (md_hmac md salt ikm)) info L @ drop L okm)"
proof -
  obtain p where p: "md_hmac md salt ikm = (0, p)"
    using assms(2) by (metis hmac_total_def prod.collapse)
  then have "length p = md_size md" using assms(1) by (metis md_ok_def snd_conv)
  from crypto_hkdf_expand_eq [OF assms(1-3) this assms(4,5)] p show ?thesis
    by (simp add: crypto_hkdf_def crypto_hkdf_extract_def)
qed

text \<open>
  C33. \<open>crypto_hkdf\<close> computes HKDF of RFC 5869: whenever the digest's calls succeed and the requested
  length is at most 255 blocks and fits the output array, it returns 0 and the array holds the
  first \<open>L\<close> bytes of \<open>T(1) | T(2) | ...\<close> for the extracted key, the rest of the array untouched.
\<close>

theorem crypto_hkdf_correct:
  assumes "md_ok md" "hmac_total md" "md_setup md 1 = 0"
    and "L \<le> length okm" "L \<le> 255 * md_size md"
  shows "crypto_hkdf md (Some salt) (int (length salt)) ikm (Some info) (int (length info)) (Some okm) (int L) =
         Inr (0, hkdf_okm md (snd (md_hmac md salt ikm)) info L @ drop L okm)"
  by (rule crypto_hkdf_eq [OF assms])

text \<open>
  A request beyond 255 blocks, or with a negative length, is refused with a non-zero code and
  leaves the output array as it was.
\<close>

theorem crypto_hkdf_refuses:
  assumes "md_ok md" "hmac_total md" "okm_len < 0 \<or> 255 * int (md_size md) < okm_len"
  shows "crypto_hkdf md (Some salt) (int (length salt)) ikm (Some info) (int (length info)) (Some okm) okm_len =
         Inr (1, okm)"
proof -
  obtain p where p: "md_hmac md salt ikm = (0, p)"
    using assms(2) by (metis hmac_total_def prod.collapse)
  have h: "0 < md_size md" using assms(1) by (simp add: md_ok_def)
  have N: "255 < (if okm_len mod int (md_size md) \<noteq> 0 then okm_len div int (md_size md) + 1
                  else okm_len div int (md_size md))" if "\<not> okm_len < 0"
  proof -
    let ?h = "int (md_size md)"
    have "okm_len mod ?h < ?h" using h by simp
    then have "okm_len \<le> ?h * (okm_len div ?h) + ?h" using mult_div_mod_eq [of ?h okm_len] by linarith
    moreover have "okm_len mod ?h = 0 \<Longrightarrow> okm_len = ?h * (okm_len div ?h)"
      using mult_div_mod_eq [of ?h okm_len] by linarith
    ultimately have "?h * (if okm_len mod ?h \<noteq> 0 then okm_len div ?h + 1 else okm_len div ?h) \<ge> okm_len"
      by (simp add: distrib_left)
    then have "?h * 255 < ?h * (if okm_len mod ?h \<noteq> 0 then okm_len div ?h + 1 else okm_len div ?h)"
      using assms(3) that by linarith
    then show ?thesis using h by (simp only: mult_less_cancel_left_pos of_nat_0_less_iff)
  qed
  have "\<exists>r. r \<noteq> 0 \<and> crypto_hkdf_expand md prk (int (md_size md)) (Some info) (int (length info)) (Some okm) okm_len =
        Inr (r, okm)" for prk
    using N h by (cases "okm_len < 0") (auto simp: crypto_hkdf_expand_def Let_def crypto_codes)
  from this [of p] p show ?thesis by (auto simp: crypto_hkdf_def crypto_hkdf_extract_def)
qed

section \<open>Keys in Base64\<close>

text \<open>
  A key encoded with \<open>base64_encode\<close> into a buffer of \<open>BASE64_SIZE(key_len)\<close> bytes, as the
  program prints it, is read back by \<open>crypto_parse_key\<close>, which stores exactly its bytes.
\<close>

theorem crypto_parse_key_roundtrip:
  assumes "0 < length k" "length k < 1073741823" "length k \<le> length key"
  shows "\<exists>s. base64_encode (BASE64_SIZE (int (length k))) k = Some s \<and>
           crypto_parse_key (s @ [0]) key (length k) = Inr (length k, k @ drop (length k) key)"
proof -
  obtain s where s: "base64_encode (BASE64_SIZE (int (length k))) k = Some s" "0 \<notin> set s"
      "int (length s) + 1 = BASE64_SIZE (int (length k))"
    using base64_encode_decode [OF assms(2) order.refl order.refl] by blast
  have dec: "base64_decode s d = (int (length k), k)" if "int (length k) \<le> d" for d
    using base64_encode_decode [OF assms(2) order.refl that] s(1) by auto
  have "int (length k) \<le> BASE64_SIZE (int (length s))"
    using s(3) by (simp add: BASE64_SIZE_def)
  then show ?thesis using s(1,2) dec assms by (simp add: crypto_parse_key_def Let_def)
qed

section \<open>Concrete applications\<close>

text \<open>A digest of the documented shape, and the theorems applied to it.\<close>

definition md_plain :: md where
  "md_plain = \<lparr>md_size = 20, md_hash = (\<lambda>x. replicate 20 (of_nat (length x))),
     md_hmac = (\<lambda>k x. (0, replicate 20 (of_nat (length k + length x)))), md_setup = (\<lambda>_. 0)\<rparr>"

lemma md_plain_ok: "md_ok md_plain" "hmac_total md_plain"
  by (simp_all add: md_ok_def hmac_total_def md_plain_def MBEDTLS_MD_MAX_SIZE_def)

theorem crypto_derive_key_correct_witness:
  "crypto_derive_key (Some md_plain) (Some [112, 119, 0]) (replicate 64 0) 32 =
   Some (Inr (32, take 32 (bytes_to_key_blocks md_plain (c_str [112, 119, 0]) [] 32) @ drop 32 (replicate 64 0)))"
  by (rule crypto_derive_key_correct [OF md_plain_ok(1)]) (simp_all add: md_plain_def)

theorem crypto_hkdf_correct_witness:
  "crypto_hkdf md_plain (Some [1, 2]) (int (length [1::byte, 2])) [3] (Some [4]) (int (length [4::byte])) (Some (replicate 64 0)) (int 32) =
   Inr (0, hkdf_okm md_plain (snd (md_hmac md_plain [1, 2] [3])) [4] 32 @ drop 32 (replicate 64 0))"
  by (rule crypto_hkdf_correct [OF md_plain_ok]) (simp_all add: md_plain_def)

theorem crypto_hkdf_refuses_witness:
  "crypto_hkdf md_plain (Some [1, 2]) (int (length [1::byte, 2])) [3] (Some [4]) (int (length [4::byte])) (Some [0, 0]) 5101 =
   Inr (1, [0, 0])"
  by (rule crypto_hkdf_refuses [OF md_plain_ok]) (simp add: md_plain_def)

theorem crypto_parse_key_roundtrip_witness:
  "\<exists>s. base64_encode (BASE64_SIZE (int (length [5::byte, 250, 77]))) [5, 250, 77] = Some s \<and>
       crypto_parse_key (s @ [0]) [0, 0, 0, 9] (length [5::byte, 250, 77]) =
         Inr (length [5::byte, 250, 77], [5, 250, 77] @ drop (length [5::byte, 250, 77]) [0, 0, 0, 9])"
  by (rule crypto_parse_key_roundtrip) simp_all

end
