(* ===== verification/Crypto_Types.thy ===== *)
theory Crypto_Types
  imports Buffer Crypto_Kdf PPBloom
begin

text \<open>
  What the two cipher modules share: \<open>cipher_t\<close> and \<open>cipher_ctx_t\<close> of \<^verbatim>\<open>src/crypto.h\<close>, the process
  state they work on, and the interface of the cryptographic libraries.

  \<open>crypto_lib\<close> is a parameter of every operation: libsodium and mbedTLS, as functions from what a
  call reads to its error code and what it writes. \<open>'g\<close> is libsodium's AES-GCM state and \<open>'e\<close> the
  cipher context of mbedTLS. \<open>crypto_world\<close> is the process state: the replay filter, the random
  generator (a stream and a position), the contents of fresh memory and the static \<open>tmp\<close> buffers
  of the cipher functions.
\<close>

record cipher =
  ci_method :: int
  ci_skey :: int
  ci_nonce_len :: nat
  ci_key_len :: nat
  ci_tag_len :: nat
  ci_key :: bytes

definition MAX_KEY_LENGTH :: nat where "MAX_KEY_LENGTH = 64"

definition MAX_NONCE_LENGTH :: nat where "MAX_NONCE_LENGTH = 32"

record ('g, 'e) cipher_ctx =
  cx_init :: nat
  cx_counter :: u64
  cx_evp :: "'e option"
  cx_gcm :: "'g option"
  cx_cipher :: cipher
  cx_chunk :: "buffer option"
  cx_salt :: bytes
  cx_skey :: bytes
  cx_nonce :: bytes

definition cipher_ctx_zero :: "cipher \<Rightarrow> ('g, 'e) cipher_ctx" where
  "cipher_ctx_zero c = \<lparr>cx_init = 0, cx_counter = 0, cx_evp = None, cx_gcm = None, cx_cipher = c,
     cx_chunk = None, cx_salt = replicate MAX_KEY_LENGTH 0, cx_skey = replicate MAX_KEY_LENGTH 0,
     cx_nonce = replicate MAX_NONCE_LENGTH 0\<rparr>"

record ('g, 'e) crypto_lib =
  md_info :: "string \<Rightarrow> md option"
  sodium_increment :: "bytes \<Rightarrow> bytes"
  gcm_available :: bool
  gcm_zero :: 'g
  gcm_beforenm :: "bytes \<Rightarrow> int \<times> 'g"
  gcm_encrypt :: "'g \<Rightarrow> bytes \<Rightarrow> bytes \<Rightarrow> int \<times> bytes"
  gcm_decrypt :: "'g \<Rightarrow> bytes \<Rightarrow> bytes \<Rightarrow> int \<times> bytes"
  chacha_encrypt :: "bytes \<Rightarrow> bytes \<Rightarrow> bytes \<Rightarrow> int \<times> bytes"
  chacha_decrypt :: "bytes \<Rightarrow> bytes \<Rightarrow> bytes \<Rightarrow> int \<times> bytes"
  xchacha_encrypt :: "bytes \<Rightarrow> bytes \<Rightarrow> bytes \<Rightarrow> int \<times> bytes"
  xchacha_decrypt :: "bytes \<Rightarrow> bytes \<Rightarrow> bytes \<Rightarrow> int \<times> bytes"
  mbedtls3 :: bool
  evp_found :: "string \<Rightarrow> bool"
  evp_setup :: "string option \<Rightarrow> int \<times> 'e"
  evp_setkey :: "'e \<Rightarrow> bytes \<Rightarrow> nat \<Rightarrow> bool \<Rightarrow> int \<times> 'e"
  evp_reset :: "'e \<Rightarrow> int \<times> 'e"
  evp_auth_encrypt :: "'e \<Rightarrow> bytes \<Rightarrow> bytes \<Rightarrow> nat \<Rightarrow> int \<times> bytes \<times> bytes"
  evp_auth_decrypt :: "'e \<Rightarrow> bytes \<Rightarrow> bytes \<Rightarrow> bytes \<Rightarrow> int \<times> bytes"
  evp_auth_encrypt_ext :: "'e \<Rightarrow> bytes \<Rightarrow> bytes \<Rightarrow> nat \<Rightarrow> int \<times> bytes"
  evp_auth_decrypt_ext :: "'e \<Rightarrow> bytes \<Rightarrow> bytes \<Rightarrow> nat \<Rightarrow> int \<times> bytes"
  evp_set_iv :: "'e \<Rightarrow> bytes \<Rightarrow> int \<times> 'e"
  evp_update :: "'e \<Rightarrow> bytes \<Rightarrow> int \<times> bytes \<times> 'e"
  salsa20_xor_ic :: "bytes \<Rightarrow> bytes \<Rightarrow> u64 \<Rightarrow> bytes \<Rightarrow> int \<times> bytes"
  chacha20_xor_ic :: "bytes \<Rightarrow> bytes \<Rightarrow> u64 \<Rightarrow> bytes \<Rightarrow> int \<times> bytes"
  chacha20_ietf_xor_ic :: "bytes \<Rightarrow> bytes \<Rightarrow> u32 \<Rightarrow> bytes \<Rightarrow> int \<times> bytes"

record 'd crypto_world =
  cw_pp :: "'d ppbloom_state"
  cw_rand :: "nat \<Rightarrow> byte"
  cw_pos :: nat
  cw_junk :: junk
  cw_aead_encrypt_all_tmp :: buffer
  cw_aead_decrypt_all_tmp :: buffer
  cw_aead_encrypt_tmp :: buffer
  cw_stream_encrypt_all_tmp :: buffer
  cw_stream_encrypt_tmp :: buffer
  cw_stream_decrypt_all_tmp :: buffer
  cw_stream_decrypt_tmp :: buffer

definition rand_bytes :: "'d crypto_world \<Rightarrow> nat \<Rightarrow> bytes \<times> 'd crypto_world" where
  "rand_bytes w len = (map (\<lambda>i. cw_rand w (cw_pos w + i)) [0..<len], w\<lparr>cw_pos := cw_pos w + len\<rparr>)"

text \<open>The replay filter of the process, called on the first \<open>len\<close> bytes of a salt array.\<close>

definition world_pp_add :: "'d crypto_world \<Rightarrow> bytes \<Rightarrow> nat \<Rightarrow> 'd crypto_world res" where
  "world_pp_add w salt len =
     bindr (mem_read salt 0 len) (\<lambda>s.
     bindr (ppbloom_add (cw_pp w) s) (\<lambda>(_, pp). Inr (w\<lparr>cw_pp := pp\<rparr>)))"

definition world_pp_check :: "'d crypto_world \<Rightarrow> bytes \<Rightarrow> nat \<Rightarrow> (int \<times> 'd crypto_world) res" where
  "world_pp_check w salt len =
     bindr (mem_read salt 0 len) (\<lambda>s.
     bindr (ppbloom_check (cw_pp w) s) (\<lambda>(r, pp). Inr (r, w\<lparr>cw_pp := pp\<rparr>)))"

lemma length_rand_bytes [simp]: "length (fst (rand_bytes w n)) = n"
  by (simp add: rand_bytes_def)

text \<open>A world is well-formed when its filter is and its static buffers own their blocks.\<close>

definition tmp_wf :: "buffer \<Rightarrow> bool" where
  "tmp_wf b \<longleftrightarrow> length (buf_data b) = buf_capacity b"

definition world_wf :: "'d crypto_world \<Rightarrow> bool" where
  "world_wf w \<longleftrightarrow> ppbloom_ok (cw_pp w) \<and>
     tmp_wf (cw_aead_encrypt_all_tmp w) \<and> tmp_wf (cw_aead_decrypt_all_tmp w) \<and>
     tmp_wf (cw_aead_encrypt_tmp w) \<and> tmp_wf (cw_stream_encrypt_all_tmp w) \<and>
     tmp_wf (cw_stream_encrypt_tmp w) \<and> tmp_wf (cw_stream_decrypt_all_tmp w) \<and>
     tmp_wf (cw_stream_decrypt_tmp w)"

lemma world_pp_check_ok:
  assumes "world_wf w" "len \<le> length salt"
  shows "world_pp_check w salt len = Inr (if pp_covers (cw_pp w) (take len salt) then 1 else 0, w)"
  using assms by (simp add: world_pp_check_def world_wf_def ppbloom_check_ok)

lemma world_pp_add_ok:
  assumes "world_wf w" "len \<le> length salt"
  shows "\<exists>pp. world_pp_add w salt len = Inr (w\<lparr>cw_pp := pp\<rparr>) \<and> ppbloom_add (cw_pp w) (take len salt) = Inr (0, pp) \<and>
           world_wf (w\<lparr>cw_pp := pp\<rparr>) \<and> pp_covers pp (take len salt)"
proof -
  obtain pp where "ppbloom_add (cw_pp w) (take len salt) = Inr (0, pp)" "ppbloom_ok pp" "pp_kept pp (take len salt) 0"
    using ppbloom_add_ok [of "cw_pp w" "take len salt"] assms(1) by (auto simp: world_wf_def)
  then show ?thesis
    using assms by (auto simp: world_pp_add_def world_wf_def intro: pp_kept_covers)
qed

end
