(* ===== verification/Aead.thy ===== *)
theory Aead
  imports Crypto_Types
begin

text \<open>
  The AEAD ciphers of \<^verbatim>\<open>src/aead.c\<close>: method tables, the dispatch to libsodium and mbedTLS, session
  keys, whole packets (\<open>aead_encrypt_all\<close>, \<open>aead_decrypt_all\<close>, UDP) and the chunked stream
  (\<open>aead_encrypt\<close>, \<open>aead_decrypt\<close>, TCP). The build has \<open>FS_HAVE_XCHACHA20IETF\<close>. Pointers into a
  block are the block and an offset; every access is checked, \<open>assert\<close> and \<open>FATAL\<close> are faults.
\<close>

section \<open>Methods\<close>

definition AES128GCM :: int where "AES128GCM = 0"
definition AES192GCM :: int where "AES192GCM = 1"
definition AES256GCM :: int where "AES256GCM = 2"
definition CHACHA20POLY1305IETF :: int where "CHACHA20POLY1305IETF = 3"
definition XCHACHA20POLY1305IETF :: int where "XCHACHA20POLY1305IETF = 4"
definition AEAD_CIPHER_NUM :: int where "AEAD_CIPHER_NUM = 5"
definition CHUNK_SIZE_LEN :: nat where "CHUNK_SIZE_LEN = 2"
definition CHUNK_SIZE_MASK :: nat where "CHUNK_SIZE_MASK = 0x3FFF"

lemmas aead_consts = AES128GCM_def AES192GCM_def AES256GCM_def CHACHA20POLY1305IETF_def
  XCHACHA20POLY1305IETF_def AEAD_CIPHER_NUM_def CHUNK_SIZE_LEN_def CHUNK_SIZE_MASK_def

definition supported_aead_ciphers :: "string list" where
  "supported_aead_ciphers = [''aes-128-gcm'', ''aes-192-gcm'', ''aes-256-gcm'',
     ''chacha20-ietf-poly1305'', ''xchacha20-ietf-poly1305'']"

definition supported_aead_ciphers_mbedtls :: "string list" where
  "supported_aead_ciphers_mbedtls = [''AES-128-GCM'', ''AES-192-GCM'', ''AES-256-GCM'',
     ''unsupported'', ''unsupported'']"

definition supported_aead_ciphers_nonce_size :: "nat list" where
  "supported_aead_ciphers_nonce_size = [12, 12, 12, 12, 24]"

definition supported_aead_ciphers_key_size :: "nat list" where
  "supported_aead_ciphers_key_size = [16, 24, 32, 32, 32]"

definition supported_aead_ciphers_tag_size :: "nat list" where
  "supported_aead_ciphers_tag_size = [16, 16, 16, 16, 16]"

section \<open>One AEAD operation\<close>

text \<open>
  \<open>c\<close> points to offset \<open>off\<close> of the block \<open>mem\<close>; the result is the error code, the block and \<open>*clen\<close>.
\<close>

definition aead_cipher_encrypt ::
    "('g, 'e) crypto_lib \<Rightarrow> ('g, 'e) cipher_ctx \<Rightarrow> bytes \<Rightarrow> nat \<Rightarrow> nat \<Rightarrow> bytes \<Rightarrow> bytes \<Rightarrow> bytes \<Rightarrow>
     (int \<times> bytes \<times> nat) res" where
  "aead_cipher_encrypt L ctx mem off clen m n k =
     (let nlen = ci_nonce_len (cx_cipher ctx); tlen = ci_tag_len (cx_cipher ctx);
          method = ci_method (cx_cipher ctx) in
      if method = AES256GCM \<and> cx_gcm ctx \<noteq> None then
        let (err, out) = gcm_encrypt L (the (cx_gcm ctx)) (take 12 n) m in
        bindr (mem_write mem off out) (\<lambda>mem. Inr (err, mem, length out))
      else if method = AES256GCM \<or> method = AES192GCM \<or> method = AES128GCM then
        (case cx_evp ctx of None \<Rightarrow> Inl Out_of_bounds
         | Some e \<Rightarrow>
             if mbedtls3 L then
               let (err, out) = evp_auth_encrypt_ext L e (take nlen n) m tlen in
               bindr (mem_write mem off out) (\<lambda>mem. Inr (err, mem, length out + tlen))
             else
               let (err, out, tag) = evp_auth_encrypt L e (take nlen n) m tlen in
               bindr (mem_write mem off out) (\<lambda>mem.
               bindr (mem_write mem (off + length m) tag) (\<lambda>mem. Inr (err, mem, length out + tlen))))
      else if method = CHACHA20POLY1305IETF then
        let (err, out) = chacha_encrypt L (take 32 k) (take 12 n) m in
        bindr (mem_write mem off out) (\<lambda>mem. Inr (err, mem, length out))
      else if method = XCHACHA20POLY1305IETF then
        let (err, out) = xchacha_encrypt L (take 32 k) (take 24 n) m in
        bindr (mem_write mem off out) (\<lambda>mem. Inr (err, mem, length out))
      else Inr (CRYPTO_ERROR, mem, clen))"

definition aead_cipher_decrypt ::
    "('g, 'e) crypto_lib \<Rightarrow> ('g, 'e) cipher_ctx \<Rightarrow> bytes \<Rightarrow> nat \<Rightarrow> nat \<Rightarrow> bytes \<Rightarrow> bytes \<Rightarrow> bytes \<Rightarrow>
     (int \<times> bytes \<times> nat) res" where
  "aead_cipher_decrypt L ctx mem off plen m n k =
     (let nlen = ci_nonce_len (cx_cipher ctx); tlen = ci_tag_len (cx_cipher ctx);
          method = ci_method (cx_cipher ctx);
          finish = (\<lambda>(err, out). bindr (mem_write mem off out) (\<lambda>mem.
                      Inr (if err \<noteq> 0 then CRYPTO_ERROR else err, mem, length out))) in
      if method = AES256GCM \<and> cx_gcm ctx \<noteq> None then
        finish (gcm_decrypt L (the (cx_gcm ctx)) (take 12 n) m)
      else if method = AES256GCM \<or> method = AES192GCM \<or> method = AES128GCM then
        (case cx_evp ctx of None \<Rightarrow> Inl Out_of_bounds
         | Some e \<Rightarrow>
             finish (if mbedtls3 L then evp_auth_decrypt_ext L e (take nlen n) m tlen
                     else evp_auth_decrypt L e (take nlen n) (take (length m - tlen) m)
                            (drop (length m - tlen) m)))
      else if method = CHACHA20POLY1305IETF then finish (chacha_decrypt L (take 32 k) (take 12 n) m)
      else if method = XCHACHA20POLY1305IETF then finish (xchacha_decrypt L (take 32 k) (take 24 n) m)
      else Inr (CRYPTO_ERROR, mem, plen))"

section \<open>Contexts\<close>

definition aead_get_cipher_type :: "('g, 'e) crypto_lib \<Rightarrow> int \<Rightarrow> string option" where
  "aead_get_cipher_type L method =
     (if method < AES128GCM \<or> method \<ge> AEAD_CIPHER_NUM then None
      else if method \<ge> CHACHA20POLY1305IETF then None
      else
        let mbedtlsname = supported_aead_ciphers_mbedtls ! nat method in
        if mbedtlsname = ''unsupported'' then None
        else if evp_found L mbedtlsname then Some mbedtlsname else None)"

definition SUBKEY_INFO :: bytes where
  "SUBKEY_INFO = bstr ''ss-subkey''"

definition aead_cipher_ctx_set_key ::
    "('g, 'e) crypto_lib \<Rightarrow> ('g, 'e) cipher_ctx \<Rightarrow> bool \<Rightarrow> ('g, 'e) cipher_ctx res" where
  "aead_cipher_ctx_set_key L ctx enc =
     (let ci = cx_cipher ctx in
      case md_info L ''SHA1'' of
        None \<Rightarrow> Inl (Fatal ''SHA1 Digest not found in crypto library'')
      | Some md \<Rightarrow>
          bindr (mem_read (cx_salt ctx) 0 (ci_key_len ci)) (\<lambda>salt.
          bindr (mem_read (ci_key ci) 0 (ci_key_len ci)) (\<lambda>ikm.
          bindr (crypto_hkdf md (Some salt) (int (ci_key_len ci)) ikm
                   (Some SUBKEY_INFO) (int (length SUBKEY_INFO))
                   (Some (cx_skey ctx)) (int (ci_key_len ci))) (\<lambda>(err, skey).
          let ctx = ctx\<lparr>cx_skey := skey\<rparr> in
          if err \<noteq> 0 then Inl (Fatal ''Unable to generate subkey'')
          else bindr (mem_write (cx_nonce ctx) 0 (replicate (ci_nonce_len ci) 0)) (\<lambda>nonce.
            let ctx = ctx\<lparr>cx_nonce := nonce\<rparr> in
            if ci_method ci \<ge> CHACHA20POLY1305IETF then Inr ctx
            else if cx_gcm ctx \<noteq> None then
              (let (err, g) = gcm_beforenm L (take 32 (cx_skey ctx)) in
               if err \<noteq> 0 then Inl (Fatal ''Cannot set libsodium cipher key'')
               else Inr (ctx\<lparr>cx_gcm := Some g\<rparr>))
            else
              case cx_evp ctx of None \<Rightarrow> Inl Out_of_bounds
              | Some e \<Rightarrow>
                  let (err, e) = evp_setkey L e (take (ci_key_len ci) (cx_skey ctx)) (ci_key_len ci * 8) enc in
                  if err \<noteq> 0 then Inl (Fatal ''Cannot set mbed TLS cipher key'')
                  else
                    let (err, e) = evp_reset L e in
                    if err \<noteq> 0 then Inl (Fatal ''Cannot finish preparation of mbed TLS cipher context'')
                    else Inr (ctx\<lparr>cx_evp := Some e\<rparr>))))))"

definition aead_cipher_ctx_init ::
    "('g, 'e) crypto_lib \<Rightarrow> ('g, 'e) cipher_ctx \<Rightarrow> int \<Rightarrow> bool \<Rightarrow> ('g, 'e) cipher_ctx res" where
  "aead_cipher_ctx_init L ctx method enc =
     (if method < AES128GCM \<or> method \<ge> AEAD_CIPHER_NUM then Inr ctx
      else if method \<ge> CHACHA20POLY1305IETF then Inr ctx
      else
        let kt = aead_get_cipher_type L method in
        bindr (if method = AES256GCM \<and> gcm_available L
               then Inr (ctx\<lparr>cx_gcm := Some (gcm_zero L)\<rparr>)
               else
                 let (err, e) = evp_setup L kt in
                 if err \<noteq> 0 then Inl (Fatal ''Cannot initialize mbed TLS cipher context'')
                 else Inr (ctx\<lparr>cx_gcm := None, cx_evp := Some e\<rparr>)) (\<lambda>ctx.
        if kt = None then Inl (Fatal ''Cannot initialize mbed TLS cipher'') else Inr ctx))"

definition aead_ctx_init ::
    "('g, 'e) crypto_lib \<Rightarrow> 'd crypto_world \<Rightarrow> cipher \<Rightarrow> bool \<Rightarrow>
     (('g, 'e) cipher_ctx \<times> 'd crypto_world) res" where
  "aead_ctx_init L w cipher enc =
     bindr (aead_cipher_ctx_init L (cipher_ctx_zero cipher) (ci_method cipher) enc) (\<lambda>ctx.
       if enc then
         let (r, w) = rand_bytes w (ci_key_len cipher) in
         bindr (mem_write (cx_salt ctx) 0 r) (\<lambda>salt. Inr (ctx\<lparr>cx_salt := salt\<rparr>, w))
       else Inr (ctx, w))"

definition aead_ctx_release :: "('g, 'e) cipher_ctx \<Rightarrow> ('g, 'e) cipher_ctx" where
  "aead_ctx_release ctx =
     (let ctx = ctx\<lparr>cx_chunk := None\<rparr> in
      if ci_method (cx_cipher ctx) \<ge> CHACHA20POLY1305IETF then ctx
      else if cx_gcm ctx \<noteq> None then ctx\<lparr>cx_gcm := None\<rparr>
      else ctx\<lparr>cx_evp := None\<rparr>)"

section \<open>Packets\<close>

definition aead_encrypt_all ::
    "('g, 'e) crypto_lib \<Rightarrow> 'd crypto_world \<Rightarrow> buffer \<Rightarrow> cipher \<Rightarrow> nat \<Rightarrow>
     (int \<times> buffer \<times> 'd crypto_world) res" where
  "aead_encrypt_all L w plaintext cipher capacity =
     bindr (aead_ctx_init L w cipher True) (\<lambda>(ctx, w).
     let salt_len = ci_key_len cipher; tag_len = ci_tag_len cipher;
         tmp = brealloc (cw_junk w) (cw_aead_encrypt_all_tmp w) (salt_len + tag_len + buf_len plaintext) capacity;
         tmp = tmp\<lparr>buf_len := tag_len + buf_len plaintext\<rparr> in
     bindr (mem_read (cx_salt ctx) 0 salt_len) (\<lambda>salt.
     bindr (mem_write (buf_data tmp) 0 salt) (\<lambda>d.
     bindr (world_pp_add w (cx_salt ctx) salt_len) (\<lambda>w.
     bindr (aead_cipher_ctx_set_key L ctx True) (\<lambda>ctx.
     bindr (mem_read (buf_data plaintext) 0 (buf_len plaintext)) (\<lambda>m.
     bindr (aead_cipher_encrypt L ctx d salt_len (buf_len tmp) m (cx_nonce ctx) (cx_skey ctx)) (\<lambda>(err, d, clen).
     let tmp = tmp\<lparr>buf_data := d\<rparr> in
     if err \<noteq> 0 then Inr (CRYPTO_ERROR, plaintext, w\<lparr>cw_aead_encrypt_all_tmp := tmp\<rparr>)
     else bindr (assertr (buf_len tmp = clen)) (\<lambda>_.
       let (plaintext, tmp) = bswap_data plaintext tmp in
       Inr (CRYPTO_OK, plaintext\<lparr>buf_len := salt_len + buf_len tmp\<rparr>, w\<lparr>cw_aead_encrypt_all_tmp := tmp\<rparr>)))))))))"

definition aead_decrypt_all ::
    "('g, 'e) crypto_lib \<Rightarrow> 'd crypto_world \<Rightarrow> buffer \<Rightarrow> cipher \<Rightarrow> nat \<Rightarrow>
     (int \<times> buffer \<times> 'd crypto_world) res" where
  "aead_decrypt_all L w ciphertext cipher capacity =
     (let salt_len = ci_key_len cipher; tag_len = ci_tag_len cipher in
      if buf_len ciphertext \<le> salt_len + tag_len then Inr (CRYPTO_ERROR, ciphertext, w)
      else
        bindr (aead_ctx_init L w cipher False) (\<lambda>(ctx, w).
        let tmp = brealloc (cw_junk w) (cw_aead_decrypt_all_tmp w) (buf_len ciphertext) capacity;
            tmp = tmp\<lparr>buf_len := buf_len ciphertext - salt_len - tag_len\<rparr> in
        bindr (mem_read (buf_data ciphertext) 0 salt_len) (\<lambda>s.
        bindr (mem_write (cx_salt ctx) 0 s) (\<lambda>salt.
        let ctx = ctx\<lparr>cx_salt := salt\<rparr> in
        bindr (world_pp_check w salt salt_len) (\<lambda>(r, w).
        if r = 1 then Inr (CRYPTO_ERROR, ciphertext, w\<lparr>cw_aead_decrypt_all_tmp := tmp\<rparr>)
        else
          bindr (aead_cipher_ctx_set_key L ctx False) (\<lambda>ctx.
          bindr (mem_read (buf_data ciphertext) salt_len (buf_len ciphertext - salt_len)) (\<lambda>m.
          bindr (aead_cipher_decrypt L ctx (buf_data tmp) 0 (buf_len tmp) m (cx_nonce ctx) (cx_skey ctx)) (\<lambda>(err, d, plen).
          let tmp = tmp\<lparr>buf_data := d\<rparr> in
          if err \<noteq> 0 then Inr (CRYPTO_ERROR, ciphertext, w\<lparr>cw_aead_decrypt_all_tmp := tmp\<rparr>)
          else
            bindr (world_pp_add w salt salt_len) (\<lambda>w.
            let (ciphertext, tmp) = bswap_data ciphertext tmp in
            Inr (CRYPTO_OK, ciphertext\<lparr>buf_len := buf_len tmp\<rparr>, w\<lparr>cw_aead_decrypt_all_tmp := tmp\<rparr>))))))))))"

section \<open>The chunked stream\<close>

text \<open>
  Network byte order of a 16-bit length, \<open>htons\<close> and \<open>load16_be\<close>. \<open>plen\<close> arrives as \<open>uint16_t\<close>.
\<close>

definition htons_bytes :: "nat \<Rightarrow> bytes" where
  "htons_bytes v = [of_nat (v div 256), of_nat (v mod 256)]"

definition load16_be :: "bytes \<Rightarrow> nat" where
  "load16_be b = unat (b ! 0) * 256 + unat (b ! 1)"

definition nonce_step :: "('g, 'e) crypto_lib \<Rightarrow> ('g, 'e) cipher_ctx \<Rightarrow> ('g, 'e) cipher_ctx res" where
  "nonce_step L ctx =
     bindr (mem_read (cx_nonce ctx) 0 (ci_nonce_len (cx_cipher ctx))) (\<lambda>n.
     bindr (mem_write (cx_nonce ctx) 0 (sodium_increment L n)) (\<lambda>nonce. Inr (ctx\<lparr>cx_nonce := nonce\<rparr>)))"

definition aead_chunk_encrypt ::
    "('g, 'e) crypto_lib \<Rightarrow> ('g, 'e) cipher_ctx \<Rightarrow> bytes \<Rightarrow> bytes \<Rightarrow> nat \<Rightarrow> u16 \<Rightarrow>
     (int \<times> ('g, 'e) cipher_ctx \<times> bytes) res" where
  "aead_chunk_encrypt L ctx p c off plen16 =
     (let tlen = ci_tag_len (cx_cipher ctx); plen = unat plen16 in
      bindr (assertr (plen \<le> CHUNK_SIZE_MASK)) (\<lambda>_.
      let len_buf = htons_bytes (plen AND CHUNK_SIZE_MASK) in
      bindr (aead_cipher_encrypt L ctx c off (CHUNK_SIZE_LEN + tlen) len_buf (cx_nonce ctx) (cx_skey ctx)) (\<lambda>(err, c, clen).
      if err \<noteq> 0 then Inr (CRYPTO_ERROR, ctx, c)
      else
        bindr (assertr (clen = CHUNK_SIZE_LEN + tlen)) (\<lambda>_.
        bindr (nonce_step L ctx) (\<lambda>ctx.
        bindr (mem_read p 0 plen) (\<lambda>m.
        bindr (aead_cipher_encrypt L ctx c (off + CHUNK_SIZE_LEN + tlen) (plen + tlen) m (cx_nonce ctx) (cx_skey ctx)) (\<lambda>(err, c, clen).
        if err \<noteq> 0 then Inr (CRYPTO_ERROR, ctx, c)
        else
          bindr (assertr (clen = plen + tlen)) (\<lambda>_.
          bindr (nonce_step L ctx) (\<lambda>ctx. Inr (CRYPTO_OK, ctx, c))))))))))"

definition aead_encrypt ::
    "('g, 'e) crypto_lib \<Rightarrow> 'd crypto_world \<Rightarrow> buffer \<Rightarrow> ('g, 'e) cipher_ctx option \<Rightarrow> nat \<Rightarrow>
     (int \<times> buffer \<times> ('g, 'e) cipher_ctx option \<times> 'd crypto_world) res" where
  "aead_encrypt L w plaintext cctx capacity =
     (case cctx of None \<Rightarrow> Inr (CRYPTO_ERROR, plaintext, None, w)
      | Some ctx \<Rightarrow>
        if buf_len plaintext = 0 then Inr (CRYPTO_OK, plaintext, Some ctx, w)
        else
          let cipher = cx_cipher ctx; salt_len = ci_key_len cipher; tag_len = ci_tag_len cipher;
              salt_ofst = (if cx_init ctx = 0 then salt_len else 0);
              out_len = salt_ofst + 2 * tag_len + buf_len plaintext + CHUNK_SIZE_LEN;
              tmp = brealloc (cw_junk w) (cw_aead_encrypt_tmp w) out_len capacity;
              tmp = tmp\<lparr>buf_len := out_len\<rparr> in
          bindr (if cx_init ctx = 0 then
                   bindr (mem_read (cx_salt ctx) 0 salt_len) (\<lambda>salt.
                   bindr (mem_write (buf_data tmp) 0 salt) (\<lambda>d.
                   bindr (aead_cipher_ctx_set_key L ctx True) (\<lambda>ctx.
                   let ctx = ctx\<lparr>cx_init := 1\<rparr> in
                   bindr (world_pp_add w (cx_salt ctx) salt_len) (\<lambda>w. Inr (ctx, d, w)))))
                 else Inr (ctx, buf_data tmp, w)) (\<lambda>(ctx, d, w).
          bindr (aead_chunk_encrypt L ctx (buf_data plaintext) d salt_ofst (of_nat (buf_len plaintext))) (\<lambda>(err, ctx, d).
          let tmp = tmp\<lparr>buf_data := d\<rparr> in
          if err \<noteq> 0 then Inr (err, plaintext, Some ctx, w\<lparr>cw_aead_encrypt_tmp := tmp\<rparr>)
          else
            let (plaintext, tmp) = bswap_data plaintext tmp in
            Inr (0, plaintext\<lparr>buf_len := buf_len tmp\<rparr>, Some ctx, w\<lparr>cw_aead_encrypt_tmp := tmp\<rparr>))))"

text \<open>
  \<open>p\<close> and \<open>c\<close> are offsets \<open>po\<close> and \<open>co\<close> of the blocks \<open>pm\<close> and \<open>cm\<close>; the result is the code, the
  context (its nonce advanced), the written block, \<open>*plen\<close> and \<open>*clen\<close>.
\<close>

definition aead_chunk_decrypt ::
    "('g, 'e) crypto_lib \<Rightarrow> ('g, 'e) cipher_ctx \<Rightarrow> bytes \<Rightarrow> nat \<Rightarrow> bytes \<Rightarrow> nat \<Rightarrow> nat \<Rightarrow> nat \<Rightarrow>
     (int \<times> ('g, 'e) cipher_ctx \<times> bytes \<times> nat \<times> nat) res" where
  "aead_chunk_decrypt L ctx pm po cm co plen clen =
     (let tlen = ci_tag_len (cx_cipher ctx) in
      if clen \<le> 2 * tlen + CHUNK_SIZE_LEN then Inr (CRYPTO_NEED_MORE, ctx, pm, plen, clen)
      else
        bindr (mem_read cm co (CHUNK_SIZE_LEN + tlen)) (\<lambda>m.
        bindr (aead_cipher_decrypt L ctx [0, 0] 0 plen m (cx_nonce ctx) (cx_skey ctx)) (\<lambda>(err, len_buf, plen).
        if err \<noteq> 0 then Inr (CRYPTO_ERROR, ctx, pm, plen, clen)
        else
          bindr (assertr (plen = CHUNK_SIZE_LEN)) (\<lambda>_.
          let mlen = load16_be len_buf AND CHUNK_SIZE_MASK in
          if mlen = 0 then Inr (CRYPTO_ERROR, ctx, pm, plen, clen)
          else
            let chunk_len = 2 * tlen + CHUNK_SIZE_LEN + mlen in
            if clen < chunk_len then Inr (CRYPTO_NEED_MORE, ctx, pm, plen, clen)
            else
              bindr (nonce_step L ctx) (\<lambda>ctx.
              bindr (mem_read cm (co + CHUNK_SIZE_LEN + tlen) (mlen + tlen)) (\<lambda>m.
              bindr (aead_cipher_decrypt L ctx pm po plen m (cx_nonce ctx) (cx_skey ctx)) (\<lambda>(err, pm, plen).
              if err \<noteq> 0 then Inr (CRYPTO_ERROR, ctx, pm, plen, clen)
              else
                bindr (assertr (plen = mlen)) (\<lambda>_.
                bindr (nonce_step L ctx) (\<lambda>ctx. Inr (CRYPTO_OK, ctx, pm, plen, clen - chunk_len))))))))))"

lemma aead_chunk_decrypt_clen:
  assumes "aead_chunk_decrypt L ctx pm po cm co plen clen = Inr (err, ctx', pm', plen', clen')"
    and "err \<noteq> CRYPTO_ERROR" "err \<noteq> CRYPTO_NEED_MORE"
  shows "clen' < clen"
  using assms
  by (auto simp: aead_chunk_decrypt_def Let_def bindr_Inr_iff split: if_splits)

text \<open>
  The \<open>while\<close> loop of \<open>aead_decrypt\<close>; its first result is the code of an early return.
\<close>

function aead_decrypt_loop ::
    "('g, 'e) crypto_lib \<Rightarrow> ('g, 'e) cipher_ctx \<Rightarrow> bytes \<Rightarrow> buffer \<Rightarrow> nat \<Rightarrow> nat \<Rightarrow>
     (int option \<times> ('g, 'e) cipher_ctx \<times> bytes \<times> buffer \<times> nat) res" where
  "aead_decrypt_loop L ctx pm chunk plen cidx =
     (if buf_len chunk > 0 then
        case aead_chunk_decrypt L ctx pm plen (buf_data chunk) (buf_idx chunk + cidx) 0 (buf_len chunk) of
          Inl e \<Rightarrow> Inl e
        | Inr (err, ctx', pm', chunk_plen, chunk_clen) \<Rightarrow>
            if err = CRYPTO_ERROR then Inr (Some err, ctx', pm', chunk, plen)
            else if err = CRYPTO_NEED_MORE then
              if plen = 0 then Inr (Some err, ctx', pm', chunk, plen)
              else Inr (None, ctx', pm', chunk\<lparr>buf_idx := buf_idx chunk + cidx\<rparr>, plen)
            else
              aead_decrypt_loop L ctx' pm' (chunk\<lparr>buf_len := chunk_clen\<rparr>) (plen + chunk_plen)
                (cidx + ci_tag_len (cx_cipher ctx') * 2 + CHUNK_SIZE_LEN + chunk_plen)
      else Inr (None, ctx, pm, chunk, plen))"
  by pat_completeness auto
termination
  by (relation "measure (\<lambda>(L, ctx, pm, chunk, plen, cidx). buf_len chunk)")
     (auto dest: aead_chunk_decrypt_clen)

declare aead_decrypt_loop.simps [simp del]

text \<open>The first part of \<open>aead_decrypt\<close>: the received bytes join those kept in \<open>chunk\<close>.\<close>

definition aead_collect ::
    "junk \<Rightarrow> buffer option \<Rightarrow> buffer \<Rightarrow> nat \<Rightarrow> (buffer \<times> buffer) res" where
  "aead_collect junk chunk0 ciphertext capacity =
     (let chunk = (case chunk0 of None \<Rightarrow> balloc junk capacity | Some c \<Rightarrow> c) in
      bindr (if buf_len chunk = 0 then
               let (chunk, ciphertext) = bswap_data chunk ciphertext in
               Inr (chunk\<lparr>buf_len := buf_len ciphertext, buf_idx := 0\<rparr>, ciphertext\<lparr>buf_len := 0\<rparr>)
             else
               bindr (if buf_idx chunk > 0 then
                        bindr (mem_read (buf_data chunk) (buf_idx chunk) (buf_len chunk)) (\<lambda>x.
                        bindr (mem_write (buf_data chunk) 0 x) (\<lambda>d.
                        Inr (chunk\<lparr>buf_data := d, buf_idx := 0\<rparr>)))
                      else Inr chunk) (\<lambda>chunk.
               let chunk = brealloc junk chunk (buf_len chunk + buf_len ciphertext) capacity in
               bindr (mem_read (buf_data ciphertext) 0 (buf_len ciphertext)) (\<lambda>x.
               bindr (mem_write (buf_data chunk) (buf_len chunk) x) (\<lambda>d.
               Inr (chunk\<lparr>buf_data := d, buf_len := buf_len chunk + buf_len ciphertext\<rparr>, ciphertext))))) (\<lambda>(chunk, ciphertext).
      Inr (chunk, brealloc junk ciphertext (buf_len chunk) capacity)))"

text \<open>
  Its second part: the salt of a new stream is checked and the context keyed. The first result is
  the code of an early return.
\<close>

definition aead_decrypt_salt ::
    "('g, 'e) crypto_lib \<Rightarrow> 'd crypto_world \<Rightarrow> ('g, 'e) cipher_ctx \<Rightarrow> buffer \<Rightarrow>
     (int option \<times> ('g, 'e) cipher_ctx \<times> buffer \<times> 'd crypto_world) res" where
  "aead_decrypt_salt L w ctx chunk =
     (let salt_len = ci_key_len (cx_cipher ctx) in
      if cx_init ctx = 0 then
        if buf_len chunk \<le> salt_len then Inr (Some CRYPTO_NEED_MORE, ctx, chunk, w)
        else
          bindr (mem_read (buf_data chunk) (buf_idx chunk) salt_len) (\<lambda>s.
          bindr (mem_write (cx_salt ctx) 0 s) (\<lambda>salt.
          let ctx = ctx\<lparr>cx_salt := salt\<rparr> in
          bindr (world_pp_check w salt salt_len) (\<lambda>(r, w).
          if r = 1 then Inr (Some CRYPTO_ERROR, ctx, chunk, w)
          else
            bindr (aead_cipher_ctx_set_key L ctx False) (\<lambda>ctx.
            Inr (None, ctx\<lparr>cx_init := 1\<rparr>,
                 chunk\<lparr>buf_idx := buf_idx chunk + salt_len, buf_len := buf_len chunk - salt_len\<rparr>, w)))))
      else Inr (None, ctx, chunk, w))"

text \<open>Its third part: the chunks are decrypted and the salt of an authentic stream is recorded.\<close>

definition aead_decrypt_rest ::
    "('g, 'e) crypto_lib \<Rightarrow> 'd crypto_world \<Rightarrow> buffer \<Rightarrow> ('g, 'e) cipher_ctx \<Rightarrow> buffer \<Rightarrow>
     (int \<times> buffer \<times> ('g, 'e) cipher_ctx \<times> 'd crypto_world) res" where
  "aead_decrypt_rest L w ciphertext ctx chunk =
     (let salt_len = ci_key_len (cx_cipher ctx) in
      bindr (aead_decrypt_loop L ctx (buf_data ciphertext) chunk 0 0) (\<lambda>(early, ctx, pm, chunk, plen).
      let ciphertext = ciphertext\<lparr>buf_data := pm\<rparr> in
      case early of
        Some err \<Rightarrow> Inr (err, ciphertext, ctx\<lparr>cx_chunk := Some chunk\<rparr>, w)
      | None \<Rightarrow>
          let chunk = (if buf_len chunk = 0 then chunk\<lparr>buf_idx := 0\<rparr> else chunk);
              ciphertext = ciphertext\<lparr>buf_len := plen\<rparr>;
              ctx = ctx\<lparr>cx_chunk := Some chunk\<rparr> in
          if cx_init ctx = 1 then
            bindr (world_pp_check w (cx_salt ctx) salt_len) (\<lambda>(r, w).
            if r = 1 then Inr (CRYPTO_ERROR, ciphertext, ctx, w)
            else
              bindr (world_pp_add w (cx_salt ctx) salt_len) (\<lambda>w.
              Inr (CRYPTO_OK, ciphertext, ctx\<lparr>cx_init := 2\<rparr>, w)))
          else Inr (CRYPTO_OK, ciphertext, ctx, w)))"

definition aead_decrypt ::
    "('g, 'e) crypto_lib \<Rightarrow> 'd crypto_world \<Rightarrow> buffer \<Rightarrow> ('g, 'e) cipher_ctx \<Rightarrow> nat \<Rightarrow>
     (int \<times> buffer \<times> ('g, 'e) cipher_ctx \<times> 'd crypto_world) res" where
  "aead_decrypt L w ciphertext ctx capacity =
     bindr (aead_collect (cw_junk w) (cx_chunk ctx) ciphertext capacity) (\<lambda>(chunk, ciphertext).
     bindr (aead_decrypt_salt L w ctx chunk) (\<lambda>(early, ctx, chunk, w).
     case early of
       Some err \<Rightarrow> Inr (err, ciphertext, ctx\<lparr>cx_chunk := Some chunk\<rparr>, w)
     | None \<Rightarrow> aead_decrypt_rest L w ciphertext ctx chunk))"

section \<open>Ciphers\<close>

definition aead_key_init ::
    "('g, 'e) crypto_lib \<Rightarrow> int \<Rightarrow> bytes option \<Rightarrow> bytes option \<Rightarrow> cipher option res option" where
  "aead_key_init L method pass key =
     (if method < AES128GCM \<or> method \<ge> AEAD_CIPHER_NUM then Some (Inr None)
      else if method < CHACHA20POLY1305IETF \<and> aead_get_cipher_type L method = None
      then Some (Inl (Fatal ''Cannot initialize cipher''))
      else
        let key0 = replicate MAX_KEY_LENGTH 0; size = supported_aead_ciphers_key_size ! nat method in
        map_option (\<lambda>r. bindr r (\<lambda>(key_len, k).
            if key_len = 0 then Inl (Fatal ''Cannot generate key and nonce'')
            else Inr (Some \<lparr>ci_method = method, ci_skey = 0,
                            ci_nonce_len = supported_aead_ciphers_nonce_size ! nat method,
                            ci_key_len = key_len,
                            ci_tag_len = supported_aead_ciphers_tag_size ! nat method,
                            ci_key = k\<rparr>)))
          (case key of Some b \<Rightarrow> Some (crypto_parse_key b key0 size)
           | None \<Rightarrow> crypto_derive_key (md_info L ''MD5'') pass key0 size))"

fun index_of :: "string \<Rightarrow> string list \<Rightarrow> nat" where
  "index_of s [] = 0"
| "index_of s (t # ts) = (if s = t then 0 else Suc (index_of s ts))"

definition aead_init ::
    "('g, 'e) crypto_lib \<Rightarrow> bytes option \<Rightarrow> bytes option \<Rightarrow> string option \<Rightarrow> cipher option res option" where
  "aead_init L pass key method =
     (let m = (case method of None \<Rightarrow> AES128GCM
               | Some s \<Rightarrow> let m = int (index_of s supported_aead_ciphers) in
                            if m \<ge> AEAD_CIPHER_NUM then CHACHA20POLY1305IETF else m)
      in aead_key_init L m pass key)"

end
