(* ===== verification/Aead_Scheme.thy ===== *)
theory Aead_Scheme
  imports Aead
begin

text \<open>
  The chunked stream of \<^verbatim>\<open>src/aead.c\<close>, stated without buffers: \<open>enc_chunks\<close> is what a sender puts on
  the wire for a list of messages, \<open>dec_chunks\<close> what a receiver gets out of the bytes it holds: the
  plaintext of all complete chunks, the next nonce and the bytes it keeps, or \<open>None\<close> when a chunk
  is not authentic.

  The locale \<open>aead_scheme\<close> is the interface of an authenticated cipher; inside it the stream is shown
  to be the sender's, however the network cuts it. \<open>session_seal\<close> and \<open>session_unseal\<close> are the cipher
  that a keyed context of the model applies, and the interpretation at the end shows that they
  implement the interface, given what the libraries document (\<open>lib_ok\<close>).
\<close>

section \<open>The stream format\<close>

definition enc_chunk :: "(bytes \<Rightarrow> bytes \<Rightarrow> bytes) \<Rightarrow> (bytes \<Rightarrow> bytes) \<Rightarrow> bytes \<Rightarrow> bytes \<Rightarrow> bytes" where
  "enc_chunk seal inc n p = seal n (htons_bytes (length p)) @ seal (inc n) p"

fun enc_chunks :: "(bytes \<Rightarrow> bytes \<Rightarrow> bytes) \<Rightarrow> (bytes \<Rightarrow> bytes) \<Rightarrow> bytes \<Rightarrow> bytes list \<Rightarrow> bytes" where
  "enc_chunks seal inc n [] = []"
| "enc_chunks seal inc n (p # ps) = enc_chunk seal inc n p @ enc_chunks seal inc (inc (inc n)) ps"

function dec_chunks ::
    "(bytes \<Rightarrow> bytes \<Rightarrow> bytes option) \<Rightarrow> (bytes \<Rightarrow> bytes) \<Rightarrow> nat \<Rightarrow> bytes \<Rightarrow> bytes \<Rightarrow>
     (bytes \<times> bytes \<times> bytes) option" where
  "dec_chunks unseal inc t n buf =
     (if length buf \<le> 2 * t + 2 then Some ([], n, buf)
      else
        case unseal n (take (2 + t) buf) of None \<Rightarrow> None
        | Some lb \<Rightarrow>
            let mlen = load16_be lb AND CHUNK_SIZE_MASK in
            if mlen = 0 then None
            else if length buf < 2 * t + 2 + mlen then Some ([], n, buf)
            else
              case unseal (inc n) (take (mlen + t) (drop (2 + t) buf)) of None \<Rightarrow> None
              | Some p \<Rightarrow>
                  case dec_chunks unseal inc t (inc (inc n)) (drop (2 * t + 2 + mlen) buf) of None \<Rightarrow> None
                  | Some (q, n', r) \<Rightarrow> Some (p @ q, n', r))"
  by pat_completeness auto
termination
  by (relation "measure (\<lambda>(_, _, _, _, buf). length buf)") auto

declare dec_chunks.simps [simp del]

text \<open>A receiver that is handed the stream in segments.\<close>

fun dec_segments ::
    "(bytes \<Rightarrow> bytes \<Rightarrow> bytes option) \<Rightarrow> (bytes \<Rightarrow> bytes) \<Rightarrow> nat \<Rightarrow> bytes \<Rightarrow> bytes \<Rightarrow> bytes list \<Rightarrow>
     (bytes \<times> bytes \<times> bytes) option" where
  "dec_segments unseal inc t n pend [] = Some ([], n, pend)"
| "dec_segments unseal inc t n pend (s # ss) =
     (case dec_chunks unseal inc t n (pend @ s) of None \<Rightarrow> None
      | Some (q, n', r) \<Rightarrow>
          case dec_segments unseal inc t n' r ss of None \<Rightarrow> None
          | Some (q', n'', r') \<Rightarrow> Some (q @ q', n'', r'))"

text \<open>Bytes that are sealed length and payload pairs.\<close>

fun sealed_chunks :: "(bytes \<Rightarrow> bytes \<Rightarrow> bytes) \<Rightarrow> (bytes \<Rightarrow> bytes) \<Rightarrow> bytes \<Rightarrow> (bytes \<times> bytes) list \<Rightarrow> bytes" where
  "sealed_chunks seal inc n [] = []"
| "sealed_chunks seal inc n ((lb, p) # ps) = seal n lb @ seal (inc n) p @ sealed_chunks seal inc (inc (inc n)) ps"

definition chunk_sized :: "bytes \<Rightarrow> bool" where
  "chunk_sized p \<longleftrightarrow> 0 < length p \<and> length p \<le> CHUNK_SIZE_MASK"

lemma load16_htons: "v < 65536 \<Longrightarrow> load16_be (htons_bytes v) = v"
  by (simp add: load16_be_def htons_bytes_def unsigned_of_nat take_bit_eq_mod)

lemma chunk_mask: "v AND CHUNK_SIZE_MASK = v mod 16384"
proof -
  have "CHUNK_SIZE_MASK = mask 14" by (simp add: CHUNK_SIZE_MASK_def mask_eq_exp_minus_1)
  then show ?thesis
    unfolding \<open>CHUNK_SIZE_MASK = mask 14\<close> by (subst take_bit_eq_mask [symmetric]) (simp add: take_bit_eq_mod)
qed

lemma chunk_mask_id: "v \<le> CHUNK_SIZE_MASK \<Longrightarrow> v AND CHUNK_SIZE_MASK = v"
  by (simp add: chunk_mask) (simp add: CHUNK_SIZE_MASK_def)

lemma length_htons_bytes [simp]: "length (htons_bytes v) = 2"
  by (simp add: htons_bytes_def)

lemma dec_chunks_append:
  assumes "dec_chunks unseal inc t n a = Some (q, n', r)"
  shows "dec_chunks unseal inc t n (a @ b) =
         (case dec_chunks unseal inc t n' (r @ b) of None \<Rightarrow> None
          | Some (q', n'', r') \<Rightarrow> Some (q @ q', n'', r'))"
  using assms
proof (induction unseal inc t n a arbitrary: q rule: dec_chunks.induct)
  case (1 unseal inc t n buf)
  show ?case
  proof (cases "length buf \<le> 2 * t + 2")
    case True
    then show ?thesis using "1.prems" by (simp add: dec_chunks.simps [of _ _ _ n buf] split: option.split)
  next
    case len: False
    then obtain lb where lb: "unseal n (take (2 + t) buf) = Some lb"
      using "1.prems" by (subst (asm) dec_chunks.simps) (auto split: option.splits)
    define mlen where "mlen = load16_be lb AND CHUNK_SIZE_MASK"
    have m0: "mlen \<noteq> 0"
      using "1.prems" len lb by (subst (asm) dec_chunks.simps) (auto simp: mlen_def Let_def split: if_splits)
    show ?thesis
    proof (cases "length buf < 2 * t + 2 + mlen")
      case True
      then show ?thesis using "1.prems" len lb m0
        by (subst (asm) dec_chunks.simps) (auto simp: mlen_def [symmetric] Let_def split: option.split)
    next
      case False
      obtain p where p: "unseal (inc n) (take (mlen + t) (drop (2 + t) buf)) = Some p"
        using "1.prems" len lb m0 False
        by (subst (asm) dec_chunks.simps) (auto simp: mlen_def [symmetric] Let_def split: option.splits)
      obtain q0 where q0: "dec_chunks unseal inc t (inc (inc n)) (drop (2 * t + 2 + mlen) buf) = Some (q0, n', r)"
          "q = p @ q0"
        using "1.prems" len lb m0 False p
        by (subst (asm) dec_chunks.simps) (auto simp: mlen_def [symmetric] Let_def split: option.splits)
      note IH = "1.IH" [OF len lb mlen_def m0 False p q0(1)]
      have "dec_chunks unseal inc t n (buf @ b) =
            (case dec_chunks unseal inc t (inc (inc n)) (drop (2 * t + 2 + mlen) buf @ b) of None \<Rightarrow> None
             | Some (q, n', r) \<Rightarrow> Some (p @ q, n', r))"
        using len lb m0 False p
        by (subst dec_chunks.simps) (auto simp: mlen_def [symmetric] Let_def)
      then show ?thesis using IH q0(2) by (auto split: option.split)
    qed
  qed
qed

lemma dec_chunks_append_None:
  assumes "dec_chunks unseal inc t n a = None"
  shows "dec_chunks unseal inc t n (a @ b) = None"
  using assms
proof (induction unseal inc t n a rule: dec_chunks.induct)
  case (1 unseal inc t n buf)
  have len: "\<not> length buf \<le> 2 * t + 2"
    using "1.prems" by (subst (asm) dec_chunks.simps) (auto split: if_splits)
  show ?case
  proof (cases "unseal n (take (2 + t) buf)")
    case None
    then show ?thesis using len by (subst dec_chunks.simps) simp
  next
    case lb: (Some lb)
    define mlen where "mlen = load16_be lb AND CHUNK_SIZE_MASK"
    show ?thesis
    proof (cases "mlen = 0")
      case True
      then show ?thesis using len lb by (subst dec_chunks.simps) (simp add: mlen_def)
    next
      case m0: False
      have m: "\<not> length buf < 2 * t + 2 + mlen"
        using "1.prems" len lb m0
        by (subst (asm) dec_chunks.simps) (auto simp: mlen_def [symmetric] Let_def split: if_splits)
      show ?thesis
      proof (cases "unseal (inc n) (take (mlen + t) (drop (2 + t) buf))")
        case None
        then show ?thesis using len lb m0 m by (subst dec_chunks.simps) (simp add: mlen_def [symmetric])
      next
        case p: (Some p)
        have "dec_chunks unseal inc t (inc (inc n)) (drop (2 * t + 2 + mlen) buf) = None"
          using "1.prems" len lb m0 m p
          by (subst (asm) dec_chunks.simps) (auto simp: mlen_def [symmetric] Let_def split: option.splits)
        from "1.IH" [OF len lb mlen_def m0 m p this]
        show ?thesis using len lb m0 m p
          by (subst dec_chunks.simps) (simp add: mlen_def [symmetric])
      qed
    qed
  qed
qed

lemma dec_chunks_rest:
  assumes "dec_chunks unseal inc t n a = Some (q, n', r)"
  shows "dec_chunks unseal inc t n' r = Some ([], n', r)"
  using assms
proof (induction unseal inc t n a arbitrary: q rule: dec_chunks.induct)
  case (1 unseal inc t n buf)
  show ?case
  proof (cases "dec_chunks unseal inc t n buf = Some ([], n, buf)")
    case True
    then show ?thesis using "1.prems" by simp
  next
    case stuck: False
    have len: "\<not> length buf \<le> 2 * t + 2" using stuck by (subst (asm) dec_chunks.simps) auto
    then obtain lb where lb: "unseal n (take (2 + t) buf) = Some lb"
      using "1.prems" by (subst (asm) dec_chunks.simps) (auto split: option.splits)
    define mlen where "mlen = load16_be lb AND CHUNK_SIZE_MASK"
    have m: "mlen \<noteq> 0" "\<not> length buf < 2 * t + 2 + mlen"
      using "1.prems" stuck len lb unfolding dec_chunks.simps [of unseal inc t n buf]
      by (auto simp: mlen_def Let_def split: if_splits)
    obtain p where p: "unseal (inc n) (take (mlen + t) (drop (2 + t) buf)) = Some p"
      using "1.prems" len lb m
      by (subst (asm) dec_chunks.simps) (auto simp: mlen_def [symmetric] Let_def split: option.splits)
    obtain q0 where q0: "dec_chunks unseal inc t (inc (inc n)) (drop (2 * t + 2 + mlen) buf) = Some (q0, n', r)"
      using "1.prems" len lb m p
      by (subst (asm) dec_chunks.simps) (auto simp: mlen_def [symmetric] Let_def split: option.splits)
    show ?thesis using "1.IH" [OF len lb mlen_def m p q0] q0 by blast
  qed
qed

lemma dec_chunks_nonce_length:
  assumes "\<And>n. length (inc n) = length n" "dec_chunks unseal inc t n a = Some (q, n', r)"
  shows "length n' = length n"
  using assms
proof (induction unseal inc t n a arbitrary: q rule: dec_chunks.induct)
  case (1 unseal inc t n buf)
  show ?case
  proof (cases "dec_chunks unseal inc t n buf = Some ([], n, buf)")
    case True
    then show ?thesis using "1.prems" by simp
  next
    case stuck: False
    have len: "\<not> length buf \<le> 2 * t + 2" using stuck by (subst (asm) dec_chunks.simps) auto
    then obtain lb where lb: "unseal n (take (2 + t) buf) = Some lb"
      using "1.prems"(2) by (subst (asm) dec_chunks.simps) (auto split: option.splits)
    define mlen where "mlen = load16_be lb AND CHUNK_SIZE_MASK"
    have m: "mlen \<noteq> 0" "\<not> length buf < 2 * t + 2 + mlen"
      using "1.prems"(2) stuck len lb unfolding dec_chunks.simps [of unseal inc t n buf]
      by (auto simp: mlen_def Let_def split: if_splits)
    obtain p where p: "unseal (inc n) (take (mlen + t) (drop (2 + t) buf)) = Some p"
      using "1.prems"(2) len lb m
      by (subst (asm) dec_chunks.simps) (auto simp: mlen_def [symmetric] Let_def split: option.splits)
    obtain q0 where q0: "dec_chunks unseal inc t (inc (inc n)) (drop (2 * t + 2 + mlen) buf) = Some (q0, n', r)"
      using "1.prems"(2) len lb m p
      by (subst (asm) dec_chunks.simps) (auto simp: mlen_def [symmetric] Let_def split: option.splits)
    have "length n' = length (inc (inc n))" by (rule "1.IH" [OF len lb mlen_def m p "1.prems"(1) q0])
    then show ?thesis using "1.prems"(1) by simp
  qed
qed

text \<open>The segments do not matter: only the bytes received so far do.\<close>

lemma dec_segments_concat:
  assumes "dec_chunks unseal inc t n pend = Some ([], n, pend)"
  shows "dec_segments unseal inc t n pend ss = dec_chunks unseal inc t n (pend @ concat ss)"
  using assms
proof (induction ss arbitrary: n pend)
  case (Cons s ss)
  show ?case
  proof (cases "dec_chunks unseal inc t n (pend @ s)")
    case None
    then show ?thesis using dec_chunks_append_None [OF None, of "concat ss"] by simp
  next
    case (Some x)
    obtain q n' r where x: "x = (q, n', r)" by (cases x)
    note d = Some [unfolded x]
    show ?thesis
      using d Cons.IH [OF dec_chunks_rest [OF d]] dec_chunks_append [OF d, of "concat ss"] by simp
  qed
qed simp

section \<open>Authenticated ciphers\<close>

text \<open>
  \<open>ok k\<close>: the key is usable; \<open>t\<close> is the tag length. A ciphertext opens exactly to what was sealed.
\<close>

locale aead_scheme =
  fixes ok :: "'k \<Rightarrow> bool"
    and t :: nat
    and seal :: "'k \<Rightarrow> bytes \<Rightarrow> bytes \<Rightarrow> bytes"
    and unseal :: "'k \<Rightarrow> bytes \<Rightarrow> bytes \<Rightarrow> bytes option"
  assumes length_seal: "ok k \<Longrightarrow> length (seal k n m) = length m + t"
    and unseal_seal: "ok k \<Longrightarrow> unseal k n (seal k n m) = Some m"
    and unseal_only: "ok k \<Longrightarrow> unseal k n c = Some m \<Longrightarrow> c = seal k n m"
begin

lemma unseal_length: "ok k \<Longrightarrow> unseal k n c = Some m \<Longrightarrow> length c = length m + t"
  using unseal_only length_seal by blast

lemma length_enc_chunk: "ok k \<Longrightarrow> length (enc_chunk (seal k) inc n p) = 2 * t + 2 + length p"
  by (simp add: enc_chunk_def length_seal)

lemma dec_enc_chunk:
  assumes "ok k" "chunk_sized p"
  shows "dec_chunks (unseal k) inc t n (enc_chunk (seal k) inc n p @ rest) =
         (case dec_chunks (unseal k) inc t (inc (inc n)) rest of None \<Rightarrow> None
          | Some (q, n', r) \<Rightarrow> Some (p @ q, n', r))"
proof -
  let ?buf = "enc_chunk (seal k) inc n p @ rest"
  have p: "0 < length p" "length p \<le> CHUNK_SIZE_MASK" using assms(2) by (auto simp: chunk_sized_def)
  have ml: "load16_be (htons_bytes (length p)) AND CHUNK_SIZE_MASK = length p"
  proof -
    have "length p < 65536" using p(2) by (simp add: CHUNK_SIZE_MASK_def)
    then show ?thesis by (simp add: load16_htons chunk_mask_id [OF p(2)])
  qed
  have "take (2 + t) ?buf = seal k n (htons_bytes (length p))"
    "take (length p + t) (drop (2 + t) ?buf) = seal k (inc n) p"
    "drop (2 * t + 2 + length p) ?buf = rest"
    using length_seal [OF assms(1)] by (simp_all add: enc_chunk_def)
  then show ?thesis
    using assms(1) p ml length_enc_chunk [OF assms(1), of inc n p]
    by (subst dec_chunks.simps) (simp add: unseal_seal Let_def length_seal)
qed

lemma dec_enc_chunks:
  assumes "ok k" "\<forall>p\<in>set ps. chunk_sized p"
  shows "\<exists>n'. dec_chunks (unseal k) inc t n (enc_chunks (seal k) inc n ps) = Some (concat ps, n', [])"
  using assms(2)
proof (induction ps arbitrary: n)
  case Nil
  then show ?case by (simp add: dec_chunks.simps)
next
  case (Cons p ps)
  obtain n' where "dec_chunks (unseal k) inc t (inc (inc n)) (enc_chunks (seal k) inc (inc (inc n)) ps) =
      Some (concat ps, n', [])"
    using Cons.IH [of "inc (inc n)"] Cons.prems by auto
  then show ?case using dec_enc_chunk [OF assms(1), of p] Cons.prems by simp
qed

lemma dec_enc_segments:
  assumes "ok k" "\<forall>p\<in>set ps. chunk_sized p" "concat ss = enc_chunks (seal k) inc n ps"
  shows "\<exists>n'. dec_segments (unseal k) inc t n [] ss = Some (concat ps, n', [])"
  using dec_enc_chunks [OF assms(1,2), of inc n] assms(3)
  by (simp add: dec_segments_concat dec_chunks.simps [of _ _ _ n "[]"])

lemma dec_chunks_nil:
  assumes "ok k" "dec_chunks (unseal k) inc t n a = Some ([], n', r)"
  shows "n' = n \<and> r = a"
proof (cases "dec_chunks (unseal k) inc t n a = Some ([], n, a)")
  case True
  then show ?thesis using assms(2) by simp
next
  case stuck: False
  have len: "\<not> length a \<le> 2 * t + 2" using stuck by (subst (asm) dec_chunks.simps) auto
  then obtain lb where lb: "unseal k n (take (2 + t) a) = Some lb"
    using assms(2) by (subst (asm) dec_chunks.simps) (auto split: option.splits)
  define mlen where "mlen = load16_be lb AND CHUNK_SIZE_MASK"
  have m: "mlen \<noteq> 0" "\<not> length a < 2 * t + 2 + mlen"
    using assms(2) stuck len lb unfolding dec_chunks.simps [of "unseal k" inc t n a]
    by (auto simp: mlen_def Let_def split: if_splits)
  have p: "unseal k (inc n) (take (mlen + t) (drop (2 + t) a)) = Some []"
    using assms(2) len lb m
    by (subst (asm) dec_chunks.simps) (auto simp: mlen_def [symmetric] Let_def split: option.splits)
  show ?thesis using unseal_length [OF assms(1) p] m by simp
qed

lemma dec_chunks_authentic:
  assumes "ok k" "dec_chunks (unseal k) inc t n buf = Some (q, n', r)"
  shows "\<exists>fs. buf = sealed_chunks (seal k) inc n fs @ r \<and> q = concat (map snd fs) \<and>
           (\<forall>(lb, p)\<in>set fs. load16_be lb AND CHUNK_SIZE_MASK = length p \<and> p \<noteq> [])"
  using assms(2)
proof (induction "length buf" arbitrary: n buf q rule: less_induct)
  case less
  show ?case
  proof (cases "dec_chunks (unseal k) inc t n buf = Some ([], n, buf)")
    case True
    then show ?thesis using less.prems by (intro exI [of _ "[]"]) simp
  next
    case stuck: False
    have len: "\<not> length buf \<le> 2 * t + 2" using stuck by (subst (asm) dec_chunks.simps) auto
    then obtain lb where lb: "unseal k n (take (2 + t) buf) = Some lb"
      using less.prems by (subst (asm) dec_chunks.simps) (auto split: option.splits)
    define mlen where "mlen = load16_be lb AND CHUNK_SIZE_MASK"
    have m: "mlen \<noteq> 0" "\<not> length buf < 2 * t + 2 + mlen"
      using less.prems stuck len lb unfolding dec_chunks.simps [of "unseal k" inc t n buf]
      by (auto simp: mlen_def Let_def split: if_splits)
    obtain p where p: "unseal k (inc n) (take (mlen + t) (drop (2 + t) buf)) = Some p"
      using less.prems len lb m
      by (subst (asm) dec_chunks.simps) (auto simp: mlen_def [symmetric] Let_def split: option.splits)
    define rest where "rest = drop (2 * t + 2 + mlen) buf"
    obtain q0 where q0: "dec_chunks (unseal k) inc t (inc (inc n)) rest = Some (q0, n', r)" "q = p @ q0"
      using less.prems len lb m p
      by (subst (asm) dec_chunks.simps) (auto simp: mlen_def [symmetric] rest_def Let_def split: option.splits)
    have "length rest < length buf" using len by (auto simp: rest_def)
    then obtain fs where fs: "rest = sealed_chunks (seal k) inc (inc (inc n)) fs @ r" "q0 = concat (map snd fs)"
        "\<forall>(lb, p)\<in>set fs. load16_be lb AND CHUNK_SIZE_MASK = length p \<and> p \<noteq> []"
      using less.hyps [OF _ q0(1)] by blast
    have c: "take (2 + t) buf = seal k n lb" "take (mlen + t) (drop (2 + t) buf) = seal k (inc n) p"
      using unseal_only [OF assms(1)] lb p by auto
    have "length p = mlen" using unseal_length [OF assms(1) p] m by simp
    moreover have "buf = take (2 + t) buf @ take (mlen + t) (drop (2 + t) buf) @ rest"
      unfolding rest_def by (metis (no_types, opaque_lifting) append_take_drop_id drop_drop
          add.assoc add.commute mult_2)
    ultimately show ?thesis
      using fs q0(2) c m(1) mlen_def by (intro exI [of _ "(lb, p) # fs"]) auto
  qed
qed

end

section \<open>What the libraries document\<close>

text \<open>
  \<open>aead_pair\<close>: encryption succeeds and adds a 16-byte tag; decryption inverts it, accepts nothing
  else, and writes no more than the message.
\<close>

definition aead_pair :: "(bytes \<Rightarrow> bytes \<Rightarrow> int \<times> bytes) \<Rightarrow> (bytes \<Rightarrow> bytes \<Rightarrow> int \<times> bytes) \<Rightarrow> bool" where
  "aead_pair E D \<longleftrightarrow>
     (\<forall>n m. fst (E n m) = 0 \<and> length (snd (E n m)) = length m + 16 \<and> D n (snd (E n m)) = (0, m)) \<and>
     (\<forall>n c. length (snd (D n c)) \<le> length c - 16) \<and>
     (\<forall>n c p. D n c = (0, p) \<longrightarrow> c = snd (E n p))"

definition gcm_names :: "string list" where
  "gcm_names = [''AES-128-GCM'', ''AES-192-GCM'', ''AES-256-GCM'']"

text \<open>An mbedTLS context set up for \<open>name\<close> and keyed for one direction.\<close>

definition evp_ready :: "('g, 'e) crypto_lib \<Rightarrow> string \<Rightarrow> bytes \<Rightarrow> bool \<Rightarrow> 'e" where
  "evp_ready L name sk enc =
     snd (evp_reset L (snd (evp_setkey L (snd (evp_setup L (Some name))) sk (length sk * 8) enc)))"

definition evp_enc :: "('g, 'e) crypto_lib \<Rightarrow> 'e \<Rightarrow> bytes \<Rightarrow> bytes \<Rightarrow> int \<times> bytes" where
  "evp_enc L e n m = (let (err, out, tag) = evp_auth_encrypt L e n m 16 in (err, out @ tag))"

definition evp_dec :: "('g, 'e) crypto_lib \<Rightarrow> 'e \<Rightarrow> bytes \<Rightarrow> bytes \<Rightarrow> int \<times> bytes" where
  "evp_dec L e n c = evp_auth_decrypt L e n (take (length c - 16) c) (drop (length c - 16) c)"

definition digest_ok :: "('g, 'e) crypto_lib \<Rightarrow> bool" where
  "digest_ok L \<longleftrightarrow> (case md_info L ''SHA1'' of None \<Rightarrow> False
     | Some md \<Rightarrow> md_ok md \<and> md_size md = 20 \<and> hmac_total md \<and> md_setup md 1 = 0)"

definition sodium_ok :: "('g, 'e) crypto_lib \<Rightarrow> bool" where
  "sodium_ok L \<longleftrightarrow>
     (\<forall>n. length (sodium_increment L n) = length n) \<and> (\<forall>k. fst (gcm_beforenm L k) = 0) \<and>
     (\<forall>g. aead_pair (gcm_encrypt L g) (gcm_decrypt L g)) \<and>
     (\<forall>k. aead_pair (chacha_encrypt L k) (chacha_decrypt L k)) \<and>
     (\<forall>k. aead_pair (xchacha_encrypt L k) (xchacha_decrypt L k))"

text \<open>mbedTLS takes keys of the cipher's length only.\<close>

definition gcm_key_len :: "string \<Rightarrow> nat" where
  "gcm_key_len nm = (if nm = ''AES-128-GCM'' then 16 else if nm = ''AES-192-GCM'' then 24 else 32)"

definition mbedtls_ok :: "('g, 'e) crypto_lib \<Rightarrow> bool" where
  "mbedtls_ok L \<longleftrightarrow>
     (\<forall>nm\<in>set gcm_names. evp_found L nm \<and> fst (evp_setup L (Some nm)) = 0 \<and>
        (\<forall>k. length k = gcm_key_len nm \<longrightarrow>
           (\<forall>enc. fst (evp_setkey L (snd (evp_setup L (Some nm))) k (length k * 8) enc) = 0 \<and>
              fst (evp_reset L (snd (evp_setkey L (snd (evp_setup L (Some nm))) k (length k * 8) enc))) = 0) \<and>
           (\<forall>n m. length (fst (snd (evp_auth_encrypt L (evp_ready L nm k True) n m 16))) = length m) \<and>
           aead_pair (evp_enc L (evp_ready L nm k True)) (evp_dec L (evp_ready L nm k False))))"

definition lib_ok :: "('g, 'e) crypto_lib \<Rightarrow> bool" where
  "lib_ok L \<longleftrightarrow> digest_ok L \<and> sodium_ok L \<and> mbedtls_ok L"

section \<open>The cipher of a session\<close>

text \<open>
  A session is a cipher and its session key. \<open>cipher_ok\<close> are the ciphers \<open>aead_key_init\<close> makes.
\<close>

definition cipher_ok :: "cipher \<Rightarrow> bool" where
  "cipher_ok ci \<longleftrightarrow> 0 \<le> ci_method ci \<and> ci_method ci < 5 \<and>
     ci_nonce_len ci = supported_aead_ciphers_nonce_size ! nat (ci_method ci) \<and>
     ci_key_len ci = supported_aead_ciphers_key_size ! nat (ci_method ci) \<and>
     ci_tag_len ci = 16 \<and> length (ci_key ci) = MAX_KEY_LENGTH"

definition uses_gcm :: "('g, 'e) crypto_lib \<Rightarrow> cipher \<Rightarrow> bool" where
  "uses_gcm L ci \<longleftrightarrow> ci_method ci = 2 \<and> gcm_available L"

definition uses_evp :: "('g, 'e) crypto_lib \<Rightarrow> cipher \<Rightarrow> bool" where
  "uses_evp L ci \<longleftrightarrow> ci_method ci < 3 \<and> \<not> uses_gcm L ci"

definition evp_name :: "cipher \<Rightarrow> string" where
  "evp_name ci = supported_aead_ciphers_mbedtls ! nat (ci_method ci)"

type_synonym session = "cipher \<times> bytes"

definition session_ok :: "('g, 'e) crypto_lib \<Rightarrow> session \<Rightarrow> bool" where
  "session_ok L k \<longleftrightarrow> lib_ok L \<and> cipher_ok (fst k) \<and> length (snd k) = ci_key_len (fst k)"

definition session_enc :: "('g, 'e) crypto_lib \<Rightarrow> session \<Rightarrow> bytes \<Rightarrow> bytes \<Rightarrow> int \<times> bytes" where
  "session_enc L k =
     (if uses_gcm L (fst k) then gcm_encrypt L (snd (gcm_beforenm L (snd k)))
      else if uses_evp L (fst k) then evp_enc L (evp_ready L (evp_name (fst k)) (snd k) True)
      else if ci_method (fst k) = 3 then chacha_encrypt L (snd k) else xchacha_encrypt L (snd k))"

definition session_dec :: "('g, 'e) crypto_lib \<Rightarrow> session \<Rightarrow> bytes \<Rightarrow> bytes \<Rightarrow> int \<times> bytes" where
  "session_dec L k =
     (if uses_gcm L (fst k) then gcm_decrypt L (snd (gcm_beforenm L (snd k)))
      else if uses_evp L (fst k) then evp_dec L (evp_ready L (evp_name (fst k)) (snd k) False)
      else if ci_method (fst k) = 3 then chacha_decrypt L (snd k) else xchacha_decrypt L (snd k))"

definition session_seal :: "('g, 'e) crypto_lib \<Rightarrow> session \<Rightarrow> bytes \<Rightarrow> bytes \<Rightarrow> bytes" where
  "session_seal L k n m = snd (session_enc L k n m)"

definition session_unseal :: "('g, 'e) crypto_lib \<Rightarrow> session \<Rightarrow> bytes \<Rightarrow> bytes \<Rightarrow> bytes option" where
  "session_unseal L k n c = (let (err, p) = session_dec L k n c in if err = 0 then Some p else None)"

lemma evp_name_gcm:
  assumes "0 \<le> ci_method ci" "ci_method ci < 3"
  shows "evp_name ci \<in> set gcm_names"
proof -
  have "nat (ci_method ci) < 3" using assms by simp
  then have "nat (ci_method ci) = 0 \<or> nat (ci_method ci) = 1 \<or> nat (ci_method ci) = 2" by linarith
  then show ?thesis by (auto simp: evp_name_def supported_aead_ciphers_mbedtls_def gcm_names_def)
qed

lemma evp_key_len: "cipher_ok ci \<Longrightarrow> ci_method ci < 3 \<Longrightarrow> ci_key_len ci = gcm_key_len (evp_name ci)"
proof -
  assume a: "cipher_ok ci" "ci_method ci < 3"
  then have "ci_method ci = 0 \<or> ci_method ci = 1 \<or> ci_method ci = 2" by (auto simp: cipher_ok_def)
  then show ?thesis
    using a by (auto simp: cipher_ok_def evp_name_def gcm_key_len_def supported_aead_ciphers_mbedtls_def
        supported_aead_ciphers_key_size_def)
qed

lemma session_pair:
  assumes "session_ok L k"
  shows "aead_pair (session_enc L k) (session_dec L k)"
proof (cases "uses_evp L (fst k)")
  case True
  have "evp_name (fst k) \<in> set gcm_names"
    using True assms by (intro evp_name_gcm) (auto simp: uses_evp_def session_ok_def cipher_ok_def)
  moreover have "mbedtls_ok L" using assms by (simp add: session_ok_def lib_ok_def)
  moreover have "length (snd k) = gcm_key_len (evp_name (fst k))"
    using assms True evp_key_len [of "fst k"] by (simp add: session_ok_def uses_evp_def)
  ultimately have "aead_pair (evp_enc L (evp_ready L (evp_name (fst k)) (snd k) True))
      (evp_dec L (evp_ready L (evp_name (fst k)) (snd k) False))"
    unfolding mbedtls_ok_def by blast
  then show ?thesis using True by (simp add: session_enc_def session_dec_def uses_evp_def)
next
  case False
  then show ?thesis
    using assms by (auto simp: session_enc_def session_dec_def session_ok_def lib_ok_def sodium_ok_def)
qed

interpretation ses: aead_scheme "session_ok L" 16 "session_seal L" "session_unseal L"
  for L :: "('g, 'e) crypto_lib"
proof unfold_locales
  fix k n m c
  assume ok: "session_ok L k"
  note pair = session_pair [OF ok, unfolded aead_pair_def]
  show "length (session_seal L k n m) = length m + 16"
    using pair by (simp add: session_seal_def)
  show "session_unseal L k n (session_seal L k n m) = Some m"
    using pair by (simp add: session_seal_def session_unseal_def)
  show "c = session_seal L k n m" if "session_unseal L k n c = Some m"
    using pair that by (auto simp: session_seal_def session_unseal_def split: prod.splits if_splits)
qed

end
