(* ===== verification/Aead_Session.thy ===== *)
theory Aead_Session
  imports Aead_Scheme
begin

text \<open>
  Contexts of \<^verbatim>\<open>src/aead.c\<close> as sessions: after \<open>aead_ctx_init\<close> a context is ready, after
  \<open>aead_cipher_ctx_set_key\<close> it is keyed with the HKDF subkey of its salt, and on a keyed context
  \<open>aead_cipher_encrypt\<close>, \<open>aead_cipher_decrypt\<close>, \<open>aead_chunk_encrypt\<close> and \<open>aead_chunk_decrypt\<close> are
  the operations of \<open>Aead_Scheme\<close> performed on blocks, without fault.
\<close>

named_theorems aead_simps "evaluation of AEAD operations on keyed contexts"

definition ctx_shape :: "('g, 'e) cipher_ctx \<Rightarrow> bool" where
  "ctx_shape ctx \<longleftrightarrow> cipher_ok (cx_cipher ctx) \<and> length (cx_salt ctx) = MAX_KEY_LENGTH \<and>
     length (cx_skey ctx) = MAX_KEY_LENGTH \<and> length (cx_nonce ctx) = MAX_NONCE_LENGTH"

definition ctx_ready :: "('g, 'e) crypto_lib \<Rightarrow> ('g, 'e) cipher_ctx \<Rightarrow> bool" where
  "ctx_ready L ctx \<longleftrightarrow> ctx_shape ctx \<and>
     (uses_gcm L (cx_cipher ctx) \<longrightarrow> cx_gcm ctx \<noteq> None) \<and>
     (uses_evp L (cx_cipher ctx) \<longrightarrow>
        cx_gcm ctx = None \<and> cx_evp ctx = Some (snd (evp_setup L (Some (evp_name (cx_cipher ctx))))))"

definition ctx_keyed :: "('g, 'e) crypto_lib \<Rightarrow> ('g, 'e) cipher_ctx \<Rightarrow> bool \<Rightarrow> bytes \<Rightarrow> bool" where
  "ctx_keyed L ctx enc sk \<longleftrightarrow> ctx_shape ctx \<and> length sk = ci_key_len (cx_cipher ctx) \<and>
     take (ci_key_len (cx_cipher ctx)) (cx_skey ctx) = sk \<and>
     (uses_gcm L (cx_cipher ctx) \<longrightarrow> cx_gcm ctx = Some (snd (gcm_beforenm L sk))) \<and>
     (uses_evp L (cx_cipher ctx) \<longrightarrow>
        cx_gcm ctx = None \<and> cx_evp ctx = Some (evp_ready L (evp_name (cx_cipher ctx)) sk enc))"

definition cur_nonce :: "('g, 'e) cipher_ctx \<Rightarrow> bytes" where
  "cur_nonce ctx = take (ci_nonce_len (cx_cipher ctx)) (cx_nonce ctx)"

definition subkey :: "('g, 'e) crypto_lib \<Rightarrow> cipher \<Rightarrow> bytes \<Rightarrow> bytes" where
  "subkey L ci salt =
     (let md = the (md_info L ''SHA1'') in
      hkdf_okm md (snd (md_hmac md salt (take (ci_key_len ci) (ci_key ci)))) SUBKEY_INFO (ci_key_len ci))"

text \<open>
  The build the stream theorems cover: either mbedTLS 2, or a method that does not go through mbedTLS.
\<close>

definition mbedtls_compat :: "('g, 'e) crypto_lib \<Rightarrow> cipher \<Rightarrow> bool" where
  "mbedtls_compat L ci \<longleftrightarrow> (mbedtls3 L \<longrightarrow> \<not> uses_evp L ci)"

abbreviation session_of :: "('g, 'e) cipher_ctx \<Rightarrow> bytes \<Rightarrow> session" where
  "session_of ctx sk \<equiv> (cx_cipher ctx, sk)"

lemma ctx_upd [simp]:
  "ctx_keyed L (ctx\<lparr>cx_chunk := c\<rparr>) enc sk = ctx_keyed L ctx enc sk"
  "ctx_keyed L (ctx\<lparr>cx_init := i\<rparr>) enc sk = ctx_keyed L ctx enc sk"
  "ctx_ready L (ctx\<lparr>cx_chunk := c\<rparr>) = ctx_ready L ctx"
  by (simp_all add: ctx_keyed_def ctx_ready_def ctx_shape_def)

section \<open>Sizes\<close>

lemmas aead_tables = supported_aead_ciphers_nonce_size_def supported_aead_ciphers_key_size_def
  supported_aead_ciphers_tag_size_def

lemma method_cases:
  assumes "cipher_ok ci"
  obtains "ci_method ci = 0" "ci_key_len ci = 16" "ci_nonce_len ci = 12"
  | "ci_method ci = 1" "ci_key_len ci = 24" "ci_nonce_len ci = 12"
  | "ci_method ci = 2" "ci_key_len ci = 32" "ci_nonce_len ci = 12"
  | "ci_method ci = 3" "ci_key_len ci = 32" "ci_nonce_len ci = 12"
  | "ci_method ci = 4" "ci_key_len ci = 32" "ci_nonce_len ci = 24"
proof -
  have "ci_method ci = 0 \<or> ci_method ci = 1 \<or> ci_method ci = 2 \<or> ci_method ci = 3 \<or> ci_method ci = 4"
    using assms by (auto simp: cipher_ok_def)
  then show ?thesis using assms that by (auto simp: cipher_ok_def aead_tables)
qed

lemma cipher_sizes:
  assumes "cipher_ok ci"
  shows "ci_key_len ci \<le> 32" "16 \<le> ci_key_len ci" "ci_nonce_len ci \<le> 24" "ci_tag_len ci = 16"
    "length (ci_key ci) = 64"
  using assms by (cases rule: method_cases [OF assms], auto simp: cipher_ok_def MAX_KEY_LENGTH_def)+

lemma length_cur_nonce: "ctx_shape ctx \<Longrightarrow> length (cur_nonce ctx) = ci_nonce_len (cx_cipher ctx)"
  using cipher_sizes(3) [of "cx_cipher ctx"] by (auto simp: ctx_shape_def cur_nonce_def MAX_NONCE_LENGTH_def)

lemma keyed_session: "lib_ok L \<Longrightarrow> ctx_keyed L ctx enc sk \<Longrightarrow> session_ok L (session_of ctx sk)"
  by (auto simp: session_ok_def ctx_keyed_def ctx_shape_def)

section \<open>Setting up and keying\<close>

lemma hkdf_okm_length: "md_ok md \<Longrightarrow> length (hkdf_okm md prk info n) = n"
proof -
  assume md: "md_ok md"
  then have h: "0 < md_size md" by (simp add: md_ok_def)
  show ?thesis
  proof (cases "n = 0")
    case False
    then show ?thesis
      using ceil_div_bounds(2) [OF h _ refl, of n] hkdf_T_concat_length [OF md] by (simp add: hkdf_okm_def)
  qed (simp add: hkdf_okm_def)
qed

lemma set_key_ok:
  assumes lib: "lib_ok L" and rd: "ctx_ready L ctx"
  defines "sk \<equiv> subkey L (cx_cipher ctx) (take (ci_key_len (cx_cipher ctx)) (cx_salt ctx))"
  shows "\<exists>g e skey. let ctx' = ctx\<lparr>cx_skey := skey, cx_nonce := replicate (ci_nonce_len (cx_cipher ctx)) 0 @
             drop (ci_nonce_len (cx_cipher ctx)) (cx_nonce ctx), cx_gcm := g, cx_evp := e\<rparr> in
           aead_cipher_ctx_set_key L ctx enc = Inr ctx' \<and> ctx_keyed L ctx' enc sk"
proof -
  let ?ci = "cx_cipher ctx"
  let ?kl = "ci_key_len ?ci"
  have ci: "cipher_ok ?ci" and sh: "length (cx_salt ctx) = 64" "length (cx_skey ctx) = 64" "length (cx_nonce ctx) = 32"
    using rd by (auto simp: ctx_ready_def ctx_shape_def MAX_KEY_LENGTH_def MAX_NONCE_LENGTH_def)
  note sz = cipher_sizes [OF ci]
  obtain md where md: "md_info L ''SHA1'' = Some md" "md_ok md" "md_size md = 20" "hmac_total md" "md_setup md 1 = 0"
    using lib by (auto simp: lib_ok_def digest_ok_def split: option.splits)
  define skey where "skey = sk @ drop ?kl (cx_skey ctx)"
  have lsk: "length sk = ?kl" using hkdf_okm_length [OF md(2)] by (simp add: sk_def subkey_def md(1) Let_def)
  have hk: "crypto_hkdf md (Some (take ?kl (cx_salt ctx))) (int ?kl) (take ?kl (ci_key ?ci))
      (Some SUBKEY_INFO) (int (length SUBKEY_INFO)) (Some (cx_skey ctx)) (int ?kl) = Inr (0, skey)"
    using crypto_hkdf_eq [OF md(2,4,5), of ?kl "cx_skey ctx" "take ?kl (cx_salt ctx)"] sz sh md(3)
    by (simp add: skey_def sk_def subkey_def md(1) Let_def)
  have tk: "take ?kl skey = sk" using lsk by (simp add: skey_def)
  have evp: "fst (evp_setkey L (snd (evp_setup L (Some (evp_name ?ci)))) sk (length sk * 8) enc) = 0"
    "fst (evp_reset L (snd (evp_setkey L (snd (evp_setup L (Some (evp_name ?ci)))) sk (length sk * 8) enc))) = 0"
    if "uses_evp L ?ci"
    using evp_name_gcm [of ?ci] evp_key_len [OF ci] lsk ci lib that
    by (auto simp: lib_ok_def mbedtls_ok_def uses_evp_def cipher_ok_def)
  define N where "N = replicate (ci_nonce_len ?ci) 0 @ drop (ci_nonce_len ?ci) (cx_nonce ctx)"
  have N: "mem_write (cx_nonce ctx) 0 (replicate (ci_nonce_len ?ci) 0) = Inr N"
    using sz sh by (simp add: N_def)
  have reads: "mem_read (cx_salt ctx) 0 ?kl = Inr (take ?kl (cx_salt ctx))"
    "mem_read (ci_key ?ci) 0 ?kl = Inr (take ?kl (ci_key ?ci))"
    using sz sh by simp_all
  have shape: "length skey = MAX_KEY_LENGTH" "length N = MAX_NONCE_LENGTH"
      "cipher_ok ?ci" "length (cx_salt ctx) = MAX_KEY_LENGTH"
    using ci lsk sz sh by (auto simp: MAX_KEY_LENGTH_def MAX_NONCE_LENGTH_def skey_def N_def)
  let ?ctx1 = "ctx\<lparr>cx_skey := skey, cx_nonce := N\<rparr>"
  have simps: "aead_cipher_ctx_set_key L ctx enc =
      (if ci_method ?ci \<ge> 3 then Inr ?ctx1
       else if cx_gcm ctx \<noteq> None then
         (let (err, g) = gcm_beforenm L (take 32 skey) in
          if err \<noteq> 0 then Inl (Fatal ''Cannot set libsodium cipher key'') else Inr (?ctx1\<lparr>cx_gcm := Some g\<rparr>))
       else case cx_evp ctx of None \<Rightarrow> Inl Out_of_bounds
         | Some e \<Rightarrow>
             let (err, e) = evp_setkey L e sk (?kl * 8) enc in
             if err \<noteq> 0 then Inl (Fatal ''Cannot set mbed TLS cipher key'')
             else
               let (err, e) = evp_reset L e in
               if err \<noteq> 0 then Inl (Fatal ''Cannot finish preparation of mbed TLS cipher context'')
               else Inr (?ctx1\<lparr>cx_evp := Some e\<rparr>))"
    by (simp add: aead_cipher_ctx_set_key_def md(1) reads hk N tk Let_def aead_consts cong: option.case_cong)
  consider "uses_gcm L ?ci" | "uses_evp L ?ci" | "3 \<le> ci_method ?ci"
    by (metis not_le uses_evp_def)
  then show ?thesis
  proof cases
    case 1
    have g0: "cx_gcm ctx \<noteq> None" "ci_method ?ci = 2" "?kl = 32" using 1 rd ci
      by (auto simp: ctx_ready_def uses_gcm_def cipher_ok_def aead_tables)
    obtain g where b: "gcm_beforenm L sk = (0, g)"
      using lib by (metis lib_ok_def sodium_ok_def prod.collapse)
    show ?thesis
      by (rule exI [of _ "Some g"], rule exI [of _ "cx_evp ctx"], rule exI [of _ skey])
        (use g0 b tk 1 shape lsk in \<open>auto simp: simps ctx_keyed_def ctx_shape_def uses_evp_def N_def [symmetric] Let_def\<close>)
  next
    case 2
    have e0: "cx_gcm ctx = None" "cx_evp ctx = Some (snd (evp_setup L (Some (evp_name ?ci))))" "ci_method ?ci < 3"
      using 2 rd by (auto simp: ctx_ready_def uses_evp_def)
    show ?thesis
      by (rule exI [of _ None], rule exI [of _ "Some (evp_ready L (evp_name ?ci) sk enc)"], rule exI [of _ skey])
        (use e0 evp [OF 2] tk 2 shape lsk in \<open>auto simp: simps ctx_keyed_def ctx_shape_def uses_evp_def
           evp_ready_def N_def [symmetric] Let_def split: prod.splits\<close>)
  next
    case 3
    show ?thesis
      by (rule exI [of _ "cx_gcm ctx"], rule exI [of _ "cx_evp ctx"], rule exI [of _ skey])
        (use 3 tk shape lsk in \<open>auto simp: simps ctx_keyed_def ctx_shape_def uses_evp_def uses_gcm_def N_def [symmetric]\<close>)
  qed
qed

lemma aead_cipher_ctx_init_ok:
  assumes lib: "lib_ok L" and ci: "cipher_ok ci"
  shows "\<exists>g e. aead_cipher_ctx_init L (cipher_ctx_zero ci) (ci_method ci) enc =
           Inr ((cipher_ctx_zero ci)\<lparr>cx_gcm := g, cx_evp := e\<rparr>) \<and>
         ctx_ready L ((cipher_ctx_zero ci)\<lparr>cx_gcm := g, cx_evp := e\<rparr>)"
proof -
  have m: "0 \<le> ci_method ci" "ci_method ci < 5" using ci by (auto simp: cipher_ok_def)
  have shape: "ctx_shape (cipher_ctx_zero ci)" using ci by (simp add: ctx_shape_def cipher_ctx_zero_def)
  note defs = aead_cipher_ctx_init_def aead_consts uses_gcm_def uses_evp_def ctx_ready_def ctx_shape_def
    cipher_ctx_zero_def Let_def
  show ?thesis
  proof (cases "ci_method ci < 3")
    case True
    have nm: "evp_name ci \<in> set gcm_names" using evp_name_gcm m(1) True by blast
    then have "evp_name ci \<noteq> ''unsupported''" by (auto simp: gcm_names_def)
    moreover have f: "evp_found L (evp_name ci)" "fst (evp_setup L (Some (evp_name ci))) = 0"
      using lib nm by (auto simp: lib_ok_def mbedtls_ok_def)
    ultimately have kt: "aead_get_cipher_type L (ci_method ci) = Some (evp_name ci)"
      using m True by (simp add: aead_get_cipher_type_def aead_consts evp_name_def [symmetric] Let_def)
    show ?thesis
    proof (cases "uses_gcm L ci")
      case True
      show ?thesis
        by (rule exI [of _ "Some (gcm_zero L)"], rule exI [of _ None]) (use True kt shape m in \<open>auto simp: defs\<close>)
    next
      case False
      show ?thesis
        by (rule exI [of _ None], rule exI [of _ "Some (snd (evp_setup L (Some (evp_name ci))))"])
          (use False kt shape m f \<open>ci_method ci < 3\<close> in \<open>auto simp: defs split: prod.splits\<close>)
    qed
  next
    case False
    show ?thesis
      by (rule exI [of _ None], rule exI [of _ None]) (use False m shape in \<open>auto simp: defs\<close>)
  qed
qed

section \<open>One operation on a keyed context\<close>

lemma mem_write_append:
  "bindr (mem_write mem off a) (\<lambda>mem. mem_write mem (off + length a) b) = mem_write mem off (a @ b)"
  by (simp add: mem_write_def ac_simps)

lemma bindr_mem_write_append:
  "bindr (mem_write mem off a) (\<lambda>mem. bindr (mem_write mem (off + length a) b) f) =
   bindr (mem_write mem off (a @ b)) f"
  unfolding mem_write_append [symmetric] bindr_assoc ..

text \<open>Which library call a keyed context makes.\<close>

lemma keyed_cases:
  assumes "ctx_keyed L ctx enc sk"
  obtains (gcm) "ci_method (cx_cipher ctx) = 2" "cx_gcm ctx = Some (snd (gcm_beforenm L sk))"
      "uses_gcm L (cx_cipher ctx)" "ci_nonce_len (cx_cipher ctx) = 12"
  | (evp) "ci_method (cx_cipher ctx) \<in> {0, 1, 2}" "cx_gcm ctx = None" "\<not> uses_gcm L (cx_cipher ctx)"
      "cx_evp ctx = Some (evp_ready L (evp_name (cx_cipher ctx)) sk enc)" "uses_evp L (cx_cipher ctx)"
  | (chacha) "ci_method (cx_cipher ctx) = 3" "take 32 (cx_skey ctx) = sk" "ci_nonce_len (cx_cipher ctx) = 12"
      "\<not> uses_evp L (cx_cipher ctx)" "\<not> uses_gcm L (cx_cipher ctx)"
  | (xchacha) "ci_method (cx_cipher ctx) = 4" "take 32 (cx_skey ctx) = sk" "ci_nonce_len (cx_cipher ctx) = 24"
      "\<not> uses_evp L (cx_cipher ctx)" "\<not> uses_gcm L (cx_cipher ctx)"
proof -
  have ci: "cipher_ok (cx_cipher ctx)" using assms by (simp add: ctx_keyed_def ctx_shape_def)
  show ?thesis
    by (cases rule: method_cases [OF ci]; cases "uses_gcm L (cx_cipher ctx)")
      (use assms that in \<open>auto simp: ctx_keyed_def uses_evp_def uses_gcm_def\<close>)
qed

lemma aead_cipher_encrypt_keyed [aead_simps]:
  assumes lib: "lib_ok L" and k: "ctx_keyed L ctx True sk" and v: "mbedtls_compat L (cx_cipher ctx)"
  shows "aead_cipher_encrypt L ctx mem off clen m (cx_nonce ctx) (cx_skey ctx) =
         bindr (mem_write mem off (session_seal L (session_of ctx sk) (cur_nonce ctx) m))
               (\<lambda>mem. Inr (0, mem, length m + 16))"
proof -
  let ?s = "session_of ctx sk"
  note ok = keyed_session [OF lib k]
  have e: "session_enc L ?s n m = (0, session_seal L ?s n m)" for n m
    using session_pair [OF ok] by (simp add: aead_pair_def session_seal_def prod_eq_iff)
  have l: "length (session_seal L ?s n m) = length m + 16" for n m using ses.length_seal [OF ok] .
  have ci: "ci_tag_len (cx_cipher ctx) = 16" using k cipher_sizes(4) by (auto simp: ctx_keyed_def ctx_shape_def)
  show ?thesis
  proof (cases rule: keyed_cases [OF k, consumes 0, case_names gcm evp chacha xchacha])
    case gcm
    then have "gcm_encrypt L (snd (gcm_beforenm L sk)) (take 12 (cx_nonce ctx)) m =
        (0, session_seal L ?s (cur_nonce ctx) m)"
      using e [of "cur_nonce ctx" m] by (simp add: session_enc_def cur_nonce_def)
    then show ?thesis using gcm l by (simp add: aead_cipher_encrypt_def aead_consts)
  next
    case evp
    let ?e = "evp_ready L (evp_name (cx_cipher ctx)) sk True"
    obtain err out tag where ev: "evp_auth_encrypt L ?e (cur_nonce ctx) m 16 = (err, out, tag)"
      by (cases "evp_auth_encrypt L ?e (cur_nonce ctx) m 16") auto
    have "err = 0" "session_seal L ?s (cur_nonce ctx) m = out @ tag"
      using e [of "cur_nonce ctx" m] evp ev by (simp_all add: session_enc_def evp_enc_def)
    moreover have "length out = length m"
    proof -
      have nm: "evp_name (cx_cipher ctx) \<in> set gcm_names"
        by (rule evp_name_gcm) (use evp(1) in auto)
      have "mbedtls_ok L" using lib by (simp add: lib_ok_def)
      moreover have "length sk = gcm_key_len (evp_name (cx_cipher ctx))"
        using evp_key_len [of "cx_cipher ctx"] evp(1) ok by (auto simp: session_ok_def)
      ultimately have "length (fst (snd (evp_auth_encrypt L ?e (cur_nonce ctx) m 16))) = length m"
        using nm unfolding mbedtls_ok_def by blast
      then show ?thesis by (simp add: ev)
    qed
    moreover have "\<not> mbedtls3 L" using v evp by (simp add: mbedtls_compat_def)
    ultimately show ?thesis
      using evp ev ci unfolding cur_nonce_def
      by (auto simp: aead_cipher_encrypt_def aead_consts simp flip: bindr_mem_write_append)
  next
    case chacha
    then have "chacha_encrypt L sk (take 12 (cx_nonce ctx)) m = (0, session_seal L ?s (cur_nonce ctx) m)"
      using e [of "cur_nonce ctx" m] by (simp add: session_enc_def cur_nonce_def)
    then show ?thesis using chacha l by (simp add: aead_cipher_encrypt_def aead_consts)
  next
    case xchacha
    then have "xchacha_encrypt L sk (take 24 (cx_nonce ctx)) m = (0, session_seal L ?s (cur_nonce ctx) m)"
      using e [of "cur_nonce ctx" m] by (simp add: session_enc_def cur_nonce_def)
    then show ?thesis using xchacha l by (simp add: aead_cipher_encrypt_def aead_consts)
  qed
qed

lemma aead_cipher_decrypt_keyed [aead_simps]:
  assumes lib: "lib_ok L" and k: "ctx_keyed L ctx False sk" and v: "mbedtls_compat L (cx_cipher ctx)"
  shows "aead_cipher_decrypt L ctx mem off plen m (cx_nonce ctx) (cx_skey ctx) =
         (let (err, out) = session_dec L (session_of ctx sk) (cur_nonce ctx) m in
          bindr (mem_write mem off out) (\<lambda>mem. Inr (if err \<noteq> 0 then CRYPTO_ERROR else 0, mem, length out)))"
proof -
  have ci: "ci_tag_len (cx_cipher ctx) = 16" using k cipher_sizes(4) by (auto simp: ctx_keyed_def ctx_shape_def)
  show ?thesis
    by (cases rule: keyed_cases [OF k, consumes 0, case_names gcm evp chacha xchacha])
      (use ci v in \<open>auto simp: aead_cipher_decrypt_def aead_consts session_dec_def cur_nonce_def evp_dec_def
         mbedtls_compat_def Let_def split: prod.splits\<close>)
qed

lemma session_dec_cases:
  assumes "session_ok L k"
  obtains (ok) p where "session_unseal L k n c = Some p" "session_dec L k n c = (0, p)" "length c = length p + 16"
  | (bad) err out where "session_unseal L k n c = None" "session_dec L k n c = (err, out)" "err \<noteq> 0"
      "length out \<le> length c - 16"
proof (cases "session_dec L k n c")
  case (Pair err out)
  have "length out \<le> length c - 16"
    using session_pair [OF assms] Pair by (simp add: aead_pair_def) (metis snd_conv)
  then show ?thesis
    using that Pair ses.unseal_length [OF assms, of n c out]
    by (cases "err = 0") (auto simp: session_unseal_def)
qed

end
