(* ===== verification/Aead_Stream.thy ===== *)
theory Aead_Stream
  imports Aead_Session
begin

text \<open>
  The stream operations of \<^verbatim>\<open>src/aead.c\<close> implement the abstract stream of \<open>Aead_Scheme\<close>: the loop of
  \<open>aead_decrypt\<close> is \<open>dec_chunks\<close> on the bytes kept and received, \<open>aead_encrypt\<close> appends one chunk, and
  neither leaves its blocks. The properties at the end are about the code's functions only.
\<close>

section \<open>Chunks\<close>

abbreviation dec_of :: "('g, 'e) crypto_lib \<Rightarrow> session \<Rightarrow> bytes \<Rightarrow> bytes \<Rightarrow> (bytes \<times> bytes \<times> bytes) option" where
  "dec_of L k \<equiv> dec_chunks (session_unseal L k) (sodium_increment L) 16"

abbreviation enc_of :: "('g, 'e) crypto_lib \<Rightarrow> session \<Rightarrow> bytes \<Rightarrow> bytes list \<Rightarrow> bytes" where
  "enc_of L k \<equiv> enc_chunks (session_seal L k) (sodium_increment L)"

text \<open>\<open>ctx'\<close> is \<open>ctx\<close> with the nonce advanced to \<open>n\<close>.\<close>

definition at_nonce :: "('g, 'e) cipher_ctx \<Rightarrow> bytes \<Rightarrow> ('g, 'e) cipher_ctx" where
  "at_nonce ctx n = ctx\<lparr>cx_nonce := n @ drop (ci_nonce_len (cx_cipher ctx)) (cx_nonce ctx)\<rparr>"

lemma at_nonce_fields [simp]:
  "cx_cipher (at_nonce ctx n) = cx_cipher ctx" "cx_skey (at_nonce ctx n) = cx_skey ctx"
  "cx_init (at_nonce ctx n) = cx_init ctx" "cx_salt (at_nonce ctx n) = cx_salt ctx"
  "cx_chunk (at_nonce ctx n) = cx_chunk ctx"
  by (simp_all add: at_nonce_def)

lemma cur_nonce_at:
  assumes "length n = ci_nonce_len (cx_cipher ctx)"
  shows "cur_nonce (at_nonce ctx n) = n"
  using assms by (simp add: cur_nonce_def at_nonce_def)

lemma at_nonce_cur: "at_nonce ctx (cur_nonce ctx) = ctx"
  by (simp add: at_nonce_def cur_nonce_def)

lemma at_nonce_twice:
  assumes "length n = ci_nonce_len (cx_cipher ctx)"
  shows "at_nonce (at_nonce ctx n) n' = at_nonce ctx n'"
  using assms by (simp add: at_nonce_def)

lemma keyed_at_nonce:
  assumes "ctx_keyed L ctx enc sk" "length n = ci_nonce_len (cx_cipher ctx)"
  shows "ctx_keyed L (at_nonce ctx n) enc sk"
proof -
  have "cipher_ok (cx_cipher ctx)" using assms(1) by (simp add: ctx_keyed_def ctx_shape_def)
  from cipher_sizes(3) [OF this] assms show ?thesis
    by (auto simp: ctx_keyed_def ctx_shape_def at_nonce_def MAX_NONCE_LENGTH_def)
qed

lemma keyed_nonce_length: "ctx_keyed L ctx enc sk \<Longrightarrow> length (cur_nonce ctx) = ci_nonce_len (cx_cipher ctx)"
  by (auto simp: ctx_keyed_def intro: length_cur_nonce)

lemma inc_length: "lib_ok L \<Longrightarrow> length (sodium_increment L n) = length n"
  by (simp add: lib_ok_def sodium_ok_def)

lemma nonce_step_keyed [aead_simps]:
  assumes "lib_ok L" "ctx_keyed L ctx enc sk"
  shows "nonce_step L ctx = Inr (at_nonce ctx (sodium_increment L (cur_nonce ctx)))"
proof -
  have "cipher_ok (cx_cipher ctx)" "length (cx_nonce ctx) = 32"
    using assms(2) by (auto simp: ctx_keyed_def ctx_shape_def MAX_NONCE_LENGTH_def)
  with cipher_sizes(3) [OF this(1)] show ?thesis
    by (simp add: nonce_step_def at_nonce_def cur_nonce_def inc_length [OF assms(1)])
qed

lemma keyed_tag: "ctx_keyed L ctx enc sk \<Longrightarrow> ci_tag_len (cx_cipher ctx) = 16"
  using cipher_sizes(4) by (auto simp: ctx_keyed_def ctx_shape_def)

lemma aead_chunk_encrypt_keyed:
  assumes lib: "lib_ok L" and k: "ctx_keyed L ctx True sk" and v: "mbedtls_compat L (cx_cipher ctx)"
    and pl: "unat plen16 \<le> CHUNK_SIZE_MASK" "unat plen16 \<le> length p"
    and room: "off + 34 + unat plen16 \<le> length c"
  defines "n \<equiv> cur_nonce ctx" and "inc \<equiv> sodium_increment L"
  shows "aead_chunk_encrypt L ctx p c off plen16 =
         Inr (CRYPTO_OK, at_nonce ctx (inc (inc n)),
              take off c @ enc_chunk (session_seal L (session_of ctx sk)) inc n (take (unat plen16) p) @
              drop (off + 34 + unat plen16) c)"
proof -
  let ?s = "session_of ctx sk"
  let ?pl = "unat plen16"
  let ?ctx1 = "at_nonce ctx (inc n)"
  note ok = keyed_session [OF lib k]
  note nl = keyed_nonce_length [OF k]
  have n1: "length (inc n) = ci_nonce_len (cx_cipher ctx)" using nl by (simp add: inc_def n_def inc_length [OF lib])
  have k1: "ctx_keyed L ?ctx1 True sk" using keyed_at_nonce [OF k n1] .
  have c1: "cur_nonce ?ctx1 = inc n" using cur_nonce_at [OF n1] .
  have n2: "length (inc (inc n)) = ci_nonce_len (cx_cipher ctx)" using n1 by (simp add: inc_def inc_length [OF lib])
  have t: "ci_tag_len (cx_cipher ctx) = 16" using keyed_tag [OF k] .
  define h where "h = session_seal L ?s n (htons_bytes ?pl)"
  define b where "b = session_seal L ?s (inc n) (take ?pl p)"
  have l: "length h = 18" "length b = ?pl + 16"
    using pl by (simp_all add: h_def b_def ses.length_seal [OF ok])
  have e1: "aead_cipher_encrypt L ctx c off (CHUNK_SIZE_LEN + 16) (htons_bytes ?pl) (cx_nonce ctx) (cx_skey ctx) =
      Inr (0, take off c @ h @ drop (off + 18) c, 18)"
    using room l by (simp add: aead_cipher_encrypt_keyed [OF lib k v] n_def [symmetric] h_def [symmetric])
  have e2: "aead_cipher_encrypt L ?ctx1 (take off c @ h @ drop (off + 18) c) (off + 18) cl (take ?pl p) (cx_nonce ?ctx1) (cx_skey ctx) =
      Inr (0, take off c @ h @ b @ drop (off + 34 + ?pl) c, ?pl + 16)" for cl
    using room l v pl
    using aead_cipher_encrypt_keyed [OF lib k1, of "take off c @ h @ drop (off + 18) c" "off + 18" cl "take ?pl p"]
    by (simp add: c1 b_def [symmetric] ac_simps)
  show ?thesis
    using pl e1 e2 t nonce_step_keyed [OF lib k] nonce_step_keyed [OF lib k1]
    by (simp add: aead_chunk_encrypt_def Let_def chunk_mask_id CHUNK_SIZE_LEN_def c1 n_def [symmetric]
        inc_def [symmetric] at_nonce_twice [OF n1] enc_chunk_def h_def b_def add.commute [of 18 off])
qed

text \<open>
  The five outcomes of \<open>aead_chunk_decrypt\<close>, on the \<open>clen\<close> bytes at offset \<open>co\<close>.
\<close>

definition frame_head :: "bytes \<Rightarrow> nat \<Rightarrow> bytes" where
  "frame_head cm co = take 18 (drop co cm)"

definition frame_body :: "bytes \<Rightarrow> nat \<Rightarrow> nat \<Rightarrow> bytes" where
  "frame_body cm co mlen = take (mlen + 16) (drop (co + 18) cm)"

lemma chunk_decrypt_short:
  assumes "ctx_keyed L ctx False sk" "clen \<le> 34"
  shows "aead_chunk_decrypt L ctx pm po cm co plen clen = Inr (CRYPTO_NEED_MORE, ctx, pm, plen, clen)"
  using assms keyed_tag [OF assms(1)] by (simp add: aead_chunk_decrypt_def CHUNK_SIZE_LEN_def)

lemma chunk_decrypt_cases:
  assumes lib: "lib_ok L" and k: "ctx_keyed L ctx False sk" and v: "mbedtls_compat L (cx_cipher ctx)"
    and cl: "34 < clen" "co + clen \<le> length cm"
    and room: "po + (clen - 34) \<le> length pm"
  defines "n \<equiv> cur_nonce ctx" and "inc \<equiv> sodium_increment L" and "s \<equiv> session_of ctx sk"
  obtains (bad_head) pl where "session_unseal L s n (frame_head cm co) = None"
      "aead_chunk_decrypt L ctx pm po cm co plen clen = Inr (CRYPTO_ERROR, ctx, pm, pl, clen)"
  | (zero) lb where "session_unseal L s n (frame_head cm co) = Some lb" "load16_be lb AND CHUNK_SIZE_MASK = 0"
      "aead_chunk_decrypt L ctx pm po cm co plen clen = Inr (CRYPTO_ERROR, ctx, pm, 2, clen)"
  | (more) lb where "session_unseal L s n (frame_head cm co) = Some lb"
      "load16_be lb AND CHUNK_SIZE_MASK \<noteq> 0" "clen < 34 + (load16_be lb AND CHUNK_SIZE_MASK)"
      "aead_chunk_decrypt L ctx pm po cm co plen clen = Inr (CRYPTO_NEED_MORE, ctx, pm, 2, clen)"
  | (bad_body) lb pm' pl where "session_unseal L s n (frame_head cm co) = Some lb"
      "load16_be lb AND CHUNK_SIZE_MASK \<noteq> 0" "34 + (load16_be lb AND CHUNK_SIZE_MASK) \<le> clen"
      "session_unseal L s (inc n) (frame_body cm co (load16_be lb AND CHUNK_SIZE_MASK)) = None"
      "aead_chunk_decrypt L ctx pm po cm co plen clen = Inr (CRYPTO_ERROR, at_nonce ctx (inc n), pm', pl, clen)"
      "length pm' = length pm"
  | (good) lb p where "session_unseal L s n (frame_head cm co) = Some lb" "p \<noteq> []"
      "load16_be lb AND CHUNK_SIZE_MASK = length p" "34 + length p \<le> clen"
      "session_unseal L s (inc n) (frame_body cm co (length p)) = Some p"
      "aead_chunk_decrypt L ctx pm po cm co plen clen =
         Inr (CRYPTO_OK, at_nonce ctx (inc (inc n)), take po pm @ p @ drop (po + length p) pm, length p,
              clen - (34 + length p))"
proof -
  note ok = keyed_session [OF lib k, folded s_def]
  have n1: "length (inc n) = ci_nonce_len (cx_cipher ctx)"
    using keyed_nonce_length [OF k] by (simp add: inc_def n_def inc_length [OF lib])
  have k1: "ctx_keyed L (at_nonce ctx (inc n)) False sk" using keyed_at_nonce [OF k n1] .
  have c1: "cur_nonce (at_nonce ctx (inc n)) = inc n" using cur_nonce_at [OF n1] .
  have t: "ci_tag_len (cx_cipher ctx) = 16" using keyed_tag [OF k] .
  have r1: "mem_read cm co 18 = Inr (frame_head cm co)" "length (frame_head cm co) = 18"
    using cl by (simp_all add: frame_head_def)
  note simps = aead_chunk_decrypt_def Let_def CHUNK_SIZE_LEN_def t r1(1)
    aead_cipher_decrypt_keyed [OF lib k v] s_def [symmetric] n_def [symmetric]
  show ?thesis
  proof (cases rule: session_dec_cases [OF ok, of n "frame_head cm co", case_names ok bad])
    case (bad err out)
    then have "aead_chunk_decrypt L ctx pm po cm co plen clen =
        Inr (CRYPTO_ERROR, ctx, pm, length out, clen)"
      using cl r1(2) by (simp add: simps) (simp add: crypto_codes)
    then show ?thesis using bad(1) that(1) by blast
  next
    case lb: (ok lb)
    then have l2: "length lb = 2" using r1(2) by simp
    define mlen where "mlen = load16_be lb AND CHUNK_SIZE_MASK"
    have head: "aead_chunk_decrypt L ctx pm po cm co plen clen =
      (if mlen = 0 then Inr (CRYPTO_ERROR, ctx, pm, 2, clen)
       else if clen < 34 + mlen then Inr (CRYPTO_NEED_MORE, ctx, pm, 2, clen)
       else bindr (mem_read cm (co + 18) (mlen + 16)) (\<lambda>m.
         bindr (aead_cipher_decrypt L (at_nonce ctx (inc n)) pm po 2 m (cx_nonce (at_nonce ctx (inc n))) (cx_skey ctx)) (\<lambda>(err, pm, plen).
           if err \<noteq> 0 then Inr (CRYPTO_ERROR, at_nonce ctx (inc n), pm, plen, clen)
           else bindr (assertr (plen = mlen)) (\<lambda>_.
                bindr (nonce_step L (at_nonce ctx (inc n))) (\<lambda>ctx. Inr (CRYPTO_OK, ctx, pm, plen, clen - (34 + mlen)))))))"
      using cl lb l2 nonce_step_keyed [OF lib k]
      by (simp add: simps mlen_def [symmetric] inc_def [symmetric] numeral_2_eq_2 add.commute [of 18 co])
        (simp add: mlen_def cong: if_cong)
    consider "mlen = 0" | "mlen \<noteq> 0" "clen < 34 + mlen" | "mlen \<noteq> 0" "34 + mlen \<le> clen" by linarith
    then show ?thesis
    proof cases
      case 1
      then show ?thesis using head that(2) lb(1) mlen_def by simp
    next
      case 2
      then show ?thesis using head that(3) lb(1) mlen_def by simp
    next
      case 3
      have r2: "mem_read cm (co + 18) (mlen + 16) = Inr (frame_body cm co mlen)"
        "length (frame_body cm co mlen) = mlen + 16"
        using cl 3 by (simp_all add: frame_body_def)
      have v1: "mbedtls_compat L (cx_cipher (at_nonce ctx (inc n)))" using v by simp
      note d = aead_cipher_decrypt_keyed [OF lib k1 v1, unfolded c1, simplified, folded s_def]
      show ?thesis
      proof (cases rule: session_dec_cases [OF ok, of "inc n" "frame_body cm co mlen", case_names ok bad])
        case (bad err out)
        have w: "po + length out \<le> length pm" using bad(4) r2(2) room 3 by simp
        define pm' where "pm' = take po pm @ out @ drop (po + length out) pm"
        have "aead_chunk_decrypt L ctx pm po cm co plen clen =
            Inr (CRYPTO_ERROR, at_nonce ctx (inc n), pm', length out, clen)"
          using 3 head r2 d [of pm po 2 "frame_body cm co mlen"] bad w
          by (simp add: pm'_def) (simp add: crypto_codes)
        moreover have "length pm' = length pm" using w by (simp add: pm'_def)
        ultimately show ?thesis using that(4) lb(1) 3 bad(1) mlen_def by blast
      next
        case p: (ok p)
        have lp: "length p = mlen" using p(3) r2(2) by simp
        have w: "po + length p \<le> length pm" using lp room 3 by simp
        have "aead_chunk_decrypt L ctx pm po cm co plen clen =
            Inr (CRYPTO_OK, at_nonce ctx (inc (inc n)), take po pm @ p @ drop (po + length p) pm, length p,
                 clen - (34 + length p))"
          using 3 head r2 d [of pm po 2 "frame_body cm co mlen"] p w lp nonce_step_keyed [OF lib k1]
          by (simp add: c1 inc_def [symmetric] at_nonce_twice [OF n1])
        moreover have "p \<noteq> []" using lp 3 by auto
        ultimately show ?thesis using that(5) [of lb p] lb(1) lp 3 p(1) mlen_def by simp
      qed
    qed
  qed
qed

section \<open>The loop of \<open>aead_decrypt\<close>\<close>

text \<open>The abstract decoder on the \<open>len\<close> bytes at offset \<open>co\<close> of a block, outcome by outcome.\<close>

lemma dec_window:
  assumes "34 < len" "co + len \<le> length cm"
  shows "dec_of L s n (take len (drop co cm)) =
    (case session_unseal L s n (frame_head cm co) of None \<Rightarrow> None
     | Some lb \<Rightarrow>
         let mlen = load16_be lb AND CHUNK_SIZE_MASK in
         if mlen = 0 then None
         else if len < 34 + mlen then Some ([], n, take len (drop co cm))
         else case session_unseal L s (sodium_increment L n) (frame_body cm co mlen) of None \<Rightarrow> None
           | Some p \<Rightarrow>
               case dec_of L s (sodium_increment L (sodium_increment L n))
                      (take (len - (34 + mlen)) (drop (co + (34 + mlen)) cm)) of None \<Rightarrow> None
               | Some (q, n', r) \<Rightarrow> Some (p @ q, n', r))"
proof -
  have h: "take (2 + 16) (take len (drop co cm)) = frame_head cm co"
    using assms by (simp add: frame_head_def)
  have b: "take (m + 16) (drop (2 + 16) (take len (drop co cm))) = frame_body cm co m" if "34 + m \<le> len" for m
    using that by (simp add: frame_body_def drop_take add.commute)
  have d: "drop (2 * 16 + 2 + m) (take len (drop co cm)) = take (len - (34 + m)) (drop (co + (34 + m)) cm)" for m
    by (simp add: drop_take ac_simps)
  have l: "length (take len (drop co cm)) = len" using assms by simp
  show ?thesis
    unfolding dec_chunks.simps [of _ _ 16 n "take len (drop co cm)"] h d l
    using assms(1) b by (auto simp: Let_def split: option.split)
qed

lemma aead_decrypt_loop_spec:
  assumes lib: "lib_ok L" and v: "mbedtls_compat L ci"
    and "ctx_keyed L ctx False sk" "cx_cipher ctx = ci"
    and "buf_idx chunk + cidx + buf_len chunk \<le> length (buf_data chunk)"
    and "plen + buf_len chunk \<le> length pm" "plen = 0 \<Longrightarrow> cidx = 0"
  shows "case dec_of L (ci, sk) (cur_nonce ctx) (take (buf_len chunk) (drop (buf_idx chunk + cidx) (buf_data chunk))) of
      None \<Rightarrow> \<exists>ctx' pm' ch' pl'. aead_decrypt_loop L ctx pm chunk plen cidx = Inr (Some CRYPTO_ERROR, ctx', pm', ch', pl')
    | Some (q, n', r) \<Rightarrow>
        if plen = 0 \<and> q = [] \<and> r \<noteq> [] then
          aead_decrypt_loop L ctx pm chunk plen cidx = Inr (Some CRYPTO_NEED_MORE, ctx, pm, chunk, 0)
        else \<exists>i. aead_decrypt_loop L ctx pm chunk plen cidx =
               Inr (None, at_nonce ctx n', take plen pm @ q @ drop (plen + length q) pm,
                    chunk\<lparr>buf_idx := i, buf_len := length r\<rparr>, plen + length q) \<and>
             (r \<noteq> [] \<longrightarrow> i + length r \<le> length (buf_data chunk) \<and> take (length r) (drop i (buf_data chunk)) = r)"
  using assms(3-)
proof (induction "buf_len chunk" arbitrary: ctx pm chunk plen cidx rule: less_induct)
  case less
  let ?inc = "sodium_increment L"
  let ?n = "cur_nonce ctx"
  let ?len = "buf_len chunk"
  let ?co = "buf_idx chunk + cidx"
  let ?d = "buf_data chunk"
  let ?B = "take ?len (drop ?co ?d)"
  have s: "session_of ctx sk = (ci, sk)" using less.prems(2) by simp
  have v': "mbedtls_compat L (cx_cipher ctx)" using v less.prems(2) by simp
  have lB: "length ?B = ?len" using less.prems(3) by simp
  note step = aead_decrypt_loop.simps [of L ctx pm chunk plen cidx]
  show ?case
  proof (cases "?len \<le> 34")
    case short: True
    then have dB: "dec_of L (ci, sk) ?n ?B = Some ([], ?n, ?B)" using lB by (simp add: dec_chunks.simps)
    show ?thesis
    proof (cases "?len = 0")
      case True
      then have "aead_decrypt_loop L ctx pm chunk plen cidx =
          Inr (None, at_nonce ctx ?n, take plen pm @ [] @ drop (plen + length []) pm,
               chunk\<lparr>buf_idx := buf_idx chunk, buf_len := length ?B\<rparr>, plen + length [])"
        using step by (simp add: at_nonce_cur)
      then show ?thesis using True dB by (auto intro!: exI [of _ "buf_idx chunk"])
    next
      case False
      note st = chunk_decrypt_short [OF less.prems(1) short]
      show ?thesis
      proof (cases "plen = 0")
        case True
        then show ?thesis using step st False dB lB by (simp add: crypto_codes)
      next
        case p: False
        have "aead_decrypt_loop L ctx pm chunk plen cidx =
          Inr (None, at_nonce ctx ?n, take plen pm @ [] @ drop (plen + length []) pm,
               chunk\<lparr>buf_idx := ?co, buf_len := length ?B\<rparr>, plen + length [])"
          using step st False p lB by (simp add: at_nonce_cur crypto_codes)
        then show ?thesis using dB p less.prems(3) lB by auto
      qed
    qed
  next
    case False
    then have cl: "34 < ?len" by simp
    have room: "plen + (?len - 34) \<le> length pm" using less.prems(4) by simp
    note dw = dec_window [OF cl less.prems(3), of L "(ci, sk)" ?n]
    show ?thesis
    proof (cases rule: chunk_decrypt_cases [OF lib less.prems(1) v' cl less.prems(3) room,
          where plen = 0, unfolded s, case_names bad_head zero more bad_body good])
      case (bad_head pl)
      then show ?thesis using dw cl step by (simp add: crypto_codes)
    next
      case (zero lb)
      then show ?thesis using dw cl step by (simp add: crypto_codes)
    next
      case (more lb)
      then have dB: "dec_of L (ci, sk) ?n ?B = Some ([], ?n, ?B)" using dw by (simp add: Let_def)
      show ?thesis
      proof (cases "plen = 0")
        case True
        then show ?thesis using step more cl dB lB by (simp add: crypto_codes)
      next
        case p: False
        have "aead_decrypt_loop L ctx pm chunk plen cidx =
          Inr (None, at_nonce ctx ?n, take plen pm @ [] @ drop (plen + length []) pm,
               chunk\<lparr>buf_idx := ?co, buf_len := length ?B\<rparr>, plen + length [])"
          using step more cl p lB by (simp add: at_nonce_cur crypto_codes)
        then show ?thesis using dB p less.prems(3) lB by auto
      qed
    next
      case (bad_body lb pm' pl)
      then have "dec_of L (ci, sk) ?n ?B = None" using dw by (simp add: Let_def)
      moreover have "aead_decrypt_loop L ctx pm chunk plen cidx =
          Inr (Some CRYPTO_ERROR, at_nonce ctx (?inc ?n), pm', chunk, plen)"
        using bad_body cl step by (simp add: crypto_codes)
      ultimately show ?thesis by simp
    next
      case (good lb p)
      let ?ctx2 = "at_nonce ctx (?inc (?inc ?n))"
      let ?pm2 = "take plen pm @ p @ drop (plen + length p) pm"
      let ?ch2 = "chunk\<lparr>buf_len := ?len - (34 + length p)\<rparr>"
      let ?ci2 = "cidx + (34 + length p)"
      have n2: "length (?inc (?inc ?n)) = ci_nonce_len (cx_cipher ctx)"
        using keyed_nonce_length [OF less.prems(1)] by (simp add: inc_length [OF lib])
      have t: "ci_tag_len (cx_cipher ctx) = 16" using keyed_tag [OF less.prems(1)] .
      have lp: "aead_decrypt_loop L ctx pm chunk plen cidx = aead_decrypt_loop L ?ctx2 ?pm2 ?ch2 (plen + length p) ?ci2"
        using good cl step t by (simp add: crypto_codes CHUNK_SIZE_LEN_def ac_simps)
      have lpm: "length ?pm2 = length pm" using good(4) less.prems(4) by simp
      have pr: "buf_len ?ch2 < ?len" "cx_cipher ?ctx2 = ci"
          "buf_idx ?ch2 + ?ci2 + buf_len ?ch2 \<le> length (buf_data ?ch2)"
          "plen + length p + buf_len ?ch2 \<le> length ?pm2" "plen + length p = 0 \<Longrightarrow> ?ci2 = 0"
        using good(2,4) cl less.prems(2-4) lpm by simp_all
      note IH = less.hyps [OF pr(1) keyed_at_nonce [OF less.prems(1) n2] pr(2-)]
      have dB: "dec_of L (ci, sk) ?n ?B = (case dec_of L (ci, sk) (?inc (?inc ?n))
          (take (?len - (34 + length p)) (drop (?co + (34 + length p)) ?d)) of None \<Rightarrow> None
          | Some (q, n', r) \<Rightarrow> Some (p @ q, n', r))"
        using dw good by (simp add: Let_def)
      have c2: "cur_nonce ?ctx2 = ?inc (?inc ?n)" using cur_nonce_at [OF n2] .
      have IH': "case dec_of L (ci, sk) (?inc (?inc ?n)) (take (?len - (34 + length p)) (drop (?co + (34 + length p)) ?d)) of
          None \<Rightarrow> \<exists>ctx' pm' ch' pl'. aead_decrypt_loop L ?ctx2 ?pm2 ?ch2 (plen + length p) ?ci2 = Inr (Some CRYPTO_ERROR, ctx', pm', ch', pl')
        | Some (q, n', r) \<Rightarrow> \<exists>i. aead_decrypt_loop L ?ctx2 ?pm2 ?ch2 (plen + length p) ?ci2 =
               Inr (None, at_nonce ?ctx2 n', take (plen + length p) ?pm2 @ q @ drop (plen + length p + length q) ?pm2,
                    ?ch2\<lparr>buf_idx := i, buf_len := length r\<rparr>, plen + length p + length q) \<and>
             (r \<noteq> [] \<longrightarrow> i + length r \<le> length ?d \<and> take (length r) (drop i ?d) = r)"
        using IH good(2) by (auto simp: c2 add.assoc split: option.splits)
      show ?thesis
      proof (cases "dec_of L (ci, sk) (?inc (?inc ?n)) (take (?len - (34 + length p)) (drop (?co + (34 + length p)) ?d))")
        case None
        then show ?thesis using dB IH' lp by simp
      next
        case (Some x)
        obtain q n' r where x: "x = (q, n', r)" by (cases x)
        obtain i where i: "aead_decrypt_loop L ?ctx2 ?pm2 ?ch2 (plen + length p) ?ci2 =
               Inr (None, at_nonce ?ctx2 n', take (plen + length p) ?pm2 @ q @ drop (plen + length p + length q) ?pm2,
                    ?ch2\<lparr>buf_idx := i, buf_len := length r\<rparr>, plen + length p + length q)"
             "r \<noteq> [] \<longrightarrow> i + length r \<le> length ?d \<and> take (length r) (drop i ?d) = r"
          using IH' Some x by auto
        have tk: "take (plen + length p) ?pm2 = take plen pm @ p"
          "drop (plen + length p + length q) ?pm2 = drop (plen + length p + length q) pm"
          using good(4) less.prems(4) by (simp_all add: ac_simps)
        show ?thesis
          using dB Some x lp i good(2) unfolding tk
          by (auto simp: at_nonce_twice [OF n2] ac_simps intro!: exI [of _ i])
      qed
    qed
  qed
qed

section \<open>Collecting the received bytes\<close>

definition pending :: "buffer option \<Rightarrow> bytes" where
  "pending c = (case c of None \<Rightarrow> [] | Some b \<Rightarrow> buf_bytes b)"

definition chunk_wf :: "buffer option \<Rightarrow> bool" where
  "chunk_wf c \<longleftrightarrow> (case c of None \<Rightarrow> True | Some b \<Rightarrow> buf_wf b)"

definition recv_wf :: "buffer \<Rightarrow> bool" where
  "recv_wf b \<longleftrightarrow> tmp_wf b \<and> buf_len b \<le> buf_capacity b"

definition recv_bytes :: "buffer \<Rightarrow> bytes" where
  "recv_bytes b = take (buf_len b) (buf_data b)"

lemma brealloc_tmp_wf: "tmp_wf b \<Longrightarrow> tmp_wf (brealloc junk b l c)"
  by (simp add: tmp_wf_def brealloc_length)

lemma aead_collect_ok:
  assumes "chunk_wf c0" "recv_wf ct"
  shows "\<exists>ch ct'. aead_collect junk c0 ct cap = Inr (ch, ct') \<and> buf_wf ch \<and>
           buf_bytes ch = pending c0 @ recv_bytes ct \<and> tmp_wf ct' \<and> buf_len ch \<le> buf_capacity ct'"
proof -
  define c where "c = (case c0 of None \<Rightarrow> balloc junk cap | Some c \<Rightarrow> c)"
  have wf: "buf_wf c" and pend: "pending c0 = buf_bytes c"
    using assms(1) by (auto simp: c_def chunk_wf_def pending_def buf_bytes_def buf_simps split: option.splits)
  have ct: "length (buf_data ct) = buf_capacity ct" "buf_len ct \<le> buf_capacity ct"
    using assms(2) by (auto simp: recv_wf_def tmp_wf_def)
  have cw: "length (buf_data c) = buf_capacity c" "buf_idx c + buf_len c \<le> buf_capacity c"
    using wf by (auto simp: buf_wf_def)
  show ?thesis
  proof (cases "buf_len c = 0")
    case True
    define ch where "ch = c\<lparr>buf_data := buf_data ct, buf_capacity := buf_capacity ct, buf_len := buf_len ct, buf_idx := 0\<rparr>"
    define ct1 where "ct1 = ct\<lparr>buf_data := buf_data c, buf_capacity := buf_capacity c, buf_len := 0\<rparr>"
    have "aead_collect junk c0 ct cap = Inr (ch, brealloc junk ct1 (buf_len ct) cap)"
      using True by (simp add: aead_collect_def c_def [symmetric] Let_def bswap_data_def ch_def ct1_def)
    moreover have "tmp_wf (brealloc junk ct1 (buf_len ct) cap)"
      using cw by (intro brealloc_tmp_wf) (simp add: tmp_wf_def ct1_def)
    moreover have "buf_wf ch" "buf_bytes ch = pending c0 @ recv_bytes ct" "buf_len ch = buf_len ct"
      using ct True pend by (auto simp: ch_def buf_wf_def buf_bytes_def recv_bytes_def)
    ultimately show ?thesis by (auto simp: buf_simps)
  next
    case False
    define d1 where "d1 = buf_bytes c @ drop (buf_len c) (buf_data c)"
    define c1 where "c1 = c\<lparr>buf_data := d1, buf_idx := 0\<rparr>"
    have lb: "length (buf_bytes c) = buf_len c" using wf by simp
    have l1: "length d1 = buf_capacity c" using cw lb by (simp add: d1_def)
    have b0: "buf_bytes c = take (buf_len c) (buf_data c)" if "buf_idx c = 0"
      using that by (simp add: buf_bytes_def)
    have move: "(if buf_idx c > 0 then
          bindr (mem_read (buf_data c) (buf_idx c) (buf_len c)) (\<lambda>x.
          bindr (mem_write (buf_data c) 0 x) (\<lambda>d. Inr (c\<lparr>buf_data := d, buf_idx := 0\<rparr>)))
        else Inr c) = Inr c1"
      using cw lb b0 by (auto simp: c1_def d1_def buf_bytes_def)
    have lc1: "buf_len c1 = buf_len c" by (simp add: c1_def)
    define c2 where "c2 = brealloc junk c1 (buf_len c + buf_len ct) cap"
    have c2: "length (buf_data c2) = buf_capacity c2" "buf_len c + buf_len ct \<le> buf_capacity c2"
        "buf_len c2 = buf_len c" "buf_idx c2 = 0"
      using l1 by (simp_all add: c2_def brealloc_length c1_def buf_simps)
    have t2: "take (buf_len c) (buf_data c2) = buf_bytes c"
      using l1 lb cw brealloc_prefix [of c1 "buf_len c" junk "buf_len c + buf_len ct" cap]
      by (simp add: c2_def c1_def d1_def)
    define ch where "ch = c2\<lparr>buf_data := take (buf_len c) (buf_data c2) @ recv_bytes ct @
        drop (buf_len c + buf_len ct) (buf_data c2), buf_len := buf_len c + buf_len ct\<rparr>"
    have "aead_collect junk c0 ct cap = Inr (ch, brealloc junk ct (buf_len c + buf_len ct) cap)"
      using False ct c2 move unfolding aead_collect_def c_def [symmetric]
      by (simp add: Let_def lc1 c2_def [symmetric] ch_def recv_bytes_def)
    moreover have "tmp_wf (brealloc junk ct (buf_len c + buf_len ct) cap)"
      using assms(2) by (intro brealloc_tmp_wf) (simp add: recv_wf_def)
    moreover have "buf_wf ch" "buf_bytes ch = pending c0 @ recv_bytes ct" "buf_len ch = buf_len c + buf_len ct"
      using c2 t2 ct pend lb by (auto simp: ch_def buf_wf_def buf_bytes_def recv_bytes_def)
    ultimately show ?thesis by (auto simp: buf_simps)
  qed
qed

section \<open>\<open>aead_decrypt\<close>\<close>

definition ctx_salt :: "('g, 'e) cipher_ctx \<Rightarrow> bytes" where
  "ctx_salt ctx = take (ci_key_len (cx_cipher ctx)) (cx_salt ctx)"

lemma shape_salt:
  assumes "ctx_shape ctx"
  shows "ci_key_len (cx_cipher ctx) \<le> length (cx_salt ctx)"
  using assms cipher_sizes(1) [of "cx_cipher ctx"] by (simp add: ctx_shape_def MAX_KEY_LENGTH_def)

lemma keyed_shape: "ctx_keyed L ctx enc sk \<Longrightarrow> ctx_shape ctx"
  by (simp add: ctx_keyed_def)

text \<open>
  What the third part returns, by what the abstract decoder makes of the bytes: an error, the
  request for more bytes, the refusal of a salt recorded meanwhile, or the plaintext.
\<close>

lemma aead_decrypt_rest_spec:
  assumes lib: "lib_ok L" and v: "mbedtls_compat L (cx_cipher ctx)" and k: "ctx_keyed L ctx False sk"
    and init: "cx_init ctx = 1 \<or> cx_init ctx = 2" and w: "world_wf w"
    and ch: "buf_wf ch" and ct: "tmp_wf ct" "buf_len ch \<le> buf_capacity ct"
  shows "case dec_of L (session_of ctx sk) (cur_nonce ctx) (buf_bytes ch) of
      None \<Rightarrow> \<exists>ct' ctx'. aead_decrypt_rest L w ct ctx ch = Inr (CRYPTO_ERROR, ct', ctx', w)
    | Some (q, n', r) \<Rightarrow>
        if q = [] \<and> r \<noteq> [] then
          \<exists>ct'. aead_decrypt_rest L w ct ctx ch = Inr (CRYPTO_NEED_MORE, ct', ctx\<lparr>cx_chunk := Some ch\<rparr>, w)
        else if cx_init ctx = 1 \<and> pp_covers (cw_pp w) (ctx_salt ctx) then
          \<exists>ct' ctx'. aead_decrypt_rest L w ct ctx ch = Inr (CRYPTO_ERROR, ct', ctx', w)
        else
          \<exists>ct' ch' pp. aead_decrypt_rest L w ct ctx ch =
              Inr (CRYPTO_OK, ct', (at_nonce ctx n')\<lparr>cx_chunk := Some ch', cx_init := 2\<rparr>, w\<lparr>cw_pp := pp\<rparr>) \<and>
            recv_bytes ct' = q \<and> buf_wf ch' \<and> buf_bytes ch' = r \<and> world_wf (w\<lparr>cw_pp := pp\<rparr>) \<and>
            (if cx_init ctx = 1 then ppbloom_add (cw_pp w) (ctx_salt ctx) = Inr (0, pp) \<and> pp_covers pp (ctx_salt ctx)
             else pp = cw_pp w)"
proof -
  let ?s = "session_of ctx sk"
  have chw: "length (buf_data ch) = buf_capacity ch" "buf_idx ch + buf_len ch \<le> buf_capacity ch"
    using ch by (auto simp: buf_wf_def)
  have pm: "0 + buf_len ch \<le> length (buf_data ct)" using ct by (simp add: tmp_wf_def)
  note loop = aead_decrypt_loop_spec [OF lib v k refl, of ch 0 0 "buf_data ct"]
  have loop': "case dec_of L ?s (cur_nonce ctx) (buf_bytes ch) of
      None \<Rightarrow> \<exists>ctx' pm' ch' pl'. aead_decrypt_loop L ctx (buf_data ct) ch 0 0 = Inr (Some CRYPTO_ERROR, ctx', pm', ch', pl')
    | Some (q, n', r) \<Rightarrow>
        if q = [] \<and> r \<noteq> [] then
          aead_decrypt_loop L ctx (buf_data ct) ch 0 0 = Inr (Some CRYPTO_NEED_MORE, ctx, buf_data ct, ch, 0)
        else \<exists>i. aead_decrypt_loop L ctx (buf_data ct) ch 0 0 =
               Inr (None, at_nonce ctx n', q @ drop (length q) (buf_data ct),
                    ch\<lparr>buf_idx := i, buf_len := length r\<rparr>, length q) \<and>
             (r \<noteq> [] \<longrightarrow> i + length r \<le> length (buf_data ch) \<and> take (length r) (drop i (buf_data ch)) = r)"
    using loop chw pm by (auto simp: buf_bytes_def split: option.splits)
  show ?thesis
  proof (cases "dec_of L ?s (cur_nonce ctx) (buf_bytes ch)")
    case None
    then show ?thesis using loop' by (auto simp: aead_decrypt_rest_def Let_def)
  next
    case (Some x)
    obtain q n' r where x: "x = (q, n', r)" by (cases x)
    show ?thesis
    proof (cases "q = [] \<and> r \<noteq> []")
      case True
      then show ?thesis using loop' Some x by (auto simp: aead_decrypt_rest_def Let_def)
    next
      case out: False
      then have "\<exists>i. aead_decrypt_loop L ctx (buf_data ct) ch 0 0 =
               Inr (None, at_nonce ctx n', q @ drop (length q) (buf_data ct),
                    ch\<lparr>buf_idx := i, buf_len := length r\<rparr>, length q) \<and>
             (r \<noteq> [] \<longrightarrow> i + length r \<le> length (buf_data ch) \<and> take (length r) (drop i (buf_data ch)) = r)"
        using loop' Some x by simp
      then obtain i where lp: "aead_decrypt_loop L ctx (buf_data ct) ch 0 0 =
               Inr (None, at_nonce ctx n', q @ drop (length q) (buf_data ct),
                    ch\<lparr>buf_idx := i, buf_len := length r\<rparr>, length q)"
          "r \<noteq> [] \<Longrightarrow> i + length r \<le> length (buf_data ch) \<and> take (length r) (drop i (buf_data ch)) = r"
        by blast
      define ct' where "ct' = ct\<lparr>buf_data := q @ drop (length q) (buf_data ct), buf_len := length q\<rparr>"
      define ch' where "ch' = (if r = [] then ch\<lparr>buf_idx := 0, buf_len := 0\<rparr> else ch\<lparr>buf_idx := i, buf_len := length r\<rparr>)"
      have ch': "buf_wf ch'" "buf_bytes ch' = r"
        using lp(2) chw by (auto simp: ch'_def buf_wf_def buf_bytes_def)
      have q: "recv_bytes ct' = q" by (simp add: ct'_def recv_bytes_def)
      note sl = shape_salt [OF keyed_shape [OF k]]
      have chk: "world_pp_check w (cx_salt ctx) (ci_key_len (cx_cipher ctx)) =
          Inr (if pp_covers (cw_pp w) (ctx_salt ctx) then 1 else 0, w)"
        using world_pp_check_ok [OF w sl] by (simp add: ctx_salt_def)
      obtain pp where pp: "world_pp_add w (cx_salt ctx) (ci_key_len (cx_cipher ctx)) = Inr (w\<lparr>cw_pp := pp\<rparr>)"
          "ppbloom_add (cw_pp w) (ctx_salt ctx) = Inr (0, pp)" "world_wf (w\<lparr>cw_pp := pp\<rparr>)" "pp_covers pp (ctx_salt ctx)"
        using world_pp_add_ok [OF w sl] by (auto simp: ctx_salt_def)
      have rest: "aead_decrypt_rest L w ct ctx ch =
          (if cx_init ctx = 1 then
             if pp_covers (cw_pp w) (ctx_salt ctx) then Inr (CRYPTO_ERROR, ct', (at_nonce ctx n')\<lparr>cx_chunk := Some ch'\<rparr>, w)
             else Inr (CRYPTO_OK, ct', (at_nonce ctx n')\<lparr>cx_chunk := Some ch', cx_init := 2\<rparr>, w\<lparr>cw_pp := pp\<rparr>)
           else Inr (CRYPTO_OK, ct', (at_nonce ctx n')\<lparr>cx_chunk := Some ch'\<rparr>, w))"
        using lp(1) chk pp(1) by (simp add: aead_decrypt_rest_def Let_def ct'_def ch'_def)
      show ?thesis
      proof (cases "cx_init ctx = 1")
        case True
        then show ?thesis using rest Some x out ch' q pp by auto
      next
        case False
        then have "cx_init (at_nonce ctx n') = 2" using init by simp
        then have "(at_nonce ctx n')\<lparr>cx_chunk := Some ch'\<rparr> = (at_nonce ctx n')\<lparr>cx_chunk := Some ch', cx_init := 2\<rparr>"
          by simp
        then show ?thesis using rest Some x out ch' q False w
          by (auto intro!: exI [of _ ct'] exI [of _ ch'] exI [of _ "cw_pp w"])
      qed
    qed
  qed
qed

section \<open>A receiver\<close>

text \<open>
  A peer calls \<open>aead_decrypt\<close> for every buffer it receives, forwards the plaintext of each success
  and gives up at the first error (\<open>None\<close>). The buffers are arbitrary: how the network cuts the
  stream and which blocks are reused does not matter.
\<close>

fun aead_recv ::
    "('g, 'e) crypto_lib \<Rightarrow> nat \<Rightarrow> 'd crypto_world \<Rightarrow> ('g, 'e) cipher_ctx \<Rightarrow> buffer list \<Rightarrow>
     (bytes \<times> ('g, 'e) cipher_ctx \<times> 'd crypto_world) option res"
  and aead_recv_next ::
    "('g, 'e) crypto_lib \<Rightarrow> nat \<Rightarrow> int \<times> buffer \<times> ('g, 'e) cipher_ctx \<times> 'd crypto_world \<Rightarrow> buffer list \<Rightarrow>
     (bytes \<times> ('g, 'e) cipher_ctx \<times> 'd crypto_world) option res" where
  "aead_recv L cap w ctx [] = Inr (Some ([], ctx, w))"
| "aead_recv L cap w ctx (b # bs) =
     bindr (aead_decrypt L w b ctx cap) (\<lambda>res. aead_recv_next L cap res bs)"
| "aead_recv_next L cap (r, ct, ctx, w) bs =
     (if r = CRYPTO_ERROR then Inr None
      else if r = CRYPTO_NEED_MORE then aead_recv L cap w ctx bs
      else bindr (aead_recv L cap w ctx bs) (\<lambda>res.
             Inr (case res of None \<Rightarrow> None | Some (q, x) \<Rightarrow> Some (recv_bytes ct @ q, x))))"

lemma decrypt_keyed_eq:
  assumes "cx_init ctx \<noteq> 0" "aead_collect (cw_junk w) (cx_chunk ctx) b cap = Inr (ch, ct)"
  shows "aead_decrypt L w b ctx cap = aead_decrypt_rest L w ct ctx ch"
  using assms by (simp add: aead_decrypt_def aead_decrypt_salt_def)

lemma rest_recv:
  assumes lib: "lib_ok L" and v: "mbedtls_compat L (cx_cipher ctx)" and k: "ctx_keyed L ctx False sk"
    and init: "cx_init ctx = 1 \<or> cx_init ctx = 2" and w: "world_wf w"
    and ch: "buf_wf ch" and ct: "tmp_wf ct" "buf_len ch \<le> buf_capacity ct"
    and fresh: "cx_init ctx = 1 \<Longrightarrow> \<not> pp_covers (cw_pp w) (ctx_salt ctx)"
    and bufs: "\<forall>b\<in>set bufs. recv_wf b"
    and dec: "dec_of L (session_of ctx sk) (cur_nonce ctx) (buf_bytes ch @ concat (map recv_bytes bufs)) = Some (q, n', r)"
  shows "\<exists>ctx' w'. bindr (aead_decrypt_rest L w ct ctx ch) (\<lambda>res. aead_recv_next L cap res bufs) = Inr (Some (q, ctx', w')) \<and>
           world_wf w' \<and> (cx_init ctx = 2 \<longrightarrow> cw_pp w' = cw_pp w) \<and>
           (q \<noteq> [] \<and> cx_init ctx = 1 \<longrightarrow> pp_covers (cw_pp w') (ctx_salt ctx))"
  using assms
proof (induction bufs arbitrary: ctx ch ct w q)
  case Nil
  let ?s = "session_of ctx sk"
  have d: "dec_of L ?s (cur_nonce ctx) (buf_bytes ch) = Some (q, n', r)" using Nil.prems(11) by simp
  note R = aead_decrypt_rest_spec [OF Nil.prems(1-8), unfolded d]
  show ?case using R Nil.prems(5,9)
    by (auto simp: crypto_codes split: if_splits)
next
  case (Cons b bufs)
  let ?s = "session_of ctx sk"
  let ?tl = "concat (map recv_bytes bufs)"
  have "dec_of L ?s (cur_nonce ctx) (buf_bytes ch) \<noteq> None"
    using dec_chunks_append_None Cons.prems(11) by fastforce
  then obtain q1 n1 r1 where d1: "dec_of L ?s (cur_nonce ctx) (buf_bytes ch) = Some (q1, n1, r1)" by auto
  obtain q2 where d2: "dec_of L ?s n1 (r1 @ recv_bytes b @ ?tl) = Some (q2, n', r)" "q = q1 @ q2"
    using Cons.prems(11) dec_chunks_append [OF d1, of "recv_bytes b @ ?tl"] by (auto split: option.splits)
  note R = aead_decrypt_rest_spec [OF Cons.prems(1-8), unfolded d1, simplified]
  have bw: "recv_wf b" "\<forall>b\<in>set bufs. recv_wf b" using Cons.prems(10) by auto
  show ?case
  proof (cases "q1 = [] \<and> r1 \<noteq> []")
    case True
    then have e: "n1 = cur_nonce ctx" "r1 = buf_bytes ch"
      using ses.dec_chunks_nil [OF keyed_session [OF lib Cons.prems(3)], of _ _ _ n1 r1] d1 by auto
    let ?ctx = "ctx\<lparr>cx_chunk := Some ch\<rparr>"
    obtain ct' where R': "aead_decrypt_rest L w ct ctx ch = Inr (CRYPTO_NEED_MORE, ct', ?ctx, w)"
      using R True by auto
    obtain ch2 ct2 where c2: "aead_collect (cw_junk w) (cx_chunk ?ctx) b cap = Inr (ch2, ct2)" "buf_wf ch2"
        "buf_bytes ch2 = buf_bytes ch @ recv_bytes b" "tmp_wf ct2" "buf_len ch2 \<le> buf_capacity ct2"
      using aead_collect_ok [OF _ bw(1), of "Some ch" "cw_junk w" cap] Cons.prems(6)
      by (auto simp: chunk_wf_def pending_def)
    have kc: "ctx_keyed L ?ctx False sk" "cur_nonce ?ctx = cur_nonce ctx" "ctx_salt ?ctx = ctx_salt ctx"
      using Cons.prems(3) by (auto simp: ctx_keyed_def ctx_shape_def cur_nonce_def ctx_salt_def)
    have "\<exists>ctx' w'. bindr (aead_decrypt_rest L w ct2 ?ctx ch2) (\<lambda>res. aead_recv_next L cap res bufs) = Inr (Some (q2, ctx', w')) \<and>
           world_wf w' \<and> (cx_init ?ctx = 2 \<longrightarrow> cw_pp w' = cw_pp w) \<and>
           (q2 \<noteq> [] \<and> cx_init ?ctx = 1 \<longrightarrow> pp_covers (cw_pp w') (ctx_salt ?ctx))"
      by (rule Cons.IH) (use Cons.prems c2 kc bw d2 e in auto)
    then show ?thesis
      using R' True d2(2) decrypt_keyed_eq [OF _ c2(1), of L] Cons.prems(4) kc(3) by (auto simp: crypto_codes)
  next
    case out: False
    obtain ct' ch' pp where R': "aead_decrypt_rest L w ct ctx ch =
              Inr (CRYPTO_OK, ct', (at_nonce ctx n1)\<lparr>cx_chunk := Some ch', cx_init := 2\<rparr>, w\<lparr>cw_pp := pp\<rparr>)"
        "recv_bytes ct' = q1" "buf_wf ch'" "buf_bytes ch' = r1" "world_wf (w\<lparr>cw_pp := pp\<rparr>)"
        "if cx_init ctx = 1 then ppbloom_add (cw_pp w) (ctx_salt ctx) = Inr (0, pp) \<and> pp_covers pp (ctx_salt ctx)
         else pp = cw_pp w"
    proof -
      have nc: "\<not> (cx_init ctx = 1 \<and> pp_covers (cw_pp w) (ctx_salt ctx))" using Cons.prems(9) by blast
      note R2 = aead_decrypt_rest_spec [OF Cons.prems(1-8), unfolded d1 option.case prod.case if_not_P [OF out] if_not_P [OF nc]]
      from R2 show thesis using that by blast
    qed
    let ?ctx = "(at_nonce ctx n1)\<lparr>cx_chunk := Some ch', cx_init := 2\<rparr>"
    let ?w = "w\<lparr>cw_pp := pp\<rparr>"
    obtain ch2 ct2 where c2: "aead_collect (cw_junk ?w) (cx_chunk ?ctx) b cap = Inr (ch2, ct2)" "buf_wf ch2"
        "buf_bytes ch2 = r1 @ recv_bytes b" "tmp_wf ct2" "buf_len ch2 \<le> buf_capacity ct2"
      using aead_collect_ok [OF _ bw(1), of "Some ch'" "cw_junk ?w" cap] R'(3,4)
      by (auto simp: chunk_wf_def pending_def)
    have n1: "length n1 = ci_nonce_len (cx_cipher ctx)"
      using dec_chunks_nonce_length [OF inc_length [OF lib] d1] keyed_nonce_length [OF Cons.prems(3)] by simp
    have kc: "ctx_keyed L ?ctx False sk" "cur_nonce ?ctx = n1"
      using keyed_at_nonce [OF Cons.prems(3) n1] cur_nonce_at [OF n1]
      by (auto simp: ctx_keyed_def ctx_shape_def cur_nonce_def)
    have "\<exists>ctx' w'. bindr (aead_decrypt_rest L ?w ct2 ?ctx ch2) (\<lambda>res. aead_recv_next L cap res bufs) = Inr (Some (q2, ctx', w')) \<and>
           world_wf w' \<and> (cx_init ?ctx = 2 \<longrightarrow> cw_pp w' = cw_pp ?w) \<and>
           (q2 \<noteq> [] \<and> cx_init ?ctx = 1 \<longrightarrow> pp_covers (cw_pp w') (ctx_salt ?ctx))"
      by (rule Cons.IH) (use Cons.prems c2 kc bw d2 R'(5) in auto)
    then show ?thesis
      using R' out d2(2) decrypt_keyed_eq [OF _ c2(1), of L] by (auto simp: crypto_codes)
  qed
qed

end
