(* ===== verification/Crypto_Instance.thy ===== *)
theory Crypto_Instance
  imports Aead_Session
begin

text \<open>
  A concrete library, world and cipher, on which the hypotheses of the cipher theorems hold. The
  library keeps the message in the clear and adds a constant tag, which satisfies everything the
  theorems use of libsodium and mbedTLS; the statements that need a hypothesis are applied to it.
\<close>

definition plain_tag :: bytes where
  "plain_tag = replicate 16 0xAA"

definition plain_enc :: "bytes \<Rightarrow> bytes \<Rightarrow> int \<times> bytes" where
  "plain_enc n m = (0, m @ plain_tag)"

definition plain_dec :: "bytes \<Rightarrow> bytes \<Rightarrow> int \<times> bytes" where
  "plain_dec n c =
     (if 16 \<le> length c \<and> drop (length c - 16) c = plain_tag then (0, take (length c - 16) c) else (-1, []))"

definition lib_plain :: "(unit, unit) crypto_lib" where
  "lib_plain = \<lparr>md_info = (\<lambda>_. Some md_plain), sodium_increment = (\<lambda>n. n), gcm_available = True,
     gcm_zero = (), gcm_beforenm = (\<lambda>_. (0, ())), gcm_encrypt = (\<lambda>_. plain_enc), gcm_decrypt = (\<lambda>_. plain_dec),
     chacha_encrypt = (\<lambda>_. plain_enc), chacha_decrypt = (\<lambda>_. plain_dec),
     xchacha_encrypt = (\<lambda>_. plain_enc), xchacha_decrypt = (\<lambda>_. plain_dec), mbedtls3 = False,
     evp_found = (\<lambda>_. True), evp_setup = (\<lambda>_. (0, ())), evp_setkey = (\<lambda>_ _ _ _. (0, ())),
     evp_reset = (\<lambda>_. (0, ())), evp_auth_encrypt = (\<lambda>_ _ m _. (0, m, plain_tag)),
     evp_auth_decrypt = (\<lambda>_ n c t. plain_dec n (c @ t)),
     evp_auth_encrypt_ext = (\<lambda>_ n m t. (0, m @ replicate t 0xAA)), evp_auth_decrypt_ext = (\<lambda>_ n c _. plain_dec n c),
     evp_set_iv = (\<lambda>_ _. (0, ())), evp_update = (\<lambda>_ m. (0, m, ())),
     salsa20_xor_ic = (\<lambda>_ _ _ m. (0, m)), chacha20_xor_ic = (\<lambda>_ _ _ m. (0, m)),
     chacha20_ietf_xor_ic = (\<lambda>_ _ _ m. (0, m))\<rparr>"

lemma plain_pair: "aead_pair plain_enc plain_dec"
  by (auto simp: aead_pair_def plain_enc_def plain_dec_def plain_tag_def split: if_splits)
     (metis append_take_drop_id)

lemma lib_plain_ok: "lib_ok lib_plain"
proof -
  have "digest_ok lib_plain"
    using md_plain_ok by (simp add: digest_ok_def lib_plain_def) (simp add: md_plain_def)
  moreover have "sodium_ok lib_plain" using plain_pair by (simp add: sodium_ok_def lib_plain_def)
  moreover have "evp_enc lib_plain () = plain_enc" "evp_dec lib_plain () = plain_dec"
    by (intro ext; simp add: evp_enc_def evp_dec_def lib_plain_def plain_enc_def)+
  then have "mbedtls_ok lib_plain"
    using plain_pair by (simp add: mbedtls_ok_def) (simp add: lib_plain_def)
  ultimately show ?thesis by (simp add: lib_ok_def)
qed

definition cipher_plain :: cipher where
  "cipher_plain = \<lparr>ci_method = 3, ci_skey = 0, ci_nonce_len = 12, ci_key_len = 32, ci_tag_len = 16,
     ci_key = replicate 64 7\<rparr>"

lemma cipher_plain_ok: "cipher_ok cipher_plain" "mbedtls_compat lib_plain cipher_plain"
  by (simp_all add: cipher_ok_def cipher_plain_def aead_tables MAX_KEY_LENGTH_def mbedtls_compat_def lib_plain_def)

definition world0 :: "int crypto_world" where
  "world0 = \<lparr>cw_pp = pp7, cw_rand = of_nat, cw_pos = 0, cw_junk = (\<lambda>_. 0xEE),
     cw_aead_encrypt_all_tmp = buffer_null, cw_aead_decrypt_all_tmp = buffer_null, cw_aead_encrypt_tmp = buffer_null,
     cw_stream_encrypt_all_tmp = buffer_null, cw_stream_encrypt_tmp = buffer_null,
     cw_stream_decrypt_all_tmp = buffer_null, cw_stream_decrypt_tmp = buffer_null\<rparr>"

lemma world0_wf: "world_wf world0"
  using ppbloom_init_ok [OF pp7_init sane7]
  by (simp add: world_wf_def world0_def tmp_wf_def buffer_null_def ppbloom_zero_def)

lemma world0_fresh: "\<not> pp_covers (cw_pp world0) s"
proof -
  have ok: "ppbloom_ok pp7" using ppbloom_init_ok [OF pp7_init sane7] by (simp add: ppbloom_zero_def)
  have "bl_hashes b = 7 \<and> bl_bf b = [0, 0]" if "b \<in> {pp_bloom pp7 ! PING, pp_bloom pp7 ! PONG}" for b
    using that by (auto simp: pp7_def ppbloom_init_def env7_def ppbloom_zero_def bloom_blank_def bloom_init_def
        Let_def pp_index signed_divide_int_def signed_modulo_int_def numeral_2_eq_2)
  then show ?thesis
    using ok bloom_empty_covers [of "pp_bloom pp7 ! PING" 2 s] bloom_empty_covers [of "pp_bloom pp7 ! PONG" 2 s]
    by (simp add: pp_covers_def world0_def ppbloom_ok_def numeral_2_eq_2)
qed

text \<open>A buffer that holds \<open>xs\<close>, as after a read from a socket.\<close>

definition buf_of :: "bytes \<Rightarrow> buffer" where
  "buf_of xs = \<lparr>buf_idx = 0, buf_len = length xs, buf_capacity = length xs, buf_data = xs\<rparr>"

lemma buf_of_wf [simp]: "buf_wf (buf_of xs)" "tmp_wf (buf_of xs)" "buf_bytes (buf_of xs) = xs"
  by (simp_all add: buf_of_def buf_wf_def tmp_wf_def buf_bytes_def)

end
