(* ===== verification/Aead_TCP.thy ===== *)
theory Aead_TCP
  imports Aead_Stream Crypto_Instance
begin

text \<open>
  End-to-end statements about the stream of \<^verbatim>\<open>src/aead.c\<close>: a receiving context from its first byte,
  a sending context, and what holds when the bytes of one reach the other.
\<close>

section \<open>The first bytes of a stream\<close>

abbreviation key_len :: "('g, 'e) cipher_ctx \<Rightarrow> nat" where
  "key_len ctx \<equiv> ci_key_len (cx_cipher ctx)"

definition zero_nonce :: "cipher \<Rightarrow> bytes" where
  "zero_nonce ci = replicate (ci_nonce_len ci) 0"

lemma fresh_short:
  assumes "cx_init ctx = 0" "aead_collect (cw_junk w) (cx_chunk ctx) b cap = Inr (ch, ct)" "buf_len ch \<le> key_len ctx"
  shows "aead_decrypt L w b ctx cap = Inr (CRYPTO_NEED_MORE, ct, ctx\<lparr>cx_chunk := Some ch\<rparr>, w)"
  using assms by (simp add: aead_decrypt_def aead_decrypt_salt_def)

lemma fresh_salt:
  assumes rd: "ctx_ready L ctx" and init: "cx_init ctx = 0" and w: "world_wf w"
    and c: "aead_collect (cw_junk w) (cx_chunk ctx) b cap = Inr (ch, ct)" and ch: "buf_wf ch" "key_len ctx < buf_len ch"
  defines "salt \<equiv> take (key_len ctx) (buf_bytes ch)"
  shows "aead_decrypt L w b ctx cap =
    (let ctx1 = ctx\<lparr>cx_salt := salt @ drop (key_len ctx) (cx_salt ctx)\<rparr> in
     if pp_covers (cw_pp w) salt then Inr (CRYPTO_ERROR, ct, ctx1\<lparr>cx_chunk := Some ch\<rparr>, w)
     else bindr (aead_cipher_ctx_set_key L ctx1 False) (\<lambda>ctx2.
            aead_decrypt_rest L w ct (ctx2\<lparr>cx_init := 1\<rparr>)
              (ch\<lparr>buf_idx := buf_idx ch + key_len ctx, buf_len := buf_len ch - key_len ctx\<rparr>)))"
proof -
  have sl: "key_len ctx \<le> length (cx_salt ctx)" using rd shape_salt by (auto simp: ctx_ready_def)
  have r: "mem_read (buf_data ch) (buf_idx ch) (key_len ctx) = Inr salt"
    using ch by (simp add: buf_wf_def salt_def buf_bytes_def)
  have ls: "length salt = key_len ctx" using ch by (simp add: salt_def)
  define S where "S = salt @ drop (key_len ctx) (cx_salt ctx)"
  have wr: "mem_write (cx_salt ctx) 0 salt = Inr S" using sl ls by (simp add: S_def)
  have chk: "world_pp_check w S (key_len ctx) = Inr (if pp_covers (cw_pp w) salt then 1 else 0, w)"
    using world_pp_check_ok [OF w, of "key_len ctx" S] sl ls by (simp add: S_def)
  show ?thesis
    using init ch(2)
    by (simp add: aead_decrypt_def aead_decrypt_salt_def c r wr chk Let_def S_def [symmetric] bindr_assoc)
qed

lemma ready_salt:
  assumes "ctx_ready L ctx" "length salt = key_len ctx"
  shows "ctx_ready L (ctx\<lparr>cx_salt := salt @ drop (key_len ctx) (cx_salt ctx)\<rparr>)"
  using assms shape_salt [of ctx] by (auto simp: ctx_ready_def ctx_shape_def)

lemma fresh_keyed:
  assumes lib: "lib_ok L" and rd: "ctx_ready L ctx" and init: "cx_init ctx = 0" and w: "world_wf w"
    and c: "aead_collect (cw_junk w) (cx_chunk ctx) b cap = Inr (ch, ct)" and ch: "buf_wf ch" "key_len ctx < buf_len ch"
    and fresh: "\<not> pp_covers (cw_pp w) (take (key_len ctx) (buf_bytes ch))"
  defines "salt \<equiv> take (key_len ctx) (buf_bytes ch)"
  shows "\<exists>ctx2 ch2. aead_decrypt L w b ctx cap = aead_decrypt_rest L w ct ctx2 ch2 \<and>
           ctx_keyed L ctx2 False (subkey L (cx_cipher ctx) salt) \<and> cx_cipher ctx2 = cx_cipher ctx \<and>
           cx_init ctx2 = 1 \<and> cur_nonce ctx2 = zero_nonce (cx_cipher ctx) \<and> ctx_salt ctx2 = salt \<and>
           buf_wf ch2 \<and> buf_bytes ch2 = drop (key_len ctx) (buf_bytes ch) \<and> buf_len ch2 \<le> buf_len ch"
proof -
  have ls: "length salt = key_len ctx" using ch by (simp add: salt_def)
  define ctx1 where "ctx1 = ctx\<lparr>cx_salt := salt @ drop (key_len ctx) (cx_salt ctx)\<rparr>"
  have s1: "take (key_len ctx) (cx_salt ctx1) = salt" using ls by (simp add: ctx1_def)
  have c1: "cx_cipher ctx1 = cx_cipher ctx" by (simp add: ctx1_def)
  obtain g e skey where k: "aead_cipher_ctx_set_key L ctx1 False = Inr (ctx1\<lparr>cx_skey := skey,
        cx_nonce := zero_nonce (cx_cipher ctx) @ drop (ci_nonce_len (cx_cipher ctx)) (cx_nonce ctx1), cx_gcm := g, cx_evp := e\<rparr>)"
      "ctx_keyed L (ctx1\<lparr>cx_skey := skey,
        cx_nonce := zero_nonce (cx_cipher ctx) @ drop (ci_nonce_len (cx_cipher ctx)) (cx_nonce ctx1), cx_gcm := g, cx_evp := e\<rparr>)
        False (subkey L (cx_cipher ctx) salt)"
    using set_key_ok [OF lib ready_salt [OF rd ls, folded ctx1_def], of False] s1 c1
    by (auto simp: Let_def zero_nonce_def)
  define ctx2 where "ctx2 = (ctx1\<lparr>cx_skey := skey,
        cx_nonce := zero_nonce (cx_cipher ctx) @ drop (ci_nonce_len (cx_cipher ctx)) (cx_nonce ctx1), cx_gcm := g, cx_evp := e, cx_init := 1\<rparr>)"
  define ch2 where "ch2 = ch\<lparr>buf_idx := buf_idx ch + key_len ctx, buf_len := buf_len ch - key_len ctx\<rparr>"
  have "aead_decrypt L w b ctx cap = aead_decrypt_rest L w ct ctx2 ch2"
    using fresh_salt [OF rd init w c ch, folded salt_def, folded ctx1_def] fresh k(1)
    by (simp add: salt_def [symmetric] ctx2_def ch2_def Let_def)
  moreover have "ctx_keyed L ctx2 False (subkey L (cx_cipher ctx) salt)"
    using k(2) by (simp add: ctx2_def ctx_keyed_def ctx_shape_def)
  moreover have "cx_cipher ctx2 = cx_cipher ctx" "cx_init ctx2 = 1" by (simp_all add: ctx2_def c1)
  moreover have "cur_nonce ctx2 = zero_nonce (cx_cipher ctx)" "ctx_salt ctx2 = salt"
    using s1 by (simp_all add: ctx2_def cur_nonce_def ctx_salt_def c1 zero_nonce_def)
  moreover have "buf_wf ch2" "buf_bytes ch2 = drop (key_len ctx) (buf_bytes ch)" "buf_len ch2 \<le> buf_len ch"
    using ch by (auto simp: ch2_def buf_wf_def buf_bytes_def drop_take add.commute)
  ultimately show ?thesis by blast
qed

section \<open>A receiver from its first byte\<close>

lemma recv_fresh:
  assumes lib: "lib_ok L" and v: "mbedtls_compat L (cx_cipher ctx)" and rd: "ctx_ready L ctx"
    and init: "cx_init ctx = 0" and w: "world_wf w" and ch: "chunk_wf (cx_chunk ctx)"
    and short: "length (pending (cx_chunk ctx)) \<le> key_len ctx"
    and bufs: "\<forall>b\<in>set bufs. recv_wf b"
    and whole: "pending (cx_chunk ctx) @ concat (map recv_bytes bufs) = salt @ body" "length salt = key_len ctx" "body \<noteq> []"
    and fresh: "\<not> pp_covers (cw_pp w) salt"
    and dec: "dec_of L (cx_cipher ctx, subkey L (cx_cipher ctx) salt) (zero_nonce (cx_cipher ctx)) body = Some (q, n', r)"
  shows "\<exists>ctx' w'. aead_recv L cap w ctx bufs = Inr (Some (q, ctx', w')) \<and> world_wf w' \<and>
           (q \<noteq> [] \<longrightarrow> pp_covers (cw_pp w') salt)"
  using assms
proof (induction bufs arbitrary: ctx)
  case Nil
  then show ?case by (metis append_self_conv concat.simps(1) length_append list.map(1) length_greater_0_conv
        add_le_same_cancel1 not_le)
next
  case (Cons b bufs)
  obtain ch ct where c: "aead_collect (cw_junk w) (cx_chunk ctx) b cap = Inr (ch, ct)" "buf_wf ch"
      "buf_bytes ch = pending (cx_chunk ctx) @ recv_bytes b" "tmp_wf ct" "buf_len ch \<le> buf_capacity ct"
    using aead_collect_ok [OF Cons.prems(6), of b "cw_junk w" cap] Cons.prems(8) by auto
  have tot: "buf_bytes ch @ concat (map recv_bytes bufs) = salt @ body" using c(3) Cons.prems(9) by simp
  show ?case
  proof (cases "buf_len ch \<le> key_len ctx")
    case True
    let ?ctx = "ctx\<lparr>cx_chunk := Some ch\<rparr>"
    have "ctx_ready L ?ctx" using Cons.prems(3) by (auto simp: ctx_ready_def ctx_shape_def)
    moreover have "length (buf_bytes ch) = buf_len ch" using c(2) by simp
    ultimately have "\<exists>ctx' w'. aead_recv L cap w ?ctx bufs = Inr (Some (q, ctx', w')) \<and> world_wf w' \<and>
           (q \<noteq> [] \<longrightarrow> pp_covers (cw_pp w') salt)"
      using Cons.prems True c tot
      by (intro Cons.IH) (auto simp: chunk_wf_def pending_def)
    then show ?thesis using fresh_short [OF Cons.prems(4) c(1) True] by (simp add: crypto_codes)
  next
    case False
    then have long: "key_len ctx < buf_len ch" by simp
    have lb: "length (buf_bytes ch) = buf_len ch" using c(2) by simp
    have salt: "take (key_len ctx) (buf_bytes ch) = salt"
      using arg_cong [OF tot, of "take (key_len ctx)"] long lb Cons.prems(10) by simp
    have body: "drop (key_len ctx) (buf_bytes ch) @ concat (map recv_bytes bufs) = body"
      using arg_cong [OF tot, of "drop (key_len ctx)"] long lb Cons.prems(10) by simp
    obtain ctx2 ch2 where k: "aead_decrypt L w b ctx cap = aead_decrypt_rest L w ct ctx2 ch2"
        "ctx_keyed L ctx2 False (subkey L (cx_cipher ctx) salt)" "cx_cipher ctx2 = cx_cipher ctx"
        "cx_init ctx2 = 1" "cur_nonce ctx2 = zero_nonce (cx_cipher ctx)" "ctx_salt ctx2 = salt"
        "buf_wf ch2" "buf_bytes ch2 = drop (key_len ctx) (buf_bytes ch)" "buf_len ch2 \<le> buf_len ch"
      using fresh_keyed [OF lib Cons.prems(3,4,5) c(1,2) long] Cons.prems(12) unfolding salt by blast
    have "\<exists>ctx' w'. bindr (aead_decrypt_rest L w ct ctx2 ch2) (\<lambda>res. aead_recv_next L cap res bufs) = Inr (Some (q, ctx', w')) \<and>
           world_wf w' \<and> (cx_init ctx2 = 2 \<longrightarrow> cw_pp w' = cw_pp w) \<and>
           (q \<noteq> [] \<and> cx_init ctx2 = 1 \<longrightarrow> pp_covers (cw_pp w') (ctx_salt ctx2))"
      by (rule rest_recv [OF lib _ k(2)]) (use Cons.prems k c body in auto)
    then show ?thesis using k by auto
  qed
qed

text \<open>A stream whose salt is recorded is refused before any chunk is looked at.\<close>

lemma recv_replayed:
  assumes rd: "ctx_ready L ctx" and init: "cx_init ctx = 0" and w: "world_wf w" and ch: "chunk_wf (cx_chunk ctx)"
    and short: "length (pending (cx_chunk ctx)) \<le> key_len ctx"
    and bufs: "\<forall>b\<in>set bufs. recv_wf b"
    and whole: "pending (cx_chunk ctx) @ concat (map recv_bytes bufs) = salt @ body" "length salt = key_len ctx" "body \<noteq> []"
    and seen: "pp_covers (cw_pp w) salt"
  shows "aead_recv L cap w ctx bufs = Inr None"
  using assms
proof (induction bufs arbitrary: ctx)
  case Nil
  then show ?case by (metis append_self_conv concat.simps(1) length_append list.map(1) length_greater_0_conv
        add_le_same_cancel1 not_le)
next
  case (Cons b bufs)
  obtain ch ct where c: "aead_collect (cw_junk w) (cx_chunk ctx) b cap = Inr (ch, ct)" "buf_wf ch"
      "buf_bytes ch = pending (cx_chunk ctx) @ recv_bytes b"
    using aead_collect_ok [OF Cons.prems(4), of b "cw_junk w" cap] Cons.prems(6) by auto
  have tot: "buf_bytes ch @ concat (map recv_bytes bufs) = salt @ body" using c(3) Cons.prems(7) by simp
  have lb: "length (buf_bytes ch) = buf_len ch" using c(2) by simp
  show ?case
  proof (cases "buf_len ch \<le> key_len ctx")
    case True
    let ?ctx = "ctx\<lparr>cx_chunk := Some ch\<rparr>"
    have "ctx_ready L ?ctx" using Cons.prems(1) by (auto simp: ctx_ready_def ctx_shape_def)
    then have "aead_recv L cap w ?ctx bufs = Inr None"
      using Cons.prems True c tot lb by (intro Cons.IH) (auto simp: chunk_wf_def pending_def)
    then show ?thesis using fresh_short [OF Cons.prems(2) c(1) True] by (simp add: crypto_codes)
  next
    case False
    then have long: "key_len ctx < buf_len ch" by simp
    have "take (key_len ctx) (buf_bytes ch) = salt"
      using arg_cong [OF tot, of "take (key_len ctx)"] long lb Cons.prems(8) by simp
    then show ?thesis
      using fresh_salt [OF Cons.prems(1-3) c(1,2) long] Cons.prems(10) by (simp add: Let_def crypto_codes)
  qed
qed

section \<open>A sender\<close>

text \<open>
  The part of \<open>aead_encrypt\<close> that runs on a keyed context: one chunk behind \<open>off\<close> bytes of header.
\<close>

lemma encrypt_tail:
  assumes lib: "lib_ok L" and v: "mbedtls_compat L (cx_cipher ctx)" and k: "ctx_keyed L ctx True sk"
    and b: "recv_wf b" "chunk_sized (recv_bytes b)"
    and d: "off + 34 + buf_len b \<le> length d"
  shows "aead_chunk_encrypt L ctx (buf_data b) d off (of_nat (buf_len b)) =
         Inr (CRYPTO_OK, at_nonce ctx (sodium_increment L (sodium_increment L (cur_nonce ctx))),
              take off d @ enc_chunk (session_seal L (session_of ctx sk)) (sodium_increment L) (cur_nonce ctx) (recv_bytes b) @
              drop (off + 34 + buf_len b) d)"
proof -
  have l: "buf_len b \<le> length (buf_data b)" using b(1) by (simp add: recv_wf_def tmp_wf_def)
  have "buf_len b \<le> CHUNK_SIZE_MASK" using b(2) l by (simp add: chunk_sized_def recv_bytes_def)
  moreover have "unat (of_nat (buf_len b) :: u16) = buf_len b"
    using calculation by (simp add: unsigned_of_nat take_bit_eq_mod CHUNK_SIZE_MASK_def)
  ultimately show ?thesis
    using aead_chunk_encrypt_keyed [OF lib k v, of "of_nat (buf_len b)" "buf_data b" off d] l d
    by (simp add: recv_bytes_def)
qed

lemma recv_len: "recv_wf b \<Longrightarrow> length (recv_bytes b) = buf_len b"
  by (simp add: recv_wf_def tmp_wf_def recv_bytes_def)

lemma aead_encrypt_eq:
  fixes ctx :: "('g, 'e) cipher_ctx" and w :: "'d crypto_world"
  assumes "buf_len b \<noteq> 0"
    and out: "out = (if cx_init ctx = 0 then key_len ctx else 0) + 2 * ci_tag_len (cx_cipher ctx) + buf_len b + 2"
    and tmp: "tmp = brealloc (cw_junk w) (cw_aead_encrypt_tmp w) out cap"
  shows "aead_encrypt L w b (Some ctx) cap =
    bindr (if cx_init ctx = 0 then
             bindr (mem_read (cx_salt ctx) 0 (key_len ctx)) (\<lambda>salt.
             bindr (mem_write (buf_data tmp) 0 salt) (\<lambda>d.
             bindr (aead_cipher_ctx_set_key L ctx True) (\<lambda>ctx'.
             bindr (world_pp_add w (cx_salt ctx') (key_len ctx)) (\<lambda>w. Inr (ctx'\<lparr>cx_init := 1\<rparr>, d, w)))))
           else Inr (ctx, buf_data tmp, w)) (\<lambda>(ctx', d, w).
    bindr (aead_chunk_encrypt L ctx' (buf_data b) d (if cx_init ctx = 0 then key_len ctx else 0) (of_nat (buf_len b)))
      (\<lambda>(err, ctx', d).
        if err \<noteq> 0 then Inr (err, b, Some ctx', w\<lparr>cw_aead_encrypt_tmp := tmp\<lparr>buf_len := out, buf_data := d\<rparr>\<rparr>)
        else Inr (0, b\<lparr>buf_data := d, buf_capacity := buf_capacity tmp, buf_len := out\<rparr>, Some ctx',
               w\<lparr>cw_aead_encrypt_tmp := tmp\<lparr>buf_len := out, buf_data := buf_data b, buf_capacity := buf_capacity b\<rparr>\<rparr>)))"
  unfolding tmp out using assms(1)
  by (simp add: aead_encrypt_def Let_def CHUNK_SIZE_LEN_def bswap_data_def cong: if_cong)

lemma aead_encrypt_keyed:
  assumes lib: "lib_ok L" and v: "mbedtls_compat L (cx_cipher ctx)" and k: "ctx_keyed L ctx True sk"
    and init: "cx_init ctx \<noteq> 0" and w: "world_wf w" and b: "recv_wf b" "chunk_sized (recv_bytes b)"
  shows "\<exists>b' w'. aead_encrypt L w b (Some ctx) cap =
           Inr (0, b', Some (at_nonce ctx (sodium_increment L (sodium_increment L (cur_nonce ctx)))), w') \<and>
         recv_wf b' \<and> world_wf w' \<and>
         recv_bytes b' = enc_chunk (session_seal L (session_of ctx sk)) (sodium_increment L) (cur_nonce ctx) (recv_bytes b)"
proof -
  let ?c = "enc_chunk (session_seal L (session_of ctx sk)) (sodium_increment L) (cur_nonce ctx) (recv_bytes b)"
  define out where "out = (if cx_init ctx = 0 then key_len ctx else 0) + 2 * ci_tag_len (cx_cipher ctx) + buf_len b + 2"
  define tmp where "tmp = brealloc (cw_junk w) (cw_aead_encrypt_tmp w) out cap"
  have t: "ci_tag_len (cx_cipher ctx) = 16" using keyed_tag [OF k] .
  have o: "out = 34 + buf_len b" using init t by (simp add: out_def)
  have tw: "tmp_wf tmp" using w by (auto simp: tmp_def world_wf_def intro: brealloc_tmp_wf)
  have room: "out \<le> length (buf_data tmp)" using tw by (simp add: tmp_wf_def tmp_def buf_simps)
  have b0: "buf_len b \<noteq> 0" using b by (auto simp: chunk_sized_def recv_bytes_def)
  have lc: "length ?c = out"
    using ses.length_enc_chunk [OF keyed_session [OF lib k]] recv_len [OF b(1)] o by simp
  define d where "d = ?c @ drop out (buf_data tmp)"
  define b' where "b' = b\<lparr>buf_data := d, buf_capacity := buf_capacity tmp, buf_len := out\<rparr>"
  define w' where "w' = w\<lparr>cw_aead_encrypt_tmp := tmp\<lparr>buf_len := out, buf_data := buf_data b, buf_capacity := buf_capacity b\<rparr>\<rparr>"
  have enc: "aead_chunk_encrypt L ctx (buf_data b) (buf_data tmp) 0 (of_nat (buf_len b)) =
      Inr (CRYPTO_OK, at_nonce ctx (sodium_increment L (sodium_increment L (cur_nonce ctx))), d)"
    using encrypt_tail [OF lib v k b, of 0 "buf_data tmp"] room o by (simp add: d_def)
  have "aead_encrypt L w b (Some ctx) cap =
      Inr (0, b', Some (at_nonce ctx (sodium_increment L (sodium_increment L (cur_nonce ctx)))), w')"
    using enc init by (simp add: aead_encrypt_eq [OF b0 out_def tmp_def] b'_def w'_def CRYPTO_OK_def)
  moreover have "recv_wf b'" "recv_bytes b' = ?c"
    using room tw lc by (auto simp: b'_def d_def recv_wf_def tmp_wf_def recv_bytes_def)
  moreover have "world_wf w'"
    using w b(1) by (simp add: w'_def world_wf_def tmp_wf_def recv_wf_def)
  ultimately show ?thesis by blast
qed

lemma aead_encrypt_fresh:
  assumes lib: "lib_ok L" and v: "mbedtls_compat L (cx_cipher ctx)" and rd: "ctx_ready L ctx"
    and init: "cx_init ctx = 0" and w: "world_wf w" and b: "recv_wf b" "chunk_sized (recv_bytes b)"
  defines "sk \<equiv> subkey L (cx_cipher ctx) (ctx_salt ctx)" and "z \<equiv> zero_nonce (cx_cipher ctx)"
  shows "\<exists>b' ctx' w'. aead_encrypt L w b (Some ctx) cap = Inr (0, b', Some ctx', w') \<and>
         recv_wf b' \<and> world_wf w' \<and> ctx_keyed L ctx' True sk \<and> cx_init ctx' = 1 \<and> cx_cipher ctx' = cx_cipher ctx \<and>
         cur_nonce ctx' = sodium_increment L (sodium_increment L z) \<and>
         recv_bytes b' = ctx_salt ctx @ enc_chunk (session_seal L (cx_cipher ctx, sk)) (sodium_increment L) z (recv_bytes b)"
proof -
  let ?c = "enc_chunk (session_seal L (cx_cipher ctx, sk)) (sodium_increment L) z (recv_bytes b)"
  let ?kl = "key_len ctx"
  let ?inc = "sodium_increment L"
  have sh: "ctx_shape ctx" using rd by (simp add: ctx_ready_def)
  note sl = shape_salt [OF sh]
  have lsalt: "length (ctx_salt ctx) = ?kl" using sl by (simp add: ctx_salt_def)
  have t: "ci_tag_len (cx_cipher ctx) = 16" using sh cipher_sizes(4) by (auto simp: ctx_shape_def)
  define out where "out = (if cx_init ctx = 0 then key_len ctx else 0) + 2 * ci_tag_len (cx_cipher ctx) + buf_len b + 2"
  have o: "out = ?kl + 34 + buf_len b" using init t by (simp add: out_def)
  define tmp where "tmp = brealloc (cw_junk w) (cw_aead_encrypt_tmp w) out cap"
  have tw: "tmp_wf tmp" using w by (auto simp: tmp_def world_wf_def intro: brealloc_tmp_wf)
  have room: "out \<le> length (buf_data tmp)" using tw by (simp add: tmp_wf_def tmp_def buf_simps)
  have b0: "buf_len b \<noteq> 0" using b by (auto simp: chunk_sized_def recv_bytes_def)
  obtain g e skey where k: "aead_cipher_ctx_set_key L ctx True = Inr (ctx\<lparr>cx_skey := skey,
        cx_nonce := z @ drop (ci_nonce_len (cx_cipher ctx)) (cx_nonce ctx), cx_gcm := g, cx_evp := e\<rparr>)"
      "ctx_keyed L (ctx\<lparr>cx_skey := skey, cx_nonce := z @ drop (ci_nonce_len (cx_cipher ctx)) (cx_nonce ctx),
         cx_gcm := g, cx_evp := e\<rparr>) True sk"
    using set_key_ok [OF lib rd, of True] by (auto simp: Let_def z_def zero_nonce_def sk_def ctx_salt_def)
  define ctx1 where "ctx1 = ctx\<lparr>cx_skey := skey, cx_nonce := z @ drop (ci_nonce_len (cx_cipher ctx)) (cx_nonce ctx),
         cx_gcm := g, cx_evp := e, cx_init := 1\<rparr>"
  have k1: "ctx_keyed L ctx1 True sk" using k(2) by (simp add: ctx1_def ctx_keyed_def ctx_shape_def)
  have c1: "cx_cipher ctx1 = cx_cipher ctx" "cx_salt ctx1 = cx_salt ctx" "cur_nonce ctx1 = z"
    by (simp_all add: ctx1_def cur_nonce_def z_def zero_nonce_def)
  define d0 where "d0 = ctx_salt ctx @ drop ?kl (buf_data tmp)"
  have l0: "length d0 = length (buf_data tmp)" using lsalt room o by (simp add: d0_def)
  obtain pp where pp: "world_pp_add w (cx_salt ctx) ?kl = Inr (w\<lparr>cw_pp := pp\<rparr>)" "world_wf (w\<lparr>cw_pp := pp\<rparr>)"
    using world_pp_add_ok [OF w sl] by blast
  have lc: "length ?c = 34 + buf_len b"
    using ses.length_enc_chunk [OF keyed_session [OF lib k1]] recv_len [OF b(1)] c1 by simp
  define d where "d = ctx_salt ctx @ ?c @ drop out (buf_data tmp)"
  have enc: "aead_chunk_encrypt L ctx1 (buf_data b) d0 ?kl (of_nat (buf_len b)) =
      Inr (CRYPTO_OK, at_nonce ctx1 (?inc (?inc z)), d)"
    using encrypt_tail [OF lib _ k1 b, of ?kl d0] room l0 v lsalt o unfolding c1 by (simp add: d_def d0_def ac_simps)
  define b' where "b' = b\<lparr>buf_data := d, buf_capacity := buf_capacity tmp, buf_len := out\<rparr>"
  define w' where "w' = w\<lparr>cw_pp := pp, cw_aead_encrypt_tmp := tmp\<lparr>buf_len := out, buf_data := buf_data b, buf_capacity := buf_capacity b\<rparr>\<rparr>"
  have rs: "mem_read (cx_salt ctx) 0 ?kl = Inr (ctx_salt ctx)" "mem_write (buf_data tmp) 0 (ctx_salt ctx) = Inr d0"
    using sl lsalt room o by (simp_all add: ctx_salt_def d0_def)
  have "aead_encrypt L w b (Some ctx) cap = Inr (0, b', Some (at_nonce ctx1 (?inc (?inc z))), w')"
    using enc init rs k(1) pp(1) unfolding aead_encrypt_eq [OF b0 out_def tmp_def]
    by (simp add: ctx1_def [symmetric, unfolded One_nat_def] b'_def w'_def CRYPTO_OK_def del: mem_write_ok mem_read_ok)
  moreover have "recv_wf b'" "recv_bytes b' = ctx_salt ctx @ ?c"
    using room tw lc lsalt o by (auto simp: b'_def d_def recv_wf_def tmp_wf_def recv_bytes_def)
  moreover have "world_wf w'"
    using pp(2) b(1) by (simp add: w'_def world_wf_def tmp_wf_def recv_wf_def)
  moreover have "length (?inc (?inc z)) = ci_nonce_len (cx_cipher ctx1)"
    using c1 by (simp add: inc_length [OF lib] z_def zero_nonce_def)
  moreover from this have "ctx_keyed L (at_nonce ctx1 (?inc (?inc z))) True sk"
      "cur_nonce (at_nonce ctx1 (?inc (?inc z))) = ?inc (?inc z)"
    using keyed_at_nonce [OF k1] cur_nonce_at by auto
  moreover have "cx_init (at_nonce ctx1 (?inc (?inc z))) = 1" by (simp add: ctx1_def)
  ultimately show ?thesis using c1 by auto
qed

text \<open>A peer that sends a list of messages; \<open>None\<close> if a call reports an error.\<close>

fun aead_send ::
    "('g, 'e) crypto_lib \<Rightarrow> nat \<Rightarrow> 'd crypto_world \<Rightarrow> ('g, 'e) cipher_ctx option \<Rightarrow> buffer list \<Rightarrow>
     (bytes \<times> ('g, 'e) cipher_ctx option \<times> 'd crypto_world) option res" where
  "aead_send L cap w ctx [] = Inr (Some ([], ctx, w))"
| "aead_send L cap w ctx (b # bs) =
     bindr (aead_encrypt L w b ctx cap) (\<lambda>(r, b', ctx', w').
       if r \<noteq> 0 then Inr None
       else bindr (aead_send L cap w' ctx' bs) (\<lambda>res.
              Inr (case res of None \<Rightarrow> None | Some (q, x) \<Rightarrow> Some (recv_bytes b' @ q, x))))"

definition msg_ok :: "buffer \<Rightarrow> bool" where
  "msg_ok b \<longleftrightarrow> recv_wf b \<and> chunk_sized (recv_bytes b)"

lemma send_keyed:
  assumes "lib_ok L" "mbedtls_compat L ci" "ctx_keyed L ctx True sk" "cx_cipher ctx = ci" "cx_init ctx \<noteq> 0"
    "world_wf w" "\<forall>b\<in>set bs. msg_ok b"
  shows "\<exists>ctx' w'. aead_send L cap w (Some ctx) bs =
           Inr (Some (enc_of L (ci, sk) (cur_nonce ctx) (map recv_bytes bs), ctx', w')) \<and> world_wf w'"
  using assms(3-)
proof (induction bs arbitrary: ctx w)
  case (Cons b bs)
  let ?n = "sodium_increment L (sodium_increment L (cur_nonce ctx))"
  obtain b' w' where e: "aead_encrypt L w b (Some ctx) cap = Inr (0, b', Some (at_nonce ctx ?n), w')" "world_wf w'"
      "recv_bytes b' = enc_chunk (session_seal L (ci, sk)) (sodium_increment L) (cur_nonce ctx) (recv_bytes b)"
    using aead_encrypt_keyed [OF assms(1) _ Cons.prems(1), of w b cap] assms(2) Cons.prems by (auto simp: msg_ok_def)
  have n: "length ?n = ci_nonce_len (cx_cipher ctx)"
    using keyed_nonce_length [OF Cons.prems(1)] by (simp add: inc_length [OF assms(1)])
  then have "\<exists>ctx' w''. aead_send L cap w' (Some (at_nonce ctx ?n)) bs =
           Inr (Some (enc_of L (ci, sk) (cur_nonce (at_nonce ctx ?n)) (map recv_bytes bs), ctx', w'')) \<and> world_wf w''"
    using Cons.IH [OF keyed_at_nonce [OF Cons.prems(1) n]] Cons.prems e(2) by simp
  then show ?case using e cur_nonce_at [OF n] by auto
qed simp

lemma send_fresh:
  assumes lib: "lib_ok L" and v: "mbedtls_compat L (cx_cipher ctx)" and rd: "ctx_ready L ctx"
    and init: "cx_init ctx = 0" and w: "world_wf w" and bs: "bs \<noteq> []" "\<forall>b\<in>set bs. msg_ok b"
  shows "\<exists>ctx' w'. aead_send L cap w (Some ctx) bs =
           Inr (Some (ctx_salt ctx @ enc_of L (cx_cipher ctx, subkey L (cx_cipher ctx) (ctx_salt ctx))
                        (zero_nonce (cx_cipher ctx)) (map recv_bytes bs), ctx', w')) \<and> world_wf w'"
proof -
  obtain b bs' where bs': "bs = b # bs'" using bs(1) by (cases bs) auto
  let ?sk = "subkey L (cx_cipher ctx) (ctx_salt ctx)"
  obtain b' ctx1 w1 where e: "aead_encrypt L w b (Some ctx) cap = Inr (0, b', Some ctx1, w1)" "world_wf w1"
      "ctx_keyed L ctx1 True ?sk" "cx_init ctx1 = 1" "cx_cipher ctx1 = cx_cipher ctx"
      "cur_nonce ctx1 = sodium_increment L (sodium_increment L (zero_nonce (cx_cipher ctx)))"
      "recv_bytes b' = ctx_salt ctx @ enc_chunk (session_seal L (cx_cipher ctx, ?sk)) (sodium_increment L)
         (zero_nonce (cx_cipher ctx)) (recv_bytes b)"
    using aead_encrypt_fresh [OF lib v rd init w, of b cap] bs bs' by (auto simp: msg_ok_def)
  have "\<exists>ctx' w'. aead_send L cap w1 (Some ctx1) bs' =
      Inr (Some (enc_of L (cx_cipher ctx, ?sk) (cur_nonce ctx1) (map recv_bytes bs'), ctx', w')) \<and> world_wf w'"
    using send_keyed [OF lib v e(3,5) _ e(2)] e(4) bs bs' by simp
  then show ?thesis using e(1,6,7) bs' by auto
qed

section \<open>End to end\<close>

lemma aead_ctx_init_recv:
  assumes "lib_ok L" "cipher_ok ci"
  shows "\<exists>ctx. aead_ctx_init L w ci False = Inr (ctx, w) \<and> ctx_ready L ctx \<and> cx_init ctx = 0 \<and>
           cx_cipher ctx = ci \<and> cx_chunk ctx = None"
  using aead_cipher_ctx_init_ok [OF assms, of False]
  by (auto simp: aead_ctx_init_def cipher_ctx_zero_def)

lemma aead_ctx_init_send:
  assumes lib: "lib_ok L" and ci: "cipher_ok ci"
  shows "\<exists>ctx. aead_ctx_init L w ci True = Inr (ctx, snd (rand_bytes w (ci_key_len ci))) \<and> ctx_ready L ctx \<and>
           cx_init ctx = 0 \<and> cx_cipher ctx = ci \<and> ctx_salt ctx = fst (rand_bytes w (ci_key_len ci))"
proof -
  let ?r = "fst (rand_bytes w (ci_key_len ci))"
  obtain g e where c: "aead_cipher_ctx_init L (cipher_ctx_zero ci) (ci_method ci) True =
      Inr ((cipher_ctx_zero ci)\<lparr>cx_gcm := g, cx_evp := e\<rparr>)" "ctx_ready L ((cipher_ctx_zero ci)\<lparr>cx_gcm := g, cx_evp := e\<rparr>)"
    using aead_cipher_ctx_init_ok [OF assms, of True] by blast
  let ?c = "(cipher_ctx_zero ci)\<lparr>cx_gcm := g, cx_evp := e\<rparr>"
  have kl: "key_len ?c = ci_key_len ci" "cx_cipher ?c = ci" "cx_init ?c = 0" by (simp_all add: cipher_ctx_zero_def)
  have sl: "ci_key_len ci \<le> length (cx_salt ?c)"
    using shape_salt [of ?c] c(2) kl by (simp add: ctx_ready_def)
  define S where "S = ?r @ drop (ci_key_len ci) (cx_salt ?c)"
  have "aead_ctx_init L w ci True = Inr (?c\<lparr>cx_salt := S\<rparr>, snd (rand_bytes w (ci_key_len ci)))"
    using length_rand_bytes [of w "ci_key_len ci"] c(1) sl
    by (cases "rand_bytes w (ci_key_len ci)") (simp add: aead_ctx_init_def S_def)
  moreover have "ctx_ready L (?c\<lparr>cx_salt := S\<rparr>)"
    using ready_salt [OF c(2), of ?r] unfolding kl by (simp add: S_def)
  moreover have "ctx_salt (?c\<lparr>cx_salt := S\<rparr>) = ?r" using kl by (simp add: ctx_salt_def S_def)
  ultimately show ?thesis using kl by (intro exI [of _ "?c\<lparr>cx_salt := S\<rparr>"]) simp
qed

lemma world_wf_rand [simp]: "world_wf (snd (rand_bytes w n)) = world_wf w"
  by (simp add: rand_bytes_def world_wf_def)

lemma enc_chunks_nonempty:
  assumes "session_ok L s" "ps \<noteq> []"
  shows "enc_of L s n ps \<noteq> []"
proof -
  obtain p ps' where ps: "ps = p # ps'" using assms(2) by (cases ps) auto
  have "length (enc_chunk (session_seal L s) (sodium_increment L) n p) \<noteq> 0"
    using ses.length_enc_chunk [OF assms(1)] by simp
  then show ?thesis by (simp add: ps)
qed

lemma subkey_session:
  assumes "lib_ok L" "cipher_ok ci"
  shows "session_ok L (ci, subkey L ci salt)"
proof -
  obtain md where md: "md_info L ''SHA1'' = Some md" "md_ok md"
    using assms(1) by (auto simp: lib_ok_def digest_ok_def split: option.splits)
  then show ?thesis using assms hkdf_okm_length [OF md(2)] by (simp add: session_ok_def subkey_def Let_def)
qed

lemma tcp_roundtrip:
  assumes lib: "lib_ok L" and ci: "cipher_ok ci" and v: "mbedtls_compat L ci"
    and ws: "world_wf ws" and wr: "world_wf wr"
    and msgs: "msgs \<noteq> []" "\<forall>b\<in>set msgs. msg_ok b"
    and fresh: "\<not> pp_covers (cw_pp wr) (fst (rand_bytes ws (ci_key_len ci)))"
  shows "\<exists>cs ws1 cr wire cs' ws'.
    aead_ctx_init L ws ci True = Inr (cs, ws1) \<and> aead_ctx_init L wr ci False = Inr (cr, wr) \<and>
    aead_send L cap ws1 (Some cs) msgs = Inr (Some (wire, cs', ws')) \<and>
    (\<forall>bufs. (\<forall>b\<in>set bufs. recv_wf b) \<and> concat (map recv_bytes bufs) = wire \<longrightarrow>
       (\<exists>cr' wr'. aead_recv L cap' wr cr bufs = Inr (Some (concat (map recv_bytes msgs), cr', wr')) \<and> world_wf wr' \<and>
          (\<forall>bufs2 cap2. (\<forall>b\<in>set bufs2. recv_wf b) \<and> concat (map recv_bytes bufs2) = wire \<longrightarrow>
             aead_recv L cap2 wr' cr bufs2 = Inr None)))"
proof -
  let ?salt = "fst (rand_bytes ws (ci_key_len ci))"
  let ?s = "(ci, subkey L ci ?salt)"
  let ?wire = "?salt @ enc_of L ?s (zero_nonce ci) (map recv_bytes msgs)"
  obtain cs where cs: "aead_ctx_init L ws ci True = Inr (cs, snd (rand_bytes ws (ci_key_len ci)))" "ctx_ready L cs"
      "cx_init cs = 0" "cx_cipher cs = ci" "ctx_salt cs = ?salt"
    using aead_ctx_init_send [OF lib ci] by blast
  obtain cr where cr: "aead_ctx_init L wr ci False = Inr (cr, wr)" "ctx_ready L cr" "cx_init cr = 0"
      "cx_cipher cr = ci" "cx_chunk cr = None"
    using aead_ctx_init_recv [OF lib ci] by blast
  obtain cs' ws' where send: "aead_send L cap (snd (rand_bytes ws (ci_key_len ci))) (Some cs) msgs = Inr (Some (?wire, cs', ws'))"
    using send_fresh [OF lib _ cs(2,3), of "snd (rand_bytes ws (ci_key_len ci))" msgs cap] v ws msgs cs(4,5) by auto
  note sok = subkey_session [OF lib ci, of ?salt]
  have sized: "\<forall>p\<in>set (map recv_bytes msgs). chunk_sized p" using msgs(2) by (auto simp: msg_ok_def)
  obtain n' where dec: "dec_of L ?s (zero_nonce ci) (enc_of L ?s (zero_nonce ci) (map recv_bytes msgs)) =
      Some (concat (map recv_bytes msgs), n', [])"
    using ses.dec_enc_chunks [OF sok sized] by blast
  have body: "enc_of L ?s (zero_nonce ci) (map recv_bytes msgs) \<noteq> []"
    using enc_chunks_nonempty [OF sok] msgs(1) by simp
  have out: "concat (map recv_bytes msgs) \<noteq> []" using msgs sized by (cases msgs) (auto simp: chunk_sized_def)
  have pend: "chunk_wf (cx_chunk cr)" "pending (cx_chunk cr) = []" using cr(5) by (simp_all add: chunk_wf_def pending_def)
  have "\<exists>cr' wr'. aead_recv L cap' wr cr bufs = Inr (Some (concat (map recv_bytes msgs), cr', wr')) \<and> world_wf wr' \<and>
          (\<forall>bufs2 cap2. (\<forall>b\<in>set bufs2. recv_wf b) \<and> concat (map recv_bytes bufs2) = ?wire \<longrightarrow>
             aead_recv L cap2 wr' cr bufs2 = Inr None)"
    if b: "\<forall>b\<in>set bufs. recv_wf b" "concat (map recv_bytes bufs) = ?wire" for bufs
  proof -
    have "\<exists>cr' wr'. aead_recv L cap' wr cr bufs = Inr (Some (concat (map recv_bytes msgs), cr', wr')) \<and> world_wf wr' \<and>
           (concat (map recv_bytes msgs) \<noteq> [] \<longrightarrow> pp_covers (cw_pp wr') ?salt)"
      by (rule recv_fresh [OF lib _ cr(2,3) wr pend(1) _ b(1) _ _ body fresh])
        (use dec v cr(4) pend(2) b(2) in simp_all)
    then obtain cr' wr' where r: "aead_recv L cap' wr cr bufs = Inr (Some (concat (map recv_bytes msgs), cr', wr'))"
        "world_wf wr'" "pp_covers (cw_pp wr') ?salt"
      using out by blast
    have "aead_recv L cap2 wr' cr bufs2 = Inr None"
      if "\<forall>b\<in>set bufs2. recv_wf b" "concat (map recv_bytes bufs2) = ?wire" for bufs2 cap2
      using recv_replayed [OF cr(2,3) r(2) pend(1) _ that(1) _ _ body r(3)] that(2) cr(4) pend(2) by simp
    then show ?thesis using r by blast
  qed
  then show ?thesis using cs(1) cr(1) send by blast
qed

text \<open>
  C6. TCP sessions are transparent. A sender context encrypts any sequence of messages of 1 to
  0x3FFF bytes with \<open>aead_encrypt\<close>; no call fails, asserts or leaves a block. However the network cuts
  the resulting bytes into buffers, a fresh receiver context whose process has not recorded the
  salt delivers, through \<open>aead_decrypt\<close>, exactly the concatenation of the messages, with no error.
\<close>

theorem aead_tcp_transparent:
  assumes "lib_ok L" "cipher_ok ci" "mbedtls_compat L ci" "world_wf ws" "world_wf wr"
    and "msgs \<noteq> []" "\<forall>b\<in>set msgs. msg_ok b"
    and "\<not> pp_covers (cw_pp wr) (fst (rand_bytes ws (ci_key_len ci)))"
  shows "\<exists>cs ws1 cr wire cs' ws'.
    aead_ctx_init L ws ci True = Inr (cs, ws1) \<and> aead_ctx_init L wr ci False = Inr (cr, wr) \<and>
    aead_send L cap ws1 (Some cs) msgs = Inr (Some (wire, cs', ws')) \<and>
    (\<forall>bufs. (\<forall>b\<in>set bufs. recv_wf b) \<and> concat (map recv_bytes bufs) = wire \<longrightarrow>
       (\<exists>cr' wr'. aead_recv L cap' wr cr bufs = Inr (Some (concat (map recv_bytes msgs), cr', wr'))))"
proof -
  note r = tcp_roundtrip [OF assms, of cap cap']
  obtain cs ws1 cr wire cs' ws' where
      "aead_ctx_init L ws ci True = Inr (cs, ws1) \<and> aead_ctx_init L wr ci False = Inr (cr, wr) \<and>
       aead_send L cap ws1 (Some cs) msgs = Inr (Some (wire, cs', ws'))"
      "\<forall>bufs. (\<forall>b\<in>set bufs. recv_wf b) \<and> concat (map recv_bytes bufs) = wire \<longrightarrow>
         (\<exists>cr' wr'. aead_recv L cap' wr cr bufs = Inr (Some (concat (map recv_bytes msgs), cr', wr')))"
    using r by blast
  then show ?thesis by blast
qed

definition hello :: buffer where
  "hello = buf_of [104, 101, 108, 108, 111]"

lemma hello_ok: "[hello] \<noteq> []" "\<forall>b\<in>set [hello]. msg_ok b"
  by (simp_all add: hello_def msg_ok_def recv_wf_def recv_bytes_def chunk_sized_def buf_of_def tmp_wf_def
      CHUNK_SIZE_MASK_def)

theorem aead_tcp_transparent_witness:
  "\<exists>cs ws1 cr wire cs' ws'.
    aead_ctx_init lib_plain world0 cipher_plain True = Inr (cs, ws1) \<and>
    aead_ctx_init lib_plain world0 cipher_plain False = Inr (cr, world0) \<and>
    aead_send lib_plain 2048 ws1 (Some cs) [hello] = Inr (Some (wire, cs', ws')) \<and>
    (\<forall>bufs. (\<forall>b\<in>set bufs. recv_wf b) \<and> concat (map recv_bytes bufs) = wire \<longrightarrow>
       (\<exists>cr' wr'. aead_recv lib_plain 2048 world0 cr bufs = Inr (Some (concat (map recv_bytes [hello]), cr', wr'))))"
  by (rule aead_tcp_transparent [OF lib_plain_ok cipher_plain_ok world0_wf world0_wf hello_ok world0_fresh])

text \<open>
  C7. A recorded stream is refused. Once a receiver has delivered a stream, the same bytes sent again
  to a fresh context of the same process, in any segmentation, are refused: no plaintext is
  delivered.
\<close>

theorem aead_tcp_replay_refused:
  assumes "lib_ok L" "cipher_ok ci" "mbedtls_compat L ci" "world_wf ws" "world_wf wr"
    and "msgs \<noteq> []" "\<forall>b\<in>set msgs. msg_ok b"
    and "\<not> pp_covers (cw_pp wr) (fst (rand_bytes ws (ci_key_len ci)))"
  shows "\<exists>cs ws1 cr wire cs' ws'.
    aead_ctx_init L ws ci True = Inr (cs, ws1) \<and> aead_ctx_init L wr ci False = Inr (cr, wr) \<and>
    aead_send L cap ws1 (Some cs) msgs = Inr (Some (wire, cs', ws')) \<and>
    (\<forall>bufs bufs2. (\<forall>b\<in>set bufs \<union> set bufs2. recv_wf b) \<and> concat (map recv_bytes bufs) = wire \<and>
          concat (map recv_bytes bufs2) = wire \<longrightarrow>
       (\<exists>out cr' wr'. aead_recv L cap' wr cr bufs = Inr (Some (out, cr', wr')) \<and>
          aead_recv L cap' wr' cr bufs2 = Inr None))"
proof -
  obtain cs ws1 cr wire cs' ws' where
      a: "aead_ctx_init L ws ci True = Inr (cs, ws1) \<and> aead_ctx_init L wr ci False = Inr (cr, wr) \<and>
       aead_send L cap ws1 (Some cs) msgs = Inr (Some (wire, cs', ws'))"
    and b: "\<forall>bufs. (\<forall>b\<in>set bufs. recv_wf b) \<and> concat (map recv_bytes bufs) = wire \<longrightarrow>
       (\<exists>cr' wr'. aead_recv L cap' wr cr bufs = Inr (Some (concat (map recv_bytes msgs), cr', wr')) \<and> world_wf wr' \<and>
          (\<forall>bufs2 cap2. (\<forall>b\<in>set bufs2. recv_wf b) \<and> concat (map recv_bytes bufs2) = wire \<longrightarrow>
             aead_recv L cap2 wr' cr bufs2 = Inr None))"
    using tcp_roundtrip [OF assms, of cap cap'] by blast
  have "\<exists>out cr' wr'. aead_recv L cap' wr cr bufs = Inr (Some (out, cr', wr')) \<and> aead_recv L cap' wr' cr bufs2 = Inr None"
    if "\<forall>b\<in>set bufs \<union> set bufs2. recv_wf b" "concat (map recv_bytes bufs) = wire" "concat (map recv_bytes bufs2) = wire"
    for bufs bufs2
  proof -
    have ok: "\<forall>b\<in>set bufs. recv_wf b" "\<forall>b\<in>set bufs2. recv_wf b" using that(1) by simp_all
    from b [rule_format, OF conjI, OF ok(1) that(2)] obtain cr' wr' where
        x: "aead_recv L cap' wr cr bufs = Inr (Some (concat (map recv_bytes msgs), cr', wr'))"
        "\<forall>bufs2 cap2. (\<forall>b\<in>set bufs2. recv_wf b) \<and> concat (map recv_bytes bufs2) = wire \<longrightarrow>
             aead_recv L cap2 wr' cr bufs2 = Inr None"
      by (elim exE conjE)
    have "aead_recv L cap' wr' cr bufs2 = Inr None"
      by (rule x(2) [rule_format, OF conjI, OF ok(2) that(3)])
    with x(1) show ?thesis by (intro exI conjI)
  qed
  then show ?thesis using a by blast
qed

theorem aead_tcp_replay_refused_witness:
  "\<exists>cs ws1 cr wire cs' ws'.
    aead_ctx_init lib_plain world0 cipher_plain True = Inr (cs, ws1) \<and>
    aead_ctx_init lib_plain world0 cipher_plain False = Inr (cr, world0) \<and>
    aead_send lib_plain 2048 ws1 (Some cs) [hello] = Inr (Some (wire, cs', ws')) \<and>
    (\<forall>bufs bufs2. (\<forall>b\<in>set bufs \<union> set bufs2. recv_wf b) \<and> concat (map recv_bytes bufs) = wire \<and>
          concat (map recv_bytes bufs2) = wire \<longrightarrow>
       (\<exists>out cr' wr'. aead_recv lib_plain 2048 world0 cr bufs = Inr (Some (out, cr', wr')) \<and>
          aead_recv lib_plain 2048 wr' cr bufs2 = Inr None))"
  by (rule aead_tcp_replay_refused [OF lib_plain_ok cipher_plain_ok world0_wf world0_wf hello_ok world0_fresh])

end
