(* ===== verification/Aead_Packet.thy ===== *)
theory Aead_Packet
  imports Aead_TCP
begin

text \<open>
  The remaining guarantees of \<^verbatim>\<open>src/aead.c\<close>: every call of \<open>aead_decrypt\<close> on arbitrary bytes ends
  without fault and keeps the receiver's invariant, what it delivers was sealed with the session
  key, packets survive \<open>aead_encrypt_all\<close> and \<open>aead_decrypt_all\<close> and are refused when repeated or not
  authentic, \<open>aead_key_init\<close> makes well-formed ciphers, and the build against mbedTLS 3 stops at an
  assertion.
\<close>

section \<open>Arbitrary input\<close>

definition rx_inv :: "('g, 'e) crypto_lib \<Rightarrow> 'd crypto_world \<Rightarrow> ('g, 'e) cipher_ctx \<Rightarrow> bool" where
  "rx_inv L w ctx \<longleftrightarrow> world_wf w \<and> chunk_wf (cx_chunk ctx) \<and>
     (if cx_init ctx = 0 then ctx_ready L ctx \<and> length (pending (cx_chunk ctx)) \<le> key_len ctx
      else (cx_init ctx = 1 \<or> cx_init ctx = 2) \<and> (\<exists>sk. ctx_keyed L ctx False sk))"

lemma rest_safe:
  assumes lib: "lib_ok L" and v: "mbedtls_compat L (cx_cipher ctx)" and k: "ctx_keyed L ctx False sk"
    and init: "cx_init ctx = 1 \<or> cx_init ctx = 2" and w: "world_wf w"
    and ch: "buf_wf ch" and ct: "tmp_wf ct" "buf_len ch \<le> buf_capacity ct"
  shows "\<exists>r ct' ctx' w'. aead_decrypt_rest L w ct ctx ch = Inr (r, ct', ctx', w') \<and> world_wf w' \<and>
     (r = CRYPTO_ERROR \<or> (r = CRYPTO_OK \<or> r = CRYPTO_NEED_MORE) \<and> rx_inv L w' ctx' \<and> cx_cipher ctx' = cx_cipher ctx)"
proof -
  note R = aead_decrypt_rest_spec [OF assms]
  show ?thesis
  proof (cases "dec_of L (session_of ctx sk) (cur_nonce ctx) (buf_bytes ch)")
    case None
    then show ?thesis using R w by auto
  next
    case (Some x)
    obtain q n' r where x: "x = (q, n', r)" by (cases x)
    note R' = R [unfolded Some x option.case prod.case]
    consider "q = [] \<and> r \<noteq> []" | "\<not> (q = [] \<and> r \<noteq> [])" "cx_init ctx = 1 \<and> pp_covers (cw_pp w) (ctx_salt ctx)"
      | "\<not> (q = [] \<and> r \<noteq> [])" "\<not> (cx_init ctx = 1 \<and> pp_covers (cw_pp w) (ctx_salt ctx))" by blast
    then show ?thesis
    proof cases
      case 1
      obtain ct' where e: "aead_decrypt_rest L w ct ctx ch = Inr (CRYPTO_NEED_MORE, ct', ctx\<lparr>cx_chunk := Some ch\<rparr>, w)"
        using R' [unfolded if_P [OF 1]] by blast
      have "rx_inv L w (ctx\<lparr>cx_chunk := Some ch\<rparr>)"
        using w ch init k by (auto simp: rx_inv_def chunk_wf_def)
      then show ?thesis using e w by auto
    next
      case 2
      then show ?thesis using R' [unfolded if_not_P [OF 2(1)] if_P [OF 2(2)]] w by blast
    next
      case 3
      obtain ct' ch' pp where e: "aead_decrypt_rest L w ct ctx ch =
              Inr (CRYPTO_OK, ct', (at_nonce ctx n')\<lparr>cx_chunk := Some ch', cx_init := 2\<rparr>, w\<lparr>cw_pp := pp\<rparr>)"
          "buf_wf ch'" "world_wf (w\<lparr>cw_pp := pp\<rparr>)"
        using R' [unfolded if_not_P [OF 3(1)] if_not_P [OF 3(2)]] by blast
      have n: "length n' = ci_nonce_len (cx_cipher ctx)"
        using dec_chunks_nonce_length [OF inc_length [OF lib] Some [unfolded x]] keyed_nonce_length [OF k] by simp
      have "rx_inv L (w\<lparr>cw_pp := pp\<rparr>) ((at_nonce ctx n')\<lparr>cx_chunk := Some ch', cx_init := 2\<rparr>)"
        using e(2,3) keyed_at_nonce [OF k n] by (auto simp: rx_inv_def chunk_wf_def)
      then show ?thesis using e by auto
    qed
  qed
qed

lemma aead_decrypt_inv:
  assumes lib: "lib_ok L" and v: "mbedtls_compat L (cx_cipher ctx)" and inv: "rx_inv L w ctx" and b: "recv_wf b"
  shows "\<exists>r ct' ctx' w'. aead_decrypt L w b ctx cap = Inr (r, ct', ctx', w') \<and> world_wf w' \<and>
     (r = CRYPTO_ERROR \<or> (r = CRYPTO_OK \<or> r = CRYPTO_NEED_MORE) \<and> rx_inv L w' ctx' \<and> cx_cipher ctx' = cx_cipher ctx)"
proof -
  have w: "world_wf w" and cw: "chunk_wf (cx_chunk ctx)" using inv by (auto simp: rx_inv_def)
  obtain ch ct where c: "aead_collect (cw_junk w) (cx_chunk ctx) b cap = Inr (ch, ct)" "buf_wf ch"
      "tmp_wf ct" "buf_len ch \<le> buf_capacity ct"
    using aead_collect_ok [OF cw b, of "cw_junk w" cap] by blast
  show ?thesis
  proof (cases "cx_init ctx = 0")
    case False
    then obtain sk where "ctx_keyed L ctx False sk" "cx_init ctx = 1 \<or> cx_init ctx = 2"
      using inv by (auto simp: rx_inv_def)
    then show ?thesis
      using rest_safe [OF lib v _ _ w c(2-4)] decrypt_keyed_eq [OF False c(1), of L] by simp
  next
    case init: True
    then have rd: "ctx_ready L ctx" using inv by (simp add: rx_inv_def)
    show ?thesis
    proof (cases "buf_len ch \<le> key_len ctx")
      case True
      have "rx_inv L w (ctx\<lparr>cx_chunk := Some ch\<rparr>)"
        using w c(2) init rd True by (auto simp: rx_inv_def chunk_wf_def pending_def)
      then show ?thesis using fresh_short [OF init c(1) True] w by auto
    next
      case False
      then have long: "key_len ctx < buf_len ch" by simp
      show ?thesis
      proof (cases "pp_covers (cw_pp w) (take (key_len ctx) (buf_bytes ch))")
        case True
        then show ?thesis using fresh_salt [OF rd init w c(1,2) long] w by (simp add: Let_def)
      next
        case False
        obtain ctx2 ch2 where k: "aead_decrypt L w b ctx cap = aead_decrypt_rest L w ct ctx2 ch2"
            "ctx_keyed L ctx2 False (subkey L (cx_cipher ctx) (take (key_len ctx) (buf_bytes ch)))"
            "cx_cipher ctx2 = cx_cipher ctx" "cx_init ctx2 = 1" "buf_wf ch2" "buf_len ch2 \<le> buf_len ch"
          using fresh_keyed [OF lib rd init w c(1,2) long False] by blast
        show ?thesis
          using rest_safe [OF lib _ k(2) _ w k(5) c(3)] v k c(4) by auto
      qed
    qed
  qed
qed

text \<open>
  C9. \<open>aead_decrypt\<close> on any received bytes, authentic or not, in any state reached from
  \<open>aead_ctx_init\<close>, neither faults nor loops: it returns one of its three codes, and unless that is
  the error the receiver's invariant holds again.
\<close>

theorem aead_decrypt_safe:
  assumes lib: "lib_ok L" and v: "mbedtls_compat L (cx_cipher ctx)" and inv: "rx_inv L w ctx" and b: "recv_wf b"
  shows "\<exists>r ct' ctx' w'. aead_decrypt L w b ctx cap = Inr (r, ct', ctx', w') \<and>
     (r = CRYPTO_ERROR \<or> (r = CRYPTO_OK \<or> r = CRYPTO_NEED_MORE) \<and> rx_inv L w' ctx' \<and> cx_cipher ctx' = cx_cipher ctx)"
  using aead_decrypt_inv [OF assms] by blast

text \<open>
  C8. Authenticity. Whatever plaintext \<open>aead_decrypt\<close> delivers on an established stream, the bytes it
  consumed are chunks sealed under the session key with consecutive nonces, the plaintext is the
  concatenation of their payloads, and the bytes not consumed are kept for the next call.
\<close>

theorem aead_decrypt_authentic:
  assumes lib: "lib_ok L" and v: "mbedtls_compat L (cx_cipher ctx)" and w: "world_wf w"
    and cw: "chunk_wf (cx_chunk ctx)" and k: "ctx_keyed L ctx False sk"
    and init: "cx_init ctx = 1 \<or> cx_init ctx = 2" and b: "recv_wf b"
    and ok: "aead_decrypt L w b ctx cap = Inr (CRYPTO_OK, ct', ctx', w')"
  shows "\<exists>fs. pending (cx_chunk ctx) @ recv_bytes b =
           sealed_chunks (session_seal L (session_of ctx sk)) (sodium_increment L) (cur_nonce ctx) fs @ pending (cx_chunk ctx') \<and>
         recv_bytes ct' = concat (map snd fs)"
proof -
  obtain ch ct where c: "aead_collect (cw_junk w) (cx_chunk ctx) b cap = Inr (ch, ct)" "buf_wf ch"
      "tmp_wf ct" "buf_len ch \<le> buf_capacity ct" "buf_bytes ch = pending (cx_chunk ctx) @ recv_bytes b"
    using aead_collect_ok [OF cw b, of "cw_junk w" cap] by blast
  have rest: "aead_decrypt_rest L w ct ctx ch = Inr (CRYPTO_OK, ct', ctx', w')"
    using ok init decrypt_keyed_eq [OF _ c(1), of L] by auto
  note R = aead_decrypt_rest_spec [OF lib v k init w c(2-4)]
  obtain q n' r where d: "dec_of L (session_of ctx sk) (cur_nonce ctx) (buf_bytes ch) = Some (q, n', r)"
    using R rest by (cases "dec_of L (session_of ctx sk) (cur_nonce ctx) (buf_bytes ch)") (auto simp: crypto_codes)
  have out: "recv_bytes ct' = q" "pending (cx_chunk ctx') = r"
    using R [unfolded d option.case prod.case] rest
    by (auto simp: crypto_codes pending_def split: if_splits)
  obtain fs where "buf_bytes ch = sealed_chunks (session_seal L (session_of ctx sk)) (sodium_increment L) (cur_nonce ctx) fs @ r"
      "q = concat (map snd fs)"
    using ses.dec_chunks_authentic [OF keyed_session [OF lib k] d] by blast
  then show ?thesis using c(5) out by auto
qed

text \<open>Two receivers for the witnesses: one before its first byte, one on an established stream.\<close>

definition rx0 :: "(unit, unit) cipher_ctx" where
  "rx0 = cipher_ctx_zero cipher_plain"

definition rx2 :: "(unit, unit) cipher_ctx" where
  "rx2 = rx0\<lparr>cx_init := 2\<rparr>"

lemma rx0_inv: "rx_inv lib_plain world0 rx0" "cx_cipher rx0 = cipher_plain"
  using world0_wf cipher_plain_ok(1)
  by (simp_all add: rx_inv_def rx0_def cipher_ctx_zero_def chunk_wf_def pending_def ctx_ready_def ctx_shape_def
      uses_gcm_def uses_evp_def) (simp_all add: cipher_plain_def)

lemma rx2_keyed: "ctx_keyed lib_plain rx2 False (replicate 32 0)" "cx_cipher rx2 = cipher_plain"
    "cx_chunk rx2 = None" "cx_init rx2 = 2"
  using cipher_plain_ok(1)
  by (simp_all add: rx2_def rx0_def cipher_ctx_zero_def ctx_keyed_def ctx_shape_def uses_gcm_def uses_evp_def MAX_KEY_LENGTH_def)
     (simp_all add: cipher_plain_def)

lemma recv_wf_buf_of [simp]: "recv_wf (buf_of xs)" "recv_bytes (buf_of xs) = xs"
  by (simp_all add: recv_wf_def recv_bytes_def buf_of_def tmp_wf_def)

theorem aead_decrypt_safe_witness:
  "\<exists>r ct' ctx' w'. aead_decrypt lib_plain world0 (buf_of [1, 2, 3]) rx0 2048 = Inr (r, ct', ctx', w') \<and>
     (r = CRYPTO_ERROR \<or> (r = CRYPTO_OK \<or> r = CRYPTO_NEED_MORE) \<and> rx_inv lib_plain w' ctx' \<and> cx_cipher ctx' = cx_cipher rx0)"
  by (rule aead_decrypt_safe [OF lib_plain_ok _ rx0_inv(1)]) (simp_all add: rx0_inv(2) cipher_plain_ok(2))

definition rx2_buf :: buffer where
  "rx2_buf = buf_of (enc_of lib_plain (cipher_plain, replicate 32 0) (cur_nonce rx2) [[42]])"

lemma rx2_delivers:
  "\<exists>ct' ctx' w'. aead_decrypt lib_plain world0 rx2_buf rx2 64 = Inr (CRYPTO_OK, ct', ctx', w')"
proof -
  let ?s = "(cipher_plain, replicate 32 0 :: bytes)"
  let ?B = "enc_of lib_plain ?s (cur_nonce rx2) [[42]]"
  have cw: "chunk_wf (cx_chunk rx2)" "pending (cx_chunk rx2) = []" by (simp_all add: rx2_keyed chunk_wf_def pending_def)
  have b: "recv_wf rx2_buf" "recv_bytes rx2_buf = ?B" by (simp_all add: rx2_buf_def)
  obtain ch ct where c: "aead_collect (cw_junk world0) (cx_chunk rx2) rx2_buf 64 = Inr (ch, ct)" "buf_wf ch"
      "buf_bytes ch = pending (cx_chunk rx2) @ recv_bytes rx2_buf" "tmp_wf ct" "buf_len ch \<le> buf_capacity ct"
    using aead_collect_ok [OF cw(1) b(1)] by blast
  have sok: "session_ok lib_plain ?s" using keyed_session [OF lib_plain_ok rx2_keyed(1)] by (simp add: rx2_keyed(2))
  obtain n' where d: "dec_of lib_plain ?s (cur_nonce rx2) ?B = Some ([42], n', [])"
    using ses.dec_enc_chunks [OF sok, of "[[42]]"] by (force simp: chunk_sized_def CHUNK_SIZE_MASK_def)
  have v: "mbedtls_compat lib_plain (cx_cipher rx2)" by (simp add: rx2_keyed(2) cipher_plain_ok(2))
  note R = aead_decrypt_rest_spec [OF lib_plain_ok v rx2_keyed(1) _ world0_wf c(2,4,5)]
  have "aead_decrypt lib_plain world0 rx2_buf rx2 64 = aead_decrypt_rest lib_plain world0 ct rx2 ch"
    by (rule decrypt_keyed_eq [OF _ c(1)]) (simp add: rx2_keyed(4))
  then show ?thesis using R d c(3) cw(2) b(2) by (auto simp: rx2_keyed(2,4))
qed

theorem aead_decrypt_authentic_witness:
  "\<exists>ct' ctx' w' fs. aead_decrypt lib_plain world0 rx2_buf rx2 64 = Inr (CRYPTO_OK, ct', ctx', w') \<and>
     pending (cx_chunk rx2) @ recv_bytes rx2_buf =
       sealed_chunks (session_seal lib_plain (session_of rx2 (replicate 32 0))) (sodium_increment lib_plain) (cur_nonce rx2) fs @
       pending (cx_chunk ctx') \<and> recv_bytes ct' = concat (map snd fs)"
proof -
  obtain ct' ctx' w' where d: "aead_decrypt lib_plain world0 rx2_buf rx2 64 = Inr (CRYPTO_OK, ct', ctx', w')"
    using rx2_delivers by blast
  have "mbedtls_compat lib_plain (cx_cipher rx2)" "chunk_wf (cx_chunk rx2)" "recv_wf rx2_buf"
    by (simp_all add: rx2_keyed cipher_plain_ok(2) chunk_wf_def rx2_buf_def)
  from aead_decrypt_authentic [OF lib_plain_ok this(1) world0_wf this(2) rx2_keyed(1) _ this(3) d] d
  show ?thesis by (auto simp: rx2_keyed(4))
qed

section \<open>Packets\<close>

lemma aead_encrypt_all_ok:
  assumes lib: "lib_ok L" and ci: "cipher_ok ci" and v: "mbedtls_compat L ci" and w: "world_wf w" and b: "recv_wf b"
  defines "salt \<equiv> fst (rand_bytes w (ci_key_len ci))"
  shows "\<exists>b' w'. aead_encrypt_all L w b ci cap = Inr (CRYPTO_OK, b', w') \<and> world_wf w' \<and> recv_wf b' \<and>
     recv_bytes b' = salt @ session_seal L (ci, subkey L ci salt) (zero_nonce ci) (recv_bytes b)"
proof -
  let ?kl = "ci_key_len ci"
  let ?s = "(ci, subkey L ci salt)"
  let ?w1 = "snd (rand_bytes w ?kl)"
  let ?c = "session_seal L ?s (zero_nonce ci) (recv_bytes b)"
  have w1: "world_wf ?w1" using w by simp
  obtain ctx where cx: "aead_ctx_init L w ci True = Inr (ctx, ?w1)" "ctx_ready L ctx" "cx_init ctx = 0"
      "cx_cipher ctx = ci" "ctx_salt ctx = salt"
    using aead_ctx_init_send [OF lib ci] unfolding salt_def by blast
  have t: "ci_tag_len ci = 16" using cipher_sizes(4) [OF ci] .
  have sl: "?kl \<le> length (cx_salt ctx)" using shape_salt [of ctx] cx(2,4) by (simp add: ctx_ready_def)
  have tk: "take ?kl (cx_salt ctx) = salt" "length salt = ?kl" using cx(4,5) by (auto simp: ctx_salt_def salt_def)
  define tmp where "tmp = brealloc (cw_junk ?w1) (cw_aead_encrypt_all_tmp ?w1) (?kl + 16 + buf_len b) cap"
  have tw: "tmp_wf tmp" using w1 by (auto simp: tmp_def world_wf_def intro: brealloc_tmp_wf)
  have room: "?kl + 16 + buf_len b \<le> length (buf_data tmp)" using tw by (simp add: tmp_wf_def tmp_def buf_simps)
  obtain pp where pp: "world_pp_add ?w1 (cx_salt ctx) ?kl = Inr (?w1\<lparr>cw_pp := pp\<rparr>)" "world_wf (?w1\<lparr>cw_pp := pp\<rparr>)"
    using world_pp_add_ok [OF w1 sl] by blast
  obtain g e skey where k: "aead_cipher_ctx_set_key L ctx True = Inr (ctx\<lparr>cx_skey := skey,
        cx_nonce := zero_nonce ci @ drop (ci_nonce_len ci) (cx_nonce ctx), cx_gcm := g, cx_evp := e\<rparr>)"
      "ctx_keyed L (ctx\<lparr>cx_skey := skey, cx_nonce := zero_nonce ci @ drop (ci_nonce_len ci) (cx_nonce ctx),
         cx_gcm := g, cx_evp := e\<rparr>) True (subkey L ci salt)"
    using set_key_ok [OF lib cx(2), of True] tk(1) by (auto simp: Let_def zero_nonce_def cx(4))
  define ctx1 where "ctx1 = ctx\<lparr>cx_skey := skey, cx_nonce := zero_nonce ci @ drop (ci_nonce_len ci) (cx_nonce ctx),
         cx_gcm := g, cx_evp := e\<rparr>"
  have c1: "cx_cipher ctx1 = ci" "cur_nonce ctx1 = zero_nonce ci"
    by (simp_all add: ctx1_def cur_nonce_def zero_nonce_def cx(4))
  have lc: "length ?c = buf_len b + 16" using ses.length_seal [OF subkey_session [OF lib ci]] recv_len [OF b] by simp
  define d0 where "d0 = salt @ drop ?kl (buf_data tmp)"
  have l0: "length d0 = length (buf_data tmp)" using tk(2) room by (simp add: d0_def)
  define d where "d = salt @ ?c @ drop (?kl + 16 + buf_len b) (buf_data tmp)"
  have d: "mem_write d0 ?kl ?c = Inr d"
    using room l0 lc tk(2) by (simp add: d_def) (simp add: d0_def ac_simps)
  have enc: "aead_cipher_encrypt L ctx1 d0 ?kl cl (recv_bytes b) (cx_nonce ctx1) (cx_skey ctx1) = Inr (0, d, 16 + buf_len b)" for cl
    using aead_cipher_encrypt_keyed [OF lib k(2) [folded ctx1_def], of d0 ?kl cl "recv_bytes b"] v d recv_len [OF b]
    by (simp add: c1)
  have rd: "mem_read (cx_salt ctx) 0 ?kl = Inr salt" "mem_write (buf_data tmp) 0 salt = Inr d0"
      "mem_read (buf_data b) 0 (buf_len b) = Inr (recv_bytes b)"
    using sl tk room b by (simp_all add: d0_def recv_bytes_def recv_wf_def tmp_wf_def)
  define b' where "b' = b\<lparr>buf_data := d, buf_capacity := buf_capacity tmp, buf_len := ?kl + (16 + buf_len b)\<rparr>"
  define w' where "w' = ?w1\<lparr>cw_pp := pp, cw_aead_encrypt_all_tmp := tmp\<lparr>buf_len := 16 + buf_len b, buf_data := buf_data b,
      buf_capacity := buf_capacity b\<rparr>\<rparr>"
  have "aead_encrypt_all L w b ci cap = Inr (CRYPTO_OK, b', w')"
    using enc [of "16 + buf_len b"] unfolding aead_encrypt_all_def
    by (simp add: cx(1) t Let_def tmp_def [symmetric] rd pp(1) k(1) ctx1_def [symmetric] bswap_data_def b'_def w'_def
        del: mem_write_ok mem_read_ok)
  moreover have "recv_wf b'" "recv_bytes b' = salt @ ?c"
    using room tw lc tk(2) by (auto simp: b'_def d_def recv_wf_def tmp_wf_def recv_bytes_def)
  moreover have "world_wf w'" using pp(2) b by (simp add: w'_def world_wf_def tmp_wf_def recv_wf_def)
  ultimately show ?thesis by blast
qed

text \<open>
  \<open>aead_decrypt_all\<close> by the salt and the sealed part of the packet: too short, repeated, not
  authentic, or delivered.
\<close>

lemma aead_decrypt_all_spec:
  assumes lib: "lib_ok L" and ci: "cipher_ok ci" and v: "mbedtls_compat L ci" and w: "world_wf w" and b: "recv_wf b"
    and p: "recv_bytes b = salt @ c" "length salt = ci_key_len ci"
  shows "if length c \<le> 16 then aead_decrypt_all L w b ci cap = Inr (CRYPTO_ERROR, b, w)
    else if pp_covers (cw_pp w) salt then
      \<exists>t. aead_decrypt_all L w b ci cap = Inr (CRYPTO_ERROR, b, w\<lparr>cw_aead_decrypt_all_tmp := t\<rparr>) \<and>
          world_wf (w\<lparr>cw_aead_decrypt_all_tmp := t\<rparr>)
    else case session_unseal L (ci, subkey L ci salt) (zero_nonce ci) c of
      None \<Rightarrow> \<exists>t. aead_decrypt_all L w b ci cap = Inr (CRYPTO_ERROR, b, w\<lparr>cw_aead_decrypt_all_tmp := t\<rparr>) \<and>
          world_wf (w\<lparr>cw_aead_decrypt_all_tmp := t\<rparr>)
    | Some m \<Rightarrow> \<exists>b' w'. aead_decrypt_all L w b ci cap = Inr (CRYPTO_OK, b', w') \<and> recv_wf b' \<and> recv_bytes b' = m \<and>
          buf_len b \<le> length (buf_data b') \<and> world_wf w' \<and> pp_covers (cw_pp w') salt \<and> ppbloom_add (cw_pp w) salt = Inr (0, cw_pp w')"
proof -
  let ?kl = "ci_key_len ci"
  let ?s = "(ci, subkey L ci salt)"
  have t: "ci_tag_len ci = 16" using cipher_sizes(4) [OF ci] .
  have bl: "buf_len b = ?kl + length c" "buf_len b \<le> length (buf_data b)"
    using recv_len [OF b] p b by (auto simp: recv_wf_def tmp_wf_def)
  show ?thesis
  proof (cases "length c \<le> 16")
    case True
    then show ?thesis using bl t by (simp add: aead_decrypt_all_def)
  next
    case lc: False
    obtain ctx where cx: "aead_ctx_init L w ci False = Inr (ctx, w)" "ctx_ready L ctx" "cx_cipher ctx = ci"
      using aead_ctx_init_recv [OF lib ci] by blast
    have sl: "?kl \<le> length (cx_salt ctx)" using shape_salt [of ctx] cx(2,3) by (simp add: ctx_ready_def)
    define S where "S = salt @ drop ?kl (cx_salt ctx)"
    have S: "take ?kl S = salt" "?kl \<le> length S" using p(2) by (simp_all add: S_def)
    define tmp where "tmp = (brealloc (cw_junk w) (cw_aead_decrypt_all_tmp w) (buf_len b) cap)\<lparr>buf_len := buf_len b - (?kl + 16)\<rparr>"
    have tw: "tmp_wf tmp" using w brealloc_tmp_wf [of "cw_aead_decrypt_all_tmp w"]
      by (simp add: tmp_def world_wf_def) (simp add: tmp_wf_def)
    have room: "buf_len b \<le> length (buf_data tmp)" using tw by (simp add: tmp_wf_def tmp_def buf_simps)
    have rd: "mem_read (buf_data b) 0 ?kl = Inr salt" "mem_write (cx_salt ctx) 0 salt = Inr S"
        "mem_read (buf_data b) ?kl (buf_len b - ?kl) = Inr c"
    proof -
      have d: "buf_data b = salt @ c @ drop (buf_len b) (buf_data b)"
        using p(1) by (metis append_take_drop_id append_assoc recv_bytes_def)
      have "take ?kl (buf_data b) = salt" "take (length c) (drop ?kl (buf_data b)) = c"
        by (subst d; simp add: p(2))+
      then show "mem_read (buf_data b) 0 ?kl = Inr salt" "mem_write (cx_salt ctx) 0 salt = Inr S"
          "mem_read (buf_data b) ?kl (buf_len b - ?kl) = Inr c"
        using bl p(2) sl by (simp_all add: S_def)
    qed
    have chk: "world_pp_check w S ?kl = Inr (if pp_covers (cw_pp w) salt then 1 else 0, w)"
      using world_pp_check_ok [OF w S(2)] S(1) by simp
    have tws: "world_wf (w\<lparr>cw_aead_decrypt_all_tmp := tmp\<lparr>buf_data := x\<rparr>\<rparr>)" if "length x = length (buf_data tmp)" for x
      using w tw that by (simp add: world_wf_def tmp_wf_def)
    have len: "\<not> buf_len b \<le> ?kl + 16" using bl lc by simp
    show ?thesis
    proof (cases "pp_covers (cw_pp w) salt")
      case True
      then have "aead_decrypt_all L w b ci cap = Inr (CRYPTO_ERROR, b, w\<lparr>cw_aead_decrypt_all_tmp := tmp\<rparr>)"
        using len chk
        by (simp add: aead_decrypt_all_def t cx(1) Let_def rd tmp_def [symmetric] del: mem_write_ok mem_read_ok)
      then show ?thesis using lc True tws [of "buf_data tmp"] by auto
    next
      case fresh: False
      define ctx1 where "ctx1 = ctx\<lparr>cx_salt := S\<rparr>"
      have r1: "ctx_ready L ctx1" using ready_salt [OF cx(2), of salt] p(2) by (simp add: ctx1_def S_def cx(3))
      obtain g e skey where k: "aead_cipher_ctx_set_key L ctx1 False = Inr (ctx1\<lparr>cx_skey := skey,
            cx_nonce := zero_nonce ci @ drop (ci_nonce_len ci) (cx_nonce ctx1), cx_gcm := g, cx_evp := e\<rparr>)"
          "ctx_keyed L (ctx1\<lparr>cx_skey := skey, cx_nonce := zero_nonce ci @ drop (ci_nonce_len ci) (cx_nonce ctx1),
             cx_gcm := g, cx_evp := e\<rparr>) False (subkey L ci salt)"
        using set_key_ok [OF lib r1, of False] S(1) cx(3) by (auto simp: Let_def zero_nonce_def ctx1_def)
      define ctx2 where "ctx2 = ctx1\<lparr>cx_skey := skey, cx_nonce := zero_nonce ci @ drop (ci_nonce_len ci) (cx_nonce ctx1),
             cx_gcm := g, cx_evp := e\<rparr>"
      have c2: "cx_cipher ctx2 = ci" "cur_nonce ctx2 = zero_nonce ci"
        by (simp_all add: ctx2_def ctx1_def cur_nonce_def zero_nonce_def cx(3))
      note dec = aead_cipher_decrypt_keyed [OF lib k(2) [folded ctx2_def], unfolded c2, OF v]
      have eq: "aead_decrypt_all L w b ci cap =
          bindr (aead_cipher_decrypt L ctx2 (buf_data tmp) 0 (buf_len tmp) c (cx_nonce ctx2) (cx_skey ctx2)) (\<lambda>(err, d, plen).
          if err \<noteq> 0 then Inr (CRYPTO_ERROR, b, w\<lparr>cw_aead_decrypt_all_tmp := tmp\<lparr>buf_data := d\<rparr>\<rparr>)
          else bindr (world_pp_add w S ?kl) (\<lambda>w.
            Inr (CRYPTO_OK, b\<lparr>buf_data := d, buf_capacity := buf_capacity tmp, buf_len := buf_len tmp\<rparr>,
                 w\<lparr>cw_aead_decrypt_all_tmp := tmp\<lparr>buf_data := buf_data b, buf_capacity := buf_capacity b\<rparr>\<rparr>)))"
        using len chk fresh k(1)
        by (simp add: aead_decrypt_all_def t cx(1) Let_def rd tmp_def ctx1_def [symmetric] ctx2_def [symmetric]
            bswap_data_def del: mem_write_ok mem_read_ok cong: if_cong)
      show ?thesis
      proof (cases rule: session_dec_cases [OF subkey_session [OF lib ci, of salt], of "zero_nonce ci" c, case_names ok bad])
        case (bad err out)
        then have "aead_decrypt_all L w b ci cap =
            Inr (CRYPTO_ERROR, b, w\<lparr>cw_aead_decrypt_all_tmp := tmp\<lparr>buf_data := out @ drop (length out) (buf_data tmp)\<rparr>\<rparr>)"
          using eq dec room bl by (simp add: crypto_codes)
        then show ?thesis using lc fresh bad(1,4) room bl tws [of "out @ drop (length out) (buf_data tmp)"] by auto
      next
        case (ok m)
        obtain pp where pp: "world_pp_add w S ?kl = Inr (w\<lparr>cw_pp := pp\<rparr>)" "ppbloom_add (cw_pp w) salt = Inr (0, pp)"
            "world_wf (w\<lparr>cw_pp := pp\<rparr>)" "pp_covers pp salt"
          using world_pp_add_ok [OF w S(2)] S(1) by auto
        define b' where "b' = b\<lparr>buf_data := m @ drop (length m) (buf_data tmp), buf_capacity := buf_capacity tmp, buf_len := buf_len tmp\<rparr>"
        define w' where "w' = w\<lparr>cw_pp := pp, cw_aead_decrypt_all_tmp := tmp\<lparr>buf_data := buf_data b, buf_capacity := buf_capacity b\<rparr>\<rparr>"
        have "aead_decrypt_all L w b ci cap = Inr (CRYPTO_OK, b', w')"
          using eq dec ok room bl pp(1) by (simp add: b'_def w'_def)
        moreover have "recv_wf b'" "recv_bytes b' = m"
          using ok(3) room bl tw by (auto simp: b'_def recv_wf_def tmp_wf_def recv_bytes_def) (auto simp: tmp_def)
        moreover have "buf_len b \<le> length (buf_data b')" using ok(3) room by (simp add: b'_def)
        moreover have "world_wf w'" "cw_pp w' = pp" using pp(3) b by (simp_all add: w'_def world_wf_def tmp_wf_def recv_wf_def)
        ultimately show ?thesis using lc fresh ok(1) pp by auto
      qed
    qed
  qed
qed

text \<open>
  C27. UDP packets round-trip. \<open>aead_encrypt_all\<close> of a non-empty payload succeeds, and
  \<open>aead_decrypt_all\<close> of the packet, in a process that has not recorded its salt, gives the payload
  back; the same packet received again is refused.
\<close>

theorem aead_packet_roundtrip:
  assumes lib: "lib_ok L" and ci: "cipher_ok ci" and v: "mbedtls_compat L ci" and ws: "world_wf ws" and wr: "world_wf wr"
    and b: "recv_wf b" "buf_len b \<noteq> 0"
    and fresh: "\<not> pp_covers (cw_pp wr) (fst (rand_bytes ws (ci_key_len ci)))"
  shows "\<exists>pkt ws'. aead_encrypt_all L ws b ci cap = Inr (CRYPTO_OK, pkt, ws') \<and>
     (\<forall>pkt1. recv_wf pkt1 \<and> recv_bytes pkt1 = recv_bytes pkt \<longrightarrow>
       (\<exists>b' wr'. aead_decrypt_all L wr pkt1 ci cap' = Inr (CRYPTO_OK, b', wr') \<and> recv_bytes b' = recv_bytes b \<and>
          (\<exists>wr''. aead_decrypt_all L wr' pkt1 ci cap' = Inr (CRYPTO_ERROR, pkt1, wr''))))"
proof -
  let ?salt = "fst (rand_bytes ws (ci_key_len ci))"
  let ?s = "(ci, subkey L ci ?salt)"
  let ?c = "session_seal L ?s (zero_nonce ci) (recv_bytes b)"
  obtain pkt ws' where e: "aead_encrypt_all L ws b ci cap = Inr (CRYPTO_OK, pkt, ws')" "recv_bytes pkt = ?salt @ ?c"
    using aead_encrypt_all_ok [OF lib ci v ws b(1)] by blast
  note sok = subkey_session [OF lib ci, of ?salt]
  have lc: "\<not> length ?c \<le> 16" using ses.length_seal [OF sok] recv_len [OF b(1)] b(2) by simp
  have "\<exists>b' wr'. aead_decrypt_all L wr p ci cap' = Inr (CRYPTO_OK, b', wr') \<and> recv_bytes b' = recv_bytes b \<and>
          (\<exists>wr''. aead_decrypt_all L wr' p ci cap' = Inr (CRYPTO_ERROR, p, wr''))"
    if p: "recv_wf p" "recv_bytes p = recv_bytes pkt" for p
  proof -
    have p': "recv_bytes p = ?salt @ ?c" "length ?salt = ci_key_len ci" using p(2) e(2) by simp_all
    note D = aead_decrypt_all_spec [OF lib ci v _ p(1) p', of _ cap', unfolded if_not_P [OF lc]]
    obtain b' wr' where 1: "aead_decrypt_all L wr p ci cap' = Inr (CRYPTO_OK, b', wr')" "recv_bytes b' = recv_bytes b"
        "world_wf wr'" "pp_covers (cw_pp wr') ?salt"
      using D [OF wr] fresh ses.unseal_seal [OF sok] by auto
    then show ?thesis using D [OF 1(3)] by auto
  qed
  then show ?thesis using e(1) by blast
qed

theorem aead_packet_roundtrip_witness:
  "\<exists>pkt ws'. aead_encrypt_all lib_plain world0 hello cipher_plain 2048 = Inr (CRYPTO_OK, pkt, ws') \<and>
     (\<forall>pkt1. recv_wf pkt1 \<and> recv_bytes pkt1 = recv_bytes pkt \<longrightarrow>
       (\<exists>b' wr'. aead_decrypt_all lib_plain world0 pkt1 cipher_plain 2048 = Inr (CRYPTO_OK, b', wr') \<and>
          recv_bytes b' = recv_bytes hello \<and>
          (\<exists>wr''. aead_decrypt_all lib_plain wr' pkt1 cipher_plain 2048 = Inr (CRYPTO_ERROR, pkt1, wr''))))"
  by (rule aead_packet_roundtrip [OF lib_plain_ok cipher_plain_ok world0_wf world0_wf _ _ world0_fresh])
    (simp_all add: hello_def recv_wf_def buf_of_def tmp_wf_def)

text \<open>
  \<open>aead_decrypt_all\<close> on any packet ends without fault, and unless the packet is authentic under
  the subkey of its salt and the salt is new, it returns the error, leaves the packet as it was and
  does not touch the replay filter.
\<close>

theorem aead_decrypt_all_refuses:
  assumes "lib_ok L" "cipher_ok ci" "mbedtls_compat L ci" "world_wf w" "recv_wf b"
    and "recv_bytes b = salt @ c" "length salt = ci_key_len ci"
    and "pp_covers (cw_pp w) salt \<or> length c \<le> 16 \<or>
         (\<forall>m. c \<noteq> session_seal L (ci, subkey L ci salt) (zero_nonce ci) m)"
  shows "\<exists>w'. aead_decrypt_all L w b ci cap = Inr (CRYPTO_ERROR, b, w') \<and> cw_pp w' = cw_pp w"
proof -
  have "session_unseal L (ci, subkey L ci salt) (zero_nonce ci) c = None"
    if "\<forall>m. c \<noteq> session_seal L (ci, subkey L ci salt) (zero_nonce ci) m"
    using that ses.unseal_only [OF subkey_session [OF assms(1,2)], of salt "zero_nonce ci" c]
    by (cases "session_unseal L (ci, subkey L ci salt) (zero_nonce ci) c") auto
  then show ?thesis
    using aead_decrypt_all_spec [OF assms(1-7), of cap] assms(8) by (auto split: if_splits)
qed

theorem aead_decrypt_all_refuses_witness:
  "\<exists>w'. aead_decrypt_all lib_plain world0 (buf_of (replicate 32 1 @ [5, 6])) cipher_plain 2048 =
      Inr (CRYPTO_ERROR, buf_of (replicate 32 1 @ [5, 6]), w') \<and> cw_pp w' = cw_pp world0"
  by (rule aead_decrypt_all_refuses [OF lib_plain_ok cipher_plain_ok world0_wf, where salt = "replicate 32 1" and c = "[5, 6]"])
    (simp_all only: recv_wf_buf_of length_replicate, simp_all add: cipher_plain_def)

section \<open>Ciphers and the build against mbedTLS 3\<close>

lemma parse_key_length:
  assumes "crypto_parse_key b key n = Inr (m, k)"
  shows "m = n \<and> length k = length key"
proof -
  obtain ol out where d: "base64_decode (c_str b) (BASE64_SIZE (int (length (c_str b)))) = (ol, out)" by fastforce
  have "\<exists>x. mem_write key 0 x = Inr k \<and> m = n"
    using assms by (auto simp: crypto_parse_key_def Let_def d bindr_Inr_iff simp del: mem_write_ok split: if_splits)
  then show ?thesis using mem_write_length by blast
qed

text \<open>
  C39. A cipher made by \<open>aead_init\<close> is well-formed: method, key, nonce and tag sizes agree with the
  tables, and the key fits its array, so every cipher the program runs with satisfies the hypothesis
  of the session theorems. An unknown method name gives \<open>chacha20-ietf-poly1305\<close>.
\<close>

theorem aead_init_cipher_ok:
  assumes md: "md_info L ''MD5'' = Some md" "md_ok md" "md_setup md 0 = 0"
    and init: "aead_init L pass key method = Some (Inr (Some ci))"
  shows "cipher_ok ci \<and> (\<forall>s. method = Some s \<and> s \<notin> set supported_aead_ciphers \<longrightarrow> ci_method ci = 3)"
proof -
  define m where "m = (case method of None \<Rightarrow> AES128GCM
      | Some s \<Rightarrow> let m = int (index_of s supported_aead_ciphers) in
                   if m \<ge> AEAD_CIPHER_NUM then CHACHA20POLY1305IETF else m)"
  have m: "0 \<le> m" "m < 5" by (auto simp: m_def aead_consts Let_def split: option.splits)
  have ki: "aead_key_init L m pass key = Some (Inr (Some ci))" using init by (simp add: aead_init_def m_def)
  let ?n = "supported_aead_ciphers_key_size ! nat m"
  let ?k0 = "replicate MAX_KEY_LENGTH 0 :: bytes"
  have mc: "m = 0 \<or> m = 1 \<or> m = 2 \<or> m = 3 \<or> m = 4" using m by auto
  have n: "?n \<le> 64" "supported_aead_ciphers_tag_size ! nat m = 16" using mc by (auto simp: aead_tables)
  obtain kl k where r: "(case key of Some b \<Rightarrow> Some (crypto_parse_key b ?k0 ?n)
        | None \<Rightarrow> crypto_derive_key (md_info L ''MD5'') pass ?k0 ?n) = Some (Inr (kl, k))"
      "ci = \<lparr>ci_method = m, ci_skey = 0, ci_nonce_len = supported_aead_ciphers_nonce_size ! nat m, ci_key_len = kl,
             ci_tag_len = supported_aead_ciphers_tag_size ! nat m, ci_key = k\<rparr>"
    using ki by (auto simp: aead_key_init_def Let_def bindr_Inr_iff split: if_splits option.splits)
  have "kl = ?n \<and> length k = 64"
  proof (cases key)
    case (Some b)
    then show ?thesis using r(1) parse_key_length [of b ?k0 ?n kl k] by (simp add: MAX_KEY_LENGTH_def)
  next
    case None
    then obtain p where p: "pass = Some p" using r(1) by (cases pass) (auto simp: crypto_derive_key_def)
    have "length (take ?n (bytes_to_key_blocks md (c_str p) [] ?n)) = ?n"
      using bytes_to_key_blocks_length [OF md(2), of ?n "c_str p" "[]"] by simp
    then show ?thesis
      using r(1) None p md(1) n crypto_derive_key_eq [OF md(2,3), of ?n ?k0 p] by (auto simp: MAX_KEY_LENGTH_def)
  qed
  then have "cipher_ok ci" using m n(2) by (simp add: cipher_ok_def r(2) MAX_KEY_LENGTH_def)
  moreover have "ci_method ci = 3" if "method = Some s" "s \<notin> set supported_aead_ciphers" for s
    using that by (simp add: r(2) m_def aead_consts supported_aead_ciphers_def)
  ultimately show ?thesis by blast
qed

theorem aead_init_cipher_ok_witness:
  "\<exists>ci. aead_init lib_plain (Some [112, 119, 0]) None (Some ''rc9'') = Some (Inr (Some ci)) \<and> cipher_ok ci \<and>
     (\<forall>s. Some ''rc9'' = Some s \<and> s \<notin> set supported_aead_ciphers \<longrightarrow> ci_method ci = 3)"
proof -
  have md: "md_info lib_plain ''MD5'' = Some md_plain" "md_setup md_plain 0 = 0"
    by (simp_all add: lib_plain_def md_plain_def)
  have "\<exists>ci. aead_init lib_plain (Some [112, 119, 0]) None (Some ''rc9'') = Some (Inr (Some ci))"
    using crypto_derive_key_eq [OF md_plain_ok(1) md(2), of 32 "replicate MAX_KEY_LENGTH 0" "[112, 119, 0]"]
    by (simp add: aead_init_def aead_key_init_def aead_consts supported_aead_ciphers_def aead_tables md(1)
        MAX_KEY_LENGTH_def Let_def)
  then obtain ci where ci: "aead_init lib_plain (Some [112, 119, 0]) None (Some ''rc9'') = Some (Inr (Some ci))" by blast
  show ?thesis using aead_init_cipher_ok [OF md(1) md_plain_ok(1) md(2) ci] ci by blast
qed

text \<open>
  C38. Against mbedTLS 3, whose \<open>mbedtls_cipher_auth_encrypt_ext\<close> reports the length of ciphertext and
  tag together, \<open>aead_cipher_encrypt\<close> adds the tag length once more, and every \<open>aead_chunk_encrypt\<close>
  with AES-128-GCM or AES-192-GCM ends in a failed assertion.
\<close>

theorem aead_mbedtls3_asserts:
  assumes "mbedtls3 L"
    and ext: "\<And>e n m t. \<exists>out. evp_auth_encrypt_ext L e n m t = (0, out) \<and> length out = length m + t"
    and "ci_method (cx_cipher ctx) = AES128GCM \<or> ci_method (cx_cipher ctx) = AES192GCM"
    and "ci_tag_len (cx_cipher ctx) = 16" "cx_evp ctx = Some e"
    and "unat plen16 \<le> CHUNK_SIZE_MASK" "off + 18 \<le> length c"
  shows "aead_chunk_encrypt L ctx p c off plen16 = Inl Assert_fail"
proof -
  obtain out where "evp_auth_encrypt_ext L e (take (ci_nonce_len (cx_cipher ctx)) (cx_nonce ctx))
      (htons_bytes (unat plen16)) 16 = (0, out)" "length out = 18"
    using ext [of e "take (ci_nonce_len (cx_cipher ctx)) (cx_nonce ctx)" "htons_bytes (unat plen16)" 16] by auto
  then show ?thesis
    using assms by (auto simp: aead_chunk_encrypt_def aead_cipher_encrypt_def aead_consts Let_def chunk_mask_id
        [unfolded CHUNK_SIZE_MASK_def])
qed

theorem aead_mbedtls3_asserts_witness:
  "aead_chunk_encrypt (lib_plain\<lparr>mbedtls3 := True\<rparr>)
     (rx0\<lparr>cx_cipher := cipher_plain\<lparr>ci_method := 0, ci_key_len := 16\<rparr>, cx_evp := Some ()\<rparr>)
     [1, 2, 3] (replicate 64 0) 0 3 = Inl Assert_fail"
  by (rule aead_mbedtls3_asserts [where e = "()"])
    (simp_all add: lib_plain_def cipher_plain_def aead_consts)

end
