(* ===== verification/Udprelay_Props.thy ===== *)
theory Udprelay_Props
  imports Udprelay_Safe Aead_Packet
begin

text \<open>
  The properties of the UDP relay with the AEAD ciphers, for every sequence of datagrams, timeouts and
  answers of the resolver, and every behaviour of the system calls.
\<close>

section \<open>The relay with the AEAD ciphers\<close>

definition udp_env ::
    "('g, 'e) crypto_lib \<Rightarrow> cipher \<Rightarrow> ip_parse \<Rightarrow> (bytes \<Rightarrow> bytes option) \<Rightarrow> (sockaddr \<Rightarrow> bytes) \<Rightarrow> (nat, int) hash_find \<Rightarrow>
     bool \<Rightarrow> nat \<Rightarrow> nat \<Rightarrow> junk \<Rightarrow> 'd crypto_world uenv" where
  "udp_env L ci ip_parse pton4 ntop hfind bind_local l4 l6 junk =
     \<lparr>ue_encrypt_all = (\<lambda>w b cap. aead_encrypt_all L w b ci cap), ue_decrypt_all = (\<lambda>w b cap. aead_decrypt_all L w b ci cap),
      ue_ip_parse = ip_parse, ue_pton4 = pton4, ue_ntop = ntop, ue_hfind = hfind, ue_bind_local = bind_local,
      ue_local4 = l4, ue_local6 = l6, ue_junk = junk\<rparr>"

definition udp_world :: "('g, 'e) crypto_lib \<Rightarrow> cipher \<Rightarrow> 'd crypto_world \<Rightarrow> bool" where
  "udp_world L ci w \<longleftrightarrow> lib_ok L \<and> cipher_ok ci \<and> mbedtls_compat L ci \<and> world_wf w"

lemma pkt_recv: "pkt_ok b = recv_wf b" "content b = recv_bytes b"
  by (simp_all add: pkt_ok_def recv_wf_def tmp_wf_def content_def recv_bytes_def)

lemma decrypt_all_any:
  assumes "udp_world L ci w" "recv_wf b"
  shows "\<exists>r b' w'. aead_decrypt_all L w b ci cap = Inr (r, b', w') \<and> udp_world L ci w' \<and>
           (r = 0 \<longrightarrow> recv_wf b' \<and> 2 \<le> length (buf_data b'))"
proof (cases "buf_len b \<le> ci_key_len ci")
  case True
  then show ?thesis using assms by (simp add: aead_decrypt_all_def CRYPTO_ERROR_def)
next
  case False
  define salt c where "salt = take (ci_key_len ci) (recv_bytes b)" and "c = drop (ci_key_len ci) (recv_bytes b)"
  have l: "length (recv_bytes b) = buf_len b" using recv_len [OF assms(2)] by simp
  have sc: "recv_bytes b = salt @ c" "length salt = ci_key_len ci" using False l by (simp_all add: salt_def c_def)
  have w: "lib_ok L" "cipher_ok ci" "mbedtls_compat L ci" "world_wf w" using assms(1) by (simp_all add: udp_world_def)
  have n: "16 < length c \<Longrightarrow> 2 \<le> buf_len b" using l sc by auto
  note D = aead_decrypt_all_spec [OF w assms(2) sc, of cap]
  show ?thesis
    using D w n by (auto simp: udp_world_def CRYPTO_ERROR_def CRYPTO_OK_def split: if_splits option.splits)
qed

interpretation udp: packet_crypto "udp_env L ci ip_parse pton4 ntop hfind bind_local l4 l6 junk" "udp_world L ci"
  for L ci ip_parse pton4 ntop hfind bind_local l4 l6 junk
proof (unfold_locales, goal_cases)
  case (1 w b cap)
  then obtain b' w' where "aead_encrypt_all L w b ci cap = Inr (CRYPTO_OK, b', w')" "world_wf w'" "recv_wf b'"
    using aead_encrypt_all_ok [of L ci w b cap] by (auto simp: udp_world_def pkt_recv)
  then show ?case using 1(1) by (auto simp: udp_env_def udp_world_def pkt_recv)
next
  case (2 w b cap)
  then show ?case using decrypt_all_any [of L ci w b cap] by (auto simp: udp_env_def pkt_recv)
qed

section \<open>Every reachable state\<close>

lemma start_inv: "W w \<Longrightarrow> uinv W {} {} {} (up_start w)"
  by (simp add: uinv_def servers_ok_def remotes_ok_def queries_ok_def trace_ok_def list_ok_def up_start_def)

lemma init_inv:
  assumes i: "uinv W H {} {} s"
  shows "uinv W H {} {} (snd (init_udprelay bound mtu timeout s))"
proof -
  define a where "a = (if mtu > 0 then s\<lparr>up_packet_size := mtu - int PACKET_HEADER_SIZE, up_buf_size := (mtu - int PACKET_HEADER_SIZE) * 2\<rparr> else s)"
  have ia: "uinv W H {} {} a" by (rule frame_same [OF i]) (auto simp: a_def)
  let ?sv = "\<lparr>us_io = True, us_timeout = max timeout MIN_UDP_TIMEOUT,
      us_cache = Some \<lparr>c_max_entries = MAX_UDP_CONN_NUM, c_entries = []\<rparr>\<rparr> :: userver"
  let ?s = "a\<lparr>up_next := up_next a + 1, up_servers := (up_servers a)(up_next a \<mapsto> ?sv), up_list := up_next a # up_list a\<rparr>"
  have n: "up_servers a (up_next a) = None" "up_next a \<notin> set (up_list a)"
    using ia by (auto simp: uinv_def list_ok_def)
  have e: "entries ?s p = entries a p" for p using n(1) by (simp add: entries_def)
  have c: "cached ?s = cached a" by (rule ext) (simp only: cached_def e)
  have ok: "entry_ok ?s = entry_ok a" by (simp add: entry_ok_def fun_eq_iff)
  have "servers_ok ?s" using ia n(1) unfolding uinv_def servers_ok_def ok by (auto simp: MAX_UDP_CONN_NUM_def)
  moreover have "remotes_ok H {} {} ?s"
    using ia unfolding uinv_def remotes_ok_def c by (simp del: not_None_eq) (metis less_Suc_eq)
  moreover have "queries_ok H ?s"
    using ia unfolding uinv_def queries_ok_def by (simp del: not_None_eq) (metis less_Suc_eq)
  moreover have "list_ok ?s" using ia n unfolding uinv_def list_ok_def by (auto simp: less_Suc_eq)
  ultimately have "uinv W H {} {} ?s" using ia by (simp add: uinv_def trace_ok_def)
  then show ?thesis using ia by (simp add: init_udprelay_def Let_def cache_create_def flip: a_def)
qed

lemma setup_inv: "uinv W H {} {} s \<Longrightarrow> uinv W H {} {} (usetup xs s)"
  by (induction xs s rule: usetup.induct) (auto intro: init_inv)

text \<open>The relay with its libraries as documented.\<close>

definition udp_libs :: "'w uenv \<Rightarrow> bool" where
  "udp_libs E \<longleftrightarrow> text_ok E \<and> hash_find_ok (ue_hfind E)"

context packet_crypto
begin

lemma handle_inv:
  assumes E: "udp_libs E" and i: "uinv winv H {} {} s" and en: "uenabled s e"
    and H: "H \<subseteq> H'" "\<And>io sid src data. e = From_client io sid \<Longrightarrow> uio_recv io = Some (src, data) \<Longrightarrow> (sid, src) \<in> H'"
  shows "uok (stale_event s e) (uinv winv H' {} {}) (uhandle E e s)"
proof -
  have E': "text_ok E" "hash_find_ok (ue_hfind E)" using E by (simp_all add: udp_libs_def)
  note i' = uinv_mono [OF i H(1)]
  show ?thesis
  proof (cases e)
    case (From_client io sid)
    then obtain sv where "up_servers s sid = Some sv" "uio_ok (up_buf_size s) io" using en by (auto split: option.splits)
    then have "uok False (uinv winv H' {} {}) (udp_server_recv_cb E io sid s)"
      using client_inv [OF E' i _ _ H(1)] H(2) From_client by blast
    then show ?thesis using From_client by (auto intro: uok_mono)
  next
    case (From_remote io rid)
    then obtain r where "up_remotes s rid = Some r" "uio_ok (up_buf_size s) io" using en by (auto split: option.splits)
    then show ?thesis using reply_inv [OF i'] From_remote by (auto intro: uok_mono)
  next
    case (Timeout rid)
    then obtain r where "up_remotes s rid = Some r" using en by (auto split: option.splits)
    then show ?thesis using timeout_inv [OF E'(2) i'] Timeout by auto
  next
    case (Answered io a qid)
    then show ?thesis using resolved_inv [OF E'(2) i', of io a qid] en by simp
  qed
qed

lemma reach_inv:
  assumes E: "udp_libs E" and s0: "uinv winv {} {} {} s0" and r: "ureach E s0 es s"
  shows "uinv winv (heard es) {} {} s"
  using r
proof (induction rule: ureach.induct)
  case ureach_start
  then show ?case using s0 by (simp add: heard_def)
next
  case (ureach_step es s e s')
  have "uok (stale_event s e) (uinv winv (heard (es @ [e])) {} {}) (uhandle E e s)"
    by (rule handle_inv [OF E ureach_step.IH ureach_step.hyps(2)]) (auto simp: heard_def)
  then show ?case using ureach_step.hyps(3) by simp
qed

end

lemma udp_reach:
  assumes "udp_world L ci w" "E = udp_env L ci ip_parse pton4 ntop hfind bl l4 l6 junk" "udp_libs E"
    and "ureach E (usetup xs (up_start w)) es s"
  shows "uinv (udp_world L ci) (heard es) {} {} s"
  using udp.reach_inv [OF assms(3) [unfolded assms(2)] _ assms(4) [unfolded assms(2)]]
  by (simp add: setup_inv start_inv assms(1))

section \<open>Memory safety\<close>

text \<open>
  C13. In every reachable state of the UDP relay, whatever datagrams, timeouts and answers come, the
  callback of a watcher that is started, or of a pending lookup, follows no null or freed pointer and
  leaves no buffer: it returns, or ends the process deliberately. The only exception is the answer to
  a lookup made for a session that was closed in the meantime.
\<close>

theorem udp_memory_safe:
  assumes "udp_world L ci w" "E = udp_env L ci ip_parse pton4 ntop hfind bl l4 l6 junk" "udp_libs E"
    and "ureach E (usetup xs (up_start w)) es s"
    and "uenabled s e" "\<not> stale_event s e"
  shows "(\<exists>s'. uhandle E e s = Inr s') \<or>
         (\<exists>f. uhandle E e s = Inl (Fatal f))"
proof -
  note i = udp_reach [OF assms(1-4)]
  have "uok False (uinv (udp_world L ci) (heard es \<union> heard [e]) {} {}) (uhandle E e s)"
    using udp.handle_inv [OF assms(3) [unfolded assms(2)] i assms(5), of "heard es \<union> heard [e]"] assms(2,6)
    by (auto simp: heard_def)
  then show ?thesis by (auto simp: uok_def split: sum.splits fault.splits)
qed

section \<open>Sessions\<close>

lemma sessions_owned:
  assumes i: "uinv W H {} {} s"
  shows "(\<forall>rid r. up_remotes s rid = Some r \<longrightarrow> ur_io r \<and> ur_timer r \<and>
            (\<exists>sid. ur_server r = Some sid \<and> (\<exists>!e. e \<in> set (entries s sid) \<and> ce_data e = Some rid) \<and>
               (\<exists>e \<in> set (entries s sid). ce_data e = Some rid \<and> ce_key e = hash_key (ur_af r) (ur_src r)))) \<and>
         (\<forall>sid. length (entries s sid) < MAX_UDP_CONN_NUM \<and> distinct (map ce_key (entries s sid)) \<and>
            (\<forall>e \<in> set (entries s sid). \<exists>rid r. ce_data e = Some rid \<and> up_remotes s rid = Some r \<and> ur_server r = Some sid))"
proof (intro conjI allI impI)
  fix rid r assume r: "up_remotes s rid = Some r"
  obtain sid where o: "ur_server r = Some sid" "cached s rid" "ur_io r" "ur_timer r"
    by (rule uinv_remote [OF i r]) auto
  then obtain p e where e: "e \<in> set (entries s p)" "ce_data e = Some rid" by (auto simp: cached_def)
  obtain rid' r' where "ce_data e = Some rid'" "up_remotes s rid' = Some r'" "ur_server r' = Some p"
      "ce_key e = hash_key (ur_af r') (ur_src r')"
    by (rule uinv_entry [OF i e(1)]) blast
  then have k: "p = sid" "ce_key e = hash_key (ur_af r) (ur_src r)" using e(2) r o(1) by auto
  show "ur_io r" "ur_timer r" using o by simp_all
  have "\<exists>!x. x \<in> set (entries s sid) \<and> ce_data x = Some rid"
    using e k(1) uinv_entry_unique [OF i] by (metis (no_types, lifting))
  then show "\<exists>sid. ur_server r = Some sid \<and> (\<exists>!e. e \<in> set (entries s sid) \<and> ce_data e = Some rid) \<and>
               (\<exists>e \<in> set (entries s sid). ce_data e = Some rid \<and> ce_key e = hash_key (ur_af r) (ur_src r))"
    using o(1) e k by blast
next
  fix sid
  have *: "length (entries s sid) < MAX_UDP_CONN_NUM \<and> distinct (map ce_key (entries s sid))"
  proof (cases "up_servers s sid")
    case None
    then show ?thesis by (simp add: entries_def MAX_UDP_CONN_NUM_def)
  next
    case (Some sv)
    show ?thesis by (rule uinv_server [OF i Some]) simp
  qed
  then show "length (entries s sid) < MAX_UDP_CONN_NUM" "distinct (map ce_key (entries s sid))" by simp_all
  show "\<forall>e \<in> set (entries s sid). \<exists>rid r. ce_data e = Some rid \<and> up_remotes s rid = Some r \<and> ur_server r = Some sid"
    using uinv_entry [OF i, of _ sid] by metis
qed

text \<open>
  C19. In every reachable state each session is watched and timed and is the datum of exactly one cache
  entry of its context, under the key of its family and client address; each entry holds a live
  session of the context, no key occurs twice, and a cache holds fewer than \<open>MAX_UDP_CONN_NUM\<close> of
  them. So no session leaks and none is closed twice.
\<close>

theorem udp_sessions_owned:
  assumes "udp_world L ci w" "E = udp_env L ci ip_parse pton4 ntop hfind bl l4 l6 junk" "udp_libs E"
    and "ureach E (usetup xs (up_start w)) es s"
  shows "(\<forall>rid r. up_remotes s rid = Some r \<longrightarrow> ur_io r \<and> ur_timer r \<and>
            (\<exists>sid. ur_server r = Some sid \<and> (\<exists>!e. e \<in> set (entries s sid) \<and> ce_data e = Some rid) \<and>
               (\<exists>e \<in> set (entries s sid). ce_data e = Some rid \<and> ce_key e = hash_key (ur_af r) (ur_src r)))) \<and>
         (\<forall>sid. length (entries s sid) < MAX_UDP_CONN_NUM \<and> distinct (map ce_key (entries s sid)) \<and>
            (\<forall>e \<in> set (entries s sid). \<exists>rid r. ce_data e = Some rid \<and> up_remotes s rid = Some r \<and> ur_server r = Some sid))"
  by (rule sessions_owned [OF udp_reach [OF assms(1-4)]])

text \<open>
  C18. A reply goes only to an address that has sent a datagram to the same listening socket before: no
  datagram is sent to anybody who did not ask.
\<close>

theorem udp_replies_to_askers:
  assumes "udp_world L ci w" "E = udp_env L ci ip_parse pton4 ntop hfind bl l4 l6 junk" "udp_libs E"
    and "ureach E (usetup xs (up_start w)) es s"
    and "To_client sid a out \<in> set (up_trace s)"
  shows "\<exists>io data. From_client io sid \<in> set es \<and> uio_recv io = Some (a, data)"
proof -
  have "(sid, a) \<in> heard es"
    using udp_reach [OF assms(1-4)] assms(5) by (auto simp: uinv_def trace_ok_def)
  then show ?thesis by (simp add: heard_def)
qed

section \<open>Forwarding\<close>

lemma atoi_digits_append: "list_all is_digit xs \<Longrightarrow> atoi_digits (xs @ ys) acc = atoi_digits ys (atoi_digits xs acc)"
  by (induction xs arbitrary: acc) auto

lemma digit_char:
  assumes "k < 10"
  shows "uint (of_nat (48 + k) :: byte) = 48 + int k" "is_digit (of_nat (48 + k))"
proof -
  show u: "uint (of_nat (48 + k) :: byte) = 48 + int k"
    using assms by (subst uint_nat, subst unat_of_nat) simp
  show "is_digit (of_nat (48 + k))"
    unfolding is_digit_def word_le_def u using assms by simp
qed

lemma dec_str_digits: "list_all is_digit (dec_str n) \<and> dec_str n \<noteq> []"
proof (induction n rule: dec_str.induct)
  case (1 n)
  then show ?case
    using digit_char(2) [of n] digit_char(2) [of "n mod 10"] by (subst (1 2) dec_str.simps) auto
qed

lemma atoi_digits_dec: "atoi_digits (dec_str n) 0 = int n"
proof (induction n rule: dec_str.induct)
  case (1 n)
  show ?case
    using 1 digit_char [of n] digit_char [of "n mod 10"] dec_str_digits [of "n div 10"]
    by (subst dec_str.simps) (auto simp: atoi_digits_append, presburger?)
qed

lemma atoi_dec: "atoi (dec_str n) = int n"
proof -
  obtain c cs where d: "dec_str n = c # cs" "is_digit c" using dec_str_digits [of n] by (cases "dec_str n") auto
  then have "\<not> is_space c" "c \<noteq> 45" "c \<noteq> 43"
    using order.trans [of 48 c 13] by (auto simp: is_digit_def is_space_def)
  then show ?thesis using d atoi_digits_dec [of n] by (simp add: atoi_def)
qed

text \<open>
  What the code makes of an authentic datagram of the client \<open>src\<close>: when the storage it has filled
  (\<open>dest_storage\<close>) holds an address, the payload leaves for that address from a session of the client;
  otherwise a lookup of the name is started and the payload waits in its query.
\<close>

definition forwarded :: "'w uenv \<Rightarrow> uio \<Rightarrow> bytes \<Rightarrow> udest \<Rightarrow> bytes \<Rightarrow> 'w up \<Rightarrow> 'w up \<Rightarrow> bool" where
  "forwarded E io src d data s s' \<longleftrightarrow>
     (if raw_family (dest_storage E d) = AF_INET \<or> raw_family (dest_storage E d) = AF_INET6
      then \<exists>rid. sent_as (uio_send io) (To_remote rid (dest_storage E d) data) s s' \<and>
                 (uio_send io \<longrightarrow> (\<exists>r. up_remotes s' rid = Some r \<and> ur_src r = src))
      else case d of
             Name n p \<Rightarrow>
               \<exists>qid q b. up_trace s' = up_trace s @ [Asked qid (c_str (n @ [0])) (bswap16 (of_nat (port_of p)))] \<and>
                 up_queries s' qid = Some q \<and> uq_src q = src \<and> uq_buf q = Some b \<and> content b = data
           | _ \<Rightarrow> False)"

context packet_crypto
begin

lemma client_forwards:
  assumes E: "udp_libs E" and i: "uinv winv H {} {} s" and sv: "up_servers s sid = Some sv"
    and p: "uio_recv io = Some (src, pkt)" "length src = STORAGE_SIZE" "(sid, src) \<in> H" "uio_socket io" "uio_bind io"
    and b: "recv_buf (ue_junk E) (up_buf_size s) pkt = Inr b"
    and e: "ue_decrypt_all E (up_world s) b (nat (up_buf_size s)) = Inr (0, b2, w2)" "winv w2" "pkt_ok b2"
    and d: "content b2 = header_of d @ data" "dest_ok d"
  shows "\<exists>s'. udp_server_recv_cb E io sid s = Inr s' \<and> forwarded E io src d data s s'"
proof -
  have E': "text_ok E" "hash_find_ok (ue_hfind E)" using E by (simp_all add: udp_libs_def)
  have hd: "begins_with (content b2) d data" using header_begins [OF d(2)] d(1) by simp
  let ?dst = "dest_storage E d"
  obtain ro u h pt sv' where st:
    "udp_server_recv_cb E io sid s = udp_dispatch E io sid ro src b2 (dest_len d) h pt ?dst u"
    "uinv winv H {} {} u" "up_servers u sid = Some sv'" "up_trace u = up_trace s"
    "case ro of Some rid \<Rightarrow> \<exists>r. up_remotes u rid = Some r \<and> ur_src r = src
     | None \<Rightarrow> hash_key (raw_family ?dst) src \<notin> ce_key ` set (entries u sid)"
    and name: "\<forall>n q. d = Name n q \<longrightarrow> h = n @ replicate (256 - length n) 0 \<and> c_str pt = dec_str (port_of q)"
    by (rule client_step [OF E' i sv p(1,2) b e hd]) blast
  have hl: "dest_len d \<le> buf_len b2" "buf_len b2 \<le> length (buf_data b2)" "dest_len d \<le> MAX_ADDR_HEADER_SIZE"
    "length ?dst = STORAGE_SIZE"
    using dest_len_bounds [OF d(2)] begins_length [OF hd] content_length [OF e(3)] e(3) length_dest_storage [OF E'(1) d(2)]
    by (simp_all add: pkt_ok_def)
  have dt: "drop (dest_len d) (take (buf_len b2) (buf_data b2)) = data"
    using d(1) by (simp add: content_def dest_len_def header_of_def)
  show ?thesis
  proof (cases "raw_family ?dst = AF_INET \<or> raw_family ?dst = AF_INET6")
    case True
    obtain s' rid where "udp_dispatch E io sid ro src b2 (dest_len d) h pt ?dst u = Inr s'"
      "sent_as (uio_send io) (To_remote rid ?dst data) u s'"
      "uio_send io \<longrightarrow> (\<exists>r. up_remotes s' rid = Some r \<and> ur_src r = src)"
      using dispatch_known [OF st(2,3) p(3,2) hl(1,2,4) True p(4,5) st(5), of E h pt] dt by auto
    then show ?thesis using st(1,4) True by (auto simp: forwarded_def sent_as_def)
  next
    case False
    then obtain n q where n: "d = Name n q" by (cases d) auto
    have hn: "c_str h = c_str (n @ [0])" "c_str pt = dec_str (port_of q)"
    proof -
      have "256 - length n = Suc (255 - length n)" using d(2) n by auto
      then show "c_str h = c_str (n @ [0])" "c_str pt = dec_str (port_of q)"
        using name n c_str_zeros [of n "255 - length n"] c_str_zeros [of n 0] by simp_all
    qed
    have rd: "mem_read (buf_data b2) (dest_len d) (buf_len b2 - dest_len d) = Inr data"
      using hl(1,2) dt by (simp add: drop_take)
    obtain s' x y where "udp_ask E sid ro src (buf_data b2) (dest_len d) h pt data u = Inr s'"
       "up_trace s' = up_trace u @ [Asked (up_next u) (c_str h) (htons (atoi (c_str pt)))]"
       "up_queries s' (up_next u) = Some x" "uq_src x = src" "uq_buf x = Some y" "take (buf_len y) (buf_data y) = data"
      using ask_inv [OF st(2,3) p(3,2), of "dest_len d" "buf_data b2" E ro h pt data] hl by auto
    moreover from this have "udp_dispatch E io sid ro src b2 (dest_len d) h pt ?dst u = Inr s'"
      using False rd by (cases ro) (simp_all add: udp_dispatch_def)
    ultimately show ?thesis
      using st(1,4) False n hn by (auto simp: forwarded_def atoi_dec htons_def content_def)
  qed
qed

end

lemma forward_exact:
  assumes world: "udp_world L ci w" and E: "E = udp_env L ci ip_parse pton4 ntop hfind bl l4 l6 junk" "udp_libs E"
    and inv: "uinv (udp_world L ci) H {} {} s"
    and seal: "world_wf wc" "recv_wf pb" "recv_bytes pb = header_of d @ data" "dest_ok d"
      "aead_encrypt_all L wc pb ci cap = Inr (CRYPTO_OK, cb, wc')"
      "\<not> pp_covers (cw_pp (up_world s)) (fst (rand_bytes wc (ci_key_len ci)))"
    and io: "uenabled s (From_client io sid)" "uio_recv io = Some (src, recv_bytes cb)" "uio_socket io" "uio_bind io"
  shows "\<exists>s'. uhandle E (From_client io sid) s = Inr s' \<and> forwarded E io src d data s s'"
proof -
  have w: "lib_ok L" "cipher_ok ci" "mbedtls_compat L ci" using world by (simp_all add: udp_world_def)
  let ?H = "insert (sid, src) H"
  have i: "uinv (udp_world L ci) ?H {} {} s" by (rule uinv_mono [OF inv]) auto
  then have ws: "world_wf (up_world s)" by (simp add: uinv_def udp_world_def)
  define salt where "salt = fst (rand_bytes wc (ci_key_len ci))"
  define c where "c = session_seal L (ci, subkey L ci salt) (zero_nonce ci) (recv_bytes pb)"
  have cb: "recv_bytes cb = salt @ c" "recv_wf cb"
    using aead_encrypt_all_ok [OF w seal(1,2), of cap] seal(5) by (auto simp: salt_def c_def)
  note sok = subkey_session [OF w(1,2), of salt]
  have lc: "length c = length (recv_bytes pb) + 16" "length (recv_bytes pb) > 0"
    using ses.length_seal [OF sok] dest_len_bounds [OF seal(4)] seal(3) by (simp_all add: c_def header_of_def)
  obtain sv where sv: "up_servers s sid = Some sv" and iok: "uio_ok (up_buf_size s) io" using io(1) by (auto split: option.splits)
  then have len: "int (length (recv_bytes cb)) \<le> max 0 (up_buf_size s)" "length src = STORAGE_SIZE"
    using io(2) by (auto simp: uio_ok_def)
  have pos: "0 \<le> up_buf_size s" using len(1) cb(1) lc by auto
  obtain b where b: "recv_buf (ue_junk E) (up_buf_size s) (recv_bytes cb) = Inr b" "pkt_ok b" "content b = recv_bytes cb"
    by (rule recv_buf_ok [of "recv_bytes cb" "up_buf_size s" "ue_junk E"]) (use len(1) pos in simp_all)
  have pb': "recv_wf b" "recv_bytes b = salt @ c" "length salt = ci_key_len ci"
    using b(2,3) cb(1) by (simp_all add: pkt_recv salt_def)
  obtain b2 w2 where d: "aead_decrypt_all L (up_world s) b ci (nat (up_buf_size s)) = Inr (CRYPTO_OK, b2, w2)" "recv_wf b2"
      "recv_bytes b2 = recv_bytes pb" "world_wf w2"
    using aead_decrypt_all_spec [OF w ws pb', of "nat (up_buf_size s)"] lc seal(6) ses.unseal_seal [OF sok]
    by (auto simp: salt_def [symmetric] c_def)
  show ?thesis
    using udp.client_forwards [OF E(2) [unfolded E(1)] i sv io(2) len(2) _ io(3,4), of b b2 w2 d data] b(1) d seal(3,4) w E(1)
    by (simp add: pkt_recv udp_env_def udp_world_def CRYPTO_OK_def)
qed

text \<open>
  What a client means by a destination, in terms of the numeric parser alone: the address itself, the
  address a name spells, or the name.
\<close>

fun meant_dest :: "'w uenv \<Rightarrow> udest \<Rightarrow> udest" where
  "meant_dest E (Name n p) =
     (case ue_ip_parse E (c_str (n @ [0])) of Some (V4 a) \<Rightarrow> Ip4 a p | Some (V6 a) \<Rightarrow> Ip6 a p | None \<Rightarrow> Name n p)"
| "meant_dest E d = d"

text \<open>
  \<open>inet_pton(AF_INET)\<close>, which writes the address of a numeric name, reads the name as the parser did. It
  does not for an IPv6 address, nor for a dotted one it does not accept.
\<close>

fun read_alike :: "'w uenv \<Rightarrow> udest \<Rightarrow> bool" where
  "read_alike E (Name n p) =
     (case ue_ip_parse E (c_str (n @ [0])) of
        Some (V4 a) \<Rightarrow> ue_pton4 E (c_str (n @ [0])) = Some a | Some (V6 _) \<Rightarrow> False | None \<Rightarrow> True)"
| "read_alike E d = True"

definition reaches :: "uio \<Rightarrow> bytes \<Rightarrow> udest \<Rightarrow> bytes \<Rightarrow> 'w up \<Rightarrow> 'w up \<Rightarrow> bool" where
  "reaches io src d data s s' \<longleftrightarrow>
     (let leaves = (\<lambda>dst. \<exists>rid. sent_as (uio_send io) (To_remote rid dst data) s s' \<and>
                      (uio_send io \<longrightarrow> (\<exists>r. up_remotes s' rid = Some r \<and> ur_src r = src)))
      in case d of
           Ip4 a p \<Rightarrow> leaves (storage4 a p)
         | Ip6 a p \<Rightarrow> leaves (storage6 a p)
         | Name n p \<Rightarrow>
             \<exists>qid q b. up_trace s' = up_trace s @ [Asked qid (c_str (n @ [0])) (bswap16 (of_nat (port_of p)))] \<and>
               up_queries s' qid = Some q \<and> uq_src q = src \<and> uq_buf q = Some b \<and> content b = data)"

lemma forwarded_reaches: "forwarded E io src d data s s' \<Longrightarrow> read_alike E d \<Longrightarrow> reaches io src (meant_dest E d) data s s'"
  by (cases d) (auto simp: forwarded_def reaches_def name_storage_def Let_def AF_UNSPEC_def AF_INET_def AF_INET6_def
      split: option.splits cork_ip.splits)

text \<open>
  C11. A datagram sealed with \<open>aead_encrypt_all\<close> under the server's key, with a salt the server has not
  recorded, is forwarded exactly: when it holds a header for \<open>d\<close> and a payload, then in every reachable
  state the payload alone leaves for the address \<open>d\<close> is or spells, from the socket of a session of the
  sending client; for any other name exactly that name is looked up with exactly that port, and the
  payload waits for it. Names that spell an IPv6 address, or a dotted address \<open>inet_pton\<close> does not
  accept, are excepted by \<open>read_alike\<close>; \<open>udp_numeric_name_misrouted\<close> shows where those go.
\<close>

theorem udp_forward_exact:
  assumes "udp_world L ci w" "E = udp_env L ci ip_parse pton4 ntop hfind bl l4 l6 junk" "udp_libs E"
    and "ureach E (usetup xs (up_start w)) es s"
    and seal: "world_wf wc" "recv_wf pb" "recv_bytes pb = header_of d @ data" "dest_ok d"
      "aead_encrypt_all L wc pb ci cap = Inr (CRYPTO_OK, cb, wc')"
      "\<not> pp_covers (cw_pp (up_world s)) (fst (rand_bytes wc (ci_key_len ci)))"
    and io: "uenabled s (From_client io sid)" "uio_recv io = Some (src, recv_bytes cb)" "uio_socket io" "uio_bind io"
    and "read_alike E d"
  shows "\<exists>s'. uhandle E (From_client io sid) s = Inr s' \<and> reaches io src (meant_dest E d) data s s'"
  using forward_exact [OF assms(1-3) udp_reach [OF assms(1-4)] seal io] forwarded_reaches assms(15) by blast

text \<open>
  A name that spells an IPv6 address, which \<open>inet_pton(AF_INET)\<close> does not accept, is taken as an address,
  but the bytes of the address are never written: the payload leaves for the address \<open>::\<close> with the
  port of the header.
\<close>

theorem udp_numeric_name_misrouted:
  assumes "udp_world L ci w" "E = udp_env L ci ip_parse pton4 ntop hfind bl l4 l6 junk" "udp_libs E"
    and "ureach E (usetup xs (up_start w)) es s"
    and seal: "world_wf wc" "recv_wf pb" "recv_bytes pb = header_of (Name n p) @ data" "dest_ok (Name n p)"
      "aead_encrypt_all L wc pb ci cap = Inr (CRYPTO_OK, cb, wc')"
      "\<not> pp_covers (cw_pp (up_world s)) (fst (rand_bytes wc (ci_key_len ci)))"
    and io: "uenabled s (From_client io sid)" "uio_recv io = Some (src, recv_bytes cb)" "uio_socket io" "uio_bind io"
    and num: "ip_parse (c_str (n @ [0])) = Some (V6 a)" "pton4 (c_str (n @ [0])) = None"
  shows "\<exists>s'. uhandle E (From_client io sid) s = Inr s' \<and> reaches io src (Ip6 (replicate 16 0) p) data s s'"
proof -
  obtain s' where s': "uhandle E (From_client io sid) s = Inr s'" "forwarded E io src (Name n p) data s s'"
    using forward_exact [OF assms(1-3) udp_reach [OF assms(1-4)] seal io] by blast
  have "name_storage E n p = storage6 (replicate 16 0) p" using num assms(2) by (simp add: name_storage_def udp_env_def)
  then have "reaches io src (Ip6 (replicate 16 0) p) data s s'" using s'(2) by (simp add: forwarded_def reaches_def)
  with s'(1) show ?thesis by blast
qed

section \<open>Replies\<close>

text \<open>What goes in front of a reply: the header of its sender, nothing for an unknown family.\<close>

definition reply_header :: "bytes \<Rightarrow> bytes" where
  "reply_header src =
     (if raw_family src = AF_INET \<or> raw_family src = AF_INET6 then header_of (storage_dest src) else [])"

lemma reply_sends:
  assumes r: "up_remotes s rid = Some r" "ur_server r = Some sid" "up_servers s sid = Some sv"
    and p: "uio_recv io = Some (src, data)" "length src = STORAGE_SIZE" "uio_send io"
    and b: "recv_buf (ue_junk E) (up_buf_size s) data = Inr b" "pkt_ok b" "content b = data"
    and enc: "\<And>b1. pkt_ok b1 \<Longrightarrow> content b1 = reply_header src @ data \<Longrightarrow>
      \<exists>b2 w2. ue_encrypt_all E (up_world s) b1 (nat (up_buf_size s)) = Inr (0, b2, w2) \<and> pkt_ok b2 \<and> content b2 = out"
  shows "\<exists>s'. udp_remote_recv_cb E io rid s = Inr s' \<and> up_trace s' = up_trace s @ [To_client sid (ur_src r) out] \<and>
           up_remotes s' = (up_remotes s)(rid \<mapsto> r\<lparr>ur_timer := True\<rparr>)"
proof -
  let ?h0 = "fresh_block (ue_junk E) 0 MAX_ADDR_HEADER_SIZE"
  obtain hlen h where h: "construct_udprelay_header src ?h0 = Inr (hlen, h)" "hlen \<le> length h" "take hlen h = reply_header src"
    using construct_ok [OF p(2), of ?h0] dest_len_bounds [of "storage_dest src"]
    by (auto simp: reply_header_def split: if_splits)
  obtain b1 where b1: "prepend_header (ue_junk E) b hlen h (nat (up_buf_size s)) = Inr b1" "pkt_ok b1"
      "content b1 = reply_header src @ data"
    using prepend_ok [OF b(2) h(2)] h(3) b(3) by metis
  obtain b2 w2 where e: "ue_encrypt_all E (up_world s) b1 (nat (up_buf_size s)) = Inr (0, b2, w2)" "pkt_ok b2" "content b2 = out"
    using enc [OF b1(2,3)] by blast
  have "buf_len b2 \<le> length (buf_data b2)" "take (buf_len b2) (buf_data b2) = out"
    using e(2,3) by (simp_all add: pkt_ok_def content_def)
  then show ?thesis
    using r p(1,3) b(1) h(1) b1(1) e(1) by (simp add: udp_remote_recv_cb_def utrace_def)
qed

lemma reply_exact:
  assumes world: "udp_world L ci w" and E: "E = udp_env L ci ip_parse pton4 ntop hfind bl l4 l6 junk"
    and i: "uinv (udp_world L ci) H {} {} s"
    and io: "uenabled s (From_remote io rid)" "uio_recv io = Some (src, data)" "uio_send io" "data \<noteq> []"
    and salt: "salt = fst (rand_bytes (up_world s) (ci_key_len ci))"
  shows "\<exists>s' r sid. up_remotes s rid = Some r \<and> ur_server r = Some sid \<and> uhandle E (From_remote io rid) s = Inr s' \<and>
           up_trace s' = up_trace s @ [To_client sid (ur_src r)
             (salt @ session_seal L (ci, subkey L ci salt) (zero_nonce ci) (reply_header src @ data))] \<and>
           up_remotes s' = (up_remotes s)(rid \<mapsto> r\<lparr>ur_timer := True\<rparr>)"
proof -
  have w: "lib_ok L" "cipher_ok ci" "mbedtls_compat L ci" using world by (simp_all add: udp_world_def)
  have ws: "world_wf (up_world s)" using i by (simp add: uinv_def udp_world_def)
  obtain r where r: "up_remotes s rid = Some r" and iok: "uio_ok (up_buf_size s) io" using io(1) by (auto split: option.splits)
  obtain sid sv where o: "ur_server r = Some sid" "up_servers s sid = Some sv" by (rule uinv_remote [OF i r]) blast
  have d: "int (length data) \<le> up_buf_size s" "length src = STORAGE_SIZE" "0 \<le> up_buf_size s"
    using iok io(2,4) by (auto simp: uio_ok_def max_def split: if_splits)
  obtain b where b: "recv_buf (ue_junk E) (up_buf_size s) data = Inr b" "pkt_ok b" "content b = data"
    by (rule recv_buf_ok [OF d(1,3)])
  have "\<exists>b2 w2. ue_encrypt_all E (up_world s) b1 (nat (up_buf_size s)) = Inr (0, b2, w2) \<and> pkt_ok b2 \<and>
      content b2 = salt @ session_seal L (ci, subkey L ci salt) (zero_nonce ci) (reply_header src @ data)"
    if "pkt_ok b1" "content b1 = reply_header src @ data" for b1
    using aead_encrypt_all_ok [OF w ws, of b1 "nat (up_buf_size s)"] that E
    by (auto simp: pkt_recv udp_env_def CRYPTO_OK_def salt)
  from reply_sends [OF r o io(2) d(2) io(3) b this] show ?thesis using r o by auto
qed

text \<open>
  C12. A datagram that comes back for a session is relayed exactly: it goes to the session's client
  alone, as a packet with a fresh salt that seals the header of its sender and its bytes. The
  session's timer runs afterwards (it is restarted; the model keeps only whether it runs).
\<close>

theorem udp_reply_exact:
  assumes "udp_world L ci w" "E = udp_env L ci ip_parse pton4 ntop hfind bl l4 l6 junk" "udp_libs E"
    and "ureach E (usetup xs (up_start w)) es s"
    and io: "uenabled s (From_remote io rid)" "uio_recv io = Some (src, data)" "uio_send io" "data \<noteq> []"
    and salt: "salt = fst (rand_bytes (up_world s) (ci_key_len ci))"
  shows "\<exists>s' r sid. up_remotes s rid = Some r \<and> ur_server r = Some sid \<and> uhandle E (From_remote io rid) s = Inr s' \<and>
           up_trace s' = up_trace s @ [To_client sid (ur_src r)
             (salt @ session_seal L (ci, subkey L ci salt) (zero_nonce ci) (reply_header src @ data))] \<and>
           up_remotes s' = (up_remotes s)(rid \<mapsto> r\<lparr>ur_timer := True\<rparr>)"
  by (rule reply_exact [OF assms(1,2) udp_reach [OF assms(1-4)] io salt])

section \<open>Stopping\<close>

text \<open>The sessions a context owns, in the order its cache frees them.\<close>

definition owned_by :: "'w up \<Rightarrow> nat \<Rightarrow> nat list" where
  "owned_by s sid = map (\<lambda>e. the (ce_data e)) (entries s sid)"

lemma free_cbs_eq:
  assumes "distinct (map snd fs)" "\<forall>rid \<in> set (map snd fs). up_remotes s rid \<noteq> None"
  shows "udp_free_cbs fs s = Inr (s\<lparr>up_remotes := (\<lambda>rid. if rid \<in> set (map snd fs) then None else up_remotes s rid),
           up_trace := up_trace s @ map (Closed_session \<circ> snd) fs\<rparr>)"
  using assms
proof (induction fs arbitrary: s)
  case (Cons f fs)
  obtain k rid where f: "f = (k, rid)" by (cases f)
  then obtain r where r: "up_remotes s rid = Some r" using Cons.prems(2) by auto
  have "udp_free_cbs fs (closed_state rid s) = Inr ((closed_state rid s)\<lparr>
      up_remotes := (\<lambda>p. if p \<in> set (map snd fs) then None else up_remotes (closed_state rid s) p),
      up_trace := up_trace (closed_state rid s) @ map (Closed_session \<circ> snd) fs\<rparr>)"
    using Cons.prems f by (intro Cons.IH) (auto simp: closed_state_def)
  then show ?case
    using f r by (simp add: close_eq) (auto simp: closed_state_def fun_eq_iff)
qed (simp add: fun_eq_iff)

lemma delete_frees:
  assumes "\<forall>e \<in> set es. ce_data e \<noteq> None"
  shows "map snd (concat (map cache_free_data es)) = map (\<lambda>e. the (ce_data e)) es"
  using assms by (induction es) (auto simp: cache_free_data_def)

text \<open>What shutting down the remaining contexts needs.\<close>

definition stopping :: "nat list \<Rightarrow> 'w up \<Rightarrow> bool" where
  "stopping sids s \<longleftrightarrow>
     distinct sids \<and> (\<forall>sid. up_servers s sid \<noteq> None \<longleftrightarrow> sid \<in> set sids) \<and>
     (\<forall>sid \<in> set sids. \<exists>c. \<exists>sv. up_servers s sid = Some sv \<and> us_cache sv = Some c \<and> (\<forall>e \<in> set (c_entries c). ce_data e \<noteq> None)) \<and>
     distinct (concat (map (owned_by s) sids)) \<and>
     (\<forall>rid. up_remotes s rid \<noteq> None \<longleftrightarrow> rid \<in> set (concat (map (owned_by s) sids)))"

lemma free_contexts_stops:
  "stopping sids s \<Longrightarrow> \<exists>s'. free_contexts sids s = Inr s' \<and> up_servers s' = Map.empty \<and> up_remotes s' = Map.empty \<and> up_list s' = []"
proof (induction sids arbitrary: s)
  case Nil
  then have "\<forall>sid. up_servers s sid = None" "\<forall>rid. up_remotes s rid = None" by (auto simp: stopping_def)
  then show ?case by (auto simp: fun_eq_iff)
next
  case (Cons sid sids)
  note st = Cons.prems [unfolded stopping_def]
  obtain sv c where sv: "up_servers s sid = Some sv" "us_cache sv = Some c" "\<forall>e \<in> set (c_entries c). ce_data e \<noteq> None"
    using st by auto
  define fs where "fs = concat (map cache_free_data (c_entries c))"
  have fs: "map snd fs = owned_by s sid"
    using delete_frees [OF sv(3)] sv(1,2) by (simp add: fs_def owned_by_def entries_def)
  let ?s = "utrace (Closed_listen sid) s"
  let ?t = "?s\<lparr>up_remotes := (\<lambda>rid. if rid \<in> set (map snd fs) then None else up_remotes ?s rid),
           up_trace := up_trace ?s @ map (Closed_session \<circ> snd) fs\<rparr>"
  let ?u = "?t\<lparr>up_servers := (up_servers ?t)(sid := None)\<rparr>"
  have f: "udp_free_cbs fs ?s = Inr ?t" by (rule free_cbs_eq) (use st fs in auto)
  have cd: "snd (cache_delete (us_cache sv) False) = fs"
    using cache_iter_free_snd [of "\<lambda>_. True" "c_entries c"] sv(2) by (simp add: cache_delete_def fs_def)
  have own: "owned_by ?u p = owned_by s p" if "p \<in> set sids" for p
    using that st by (auto simp: owned_by_def entries_def utrace_def)
  then have owns: "map (owned_by ?u) sids = map (owned_by s) sids" by simp
  have "stopping sids ?u"
    unfolding stopping_def owns
  proof (intro conjI allI ballI)
    show "\<exists>c sv. up_servers ?u p = Some sv \<and> us_cache sv = Some c \<and> (\<forall>e \<in> set (c_entries c). ce_data e \<noteq> None)"
      if "p \<in> set sids" for p using that st by (auto simp: utrace_def)
    show "up_remotes ?u rid \<noteq> None \<longleftrightarrow> rid \<in> set (concat (map (owned_by s) sids))" for rid
      using st fs by (auto simp: utrace_def)
  qed (use st in \<open>auto simp: utrace_def\<close>)
  then show ?case
    using Cons.IH [of ?u] sv(1) cd f by auto
qed

lemma distinct_concat_map:
  assumes "distinct xs" "\<And>x. distinct (f x)" "\<And>x y. x \<noteq> y \<Longrightarrow> set (f x) \<inter> set (f y) = {}"
  shows "distinct (concat (map f xs))"
  using assms(1)
proof (induction xs)
  case (Cons x xs)
  have "set (f x) \<inter> set (concat (map f xs)) = {}" using assms(3) [of x] Cons.prems by fastforce
  then show ?case using Cons assms(2) by simp
qed simp

lemma uinv_stopping:
  assumes i: "uinv W H {} {} s"
  shows "stopping (up_list s) s"
  unfolding stopping_def
proof (intro conjI allI ballI)
  show "distinct (up_list s)" "up_servers s sid \<noteq> None \<longleftrightarrow> sid \<in> set (up_list s)" for sid
    using i by (auto simp: uinv_def list_ok_def)
  show "\<exists>c sv. up_servers s sid = Some sv \<and> us_cache sv = Some c \<and> (\<forall>e \<in> set (c_entries c). ce_data e \<noteq> None)"
    if sid: "sid \<in> set (up_list s)" for sid
  proof -
    obtain sv where sv: "up_servers s sid = Some sv" using i sid by (auto simp: uinv_def list_ok_def)
    obtain es where es: "us_cache sv = Some \<lparr>c_max_entries = MAX_UDP_CONN_NUM, c_entries = es\<rparr>"
        "\<And>e. e \<in> set es \<Longrightarrow> entry_ok s sid e"
      using uinv_server [OF i sv] by metis
    have "\<forall>e \<in> set es. ce_data e \<noteq> None" using es(2) by (fastforce simp: entry_ok_def)
    then show ?thesis using sv es(1) by auto
  qed
  have some: "ce_data e \<noteq> None" if "e \<in> set (entries s sid)" for e sid
    using uinv_entry [OF i that] by (metis option.distinct(1))
  have mem: "rid \<in> set (owned_by s sid) \<longleftrightarrow> (\<exists>e \<in> set (entries s sid). ce_data e = Some rid)" for rid sid
    using some by (force simp: owned_by_def)
  have d1: "distinct (owned_by s sid)" for sid
  proof -
    have "distinct (map ce_key (entries s sid))"
    proof (cases "up_servers s sid")
      case (Some sv)
      show ?thesis by (rule uinv_server [OF i Some]) simp
    qed (simp add: entries_def)
    moreover have "inj_on (\<lambda>e. the (ce_data e)) (set (entries s sid))"
      by (rule inj_onI) (metis some uinv_entry_unique [OF i] option.expand)
    ultimately show ?thesis by (simp add: owned_by_def distinct_map)
  qed
  have disj: "set (owned_by s p) \<inter> set (owned_by s q) = {}" if "p \<noteq> q" for p q
  proof -
    have False if r: "rid \<in> set (owned_by s p)" "rid \<in> set (owned_by s q)" for rid
    proof -
      obtain e e' where "e \<in> set (entries s p)" "ce_data e = Some rid" "e' \<in> set (entries s q)" "ce_data e' = Some rid"
        using r mem by blast
      then show False using uinv_entry_unique [OF i, of e p e' q] \<open>p \<noteq> q\<close> by simp
    qed
    then show ?thesis by blast
  qed
  show "distinct (concat (map (owned_by s) (up_list s)))"
    by (rule distinct_concat_map) (use i d1 disj in \<open>auto simp: uinv_def list_ok_def\<close>)
  show "up_remotes s rid \<noteq> None \<longleftrightarrow> rid \<in> set (concat (map (owned_by s) (up_list s)))" for rid
  proof
    assume "up_remotes s rid \<noteq> None"
    then obtain r where r: "up_remotes s rid = Some r" by blast
    have "cached s rid" by (rule uinv_remote [OF i r]) simp
    then obtain sid e where e: "e \<in> set (entries s sid)" "ce_data e = Some rid" by (auto simp: cached_def)
    then have "sid \<in> set (up_list s)" using uinv_entry [OF i e(1)] i by (metis list_ok_def option.distinct(1) uinv_def)
    then show "rid \<in> set (concat (map (owned_by s) (up_list s)))" using e mem by auto
  next
    assume "rid \<in> set (concat (map (owned_by s) (up_list s)))"
    then obtain sid e where "e \<in> set (entries s sid)" "ce_data e = Some rid" using mem by auto
    then show "up_remotes s rid \<noteq> None" using uinv_entry [OF i] by (metis option.distinct(1) option.inject)
  qed
qed

text \<open>
  C21. \<open>free_udprelay\<close> ends in every reachable state without a fault: every listening context and every
  session is closed and freed, once each.
\<close>

theorem udp_shutdown:
  assumes "udp_world L ci w" "E = udp_env L ci ip_parse pton4 ntop hfind bl l4 l6 junk" "udp_libs E"
    and "ureach E (usetup xs (up_start w)) es s"
  shows "\<exists>s'. free_udprelay s = Inr s' \<and> up_servers s' = Map.empty \<and> up_remotes s' = Map.empty \<and> up_list s' = []"
  unfolding free_udprelay_def
  by (rule free_contexts_stops [OF uinv_stopping [OF udp_reach [OF assms]]])

end
