(* ===== verification/Udprelay_Runs.thy ===== *)
theory Udprelay_Runs
  imports Udprelay_Props
begin

text \<open>
  Concrete runs of the UDP relay: one that reaches freed memory, and the inputs at which the
  hypotheses of the properties hold.
\<close>

section \<open>A run to freed memory\<close>

text \<open>The state after a list of events, when every one is enabled and none faults.\<close>

fun urun :: "'w uenv \<Rightarrow> uev list \<Rightarrow> 'w up \<Rightarrow> 'w up option" where
  "urun E [] s = Some s"
| "urun E (e # es) s =
     (if uenabled s e then case uhandle E e s of Inr s' \<Rightarrow> urun E es s' | Inl _ \<Rightarrow> None else None)"

lemma urun_from: "ureach E s0 es s \<Longrightarrow> urun E fs s = Some t \<Longrightarrow> ureach E s0 (es @ fs) t"
proof (induction fs arbitrary: es s)
  case (Cons f fs)
  then obtain s' where "uenabled s f" "uhandle E f s = Inr s'" "urun E fs s' = Some t"
    by (auto split: if_splits sum.splits)
  then show ?case using Cons.IH [OF ureach_step [OF Cons.prems(1)]] by simp
qed simp

lemma urun_reach: "urun E es s0 = Some s \<Longrightarrow> ureach E s0 es s"
  using urun_from [OF ureach_start, of E es s0 s] by simp

definition io_quiet :: uio where
  "io_quiet = \<lparr>uio_recv = None, uio_send = True, uio_again = False, uio_socket = True, uio_bind = True, uio_now = 1\<rparr>"

definition client1 :: bytes where
  "client1 = storage4 [9, 9, 9, 9] [0, 7]"

text \<open>A datagram for port 53 of the host \<open>a\<close>, and the answer \<open>1.2.3.4\<close>.\<close>

definition io_name :: uio where
  "io_name = io_quiet\<lparr>uio_recv := Some (client1, [3, 1, 97, 0, 53, 42, 0])\<rparr>"

definition answer1 :: bytes where
  "answer1 = take 16 (storage4 [1, 2, 3, 4] [0, 53])"

definition udp_relay1 :: "nat up" where
  "udp_relay1 = usetup [(True, 100, 60)] (up_start 0)"

text \<open>
  The first lookup opens session 2 for client 1; the second is made while it is open and keeps its
  address; then the session times out.
\<close>

definition run1 :: "uev list" where
  "run1 = [From_client io_name 0, Answered io_quiet (Some answer1) 1, From_client io_name 0, Timeout 2]"


text \<open>What the first packet becomes on its way.\<close>

definition pkt1 :: buffer where
  "pkt1 = \<lparr>buf_idx = 0, buf_len = 6, buf_capacity = 10, buf_data = [3, 1, 97, 0, 53, 42, 0, 0, 0, 0]\<rparr>"

definition query1 :: "nat option \<Rightarrow> uquery" where
  "query1 ro = \<lparr>uq_src = client1, uq_buf = Some \<lparr>buf_idx = 0, buf_len = 1, buf_capacity = 1, buf_data = [42]\<rparr>,
     uq_addr_header_len = 5, uq_addr_header = [3, 1, 97, 0, 53] @ replicate 254 0, uq_server = Some 0, uq_remote = ro\<rparr>"

lemma recv1: "recv_buf (ue_junk uenv1) 10 [3, 1, 97, 0, 53, 42, 0] = Inr (pkt1\<lparr>buf_len := 7\<rparr>)"
  by (simp add: recv_buf_def balloc_def fresh_block_def buffer_null_def uenv1_def pkt1_def upt_rec)

lemma parse1:
  "parse_udprelay_header uenv1 (buf_data pkt1) 6 (Some (replicate UDP_MAX_HOSTNAME_LEN 0)) (Some (replicate MAX_PORT_STR_LEN 0))
     (Some (replicate STORAGE_SIZE 0)) =
   Inr (5, Some (97 # replicate 255 0), Some [53, 51, 0, 0, 0, 0], Some (replicate STORAGE_SIZE 0))"
  by code_simp

lemma ask1:
  "udp_ask uenv1 0 ro client1 (buf_data pkt1) 5 (97 # replicate 255 0) [53, 51, 0, 0, 0, 0] [42] s =
   Inr (utrace (Asked (up_next s) [97] 13568)
     (s\<lparr>up_next := up_next s + 1, up_queries := (up_queries s)(up_next s \<mapsto> query1 ro)\<rparr>))"
proof -
  have "new_query_ctx (ue_junk uenv1) [42] = Inr \<lparr>uq_src = replicate STORAGE_SIZE 0,
      uq_buf = Some \<lparr>buf_idx = 0, buf_len = 1, buf_capacity = 1, buf_data = [42]\<rparr>, uq_addr_header_len = 0,
      uq_addr_header = replicate MAX_ADDR_HEADER_SIZE 0, uq_server = None, uq_remote = None\<rparr>"
    by (simp add: new_query_ctx_def balloc_def fresh_block_def buffer_null_def uenv1_def)
  moreover have "htons (atoi [53, 51]) = 13568" by code_simp
  ultimately show ?thesis
    by (simp add: udp_ask_def pkt1_def query1_def c_str_def Let_def MAX_ADDR_HEADER_SIZE_def)
qed


text \<open>The states of the run: cache entries, sessions, queries, next address, bytes received, output.\<close>

definition run_state ::
    "(nat, int) cache_entry list \<Rightarrow> (nat \<Rightarrow> uremote option) \<Rightarrow> (nat \<Rightarrow> uquery option) \<Rightarrow> nat \<Rightarrow> u64 \<Rightarrow> udp_out list \<Rightarrow> nat up" where
  "run_state es rs qs n tx tr =
     \<lparr>up_servers = [0 \<mapsto> \<lparr>us_io = True, us_timeout = 60, us_cache = Some \<lparr>c_max_entries = MAX_UDP_CONN_NUM, c_entries = es\<rparr>\<rparr>],
      up_remotes = rs, up_queries = qs, up_list = [0], up_next = n, up_packet_size = 5, up_buf_size = 10, up_world = 0,
      up_tx = tx, up_rx = 0, up_trace = tr\<rparr>"

definition session1 :: uremote where
  "session1 = \<lparr>ur_io = True, ur_timer = True, ur_af = AF_UNSPEC, ur_src = client1,
     ur_dst = answer1 @ replicate 112 0, ur_server = Some 0\<rparr>"

definition entry1 :: "(nat, int) cache_entry" where
  "entry1 = \<lparr>ce_key = hash_key AF_UNSPEC client1, ce_data = Some 2, ce_ts = 1\<rparr>"

lemma client1_length: "length client1 = 128"
  by (simp add: client1_def storage4_def le16_def)

lemma udp_relay1_state: "udp_relay1 = run_state [] Map.empty Map.empty 1 0 []"
  by (simp add: udp_relay1_def init_udprelay_def cache_create_def up_start_def run_state_def PACKET_HEADER_SIZE_def
      MIN_UDP_TIMEOUT_def Let_def)

lemma name_step:
  assumes "es = [] \<and> ro = None \<or> es = [entry1] \<and> ro = Some 2 \<and> rs 2 = Some session1"
  shows "uenabled (run_state es rs qs n tx tr) (From_client io_name 0) \<and>
    uhandle uenv1 (From_client io_name 0) (run_state es rs qs n tx tr) =
      Inr (run_state es rs (qs(n \<mapsto> query1 ro)) (n + 1) (tx + 7) (tr @ [Asked n [97] 13568]))"
proof -
  let ?s = "run_state es rs qs n tx tr"
  have en: "uenabled ?s (From_client io_name 0)"
    using client1_length by (simp add: uio_ok_def io_name_def io_quiet_def STORAGE_SIZE_def run_state_def)
  have dec: "ue_decrypt_all uenv1 w (pkt1\<lparr>buf_len := 7\<rparr>) m = Inr (0, pkt1, w)" for w m by (simp add: uenv1_def pkt1_def)
  have f: "ue_hfind uenv1 = find_first" by (simp add: uenv1_def)
  have b: "buf_len (pkt1\<lparr>buf_len := 7\<rparr>) = 7" "buf_len pkt1 = 6" by (simp_all add: pkt1_def)
  have z: "raw_family (replicate STORAGE_SIZE 0) = AF_UNSPEC" by (simp add: raw_family_def STORAGE_SIZE_def AF_UNSPEC_def)
  have rn: "uio_recv io_name = Some (client1, [3, 1, 97, 0, 53, 42, 0])" by (simp add: io_name_def)
  have d: "mem_read (buf_data pkt1) 5 (Suc 0) = Inr [42]" by (simp add: pkt1_def)
  have lk: "udp_cache_lookup uenv1 io_name 0 (hash_key AF_UNSPEC client1) (run_state es rs qs n (tx + 7) tr) =
      Inr (ro, run_state es rs qs n (tx + 7) tr)"
    using assms by (auto simp: udp_cache_lookup_def get_userver_def run_state_def cache_lookup_def f set_cache_def entry1_def
        cache_touch_def hash_del_def io_name_def io_quiet_def fun_eq_iff)
  have fields: "get_userver ?s (Some 0) = Inr (0, the (up_servers ?s 0))" "up_buf_size ?s = 10"
      "?s\<lparr>up_tx := up_tx ?s + 7, up_world := up_world ?s\<rparr> = run_state es rs qs n (tx + 7) tr"
    by (simp_all add: get_userver_def run_state_def)
  have h: "udp_server_recv_cb uenv1 io_name 0 ?s =
      bindr (case ro of None \<Rightarrow> Inr None | Some rid \<Rightarrow> bindr (get_uremote (run_state es rs qs n (tx + 7) tr) rid) (\<lambda>r.
           if sockaddr_cmp (sa_view client1) (sa_view (ur_src r)) STORAGE_SIZE \<noteq> 0 then Inr None else Inr (Some rid))) (\<lambda>ro.
      bindr (case ro of None \<Rightarrow> Inr (run_state es rs qs n (tx + 7) tr)
           | Some rid \<Rightarrow> upd_uremote rid (\<lambda>r. r\<lparr>ur_timer := True\<rparr>) (run_state es rs qs n (tx + 7) tr))
        (udp_dispatch uenv1 io_name 0 ro client1 pkt1 5 (97 # replicate 255 0) [53, 51, 0, 0, 0, 0] (replicate STORAGE_SIZE 0)))"
    by (simp add: udp_server_recv_cb_def fields rn recv1 b dec parse1 z lk Let_def)
  have a: "udp_dispatch uenv1 io_name 0 ro client1 pkt1 5 (97 # replicate 255 0) [53, 51, 0, 0, 0, 0] (replicate STORAGE_SIZE 0)
      (run_state es rs qs n (tx + 7) tr) = Inr (run_state es rs (qs(n \<mapsto> query1 ro)) (n + 1) (tx + 7) (tr @ [Asked n [97] 13568]))"
    using ask1 by (cases ro) (simp_all add: udp_dispatch_def b d z AF_UNSPEC_def AF_INET_def AF_INET6_def run_state_def utrace_def)
  have u: "upd_uremote 2 (\<lambda>r. r\<lparr>ur_timer := True\<rparr>) (run_state es rs qs n (tx + 7) tr) = Inr (run_state es rs qs n (tx + 7) tr)"
    if "rs 2 = Some session1"
    using that by (auto simp: upd_uremote_def get_uremote_def run_state_def session1_def)
  show ?thesis
    using assms en h a u by (auto simp: get_uremote_def sockaddr_cmp_refl session1_def run_state_def)
qed

lemma answer_step:
  "uenabled (run_state [] Map.empty [1 \<mapsto> query1 None] 2 tx tr) (Answered io_quiet (Some answer1) 1) \<and>
   uhandle uenv1 (Answered io_quiet (Some answer1) 1) (run_state [] Map.empty [1 \<mapsto> query1 None] 2 tx tr) =
     Inr (run_state [entry1] [2 \<mapsto> session1] Map.empty 3 tx (tr @ [To_remote 2 answer1 [42]]))"
proof -
  have a: "raw_family answer1 = AF_INET" "length answer1 = 16"
    by (simp_all add: answer1_def storage4_def le16_def raw_family_def AF_INET_def)
  have en: "uenabled (run_state [] Map.empty [1 \<mapsto> query1 None] 2 tx tr) (Answered io_quiet (Some answer1) 1)"
    using a by (simp add: run_state_def answer_block_def)
  have f: "ue_hfind uenv1 = find_first" "\<not> ue_bind_local uenv1" by (simp_all add: uenv1_def)
  have cr: "create_remote_socket uenv1 io_quiet b = Inr True" for b
    by (simp add: create_remote_socket_def bind_remote_def io_quiet_def f)
  have m: "mem_read answer1 0 16 = Inr answer1" "mem_write (replicate STORAGE_SIZE 0) 0 answer1 = Inr (answer1 @ replicate 112 0)"
    using a by (simp_all add: STORAGE_SIZE_def)
  have q: "uq_server (query1 ro) = Some 0" "uq_remote (query1 ro) = ro" "uq_src (query1 ro) = client1"
     "uq_buf (query1 ro) = Some \<lparr>buf_idx = 0, buf_len = 1, buf_capacity = 1, buf_data = [42]\<rparr>" for ro
    by (simp_all add: query1_def)
  have i: "uio_send io_quiet" "uio_now io_quiet = 1" by (simp_all add: io_quiet_def)
  have "uhandle uenv1 (Answered io_quiet (Some answer1) 1) (run_state [] Map.empty [1 \<mapsto> query1 None] 2 tx tr) =
     Inr (run_state [entry1] [2 \<mapsto> session1] Map.empty 3 tx (tr @ [To_remote 2 answer1 [42]]))"
    by (simp add: udp_resolved_def udp_resolv_cb_def get_uquery_def q run_state_def get_userver_def udp_cache_lookup_def
        cache_lookup_def f set_cache_def cr udp_new_remote_def upd_uremote_def get_uremote_def Let_def
        udp_resolv_send_def a m i utrace_def udp_start_session_def udp_cache_insert_def cache_insert_def
        MAX_UDP_CONN_NUM_def udp_resolv_free_cb_def entry1_def session1_def fun_eq_iff)
  then show ?thesis using en by blast
qed

lemma timeout_step:
  "uenabled (run_state [entry1] [2 \<mapsto> session1] qs n tx tr) (Timeout 2) \<and>
   uhandle uenv1 (Timeout 2) (run_state [entry1] [2 \<mapsto> session1] qs n tx tr) =
     Inr (run_state [] Map.empty qs n tx (tr @ [Closed_session 2]))"
proof -
  have f: "ue_hfind uenv1 = find_first" by (simp add: uenv1_def)
  show ?thesis
    by (simp add: run_state_def session1_def udp_remote_timeout_cb_def get_uremote_def get_userver_def udp_cache_remove_def
        cache_remove_def f entry1_def hash_del_def cache_free_data_def set_cache_def udp_close_and_free_remote_def
        upd_uremote_def utrace_def Let_def fun_eq_iff)
qed

text \<open>The whole run, and its end.\<close>

lemma run1_states:
  "urun uenv1 run1 udp_relay1 =
     Some (run_state [] Map.empty [3 \<mapsto> query1 (Some 2)] 4 14
       [Asked 1 [97] 13568, To_remote 2 answer1 [42], Asked 3 [97] 13568, Closed_session 2])"
  using name_step [of "[]" None Map.empty Map.empty 1 0 "[]"] answer_step [of 7 "[Asked 1 [97] 13568]"]
    name_step [of "[entry1]" "Some 2" "[2 \<mapsto> session1]" Map.empty 3 7 "[Asked 1 [97] 13568, To_remote 2 answer1 [42]]"]
    timeout_step [of "[3 \<mapsto> query1 (Some 2)]" 4 14 "[Asked 1 [97] 13568, To_remote 2 answer1 [42], Asked 3 [97] 13568]"]
  by (simp add: run1_def udp_relay1_state del: One_nat_def uenabled.simps uhandle.simps)

text \<open>
  C14. The UDP relay can reach freed memory: a lookup keeps the address of the session the client has
  when it is started (\<open>need_query\<close>), and nothing cancels it when that session times out; when its
  answer arrives, \<open>resolv_cb\<close> uses the freed session. One client that sends two datagrams to a host
  name and a slow resolver are enough.
\<close>

theorem udp_query_use_after_free:
  "\<exists>s. ureach uenv1 udp_relay1 run1 s \<and> uenabled s (Answered io_quiet (Some answer1) 3) \<and>
       stale_event s (Answered io_quiet (Some answer1) 3) \<and>
       uhandle uenv1 (Answered io_quiet (Some answer1) 3) s = Inl Dangling"
proof -
  let ?s = "run_state [] Map.empty [3 \<mapsto> query1 (Some 2)] 4 14
       [Asked 1 [97] 13568, To_remote 2 answer1 [42], Asked 3 [97] 13568, Closed_session 2]"
  have "answer_block answer1" by (simp add: answer_block_def answer1_def storage4_def le16_def raw_family_def AF_INET_def)
  then have "uenabled ?s (Answered io_quiet (Some answer1) 3)" "stale_event ?s (Answered io_quiet (Some answer1) 3)"
    by (simp_all add: run_state_def stale_event_def stale_query_def query1_def)
  moreover have "uhandle uenv1 (Answered io_quiet (Some answer1) 3) ?s = Inl Dangling"
    by (simp add: udp_resolved_def udp_resolv_cb_def get_uquery_def run_state_def get_userver_def query1_def udp_resolv_send_def get_uremote_def)
  ultimately show ?thesis using urun_reach [OF run1_states] by blast
qed


section \<open>The buffer size does not change\<close>

lemma close_buf: "udp_close_and_free_remote rid s = Inr s' \<Longrightarrow> up_buf_size s' = up_buf_size s"
  by (auto simp: udp_close_and_free_remote_def upd_uremote_def get_uremote_def utrace_def res_simps split: option.splits)

lemma free_cbs_buf: "udp_free_cbs fs s = Inr s' \<Longrightarrow> up_buf_size s' = up_buf_size s"
  by (induction fs s rule: udp_free_cbs.induct) (auto simp: res_simps dest!: close_buf)

lemma small_buf:
  "set_cache sid co s = Inr s' \<Longrightarrow> up_buf_size s' = up_buf_size s"
  "upd_uremote rid f s = Inr s' \<Longrightarrow> up_buf_size s' = up_buf_size s"
  "udp_cache_lookup E io sid key s = Inr (d, s') \<Longrightarrow> up_buf_size s' = up_buf_size s"
  by (auto simp: set_cache_def upd_uremote_def udp_cache_lookup_def res_simps split_beta Let_def)

lemma insert_buf: "udp_cache_insert io sid key rid s = Inr s' \<Longrightarrow> up_buf_size s' = up_buf_size s"
  by (auto simp: udp_cache_insert_def res_simps split_beta Let_def dest!: free_cbs_buf small_buf)

lemma start_buf: "udp_start_session io sid key rid s = Inr s' \<Longrightarrow> up_buf_size s' = up_buf_size s"
  by (auto simp: udp_start_session_def res_simps dest!: insert_buf small_buf)

lemma send_known_buf: "udp_send_known io sid hit rid dst data s = Inr s' \<Longrightarrow> up_buf_size s' = up_buf_size s"
  by (auto simp: udp_send_known_def Let_def utrace_def res_simps split: if_splits dest!: close_buf start_buf small_buf)

lemma ask_buf: "udp_ask E sid ro src buf hlen host port data s = Inr s' \<Longrightarrow> up_buf_size s' = up_buf_size s"
  by (auto simp: udp_ask_def Let_def utrace_def res_simps)

lemma dispatch_buf: "udp_dispatch E io sid ro src b hlen host port dst s = Inr s' \<Longrightarrow> up_buf_size s' = up_buf_size s"
  by (auto simp: udp_dispatch_def udp_new_remote_def Let_def res_simps split: option.splits if_splits
      dest!: send_known_buf ask_buf small_buf)

lemma recv_buf_size: "udp_server_recv_cb E io sid s = Inr s' \<Longrightarrow> up_buf_size s' = up_buf_size s"
  by (auto simp: udp_server_recv_cb_def Let_def res_simps split_beta split: option.splits if_splits
      dest!: dispatch_buf small_buf)


section \<open>Witnesses\<close>

definition udp_env0 :: "int crypto_world uenv" where
  "udp_env0 = udp_env lib_plain cipher_plain (\<lambda>_. None) (\<lambda>_. None) (\<lambda>_. []) find_first False 0 0 (\<lambda>_. 0)"

definition udp_relay0 :: "int crypto_world up" where
  "udp_relay0 = usetup [(True, 1500, 60)] (up_start world0)"

lemma udp_env0_ok: "udp_world lib_plain cipher_plain world0" "udp_libs udp_env0" "ureach udp_env0 udp_relay0 [] udp_relay0"
  using lib_plain_ok cipher_plain_ok world0_wf find_first_ok
  by (simp_all add: udp_world_def udp_libs_def text_ok_def udp_env0_def udp_env_def ureach_start)

lemma udp_relay0_fields:
  "up_servers udp_relay0 0 = Some \<lparr>us_io = True, us_timeout = 60, us_cache = Some \<lparr>c_max_entries = MAX_UDP_CONN_NUM, c_entries = []\<rparr>\<rparr>"
  "up_buf_size udp_relay0 = 2810" "up_world udp_relay0 = world0"
  by (simp_all add: udp_relay0_def init_udprelay_def cache_create_def up_start_def PACKET_HEADER_SIZE_def MIN_UDP_TIMEOUT_def Let_def)

theorem udp_memory_safe_witness:
  "(\<exists>s'. uhandle udp_env0 (From_client io_quiet 0) udp_relay0 = Inr s') \<or>
   (\<exists>f. uhandle udp_env0 (From_client io_quiet 0) udp_relay0 = Inl (Fatal f))"
  by (rule udp_memory_safe [OF udp_env0_ok(1) udp_env0_def udp_env0_ok(2) udp_env0_ok(3) [unfolded udp_relay0_def], folded udp_relay0_def])
    (simp_all add: udp_relay0_fields uio_ok_def io_quiet_def stale_event_def)

theorem udp_shutdown_witness:
  "\<exists>s'. free_udprelay udp_relay0 = Inr s' \<and> up_servers s' = Map.empty \<and> up_remotes s' = Map.empty \<and> up_list s' = []"
  by (rule udp_shutdown [OF udp_env0_ok(1) udp_env0_def udp_env0_ok(2) udp_env0_ok(3) [unfolded udp_relay0_def], folded udp_relay0_def])

text \<open>A datagram for \<open>1.2.3.4:53\<close>, sealed by a client.\<close>

definition dest0 :: udest where
  "dest0 = Ip4 [1, 2, 3, 4] [0, 53]"

definition io_from :: "buffer \<Rightarrow> uio" where
  "io_from b = io_quiet\<lparr>uio_recv := Some (client1, recv_bytes b)\<rparr>"

lemma sealed0:
  obtains cb wc where "aead_encrypt_all lib_plain world0 (buf_of (header_of dest0 @ [42])) cipher_plain 2048 = Inr (CRYPTO_OK, cb, wc)"
    "uenabled udp_relay0 (From_client (io_from cb) 0)"
proof -
  let ?salt = "fst (rand_bytes world0 (ci_key_len cipher_plain))"
  obtain cb wc where e: "aead_encrypt_all lib_plain world0 (buf_of (header_of dest0 @ [42])) cipher_plain 2048 = Inr (CRYPTO_OK, cb, wc)"
    "recv_bytes cb = ?salt @ session_seal lib_plain (cipher_plain, subkey lib_plain cipher_plain ?salt) (zero_nonce cipher_plain)
       (header_of dest0 @ [42])"
    using aead_encrypt_all_ok [OF lib_plain_ok cipher_plain_ok world0_wf, of "buf_of (header_of dest0 @ [42])" 2048] by auto
  have "length (recv_bytes cb) = 32 + (8 + 16)"
    using e(2) ses.length_seal [OF subkey_session [OF lib_plain_ok cipher_plain_ok(1), of ?salt]]
    by (simp add: cipher_plain_def header_of_def dest0_def)
  then have "uenabled udp_relay0 (From_client (io_from cb) 0)"
    by (simp add: udp_relay0_fields uio_ok_def io_from_def client1_length STORAGE_SIZE_def)
  with e(1) show ?thesis by (rule that)
qed

theorem udp_forward_exact_witness:
  "\<exists>cb wc. aead_encrypt_all lib_plain world0 (buf_of (header_of dest0 @ [42])) cipher_plain 2048 = Inr (CRYPTO_OK, cb, wc) \<and>
     (\<exists>s'. uhandle udp_env0 (From_client (io_from cb) 0) udp_relay0 = Inr s' \<and> reaches (io_from cb) client1 (meant_dest udp_env0 dest0) [42] udp_relay0 s')"
proof -
  obtain cb wc where e: "aead_encrypt_all lib_plain world0 (buf_of (header_of dest0 @ [42])) cipher_plain 2048 = Inr (CRYPTO_OK, cb, wc)"
      "uenabled udp_relay0 (From_client (io_from cb) 0)" by (rule sealed0)
  have "\<exists>s'. uhandle udp_env0 (From_client (io_from cb) 0) udp_relay0 = Inr s' \<and> reaches (io_from cb) client1 (meant_dest udp_env0 dest0) [42] udp_relay0 s'"
    by (rule udp_forward_exact [OF udp_env0_ok(1) udp_env0_def udp_env0_ok(2) udp_env0_ok(3) [unfolded udp_relay0_def], folded udp_relay0_def,
          OF world0_wf _ _ _ e(1) _ e(2)])
      (use world0_fresh in \<open>simp_all add: udp_relay0_fields io_from_def io_quiet_def dest0_def\<close>)
  then show ?thesis using e(1) by blast
qed

text \<open>The relay after it, with a session of the client, and a datagram that comes back for it.\<close>

definition io_back :: uio where
  "io_back = io_quiet\<lparr>uio_recv := Some (storage4 [1, 2, 3, 4] [0, 53], [43])\<rparr>"

lemma session0:
  obtains s cb rid where "ureach udp_env0 udp_relay0 [From_client (io_from cb) 0] s" "uenabled s (From_remote io_back rid)"
proof -
  obtain cb wc where e: "aead_encrypt_all lib_plain world0 (buf_of (header_of dest0 @ [42])) cipher_plain 2048 = Inr (CRYPTO_OK, cb, wc)"
      "uenabled udp_relay0 (From_client (io_from cb) 0)" by (rule sealed0)
  have i: "uinv (udp_world lib_plain cipher_plain) {} {} {} udp_relay0"
    unfolding udp_relay0_def by (rule setup_inv, rule start_inv) (rule udp_env0_ok(1))
  obtain s where s: "uhandle udp_env0 (From_client (io_from cb) 0) udp_relay0 = Inr s" "forwarded udp_env0 (io_from cb) client1 dest0 [42] udp_relay0 s"
    using forward_exact [OF udp_env0_ok(1) udp_env0_def udp_env0_ok(2) i world0_wf _ _ _ e(1) _ e(2), of dest0 "[42]" client1] world0_fresh
    by (auto simp: udp_relay0_fields io_from_def io_quiet_def dest0_def)
  have r: "ureach udp_env0 udp_relay0 [From_client (io_from cb) 0] s"
    using ureach_step [OF udp_env0_ok(3) e(2) s(1)] by simp
  obtain rid r where rid: "up_remotes s rid = Some r"
    using s(2) by (auto simp: forwarded_def dest0_def io_from_def io_quiet_def)
  note i1 = udp_reach [OF udp_env0_ok(1) udp_env0_def udp_env0_ok(2) r [unfolded udp_relay0_def]]
  have "ur_io r" by (rule uinv_remote [OF i1 rid]) simp
  moreover have "up_buf_size s = 2810" using recv_buf_size [of udp_env0 "io_from cb" 0 udp_relay0 s] s(1) udp_relay0_fields(2) by simp
  ultimately have "uenabled s (From_remote io_back rid)"
    using rid by (simp add: uio_ok_def io_back_def STORAGE_SIZE_def)
  with r show ?thesis by (rule that)
qed

theorem udp_sessions_owned_witness:
  "\<exists>cb s rid r sid e. ureach udp_env0 udp_relay0 [From_client (io_from cb) 0] s \<and> up_remotes s rid = Some r \<and>
     ur_io r \<and> ur_timer r \<and> ur_server r = Some sid \<and> e \<in> set (entries s sid) \<and> ce_data e = Some rid \<and>
     ce_key e = hash_key (ur_af r) (ur_src r) \<and> length (entries s sid) < MAX_UDP_CONN_NUM"
proof -
  obtain s cb rid where r: "ureach udp_env0 udp_relay0 [From_client (io_from cb) 0] s" "uenabled s (From_remote io_back rid)"
    by (rule session0)
  obtain x where x: "up_remotes s rid = Some x" using r(2) by (auto split: option.splits)
  note o = udp_sessions_owned [OF udp_env0_ok(1) udp_env0_def udp_env0_ok(2) r(1) [unfolded udp_relay0_def]]
  obtain sid e where "ur_io x" "ur_timer x" "ur_server x = Some sid" "e \<in> set (entries s sid)" "ce_data e = Some rid"
      "ce_key e = hash_key (ur_af x) (ur_src x)"
    using o [THEN conjunct1, rule_format, OF x] by blast
  moreover have "length (entries s sid) < MAX_UDP_CONN_NUM" using o by blast
  ultimately show ?thesis using r(1) x by blast
qed

theorem udp_reply_exact_witness:
  "\<exists>cb s rid. ureach udp_env0 udp_relay0 [From_client (io_from cb) 0] s \<and> uenabled s (From_remote io_back rid) \<and>
     (let salt = fst (rand_bytes (up_world s) 32) in
      \<exists>s' r sid. up_remotes s rid = Some r \<and> ur_server r = Some sid \<and> uhandle udp_env0 (From_remote io_back rid) s = Inr s' \<and>
        up_trace s' = up_trace s @ [To_client sid (ur_src r)
          (salt @ session_seal lib_plain (cipher_plain, subkey lib_plain cipher_plain salt) (zero_nonce cipher_plain)
             (reply_header (storage4 [1, 2, 3, 4] [0, 53]) @ [43]))] \<and>
        up_remotes s' = (up_remotes s)(rid \<mapsto> r\<lparr>ur_timer := True\<rparr>))"
proof -
  obtain s cb rid where r: "ureach udp_env0 udp_relay0 [From_client (io_from cb) 0] s" "uenabled s (From_remote io_back rid)" by (rule session0)
  have io: "uio_recv io_back = Some (storage4 [1, 2, 3, 4] [0, 53], [43])" "uio_send io_back"
    by (simp_all add: io_back_def io_quiet_def)
  have k: "fst (rand_bytes (up_world s) 32) = fst (rand_bytes (up_world s) (ci_key_len cipher_plain))" by (simp add: cipher_plain_def)
  from udp_reply_exact [OF udp_env0_ok(1) udp_env0_def udp_env0_ok(2) r(1) [unfolded udp_relay0_def] r(2) io _ k] r
  show ?thesis unfolding Let_def by blast
qed

theorem udp_replies_to_askers_witness:
  "\<exists>es s sid a out. ureach udp_env0 udp_relay0 es s \<and> To_client sid a out \<in> set (up_trace s) \<and>
     (\<exists>io data. From_client io sid \<in> set es \<and> uio_recv io = Some (a, data))"
proof -
  obtain s cb rid where r: "ureach udp_env0 udp_relay0 [From_client (io_from cb) 0] s" "uenabled s (From_remote io_back rid)" by (rule session0)
  have io: "uio_recv io_back = Some (storage4 [1, 2, 3, 4] [0, 53], [43])" "uio_send io_back"
    by (simp_all add: io_back_def io_quiet_def)
  obtain t v sid out where t: "uhandle udp_env0 (From_remote io_back rid) s = Inr t" "To_client sid v out \<in> set (up_trace t)"
    using reply_exact [OF udp_env0_ok(1) udp_env0_def udp_reach [OF udp_env0_ok(1) udp_env0_def udp_env0_ok(2) r(1) [unfolded udp_relay0_def]] r(2) io _ refl]
    by (metis in_set_conv_decomp list.distinct(1))
  note rt = ureach_step [OF r t(1)]
  from udp_replies_to_askers [OF udp_env0_ok(1) udp_env0_def udp_env0_ok(2) rt [unfolded udp_relay0_def] t(2)] rt t(2)
  show ?thesis by blast
qed

end
