(* ===== verification/IP_Lock.thy ===== *)
theory IP_Lock
  imports SS_Prelude
begin

text \<open>
  The per-port client lock of \<^verbatim>\<open>src/ip_lock.c\<close>: the address a port is locked to, the file that makes
  the lock survive a restart, the two lists of recently seen addresses, and the status file the
  manager reads.

  The static variables of the file are the record \<open>ip_lock\<close>. A C string is the list of its bytes
  without the terminating NUL; the functions of this file treat a \<open>NULL\<close> string and an empty one
  alike (every guard is \<open>p == NULL || p[0] == '\0'\<close>), so a \<open>NULL\<close> argument is the empty list, except
  in \<open>ip_lock_init\<close>, where the two differ. The fixed arrays of recent entries keep their eight slots
  and their count, and pruning and pushing move the slots as the source does. The output buffers
  of the status formatter are checked memory. The file system is an explicit \<open>os\<close> record.
\<close>

section \<open>Constants, files, strings\<close>

definition INET6_ADDRSTRLEN :: nat where "INET6_ADDRSTRLEN = 46"
definition IP_LOCK_MAX_TRACK_IPS :: nat where "IP_LOCK_MAX_TRACK_IPS = 16"
definition IP_LOCK_RECENT_MAX :: nat where "IP_LOCK_RECENT_MAX = 8"
definition IP_LOCK_RECENT_TTL_SEC :: int where "IP_LOCK_RECENT_TTL_SEC = 30"
definition IP_LOCK_STATUS_JSON_MAX :: nat where "IP_LOCK_STATUS_JSON_MAX = 1024"

lemmas ip_lock_consts = INET6_ADDRSTRLEN_def IP_LOCK_MAX_TRACK_IPS_def IP_LOCK_RECENT_MAX_def
  IP_LOCK_RECENT_TTL_SEC_def IP_LOCK_STATUS_JSON_MAX_def

text \<open>
  The part of the operating system the module uses: the regular files with their modification
  times, which paths can be opened for reading, opened for writing and unlinked, and the clock.
\<close>

record os_file =
  f_data :: bytes
  f_mtime :: int

record os =
  os_files :: "bytes \<Rightarrow> os_file option"
  os_readable :: "bytes \<Rightarrow> bool"
  os_writable :: "bytes \<Rightarrow> bool"
  os_unlinkable :: "bytes \<Rightarrow> bool"
  os_time :: int

definition os_fopen_r :: "os \<Rightarrow> bytes \<Rightarrow> bytes option" where
  "os_fopen_r w path = (if os_readable w path then map_option f_data (os_files w path) else None)"

definition os_write_file :: "os \<Rightarrow> bytes \<Rightarrow> bytes \<Rightarrow> os" where
  "os_write_file w path d =
     w\<lparr>os_files := (os_files w)(path \<mapsto> \<lparr>f_data = d, f_mtime = os_time w\<rparr>)\<rparr>"

definition os_unlink :: "os \<Rightarrow> bytes \<Rightarrow> os" where
  "os_unlink w path = (if os_unlinkable w path then w\<lparr>os_files := (os_files w)(path := None)\<rparr> else w)"

text \<open>\<open>strncpy(d, s, n - 1); d[n - 1] = 0\<close> on a buffer of \<open>n\<close> bytes, and \<open>fgets\<close>.\<close>

definition str_copy :: "nat \<Rightarrow> bytes \<Rightarrow> bytes" where
  "str_copy n s = take (n - 1) s"

fun fgets_line :: "nat \<Rightarrow> bytes \<Rightarrow> bytes" where
  "fgets_line 0 s = []"
| "fgets_line (Suc n) [] = []"
| "fgets_line (Suc n) (c # s) = (if c = 10 then [c] else c # fgets_line n s)"

definition fgets :: "nat \<Rightarrow> bytes \<Rightarrow> bytes option" where
  "fgets n s = (if s = [] then None else Some (fgets_line (n - 1) s))"

definition strip_eol :: "bytes \<Rightarrow> bytes" where
  "strip_eol s = rev (dropWhile (\<lambda>c. c = 10 \<or> c = 13 \<or> c = 32) (rev s))"

section \<open>Recently seen addresses\<close>

record entry =
  en_ip :: bytes
  en_seen :: int

record recent =
  rc_store :: "entry list"
  rc_count :: nat

definition entry_zero :: entry where
  "entry_zero = \<lparr>en_ip = [], en_seen = 0\<rparr>"

definition recent_zero :: recent where
  "recent_zero = \<lparr>rc_store = replicate IP_LOCK_RECENT_MAX entry_zero, rc_count = 0\<rparr>"

fun ip_lock_prune_loop :: "int \<Rightarrow> entry list \<Rightarrow> nat \<Rightarrow> nat \<Rightarrow> nat \<Rightarrow> entry list \<times> nat" where
  "ip_lock_prune_loop now store 0 i write_idx = (store, write_idx)"
| "ip_lock_prune_loop now store (Suc k) i write_idx =
     (if now - en_seen (store ! i) \<le> IP_LOCK_RECENT_TTL_SEC
      then ip_lock_prune_loop now
             (if write_idx \<noteq> i then store[write_idx := store ! i] else store) k (Suc i) (Suc write_idx)
      else ip_lock_prune_loop now store k (Suc i) write_idx)"

definition ip_lock_prune_recent :: "recent \<Rightarrow> int \<Rightarrow> recent" where
  "ip_lock_prune_recent r now =
     (let (store, n) = ip_lock_prune_loop now (rc_store r) (rc_count r) 0 0
      in \<lparr>rc_store = store, rc_count = n\<rparr>)"

fun ip_lock_find :: "entry list \<Rightarrow> bytes \<Rightarrow> nat \<Rightarrow> nat \<Rightarrow> nat option" where
  "ip_lock_find store ip 0 i = None"
| "ip_lock_find store ip (Suc k) i =
     (if en_ip (store ! i) = ip then Some i else ip_lock_find store ip k (Suc i))"

text \<open>\<open>memmove(&store[1], &store[0], n * sizeof)\<close>: the first \<open>n\<close> slots move up by one.\<close>

definition shift_up :: "'a list \<Rightarrow> nat \<Rightarrow> 'a list" where
  "shift_up store n = take 1 store @ take n store @ drop (Suc n) store"

definition ip_lock_push_recent :: "recent \<Rightarrow> int \<Rightarrow> bytes \<Rightarrow> recent" where
  "ip_lock_push_recent r now ip =
     (if ip = [] then r
      else
        let r = ip_lock_prune_recent r now in
        case ip_lock_find (rc_store r) ip (rc_count r) 0 of
          Some i \<Rightarrow>
            let store = (rc_store r)[i := (rc_store r ! i)\<lparr>en_seen := now\<rparr>] in
            if i > 0 then let tmp = store ! i in r\<lparr>rc_store := (shift_up store i)[0 := tmp]\<rparr>
            else r\<lparr>rc_store := store\<rparr>
        | None \<Rightarrow>
            let n = (if rc_count r < IP_LOCK_RECENT_MAX then rc_count r + 1 else IP_LOCK_RECENT_MAX);
                store = shift_up (rc_store r) (n - 1)
            in \<lparr>rc_store = store[0 := \<lparr>en_ip = str_copy INET6_ADDRSTRLEN ip, en_seen = now\<rparr>],
                 rc_count = n\<rparr>)"

section \<open>The module\<close>

record ip_lock =
  il_enabled :: bool
  il_lock_path :: bytes
  il_status_path :: bytes
  il_locked :: bytes
  il_incoming :: recent
  il_blocked :: recent
  il_mtime :: int

definition ip_lock_zero :: ip_lock where
  "ip_lock_zero = \<lparr>il_enabled = False, il_lock_path = [], il_status_path = [], il_locked = [],
     il_incoming = recent_zero, il_blocked = recent_zero, il_mtime = 0\<rparr>"

definition ip_lock_ip_in_list :: "bytes list \<Rightarrow> bytes \<Rightarrow> bool" where
  "ip_lock_ip_in_list ips ip = (if ip = [] then False else list_ex (\<lambda>x. x = ip) ips)"

definition ip_lock_reset_recent_lists :: "ip_lock \<Rightarrow> ip_lock" where
  "ip_lock_reset_recent_lists L = L\<lparr>il_incoming := recent_zero, il_blocked := recent_zero\<rparr>"

definition ip_lock_sidecar_path :: "nat \<Rightarrow> bytes \<Rightarrow> bytes \<Rightarrow> bytes" where
  "ip_lock_sidecar_path out_size port suffix =
     take (out_size - 1)
       (bstr ''/run/shadowsocks-manager/.shadowsocks_'' @ port @ bstr ''.'' @ suffix)"

definition ip_lock_reload :: "os \<Rightarrow> ip_lock \<Rightarrow> ip_lock" where
  "ip_lock_reload w L =
     (if il_lock_path L = [] then L
      else
        let previous_ip = il_locked L in
        case os_files w (il_lock_path L) of
          None \<Rightarrow>
            (if il_locked L \<noteq> [] then ip_lock_reset_recent_lists L else L)\<lparr>il_locked := [], il_mtime := 0\<rparr>
        | Some st \<Rightarrow>
            if f_mtime st = il_mtime L then L
            else
              let L = L\<lparr>il_mtime := f_mtime st\<rparr> in
              case os_fopen_r w (il_lock_path L) of
                None \<Rightarrow> L\<lparr>il_locked := []\<rparr>
              | Some content \<Rightarrow>
                  let L = L\<lparr>il_locked :=
                        (case fgets INET6_ADDRSTRLEN content of
                           None \<Rightarrow> []
                         | Some line \<Rightarrow> strip_eol (c_str line))\<rparr>
                  in if previous_ip \<noteq> il_locked L then ip_lock_reset_recent_lists L else L)"

definition ip_lock_init :: "os \<Rightarrow> bytes option \<Rightarrow> bytes option \<Rightarrow> ip_lock \<Rightarrow> ip_lock" where
  "ip_lock_init w lock_file status_file L =
     (let L = L\<lparr>il_enabled := True\<rparr>;
          L = (case lock_file of None \<Rightarrow> L | Some p \<Rightarrow> L\<lparr>il_lock_path := str_copy 512 p\<rparr>);
          L = (case status_file of None \<Rightarrow> L | Some p \<Rightarrow> L\<lparr>il_status_path := str_copy 512 p\<rparr>);
          L = L\<lparr>il_locked := []\<rparr>
      in ip_lock_reload w (ip_lock_reset_recent_lists L))"

definition ip_lock_get_locked_ip :: "ip_lock \<Rightarrow> bytes" where
  "ip_lock_get_locked_ip L = il_locked L"

definition ip_lock_set :: "os \<Rightarrow> bytes \<Rightarrow> ip_lock \<Rightarrow> ip_lock \<times> os" where
  "ip_lock_set w ip L =
     (if ip = [] then (L, w)
      else
        let L = (if il_locked L \<noteq> [] \<and> il_locked L \<noteq> ip then ip_lock_reset_recent_lists L else L);
            L = L\<lparr>il_locked := str_copy INET6_ADDRSTRLEN ip\<rparr>
        in if il_lock_path L = [] then (L, w)
           else if \<not> os_writable w (il_lock_path L) then (L, w)
           else
             let w = os_write_file w (il_lock_path L) (il_locked L @ [10]) in
             case os_files w (il_lock_path L) of
               Some st \<Rightarrow> (L\<lparr>il_mtime := f_mtime st\<rparr>, w)
             | None \<Rightarrow> (L, w))"

definition ip_lock_clear :: "os \<Rightarrow> ip_lock \<Rightarrow> ip_lock \<times> os" where
  "ip_lock_clear w L =
     (let L = ip_lock_reset_recent_lists (L\<lparr>il_locked := [], il_mtime := 0\<rparr>)
      in (L, if il_lock_path L \<noteq> [] then os_unlink w (il_lock_path L) else w))"

definition ip_lock_record_incoming :: "os \<Rightarrow> bytes \<Rightarrow> ip_lock \<Rightarrow> ip_lock" where
  "ip_lock_record_incoming w ip L =
     (if \<not> il_enabled L then L
      else L\<lparr>il_incoming := ip_lock_push_recent (il_incoming L) (os_time w) ip\<rparr>)"

definition ip_lock_record_blocked :: "os \<Rightarrow> bytes \<Rightarrow> ip_lock \<Rightarrow> ip_lock" where
  "ip_lock_record_blocked w ip L =
     (if \<not> il_enabled L then L
      else L\<lparr>il_blocked := ip_lock_push_recent (il_blocked L) (os_time w) ip\<rparr>)"

definition ip_lock_is_enabled :: "ip_lock \<Rightarrow> bool" where
  "ip_lock_is_enabled L = il_enabled L"

section \<open>The status file\<close>

text \<open>
  \<open>snprintf(out + pos, size - pos, "%s", s)\<close> into a buffer of \<open>size\<close> bytes: at most
  \<open>size - pos - 1\<close> bytes and a NUL, nothing when no room is left; it returns \<open>length s\<close>.
\<close>

definition snprintf_at :: "bytes \<Rightarrow> nat \<Rightarrow> bytes \<Rightarrow> bytes res" where
  "snprintf_at out pos s =
     (if pos < length out then mem_write out pos (take (length out - pos - 1) s @ [0]) else Inr out)"

fun ip_lock_format_loop :: "bytes list \<Rightarrow> nat \<Rightarrow> bytes \<Rightarrow> (nat \<times> bytes) res" where
  "ip_lock_format_loop [] pos out = Inr (pos, out)"
| "ip_lock_format_loop (ip # ips) pos out =
     (if ip = [] then ip_lock_format_loop ips pos out
      else
        bindr (if pos > 1 \<and> int pos < int (length out) - 1
               then bindr (snprintf_at out pos (bstr '','')) (\<lambda>out. Inr (pos + 1, out))
               else Inr (pos, out)) (\<lambda>(pos, out).
          if int pos \<ge> int (length out) - 2 then Inr (pos, out)
          else
            let s = [34] @ ip @ [34]; n = length s in
            bindr (snprintf_at out pos s) (\<lambda>out.
              if int (pos + n) \<ge> int (length out) - 2 then Inr (pos, out)
              else ip_lock_format_loop ips (pos + n) out)))"

definition ip_lock_format_active_ips :: "bytes list \<Rightarrow> bytes \<Rightarrow> bytes res" where
  "ip_lock_format_active_ips ips out =
     (if out = [] then Inr out
      else if ips = [] then snprintf_at out 0 (bstr ''[]'')
      else
        bindr (snprintf_at out 0 (bstr ''['')) (\<lambda>out.
          bindr (ip_lock_format_loop ips 1 out) (\<lambda>(pos, out).
            snprintf_at out pos (bstr '']''))))"

fun ip_lock_json_escape_loop :: "bytes \<Rightarrow> nat \<Rightarrow> bytes \<Rightarrow> (nat \<times> bytes) res" where
  "ip_lock_json_escape_loop [] pos out = Inr (pos, out)"
| "ip_lock_json_escape_loop (c # s) pos out =
     (if pos + 1 < length out then
        if c = 34 \<or> c = 92 then
          if pos + 2 \<ge> length out then Inr (pos, out)
          else
            bindr (mem_write out pos [92]) (\<lambda>out.
              bindr (mem_write out (pos + 1) [c]) (\<lambda>out.
                ip_lock_json_escape_loop s (pos + 2) out))
        else
          bindr (mem_write out pos [c]) (\<lambda>out. ip_lock_json_escape_loop s (pos + 1) out)
      else Inr (pos, out))"

definition ip_lock_json_escape :: "bytes \<Rightarrow> bytes \<Rightarrow> bytes res" where
  "ip_lock_json_escape s out =
     (if out = [] then Inr out
      else bindr (ip_lock_json_escape_loop s 0 out) (\<lambda>(pos, out). mem_write out pos [0]))"

definition ip_lock_status_json :: "bytes \<Rightarrow> nat \<Rightarrow> bytes \<Rightarrow> bytes \<Rightarrow> bytes \<Rightarrow> bytes" where
  "ip_lock_status_json locked_esc total_conn active incoming blocked =
     bstr ''{\"locked_ip\":\"'' @ locked_esc @ bstr ''\",\"connections\":'' @ dec_str total_conn @
     bstr '',\"active_ips\":'' @ active @ bstr '',\"recent_incoming\":'' @ incoming @
     bstr '',\"blocked_ips\":'' @ blocked @ bstr ''}'' @ [10]"

definition recent_ips :: "recent \<Rightarrow> bytes list" where
  "recent_ips r = map en_ip (take (rc_count r) (rc_store r))"

definition ip_lock_write_status :: "os \<Rightarrow> nat \<Rightarrow> bytes list \<Rightarrow> ip_lock \<Rightarrow> (ip_lock \<times> os) res" where
  "ip_lock_write_status w total_conn active_ips L =
     (if il_status_path L = [] then Inr (L, w)
      else
        let L = L\<lparr>il_incoming := ip_lock_prune_recent (il_incoming L) (os_time w),
                  il_blocked := ip_lock_prune_recent (il_blocked L) (os_time w)\<rparr>;
            incoming_ptrs = filter (\<lambda>ip. \<not> ip_lock_ip_in_list active_ips ip) (recent_ips (il_incoming L));
            blocked_ptrs = filter (\<lambda>ip. \<not> ip_lock_ip_in_list active_ips ip) (recent_ips (il_blocked L));
            json_buf = replicate IP_LOCK_STATUS_JSON_MAX 0
        in bindr (ip_lock_format_active_ips active_ips json_buf) (\<lambda>active_json.
           bindr (ip_lock_format_active_ips incoming_ptrs json_buf) (\<lambda>incoming_json.
           bindr (ip_lock_format_active_ips blocked_ptrs json_buf) (\<lambda>blocked_json.
           bindr (ip_lock_json_escape (il_locked L) (replicate (INET6_ADDRSTRLEN * 2) 0)) (\<lambda>locked_esc.
             Inr (L, if os_writable w (il_status_path L)
                     then os_write_file w (il_status_path L)
                            (ip_lock_status_json (c_str locked_esc) total_conn (c_str active_json)
                               (c_str incoming_json) (c_str blocked_json))
                     else w))))))"

section \<open>Recency lists: what the array operations compute\<close>

text \<open>
  The abstract view of a recency list is its live prefix. \<open>seen_push\<close> is the specification: drop
  what is older than the limit, move the address to the front, keep at most eight.
\<close>

definition live :: "recent \<Rightarrow> entry list" where
  "live r = take (rc_count r) (rc_store r)"

definition fresh_at :: "int \<Rightarrow> entry \<Rightarrow> bool" where
  "fresh_at now e \<longleftrightarrow> now - en_seen e \<le> IP_LOCK_RECENT_TTL_SEC"

definition seen_push :: "int \<Rightarrow> bytes \<Rightarrow> entry list \<Rightarrow> entry list" where
  "seen_push now ip es =
     take IP_LOCK_RECENT_MAX
       (\<lparr>en_ip = ip, en_seen = now\<rparr> # filter (\<lambda>e. en_ip e \<noteq> ip) (filter (fresh_at now) es))"

definition ip_str :: "bytes \<Rightarrow> bool" where
  "ip_str ip \<longleftrightarrow> ip \<noteq> [] \<and> length ip < INET6_ADDRSTRLEN \<and> 0 \<notin> set ip"

definition recent_wf :: "recent \<Rightarrow> bool" where
  "recent_wf r \<longleftrightarrow> length (rc_store r) = IP_LOCK_RECENT_MAX \<and> rc_count r \<le> IP_LOCK_RECENT_MAX \<and>
     distinct (map en_ip (live r)) \<and>
     (\<forall>e\<in>set (live r). ip_str (en_ip e))"

lemma prune_loop_spec:
  assumes "w \<le> i" "i + k \<le> length st"
  shows "case ip_lock_prune_loop now st k i w of (st', w') \<Rightarrow>
           length st' = length st \<and> w' \<le> i + k \<and>
           take w' st' = take w st @ filter (fresh_at now) (take k (drop i st))"
  using assms
proof (induction now st k i w rule: ip_lock_prune_loop.induct)
  case (2 now st k i w)
  let ?st = "if w \<noteq> i then st[w := st ! i] else st"
  have i: "i < length st" using "2.prems" by simp
  then have head: "take (Suc k) (drop i st) = st ! i # take k (drop (Suc i) st)"
    by (simp add: Cons_nth_drop_Suc [symmetric])
  have tail: "drop (Suc i) ?st = drop (Suc i) st" "length ?st = length st"
    using "2.prems" by auto
  have pre: "take (Suc w) ?st = take w st @ [st ! i]"
    using "2.prems" i by (auto simp: take_Suc_conv_app_nth)
  show ?case
  proof (cases "fresh_at now (st ! i)")
    case True
    then show ?thesis
      using "2.IH"(1) "2.prems" head tail pre by (auto simp: fresh_at_def split: prod.splits)
  next
    case False
    then show ?thesis
      using "2.IH"(2) "2.prems" head by (auto simp: fresh_at_def split: prod.splits)
  qed
qed simp

lemma prune_recent_live:
  assumes "length (rc_store r) = n" "rc_count r \<le> n"
  shows "live (ip_lock_prune_recent r now) = filter (fresh_at now) (live r)"
    and "length (rc_store (ip_lock_prune_recent r now)) = n"
    and "rc_count (ip_lock_prune_recent r now) \<le> n"
  using prune_loop_spec [of 0 0 "rc_count r" "rc_store r" now] assms
  by (auto simp: ip_lock_prune_recent_def live_def split: prod.splits)

lemma recent_wf_prune: "recent_wf r \<Longrightarrow> recent_wf (ip_lock_prune_recent r now)"
  unfolding recent_wf_def
  by (auto simp: prune_recent_live distinct_map_filter)

lemma find_Some:
  assumes "i + k \<le> length st"
  shows "ip_lock_find st ip k i = Some j \<Longrightarrow> i \<le> j \<and> j < i + k \<and> en_ip (st ! j) = ip"
    and "ip_lock_find st ip k i = None \<Longrightarrow> ip \<notin> en_ip ` set (take k (drop i st))"
  using assms
  by (induction st ip k i rule: ip_lock_find.induct)
    (auto simp: Cons_nth_drop_Suc [symmetric] split: if_splits)

lemma distinct_filter_nth:
  assumes "distinct (map f es)" "i < length es"
  shows "filter (\<lambda>e. f e \<noteq> f (es ! i)) es = take i es @ drop (Suc i) es"
proof -
  have split: "es = take i es @ es ! i # drop (Suc i) es"
    using assms(2) by (simp add: id_take_nth_drop)
  have "distinct (map f (take i es @ es ! i # drop (Suc i) es))"
    using assms(1) split by simp
  then have "\<forall>e\<in>set (take i es). f e \<noteq> f (es ! i)" "\<forall>e\<in>set (drop (Suc i) es). f e \<noteq> f (es ! i)"
    by auto (metis imageI)+
  then show ?thesis
    by (subst split) (simp add: filter_id_conv)
qed

lemma length_shift_up: "n < length st \<Longrightarrow> length (shift_up st n) = length st"
  by (simp add: shift_up_def)

lemma shift_up_front:
  assumes "n < length st"
  shows "(shift_up st n)[0 := e] = e # take n st @ drop (Suc n) st"
  using assms by (cases st) (auto simp: shift_up_def)

lemma push_recent_live_found:
  assumes wf: "recent_wf r" and ip: "ip \<noteq> []"
    and f: "ip_lock_find (rc_store (ip_lock_prune_recent r now)) ip
              (rc_count (ip_lock_prune_recent r now)) 0 = Some i"
  shows "live (ip_lock_push_recent r now ip) = seen_push now ip (live r)"
    and "length (rc_store (ip_lock_push_recent r now ip)) = IP_LOCK_RECENT_MAX"
    and "rc_count (ip_lock_push_recent r now ip) \<le> IP_LOCK_RECENT_MAX"
proof -
  let ?r = "ip_lock_prune_recent r now"
  let ?st = "rc_store ?r" and ?n = "rc_count ?r"
  let ?e = "\<lparr>en_ip = ip, en_seen = now\<rparr>"
  have w: "recent_wf ?r" using wf by (rule recent_wf_prune)
  have len: "length ?st = IP_LOCK_RECENT_MAX" "?n \<le> IP_LOCK_RECENT_MAX"
    using w by (auto simp: recent_wf_def)
  have j: "i < ?n" "en_ip (?st ! i) = ip"
    using find_Some(1) [OF _ f] len by auto
  have upd: "(?st ! i)\<lparr>en_seen := now\<rparr> = ?e" using j(2) by simp
  have il: "i < length ?st" using j len by simp
  have res: "rc_store (ip_lock_push_recent r now ip) = ?e # take i ?st @ drop (Suc i) ?st"
    "rc_count (ip_lock_push_recent r now ip) = ?n"
    using ip f upd il
    by (auto simp: ip_lock_push_recent_def Let_def length_shift_up shift_up_front drop_update_cancel)
      (cases ?st; auto)
  have live_r: "filter (fresh_at now) (live r) = take ?n ?st"
    using prune_recent_live(1) [of r _ now] wf by (simp add: recent_wf_def live_def)
  have "distinct (map en_ip (take ?n ?st))" using w by (simp add: recent_wf_def live_def)
  then have others: "filter (\<lambda>e. en_ip e \<noteq> ip) (take ?n ?st) = take i ?st @ drop (Suc i) (take ?n ?st)"
    using distinct_filter_nth [of en_ip "take ?n ?st" i] j len by simp
  have "live (ip_lock_push_recent r now ip) = ?e # take i ?st @ take (?n - Suc i) (drop (Suc i) ?st)"
    using j il by (cases ?n) (auto simp: live_def res)
  then show "live (ip_lock_push_recent r now ip) = seen_push now ip (live r)"
    using j len by (simp add: seen_push_def live_r others take_drop)
  show "length (rc_store (ip_lock_push_recent r now ip)) = IP_LOCK_RECENT_MAX"
    "rc_count (ip_lock_push_recent r now ip) \<le> IP_LOCK_RECENT_MAX"
    using il len by (auto simp: res)
qed

lemma push_recent_live_new:
  assumes wf: "recent_wf r" and ip: "ip \<noteq> []" "length ip < INET6_ADDRSTRLEN"
    and f: "ip_lock_find (rc_store (ip_lock_prune_recent r now)) ip
              (rc_count (ip_lock_prune_recent r now)) 0 = None"
  shows "live (ip_lock_push_recent r now ip) = seen_push now ip (live r)"
    and "length (rc_store (ip_lock_push_recent r now ip)) = IP_LOCK_RECENT_MAX"
    and "rc_count (ip_lock_push_recent r now ip) \<le> IP_LOCK_RECENT_MAX"
proof -
  let ?r = "ip_lock_prune_recent r now"
  let ?st = "rc_store ?r" and ?n = "rc_count ?r"
  let ?m = "if ?n < IP_LOCK_RECENT_MAX then ?n + 1 else IP_LOCK_RECENT_MAX"
  let ?e = "\<lparr>en_ip = ip, en_seen = now\<rparr>"
  have w: "recent_wf ?r" using wf by (rule recent_wf_prune)
  have len: "length ?st = IP_LOCK_RECENT_MAX" "?n \<le> IP_LOCK_RECENT_MAX"
    using w by (auto simp: recent_wf_def)
  have m: "?m - 1 < length ?st" "?m = Suc (?m - 1)" using len by (auto simp: ip_lock_consts)
  have cp: "str_copy INET6_ADDRSTRLEN ip = ip" using ip by (simp add: str_copy_def)
  have res: "rc_store (ip_lock_push_recent r now ip) = ?e # take (?m - 1) ?st @ drop ?m ?st"
    "rc_count (ip_lock_push_recent r now ip) = ?m"
    using ip f cp shift_up_front [OF m(1), of ?e] m(2) by (auto simp: ip_lock_push_recent_def Let_def)
  have live_r: "filter (fresh_at now) (live r) = take ?n ?st"
    using prune_recent_live(1) [of r _ now] wf by (simp add: recent_wf_def live_def)
  have "ip \<notin> en_ip ` set (take ?n ?st)" using find_Some(2) [OF _ f] len by auto
  then have others: "filter (\<lambda>e. en_ip e \<noteq> ip) (take ?n ?st) = take ?n ?st"
    by (auto simp: filter_id_conv)
  have "live (ip_lock_push_recent r now ip) = ?e # take (?m - 1) ?st"
    using m len by (auto simp: live_def res ip_lock_consts)
  then show "live (ip_lock_push_recent r now ip) = seen_push now ip (live r)"
    using len by (auto simp: seen_push_def live_r others ip_lock_consts)
  show "length (rc_store (ip_lock_push_recent r now ip)) = IP_LOCK_RECENT_MAX"
    "rc_count (ip_lock_push_recent r now ip) \<le> IP_LOCK_RECENT_MAX"
    using m len by (auto simp: res ip_lock_consts)
qed

lemmas push_recent_facts = push_recent_live_found push_recent_live_new

lemma push_recent_spec:
  assumes wf: "recent_wf r" and str: "ip_str ip"
  shows "live (ip_lock_push_recent r now ip) = seen_push now ip (live r)"
    and "recent_wf (ip_lock_push_recent r now ip)"
proof -
  have ip: "ip \<noteq> []" "length ip < INET6_ADDRSTRLEN" using str by (auto simp: ip_str_def)
  show live: "live (ip_lock_push_recent r now ip) = seen_push now ip (live r)"
    using push_recent_facts ip wf by (metis option.exhaust)
  have "distinct (map en_ip (seen_push now ip (live r)))"
    "\<forall>e\<in>set (seen_push now ip (live r)). ip_str (en_ip e)"
    using assms
    by (auto simp: recent_wf_def seen_push_def ip_lock_consts take_Cons' distinct_map_filter
        take_map [symmetric] dest!: in_set_takeD)
  then show "recent_wf (ip_lock_push_recent r now ip)"
    using push_recent_facts ip wf live by (metis option.exhaust recent_wf_def)
qed

section \<open>The formatter writes the JSON it means to\<close>

text \<open>
  \<open>json_list\<close> is the JSON array of the non-empty addresses, \<open>json_esc\<close> the escaped string; the
  formatter and the escaper produce them whenever the buffer has room, and stay inside the buffer
  in every case.
\<close>

fun json_items :: "bool \<Rightarrow> bytes list \<Rightarrow> bytes" where
  "json_items sep [] = []"
| "json_items sep (ip # ips) =
     (if ip = [] then json_items sep ips
      else (if sep then [44] else []) @ [34] @ ip @ [34] @ json_items True ips)"

definition json_list :: "bytes list \<Rightarrow> bytes" where
  "json_list ips = [91] @ json_items False ips @ [93]"

fun json_esc :: "bytes \<Rightarrow> bytes" where
  "json_esc [] = []"
| "json_esc (c # s) = (if c = 34 \<or> c = 92 then [92, c] else [c]) @ json_esc s"

lemma length_json_items: "length (json_items sep ips) \<le> sum_list (map (\<lambda>ip. length ip + 3) ips)"
  by (induction sep ips rule: json_items.induct) auto

lemma length_json_esc: "length (json_esc s) \<le> 2 * length s"
  by (induction s) auto

lemma snprintf_at_spec:
  obtains out' where "snprintf_at out pos s = Inr out'" "length out' = length out"
    "take pos out' = take pos out"
    "pos + length s < length out \<Longrightarrow> take (pos + length s) out' = take pos out @ s"
    "pos + length s < length out \<Longrightarrow> out' ! (pos + length s) = 0"
    "pos < length out \<Longrightarrow> 0 \<in> set out'" "0 \<in> set (take pos out) \<Longrightarrow> 0 \<in> set out'"
proof (cases "pos < length out")
  case True
  define out' where
    "out' = take pos out @ (take (length out - pos - 1) s @ [0]) @
       drop (pos + length (take (length out - pos - 1) s @ [0])) out"
  have "snprintf_at out pos s = Inr out'"
    using True by (simp add: snprintf_at_def out'_def)
  moreover have "0 \<in> set out'" by (simp add: out'_def)
  ultimately show ?thesis
    using True by (intro that [of out']) (auto simp: out'_def min_def nth_append)
next
  case False
  then show ?thesis
    by (intro that [of out]) (auto simp: snprintf_at_def dest: in_set_takeD)
qed

lemma snprintf_at_safe:
  "\<exists>out'. snprintf_at out pos s = Inr out' \<and> length out' = length out \<and>
     (pos < length out \<or> 0 \<in> set out \<longrightarrow> 0 \<in> set out')"
  by (rule snprintf_at_spec [of out pos s]) (metis linorder_le_less_linear take_all)

lemma snprintf_at_fits:
  assumes "pos + length s < length out"
  shows "\<exists>out'. snprintf_at out pos s = Inr out' \<and> length out' = length out \<and>
           take (pos + length s) out' = take pos out @ s \<and> out' ! (pos + length s) = 0"
  using assms by (auto intro: snprintf_at_spec [of out pos s])

definition fmt_ok :: "nat \<Rightarrow> nat \<times> bytes \<Rightarrow> bool" where
  "fmt_ok n = (\<lambda>(pos, out). length out = n \<and> 0 < pos \<and> pos \<le> n \<and> (pos < n \<or> 0 \<in> set out))"

lemma format_sep_safe:
  assumes "fmt_ok n (pos, out)"
  shows "\<exists>r. (if pos > 1 \<and> int pos < int (length out) - 1
               then bindr (snprintf_at out pos (bstr '','')) (\<lambda>out. Inr (pos + 1, out))
               else Inr (pos, out)) = Inr r \<and> fmt_ok n r"
proof -
  obtain out' where "snprintf_at out pos (bstr '','') = Inr out'" "length out' = length out"
    using snprintf_at_safe by blast
  with assms show ?thesis by (cases "pos > 1 \<and> int pos < int (length out) - 1") (auto simp: fmt_ok_def)
qed

lemma format_loop_safe:
  assumes "fmt_ok n (pos, out)"
  shows "\<exists>r. ip_lock_format_loop ips pos out = Inr r \<and> fmt_ok n r"
  using assms
proof (induction ips arbitrary: pos out)
  case (Cons ip ips)
  obtain pos1 out1 where 1: "(if pos > 1 \<and> int pos < int (length out) - 1
               then bindr (snprintf_at out pos (bstr '','')) (\<lambda>out. Inr (pos + 1, out))
               else Inr (pos, out)) = Inr (pos1, out1)" "fmt_ok n (pos1, out1)"
    using format_sep_safe [OF Cons.prems] by auto
  let ?q = "[34] @ ip @ [34]"
  obtain out2 where 2: "snprintf_at out1 pos1 ?q = Inr out2"
      "length out2 = length out1" "pos1 < length out1 \<or> 0 \<in> set out1 \<longrightarrow> 0 \<in> set out2"
    using snprintf_at_safe [of out1 pos1 ?q] by blast
  have ok2: "fmt_ok n (pos1, out2)" using 1(2) 2 by (auto simp: fmt_ok_def)
  show ?case
  proof (cases "ip = [] \<or> int pos1 \<ge> int (length out1) - 2 \<or> int (pos1 + length ?q) \<ge> int (length out2) - 2")
    case True
    then show ?thesis
      using Cons.IH [OF Cons.prems] 1 2(1) ok2
      by (simp only: ip_lock_format_loop.simps bindr.simps split Let_def) (auto split: if_splits)
  next
    case False
    then have "fmt_ok n (pos1 + length ?q, out2)" using ok2 by (auto simp: fmt_ok_def)
    from Cons.IH [OF this] False show ?thesis
      by (simp only: ip_lock_format_loop.simps bindr.simps split Let_def 1(1) 2(1) if_False de_Morgan_disj)
  qed
qed auto

lemma format_loop_exact:
  assumes "0 < pos" "pos + length (json_items (pos > 1) ips) + 2 < length out"
  shows "\<exists>out'. ip_lock_format_loop ips pos out = Inr (pos + length (json_items (pos > 1) ips), out') \<and>
           length out' = length out \<and>
           take (pos + length (json_items (pos > 1) ips)) out' = take pos out @ json_items (pos > 1) ips"
  using assms
proof (induction ips arbitrary: pos out)
  case (Cons ip ips)
  show ?case
  proof (cases "ip = []")
    case True
    then show ?thesis using Cons.IH [of pos out] Cons.prems by simp
  next
    case False
    let ?sep = "(if pos > 1 then [44] else []) :: bytes"
    let ?q = "[34] @ ip @ [34]"
    obtain out1 where 1: "(if pos > 1 \<and> int pos < int (length out) - 1
               then bindr (snprintf_at out pos (bstr '','')) (\<lambda>out. Inr (pos + 1, out))
               else Inr (pos, out)) = Inr (pos + length ?sep, out1)"
      "length out1 = length out" "take (pos + length ?sep) out1 = take pos out @ ?sep"
    proof (cases "pos > 1")
      case True
      obtain out1 where "snprintf_at out pos (bstr '','') = Inr out1" "length out1 = length out"
        "take (pos + 1) out1 = take pos out @ bstr '',''"
        using snprintf_at_fits [of pos "bstr '',''" out] Cons.prems False True by (auto simp: bstr_def)
      with True Cons.prems False that [of out1] show ?thesis by (auto simp: bstr_def)
    qed (use that [of out] in auto)
    let ?p = "pos + length ?sep"
    have fit: "?p + length ?q < length out1 - 2" using Cons.prems False 1(2) by auto
    obtain out2 where 2: "snprintf_at out1 ?p ?q = Inr out2" "length out2 = length out1"
      "take (?p + length ?q) out2 = take ?p out1 @ ?q"
      using snprintf_at_fits [of ?p ?q out1] fit by (metis less_diff_conv add_lessD1)
    have gt: "(?p + length ?q > 1) = True" by simp
    obtain out3 where 3: "ip_lock_format_loop ips (?p + length ?q) out2 =
        Inr (?p + length ?q + length (json_items True ips), out3)" "length out3 = length out2"
      "take (?p + length ?q + length (json_items True ips)) out3 =
        take (?p + length ?q) out2 @ json_items True ips"
      using Cons.IH [of "?p + length ?q" out2] Cons.prems False 1(2) 2(2) unfolding gt
      by (auto simp: algebra_simps)
    have n1: "\<not> int ?p \<ge> int (length out1) - 2" and n2: "\<not> int (?p + length ?q) \<ge> int (length out2) - 2"
      using fit 2(2) by auto
    have "ip_lock_format_loop (ip # ips) pos out =
        Inr (?p + length ?q + length (json_items True ips), out3)"
      using False 1(1) 2(1) 3(1) n1 n2 by (simp only: ip_lock_format_loop.simps bindr.simps split Let_def if_False)
    then show ?thesis
      using False 3 2 1 by (auto simp: algebra_simps)
  qed
qed auto

lemma format_active_safe:
  assumes "out \<noteq> []"
  shows "\<exists>out'. ip_lock_format_active_ips ips out = Inr out' \<and> length out' = length out \<and> 0 \<in> set out'"
proof -
  obtain out1 where 1: "snprintf_at out 0 (bstr ''['') = Inr out1" "length out1 = length out" "0 \<in> set out1"
    using snprintf_at_safe [of out 0] assms by auto
  have "fmt_ok (length out) (1, out1)" using 1 assms by (cases out) (auto simp: fmt_ok_def)
  from format_loop_safe [OF this, of ips] obtain pos out2
    where 2: "ip_lock_format_loop ips 1 out1 = Inr (pos, out2)" "fmt_ok (length out) (pos, out2)" by auto
  obtain out3 where "snprintf_at out2 pos (bstr '']'') = Inr out3" "length out3 = length out" "0 \<in> set out3"
    using snprintf_at_safe [of out2 pos "bstr '']''"] 2(2) by (auto simp: fmt_ok_def)
  then show ?thesis
    using 1 2(1) assms snprintf_at_safe [of out 0 "bstr ''[]''"]
    by (auto simp: ip_lock_format_active_ips_def)
qed

lemma c_str_take:
  assumes "n < length out" "out ! n = 0" "0 \<notin> set (take n out)"
  shows "c_str out = take n out"
proof -
  have "out = take n out @ 0 # drop (Suc n) out" using assms(1,2) by (metis id_take_nth_drop)
  then show ?thesis using c_str_append_nul assms(3) by metis
qed

lemma json_items_no_nul: "\<forall>ip\<in>set ips. 0 \<notin> set ip \<Longrightarrow> 0 \<notin> set (json_items sep ips)"
  by (induction sep ips rule: json_items.induct) auto

lemma format_active_exact:
  assumes fit: "length (json_items False ips) + 3 < length out" and nul: "\<forall>ip\<in>set ips. 0 \<notin> set ip"
  shows "\<exists>out'. ip_lock_format_active_ips ips out = Inr out' \<and> c_str out' = json_list ips"
proof (cases "ips = []")
  case True
  obtain out' where "snprintf_at out 0 (bstr ''[]'') = Inr out'" "length out' = length out"
    "take 2 out' = bstr ''[]''" "out' ! 2 = 0"
    using snprintf_at_fits [of 0 "bstr ''[]''" out] fit by (auto simp: numeral_2_eq_2)
  moreover have "0 \<notin> set (bstr ''[]'')" by (simp add: bstr_def)
  ultimately show ?thesis
    using True fit c_str_take [of 2 out']
    by (auto simp: ip_lock_format_active_ips_def json_list_def bstr_def)
next
  case False
  let ?j = "json_items False ips" and ?open = "bstr ''[''" and ?close = "bstr '']''"
  obtain out1 where 1: "snprintf_at out 0 ?open = Inr out1" "length out1 = length out" "take 1 out1 = ?open"
    using snprintf_at_fits [of 0 ?open out] fit by auto
  obtain out2 where 2: "ip_lock_format_loop ips 1 out1 = Inr (1 + length ?j, out2)" "length out2 = length out"
    "take (1 + length ?j) out2 = ?open @ ?j"
    using format_loop_exact [of 1 ips out1] fit 1 by auto
  obtain out3 where 3: "snprintf_at out2 (1 + length ?j) ?close = Inr out3" "length out3 = length out"
    "take (2 + length ?j) out3 = (?open @ ?j) @ ?close" "out3 ! (2 + length ?j) = 0"
    using snprintf_at_fits [of "1 + length ?j" ?close out2] fit 2 by auto
  have "0 \<notin> set ((?open @ ?j) @ ?close)" using json_items_no_nul [OF nul] by (simp add: bstr_def)
  then have "c_str out3 = (?open @ ?j) @ ?close"
    using c_str_take [of "2 + length ?j" out3] 3 fit by simp
  then show ?thesis
    using 1 2 3 False fit by (auto simp: ip_lock_format_active_ips_def json_list_def bstr_def)
qed

lemma json_escape_loop_exact:
  assumes "pos + length (json_esc s) < length out"
  shows "\<exists>out'. ip_lock_json_escape_loop s pos out = Inr (pos + length (json_esc s), out') \<and>
           length out' = length out \<and> take (pos + length (json_esc s)) out' = take pos out @ json_esc s"
  using assms
proof (induction s arbitrary: pos out)
  case (Cons c s)
  let ?e = "if c = 34 \<or> c = 92 then [92, c] else [c]"
  define out1 where "out1 = take pos out @ ?e @ drop (pos + length ?e) out"
  have 1: "length out1 = length out" "take (pos + length ?e) out1 = take pos out @ ?e"
    using Cons.prems by (auto simp: out1_def)
  have step: "ip_lock_json_escape_loop (c # s) pos out = ip_lock_json_escape_loop s (pos + length ?e) out1"
    using Cons.prems by (auto simp: out1_def min_def)
  show ?case
    using Cons.IH [of "pos + length ?e" out1] Cons.prems 1 unfolding step by (auto simp: algebra_simps)
qed simp

lemma json_esc_no_nul: "0 \<notin> set s \<Longrightarrow> 0 \<notin> set (json_esc s)"
  by (induction s) auto

lemma json_escape_exact:
  assumes "length (json_esc s) < length out" "0 \<notin> set s"
  shows "\<exists>out'. ip_lock_json_escape s out = Inr out' \<and> c_str out' = json_esc s"
proof -
  obtain out1 where 1: "ip_lock_json_escape_loop s 0 out = Inr (length (json_esc s), out1)"
    "length out1 = length out" "take (length (json_esc s)) out1 = json_esc s"
    using json_escape_loop_exact [of 0 s out] assms(1) by auto
  then show ?thesis
    using assms json_esc_no_nul [of s]
    by (auto simp: ip_lock_json_escape_def)
qed

section \<open>What the status file says\<close>

definition ip_lock_ok :: "ip_lock \<Rightarrow> bool" where
  "ip_lock_ok L \<longleftrightarrow> recent_wf (il_incoming L) \<and> recent_wf (il_blocked L) \<and>
     (il_locked L = [] \<or> ip_str (il_locked L))"

definition shown :: "int \<Rightarrow> bytes list \<Rightarrow> recent \<Rightarrow> bytes list" where
  "shown now active r = filter (\<lambda>ip. ip \<notin> set active) (map en_ip (filter (fresh_at now) (live r)))"

definition pruned :: "os \<Rightarrow> ip_lock \<Rightarrow> ip_lock" where
  "pruned w L = L\<lparr>il_incoming := ip_lock_prune_recent (il_incoming L) (os_time w),
                  il_blocked := ip_lock_prune_recent (il_blocked L) (os_time w)\<rparr>"

definition status_json :: "os \<Rightarrow> nat \<Rightarrow> bytes list \<Rightarrow> ip_lock \<Rightarrow> bytes" where
  "status_json w total_conn active L =
     ip_lock_status_json (json_esc (il_locked L)) total_conn (json_list active)
       (json_list (shown (os_time w) active (il_incoming L)))
       (json_list (shown (os_time w) active (il_blocked L)))"

lemma recent_zero_wf [simp]: "recent_wf recent_zero"
  by (simp add: recent_wf_def recent_zero_def live_def)

lemma ips_json_fits:
  assumes "length ips \<le> IP_LOCK_MAX_TRACK_IPS" "\<forall>ip\<in>set ips. ip_str ip" "length out = IP_LOCK_STATUS_JSON_MAX"
  shows "\<exists>out'. ip_lock_format_active_ips ips out = Inr out' \<and> c_str out' = json_list ips"
proof (rule format_active_exact)
  have "sum_list (map (\<lambda>ip. length ip + 3) ips) \<le> sum_list (map (\<lambda>ip. 48) ips)"
    using assms(2) by (intro sum_list_mono) (auto simp: ip_str_def ip_lock_consts)
  also have "\<dots> \<le> 768" using assms(1) by (simp add: sum_list_triv ip_lock_consts)
  finally show "length (json_items False ips) + 3 < length out"
    using length_json_items [of False ips] assms(3) by (simp add: ip_lock_consts)
qed (use assms(2) in \<open>auto simp: ip_str_def\<close>)

lemma ip_in_list_iff: "ip \<noteq> [] \<Longrightarrow> ip_lock_ip_in_list ips ip \<longleftrightarrow> ip \<in> set ips"
  by (auto simp: ip_lock_ip_in_list_def list_ex_iff)

lemma recent_filtered:
  assumes "recent_wf r"
  shows "filter (\<lambda>ip. \<not> ip_lock_ip_in_list active ip) (recent_ips (ip_lock_prune_recent r now)) =
           shown now active r"
    and "\<forall>ip\<in>set (shown now active r). ip_str ip"
    and "length (shown now active r) \<le> IP_LOCK_MAX_TRACK_IPS"
proof -
  have ips: "recent_ips (ip_lock_prune_recent r now) = map en_ip (filter (fresh_at now) (live r))"
    using prune_recent_live(1) [of r _ now] assms by (simp add: recent_ips_def recent_wf_def live_def)
  have str: "\<forall>e\<in>set (live r). ip_str (en_ip e)" using assms by (simp add: recent_wf_def)
  show "filter (\<lambda>ip. \<not> ip_lock_ip_in_list active ip) (recent_ips (ip_lock_prune_recent r now)) =
          shown now active r"
    unfolding shown_def ips
    by (rule filter_cong) (use str in \<open>auto simp: ip_in_list_iff ip_str_def\<close>)
  show "\<forall>ip\<in>set (shown now active r). ip_str ip" using str by (auto simp: shown_def)
  have "length (shown now active r) \<le> length (live r)"
    unfolding shown_def by (rule order_trans [OF length_filter_le]) simp
  also have "\<dots> \<le> IP_LOCK_RECENT_MAX" using assms by (simp add: recent_wf_def live_def)
  finally show "length (shown now active r) \<le> IP_LOCK_MAX_TRACK_IPS" by (simp add: ip_lock_consts)
qed

lemma write_status_eq:
  assumes ok: "ip_lock_ok L" and act: "length active \<le> IP_LOCK_MAX_TRACK_IPS" "\<forall>ip\<in>set active. ip_str ip"
  shows "ip_lock_write_status w total_conn active L =
           (if il_status_path L = [] then Inr (L, w)
            else Inr (pruned w L,
                      if os_writable w (il_status_path L)
                      then os_write_file w (il_status_path L) (status_json w total_conn active L) else w))"
proof (cases "il_status_path L = []")
  case False
  let ?buf = "replicate IP_LOCK_STATUS_JSON_MAX (0 :: byte)"
  have wf: "recent_wf (il_incoming L)" "recent_wf (il_blocked L)" using ok by (auto simp: ip_lock_ok_def)
  note sh = wf [THEN recent_filtered(2)] wf [THEN recent_filtered(3)]
  obtain a where a: "ip_lock_format_active_ips active ?buf = Inr a" "c_str a = json_list active"
    using ips_json_fits [OF act, of ?buf] by auto
  obtain b where b: "ip_lock_format_active_ips (shown (os_time w) active (il_incoming L)) ?buf = Inr b"
      "c_str b = json_list (shown (os_time w) active (il_incoming L))"
    using ips_json_fits [OF sh(3) sh(1), of ?buf] by auto
  obtain c where c: "ip_lock_format_active_ips (shown (os_time w) active (il_blocked L)) ?buf = Inr c"
      "c_str c = json_list (shown (os_time w) active (il_blocked L))"
    using ips_json_fits [OF sh(4) sh(2), of ?buf] by auto
  have "length (il_locked L) < INET6_ADDRSTRLEN" "0 \<notin> set (il_locked L)"
    using ok by (auto simp: ip_lock_ok_def ip_str_def ip_lock_consts)
  then obtain d where d: "ip_lock_json_escape (il_locked L) (replicate (INET6_ADDRSTRLEN * 2) 0) = Inr d"
      "c_str d = json_esc (il_locked L)"
    using json_escape_exact [of "il_locked L" "replicate (INET6_ADDRSTRLEN * 2) 0"]
      length_json_esc [of "il_locked L"] by (auto simp: ip_lock_consts)
  show ?thesis
    using False a b c d wf
    by (simp add: ip_lock_write_status_def Let_def recent_filtered(1) status_json_def pruned_def)
qed (simp add: ip_lock_write_status_def)

section \<open>The lock and its file\<close>

text \<open>
  \<open>lock_sync\<close>: the lock file is the one this process wrote last (its modification time is the one
  remembered), it can be written, and the status file is another file. It is what \<open>ip_lock_reload\<close>
  relies on to leave the lock alone.
\<close>

definition lock_sync :: "ip_lock \<times> os \<Rightarrow> bool" where
  "lock_sync = (\<lambda>(L, w). ip_lock_ok L \<and> il_lock_path L \<noteq> [] \<and> il_lock_path L \<noteq> il_status_path L \<and>
     os_writable w (il_lock_path L) \<and>
     (il_locked L \<noteq> [] \<longrightarrow> (\<exists>f. os_files w (il_lock_path L) = Some f \<and> f_mtime f = il_mtime L)))"

lemma ip_lock_reset_simps [simp]:
  "il_enabled (ip_lock_reset_recent_lists L) = il_enabled L"
  "il_lock_path (ip_lock_reset_recent_lists L) = il_lock_path L"
  "il_status_path (ip_lock_reset_recent_lists L) = il_status_path L"
  "il_locked (ip_lock_reset_recent_lists L) = il_locked L"
  "il_mtime (ip_lock_reset_recent_lists L) = il_mtime L"
  "recent_wf (il_incoming (ip_lock_reset_recent_lists L))"
  "recent_wf (il_blocked (ip_lock_reset_recent_lists L))"
  by (auto simp: ip_lock_reset_recent_lists_def)

lemma reload_frame:
  "il_enabled (ip_lock_reload w L) = il_enabled L"
  "il_lock_path (ip_lock_reload w L) = il_lock_path L"
  "il_status_path (ip_lock_reload w L) = il_status_path L"
  by (auto simp: ip_lock_reload_def Let_def split: option.splits)

lemma length_fgets_line: "length (fgets_line n s) \<le> n"
  by (induction n s rule: fgets_line.induct) auto

lemma c_str_length: "length (c_str s) \<le> length s"
  by (simp add: c_str_def length_takeWhile_le)

lemma c_str_nul: "0 \<notin> set (c_str s)"
  by (auto simp: c_str_def dest: set_takeWhileD)

lemma strip_eol_length: "length (strip_eol s) \<le> length s"
  unfolding strip_eol_def length_rev by (rule order_trans [OF length_dropWhile_le]) simp

lemma strip_eol_set: "set (strip_eol s) \<subseteq> set s"
  by (auto simp: strip_eol_def dest: set_dropWhileD)

lemma reloaded_ip_str:
  assumes "fgets INET6_ADDRSTRLEN content = Some line" "[] \<noteq> strip_eol (c_str line)"
  shows "ip_str (strip_eol (c_str line))"
proof -
  have "length line < INET6_ADDRSTRLEN"
    using assms(1) length_fgets_line [of 45 content] by (auto simp: fgets_def ip_lock_consts split: if_splits)
  then have "length (strip_eol (c_str line)) < INET6_ADDRSTRLEN"
    using strip_eol_length [of "c_str line"] c_str_length [of line] by linarith
  moreover have "0 \<notin> set (strip_eol (c_str line))" using strip_eol_set c_str_nul by blast
  ultimately show ?thesis using assms(2) by (auto simp: ip_str_def)
qed

lemma reload_ok: "ip_lock_ok L \<Longrightarrow> ip_lock_ok (ip_lock_reload w L)"
  by (auto simp: ip_lock_reload_def ip_lock_ok_def Let_def intro: reloaded_ip_str split: option.splits)

lemma reload_sync:
  assumes "lock_sync (L, w)"
  shows "lock_sync (ip_lock_reload w L, w)"
    and "il_locked L \<noteq> [] \<Longrightarrow> ip_lock_reload w L = L"
proof -
  show "il_locked L \<noteq> [] \<Longrightarrow> ip_lock_reload w L = L"
    using assms by (auto simp: lock_sync_def ip_lock_reload_def)
  have "il_locked (ip_lock_reload w L) \<noteq> [] \<longrightarrow>
      (\<exists>f. os_files w (il_lock_path L) = Some f \<and> f_mtime f = il_mtime (ip_lock_reload w L))"
    using assms by (auto simp: ip_lock_reload_def lock_sync_def Let_def split: option.splits)
  then show "lock_sync (ip_lock_reload w L, w)"
    using assms reload_ok by (auto simp: lock_sync_def reload_frame)
qed

lemma set_sync:
  assumes sync: "lock_sync (L, w)" and ip: "ip_str ip" and r: "ip_lock_set w ip L = (L', w')"
  shows "lock_sync (L', w')" and "il_locked L' = ip" and "il_enabled L' = il_enabled L"
    and "il_lock_path L' = il_lock_path L" and "il_status_path L' = il_status_path L"
    and "w' = os_write_file w (il_lock_path L) (ip @ [10])"
proof -
  have cp: "str_copy INET6_ADDRSTRLEN ip = ip" using ip by (simp add: str_copy_def ip_str_def ip_lock_consts)
  have path: "il_lock_path L \<noteq> []" "os_writable w (il_lock_path L)" using sync by (auto simp: lock_sync_def)
  have e: "L' = (if il_locked L \<noteq> [] \<and> il_locked L \<noteq> ip then ip_lock_reset_recent_lists L else L)
             \<lparr>il_locked := ip, il_mtime := os_time w\<rparr>" "w' = os_write_file w (il_lock_path L) (ip @ [10])"
    using r ip path cp
    by (cases "il_locked L \<noteq> [] \<and> il_locked L \<noteq> ip";
        force simp: ip_lock_set_def Let_def ip_str_def os_write_file_def)+
  show "lock_sync (L', w')" "il_locked L' = ip" "il_enabled L' = il_enabled L"
    "il_lock_path L' = il_lock_path L" "il_status_path L' = il_status_path L"
    "w' = os_write_file w (il_lock_path L) (ip @ [10])"
    using sync ip by (auto simp: e lock_sync_def ip_lock_ok_def os_write_file_def)
qed

lemma fgets_line_eol:
  "10 \<notin> set s \<Longrightarrow> length s \<le> n \<Longrightarrow> fgets_line n (s @ [10]) = s \<or> fgets_line n (s @ [10]) = s @ [10]"
proof (induction s arbitrary: n)
  case Nil
  then show ?case by (cases n) auto
next
  case (Cons c s)
  then show ?case by (cases n) auto
qed

lemma fgets_line_all: "10 \<notin> set s \<Longrightarrow> length s \<le> n \<Longrightarrow> strip_eol (fgets_line n (s @ [10])) = strip_eol s"
  using fgets_line_eol [of s n] by (auto simp: strip_eol_def)

lemma set_fgets_line: "set (fgets_line n s) \<subseteq> set s"
  by (induction n s rule: fgets_line.induct) auto

lemma strip_eol_id: "s \<noteq> [] \<Longrightarrow> last s \<notin> {10, 13, 32} \<Longrightarrow> strip_eol s = s"
  by (cases s rule: rev_cases) (auto simp: strip_eol_def)

text \<open>A printable address, as \<open>inet_ntop\<close> produces them: no blank and no line end.\<close>

definition ip_plain :: "bytes \<Rightarrow> bool" where
  "ip_plain ip \<longleftrightarrow> ip_str ip \<and> set ip \<inter> {10, 13, 32} = {}"

lemma written_lock_reads_back:
  assumes "ip_plain ip"
  shows "case fgets INET6_ADDRSTRLEN (ip @ [10]) of Some line \<Rightarrow> strip_eol (c_str line) = ip | None \<Rightarrow> False"
proof -
  have ip: "ip \<noteq> []" "length ip \<le> 45" "0 \<notin> set ip" "10 \<notin> set ip"
    using assms by (auto simp: ip_plain_def ip_str_def ip_lock_consts)
  have "last ip \<in> set ip" using ip(1) by simp
  then have "last ip \<notin> {10, 13, 32}" using assms by (auto simp: ip_plain_def)
  note ip = ip this
  have "0 \<notin> set (fgets_line 45 (ip @ [10]))" using set_fgets_line [of 45 "ip @ [10]"] ip by auto
  then show ?thesis
    using ip fgets_line_all [of ip 45] strip_eol_id [of ip] c_str_no_nul
    by (auto simp: fgets_def ip_lock_consts)
qed

section \<open>Interface: a lock on an address\<close>

text \<open>
  What the connection gate of the server relies on: refreshing keeps a held lock, acquiring
  gives it to the new address. The gate decides as \<open>check_ip_lock_allowed\<close> does; inside the
  locale it is shown to admit one address at a time.
\<close>

locale address_lock =
  fixes inv :: "'s \<Rightarrow> bool" and holder :: "'s \<Rightarrow> bytes" and refresh :: "'s \<Rightarrow> 's"
    and acquire :: "bytes \<Rightarrow> 's \<Rightarrow> 's" and valid :: "bytes \<Rightarrow> bool"
  assumes refresh_inv: "inv s \<Longrightarrow> inv (refresh s)"
    and refresh_holder: "inv s \<Longrightarrow> holder s \<noteq> [] \<Longrightarrow> holder (refresh s) = holder s"
    and acquire_inv: "inv s \<Longrightarrow> valid ip \<Longrightarrow> inv (acquire ip s)"
    and acquire_holder: "inv s \<Longrightarrow> valid ip \<Longrightarrow> holder (acquire ip s) = ip"
begin

definition gate :: "bytes list \<Rightarrow> bytes \<Rightarrow> 's \<Rightarrow> bool \<times> 's" where
  "gate peers ip s =
     (let s = refresh s in
      if holder s = [] then (True, acquire ip s)
      else if ip = holder s then (True, s)
      else if 0 < length (filter (\<lambda>p. p = holder s) peers) then (False, s)
      else (True, acquire ip s))"

definition exclusive :: "bytes list \<Rightarrow> 's \<Rightarrow> bool" where
  "exclusive peers s \<longleftrightarrow> inv s \<and> (\<forall>p\<in>set peers. p = [] \<or> p = holder s)"

lemma gate_inv: "inv s \<Longrightarrow> valid ip \<Longrightarrow> gate peers ip s = (b, s') \<Longrightarrow> inv s'"
  by (auto simp: gate_def Let_def refresh_inv acquire_inv split: if_splits)

lemma gate_admits:
  assumes "exclusive peers s" "valid ip" "gate peers ip s = (True, s')"
  shows "exclusive (peers @ [ip]) s'"
proof -
  have inv: "inv (refresh s)" using assms(1) by (simp add: exclusive_def refresh_inv)
  have h: "\<forall>p\<in>set peers. p = [] \<or> p = holder (refresh s)"
    using assms(1) refresh_holder by (fastforce simp: exclusive_def)
  show ?thesis
    using assms(2,3) inv h
    by (auto simp: gate_def exclusive_def Let_def acquire_inv acquire_holder filter_empty_conv split: if_splits)
qed

lemma gate_refuses:
  assumes "exclusive peers s" "p \<in> set peers" "p \<noteq> []" "ip \<noteq> p"
  shows "gate peers ip s = (False, refresh s)"
proof -
  have "p = holder s" "inv s" using assms by (auto simp: exclusive_def)
  then have "holder (refresh s) = p" using assms(3) refresh_holder by metis
  then show ?thesis using assms(2-4) by (auto simp: gate_def Let_def filter_empty_conv)
qed

lemma gate_refused:
  assumes "exclusive peers s" "gate peers ip s = (False, s')"
  shows "exclusive peers s'"
proof -
  have "s' = refresh s" using assms(2) by (auto simp: gate_def Let_def split: if_splits)
  then show ?thesis using assms(1) refresh_inv refresh_holder by (fastforce simp: exclusive_def)
qed

lemma exclusive_remove: "exclusive peers s \<Longrightarrow> set peers' \<subseteq> set peers \<Longrightarrow> exclusive peers' s"
  by (auto simp: exclusive_def)

end

interpretation ipl: address_lock lock_sync "\<lambda>(L, w). il_locked L" "\<lambda>(L, w). (ip_lock_reload w L, w)"
  "\<lambda>ip (L, w). ip_lock_set w ip L" ip_str
proof (unfold_locales, goal_cases)
  case (1 s)
  then show ?case by (cases s) (simp add: reload_sync)
next
  case (2 s)
  then show ?case by (cases s) (simp add: reload_sync)
next
  case (3 s ip)
  then show ?case by (cases s; cases "ip_lock_set (snd s) ip (fst s)") (auto intro: set_sync)
next
  case (4 s ip)
  then show ?case by (cases s; cases "ip_lock_set (snd s) ip (fst s)") (auto intro: set_sync)
qed

section \<open>Properties\<close>

text \<open>
  Recording an address in one of the fixed arrays of eight entries computes the
  specification \<open>seen_push\<close> on the live entries: stale ones (older than 30 seconds) go, the address
  moves to the front with the current time, at most eight stay; and the array keeps its length,
  its count stays within it and no address occurs twice.
\<close>

theorem ip_lock_push_recent_refines:
  assumes "recent_wf r" "ip_str ip"
  shows "live (ip_lock_push_recent r now ip) = seen_push now ip (live r) \<and>
         recent_wf (ip_lock_push_recent r now ip)"
  using push_recent_spec [OF assms] by blast

theorem ip_lock_push_recent_refines_witness:
  "live (ip_lock_push_recent recent_zero 5 [49]) = seen_push 5 [49] (live recent_zero) \<and>
   recent_wf (ip_lock_push_recent recent_zero 5 [49])"
  using ip_lock_push_recent_refines [of recent_zero "[49]" 5] by (simp add: ip_str_def ip_lock_consts)

text \<open>
  C32. The status file: whatever the addresses are, with at most sixteen active ones the
  formatter stays inside its buffers and the file holds exactly the JSON object with the escaped
  locked address, the number of connections, the active addresses and the recent and blocked
  addresses that are fresh and not active, nothing cut off; only that file changes.
\<close>

theorem ip_lock_write_status_exact:
  assumes "ip_lock_ok L" "length active \<le> IP_LOCK_MAX_TRACK_IPS" "\<forall>ip\<in>set active. ip_str ip"
    and "il_status_path L \<noteq> []" "os_writable w (il_status_path L)"
  shows "ip_lock_write_status w total_conn active L =
           Inr (pruned w L, os_write_file w (il_status_path L)
             (ip_lock_status_json (json_esc (il_locked L)) total_conn (json_list active)
                (json_list (shown (os_time w) active (il_incoming L)))
                (json_list (shown (os_time w) active (il_blocked L)))))"
  using write_status_eq [OF assms(1-3)] assms(4,5) by (simp add: status_json_def)

definition os0 :: os where
  "os0 = \<lparr>os_files = Map.empty, os_readable = (\<lambda>_. True), os_writable = (\<lambda>_. True),
     os_unlinkable = (\<lambda>_. True), os_time = 7\<rparr>"

definition lock0 :: ip_lock where
  "lock0 = ip_lock_zero\<lparr>il_enabled := True, il_lock_path := [108], il_status_path := [115]\<rparr>"

lemma lock0_ok [simp]: "ip_lock_ok lock0" "lock_sync (lock0, os0)"
  by (auto simp: ip_lock_ok_def lock0_def ip_lock_zero_def lock_sync_def os0_def)

theorem ip_lock_write_status_exact_witness:
  "\<exists>w'. ip_lock_write_status os0 3 [[49]] lock0 = Inr (pruned os0 lock0, w')"
  using ip_lock_write_status_exact [of lock0 "[[49]]" os0 3]
  by (simp add: ip_str_def ip_lock_consts) (simp add: lock0_def os0_def)

text \<open>
  The lock survives a restart: after \<open>ip_lock_set\<close> wrote the file, a new process that
  initialises the module with the same (short enough) path is locked to the same address.
\<close>

theorem ip_lock_survives_restart:
  assumes "lock_sync (L, w)" "ip_plain ip" "length (il_lock_path L) < 512" "os_time w \<noteq> 0"
    and "os_readable w (il_lock_path L)" "ip_lock_set w ip L = (L', w')"
  shows "ip_lock_get_locked_ip (ip_lock_init w' (Some (il_lock_path L)) sf ip_lock_zero) = ip"
proof -
  have w': "w' = os_write_file w (il_lock_path L) (ip @ [10])"
    using set_sync(6) [OF assms(1) _ assms(6)] assms(2) by (simp add: ip_plain_def)
  have path: "str_copy 512 (il_lock_path L) = il_lock_path L" "il_lock_path L \<noteq> []"
    using assms(1,3) by (auto simp: str_copy_def lock_sync_def)
  show ?thesis
    using written_lock_reads_back [OF assms(2)] path assms(4,5)
    by (auto simp: w' ip_lock_get_locked_ip_def ip_lock_init_def ip_lock_reload_def Let_def
        ip_lock_zero_def ip_lock_reset_recent_lists_def os_write_file_def os_fopen_r_def
        split: option.splits)
qed

theorem ip_lock_survives_restart_witness:
  "ip_lock_get_locked_ip (ip_lock_init (snd (ip_lock_set os0 [49] lock0)) (Some [108]) None ip_lock_zero) = [49]"
proof -
  have p: "il_lock_path lock0 = [108]" by (simp add: lock0_def)
  have "ip_plain [49]" by (simp add: ip_plain_def ip_str_def ip_lock_consts)
  then show ?thesis
    using ip_lock_survives_restart [of lock0 os0 "[49]" "fst (ip_lock_set os0 [49] lock0)"
        "snd (ip_lock_set os0 [49] lock0)" None]
    by (simp add: p) (simp add: os0_def)
qed

end
