(* ===== verification/Manager.thy ===== *)
theory Manager
  imports Netutils IP_Lock Buffer "HOL-Library.AList"
begin

text \<open>
  The port manager of \<^verbatim>\<open>src/manager.c\<close>: datagrams with a command and a JSON object add, remove and
  list server processes, record their traffic, and set, clear and report the client lock of a port.

  The command buffer, the stack arrays \<open>port\<close> and \<open>ip\<close> and the arrays of \<open>struct server\<close> are checked
  memory; a stack array holds arbitrary bytes (\<open>me_junk\<close>) before it is written, and reading an array as
  a C string is \<open>Out_of_bounds\<close> when it holds no NUL. The hash table is an association list in the order
  of insertion, the order its iterator follows. A reply buffer that is only written by \<open>sprintf\<close> at its
  end is the string it holds, and writing past \<open>BUF_SIZE\<close> is \<open>Out_of_bounds\<close>. Files are those of \<open>IP_Lock\<close>.
  \<open>json_parse_ex\<close> is the parameter \<open>me_json\<close>. The answers of \<open>recvfrom\<close>, \<open>getaddrinfo\<close>, \<open>bind\<close> and \<open>system\<close> are
  the input record \<open>mio\<close>; a reply that cannot be sent is only logged. Log messages are left out.
  \<open>get_server_m\<close> and \<open>stop_server_m\<close> are \<open>get_server\<close> and \<open>stop_server\<close> of this file (other files have their own).
\<close>

section \<open>State\<close>

definition BUF_SIZE :: nat where "BUF_SIZE = 65535"
definition TCP_ONLY :: nat where "TCP_ONLY = 0"
definition TCP_AND_UDP :: nat where "TCP_AND_UDP = 1"
definition UDP_ONLY :: nat where "UDP_ONLY = 3"

datatype json =
  JObject "(bytes \<times> json) list"
| JArray "json list"
| JInteger u64
| JDouble
| JString bytes
| JBoolean bool
| JNull

record mserver =
  ms_port :: bytes
  ms_password :: bytes
  ms_locked_ip :: bytes
  ms_fast_open :: bytes
  ms_no_delay :: bytes
  ms_mode :: "bytes option"
  ms_method :: "bytes option"
  ms_plugin :: "bytes option"
  ms_plugin_opts :: "bytes option"
  ms_traffic :: u64

record manager_ctx =
  mc_fast_open :: bool
  mc_no_delay :: bool
  mc_reuse_port :: bool
  mc_verbose :: bool
  mc_mode :: nat
  mc_timeout :: "bytes option"
  mc_method :: bytes
  mc_iface :: "bytes option"
  mc_acl :: "bytes option"
  mc_user :: "bytes option"
  mc_plugin :: "bytes option"
  mc_plugin_opts :: "bytes option"
  mc_manager_address :: bytes
  mc_hosts :: "bytes list"
  mc_nameservers :: "bytes option"
  mc_mtu :: int
  mc_ipv6first :: bool
  mc_nofile :: int

record menv =
  me_ctx :: manager_ctx
  me_json :: "bytes \<Rightarrow> json option"
  me_working_dir :: bytes
  me_executable :: bytes
  me_junk :: junk
  me_junk_pid :: int

datatype mevent =
  Sent bytes
| Run bytes
| Kill int

record mgr =
  mg_table :: "(bytes \<times> mserver) list"
  mg_os :: os
  mg_trace :: "mevent list"

text \<open>\<open>mi_addrs host tcp\<close> is the result of \<open>getaddrinfo\<close>: family, whether \<open>socket\<close> and whether \<open>bind\<close> succeed.\<close>

record mio =
  mi_recv :: "bytes option"
  mi_addrs :: "bytes \<Rightarrow> bool \<Rightarrow> (nat \<times> bool \<times> bool) list option"
  mi_system :: bool

definition mout :: "mevent \<Rightarrow> mgr \<Rightarrow> mgr" where
  "mout e s = s\<lparr>mg_trace := mg_trace s @ [e]\<rparr>"

section \<open>Strings\<close>

text \<open>\<open>strncpy(m, s, n)\<close>: at most \<open>n\<close> bytes, padded with NULs up to \<open>n\<close>; no NUL when \<open>s\<close> is as long.\<close>

definition str_ncpy :: "bytes \<Rightarrow> nat \<Rightarrow> bytes \<Rightarrow> bytes res" where
  "str_ncpy m n s = (let t = take n s in mem_write m 0 (t @ replicate (n - length t) 0))"

text \<open>\<open>%d\<close> of an \<open>int\<close>.\<close>

definition int_str :: "int \<Rightarrow> bytes" where
  "int_str i = (if i < 0 then 45 # dec_str (nat (- i)) else dec_str (nat i))"

text \<open>\<open>fscanf(f, "%d", &pid)\<close>: nothing at the end of the file, no number, or the number.\<close>

definition scan_int :: "bytes \<Rightarrow> int option option" where
  "scan_int s =
     (case dropWhile is_space s of
        [] \<Rightarrow> None
      | c # t \<Rightarrow>
          (case (if c = 45 \<or> c = 43 then t else c # t) of
             d # _ \<Rightarrow> if is_digit d then Some (Some (atoi (c # t))) else Some None
           | [] \<Rightarrow> Some None))"

section \<open>Configuration file and command line\<close>

definition conf_path :: "bytes \<Rightarrow> bytes \<Rightarrow> bytes" where
  "conf_path prefix port = prefix @ bstr ''/.shadowsocks_'' @ port @ bstr ''.conf''"

definition pid_path :: "bytes \<Rightarrow> bytes \<Rightarrow> bytes" where
  "pid_path prefix port = prefix @ bstr ''/.shadowsocks_'' @ port @ bstr ''.pid''"

definition opt_field :: "string \<Rightarrow> bytes option \<Rightarrow> bytes" where
  "opt_field name v =
     (case v of None \<Rightarrow> [] | Some x \<Rightarrow> bstr '','' @ [10, 34] @ bstr name @ bstr ''\":\"'' @ x @ [34])"

definition flag_field :: "string \<Rightarrow> bytes \<Rightarrow> bytes" where
  "flag_field name v = bstr '','' @ [10, 34] @ bstr name @ bstr ''\": '' @ v"

definition conf_text :: "manager_ctx \<Rightarrow> mserver \<Rightarrow> bytes \<Rightarrow> bytes \<Rightarrow> bytes \<Rightarrow> bytes \<Rightarrow> bytes" where
  "conf_text mc sv port password fast_open no_delay =
     bstr ''{'' @ [10] @ bstr ''\"server_port\":'' @ int_str (atoi port) @ bstr '','' @ [10] @
     bstr ''\"password\":\"'' @ password @ bstr ''\"'' @
     opt_field ''method'' (Some (case ms_method sv of Some m \<Rightarrow> m | None \<Rightarrow> mc_method mc)) @
     (if fast_open \<noteq> [] then flag_field ''fast_open'' fast_open
      else if mc_fast_open mc then flag_field ''fast_open'' (bstr ''true'') else []) @
     (if no_delay \<noteq> [] then flag_field ''no_delay'' no_delay
      else if mc_no_delay mc then flag_field ''no_delay'' (bstr ''true'') else []) @
     (if mc_reuse_port mc then flag_field ''reuse_port'' (bstr ''true'') else []) @
     opt_field ''mode'' (ms_mode sv) @ opt_field ''plugin'' (ms_plugin sv) @
     opt_field ''plugin_opts'' (ms_plugin_opts sv) @ [10] @ bstr ''}'' @ [10]"

definition build_config :: "bytes \<Rightarrow> manager_ctx \<Rightarrow> mserver \<Rightarrow> os \<Rightarrow> os res" where
  "build_config prefix mc sv w =
     bindr (str_in (ms_port sv)) (\<lambda>port.
     let path = conf_path prefix port in
     if \<not> os_writable w path then Inr w
     else
       bindr (str_in (ms_password sv)) (\<lambda>password.
       bindr (str_in (ms_fast_open sv)) (\<lambda>fast_open.
       bindr (str_in (ms_no_delay sv)) (\<lambda>no_delay.
         Inr (os_write_file w path (conf_text mc sv port password fast_open no_delay))))))"

text \<open>\<open>snprintf(cmd + len, BUF_SIZE - len, ...)\<close>: the rest is cut off.\<close>

definition cmd_append :: "bytes \<Rightarrow> bytes \<Rightarrow> bytes" where
  "cmd_append cmd s = cmd @ take (BUF_SIZE - 1 - length cmd) s"

definition opt_arg :: "string \<Rightarrow> bytes option \<Rightarrow> string \<Rightarrow> bytes" where
  "opt_arg pre v post = (case v of None \<Rightarrow> [] | Some x \<Rightarrow> bstr pre @ x @ bstr post)"

definition command_parts :: "menv \<Rightarrow> mserver \<Rightarrow> bytes \<Rightarrow> bytes list" where
  "command_parts E sv port =
     (let mc = me_ctx E; d = me_working_dir E; p = int_str (atoi port) in
      [me_executable E @ bstr '' --manager-address '' @ mc_manager_address mc @ bstr '' -f '' @ pid_path d p @
         bstr '' -c '' @ conf_path d p,
       opt_arg '' --acl '' (mc_acl mc) '''',
       opt_arg '' -t '' (mc_timeout mc) '''',
       (if mc_nofile mc \<noteq> 0 then bstr '' -n '' @ int_str (mc_nofile mc) else []),
       opt_arg '' -a '' (mc_user mc) '''',
       (if mc_verbose mc then bstr '' -v'' else []),
       (if ms_mode sv = None \<and> mc_mode mc = UDP_ONLY then bstr '' -U'' else []),
       (if ms_mode sv = None \<and> mc_mode mc = TCP_AND_UDP then bstr '' -u'' else []),
       opt_arg '' -i \"'' (mc_iface mc) ''\"'',
       (if hd (ms_fast_open sv) = 0 \<and> mc_fast_open mc then bstr '' --fast-open'' else []),
       (if hd (ms_no_delay sv) = 0 \<and> mc_no_delay mc then bstr '' --no-delay'' else []),
       (if mc_ipv6first mc then bstr '' -6'' else []),
       (if mc_mtu mc \<noteq> 0 then bstr '' --mtu '' @ int_str (mc_mtu mc) else []),
       (if ms_plugin sv = None then opt_arg '' --plugin \"'' (mc_plugin mc) ''\"'' else []),
       (if ms_plugin_opts sv = None then opt_arg '' --plugin-opts \"'' (mc_plugin_opts mc) ''\"'' else []),
       opt_arg '' -d \"'' (mc_nameservers mc) ''\"''] @
      map (\<lambda>h. bstr '' -s '' @ h) (mc_hosts mc))"

definition construct_command_line :: "menv \<Rightarrow> mserver \<Rightarrow> os \<Rightarrow> (bytes \<times> os) res" where
  "construct_command_line E sv w =
     bindr (str_in (ms_port sv)) (\<lambda>port.
     bindr (build_config (me_working_dir E) (me_ctx E) sv w) (\<lambda>w.
       Inr (foldl cmd_append [] (command_parts E sv port), w)))"

section \<open>Reading a command\<close>

text \<open>The position of the first \<open>{\<close>, or \<open>len\<close>; the data start one byte before it.\<close>

fun scan_to :: "(byte \<Rightarrow> bool) \<Rightarrow> bytes \<Rightarrow> nat \<Rightarrow> nat \<Rightarrow> nat \<Rightarrow> nat res" where
  "scan_to stop buf len pos 0 = Inr pos"
| "scan_to stop buf len pos (Suc k) =
     (if pos < len then
        bindr (mem_read buf pos 1) (\<lambda>c. if stop (hd c) then Inr pos else scan_to stop buf len (pos + 1) k)
      else Inr pos)"

definition get_data :: "bytes \<Rightarrow> nat \<Rightarrow> int option res" where
  "get_data buf len =
     bindr (scan_to (\<lambda>c. c = 123) buf len 0 len) (\<lambda>pos.
       Inr (if pos = len then None else Some (int pos - 1)))"

definition get_action :: "bytes \<Rightarrow> nat \<Rightarrow> (nat option \<times> bytes) res" where
  "get_action buf len =
     bindr (scan_to (\<lambda>c. \<not> is_space c) buf len 0 len) (\<lambda>pos.
       if pos = len then Inr (None, buf)
       else
         bindr (scan_to (\<lambda>c. is_space c \<or> c = 58) buf len pos len) (\<lambda>e.
         bindr (mem_write buf e [0]) (\<lambda>buf. Inr (Some pos, buf))))"

text \<open>A C string at an offset of the buffer; before its start there is nothing to read.\<close>

definition str_at :: "bytes \<Rightarrow> int \<Rightarrow> bytes res" where
  "str_at buf off = (if off < 0 then Inl Out_of_bounds else str_in (drop (nat off) buf))"

definition mserver_zero :: mserver where
  "mserver_zero = \<lparr>ms_port = replicate 8 0, ms_password = replicate 128 0, ms_locked_ip = replicate INET6_ADDRSTRLEN 0,
     ms_fast_open = replicate 8 0, ms_no_delay = replicate 8 0, ms_mode = None, ms_method = None, ms_plugin = None,
     ms_plugin_opts = None, ms_traffic = 0\<rparr>"

definition bool_str :: "bool \<Rightarrow> bytes" where
  "bool_str b = (if b then bstr ''true'' else bstr ''false'')"

text \<open>\<open>snprintf(port, 8, "%" PRIu64, v)\<close>.\<close>

definition put_u64 :: "bytes \<Rightarrow> u64 \<Rightarrow> bytes res" where
  "put_u64 m v = mem_write m 0 (take 7 (dec_str (unat v)) @ [0])"

fun server_fields :: "(bytes \<times> json) list \<Rightarrow> mserver \<Rightarrow> mserver res" where
  "server_fields [] sv = Inr sv"
| "server_fields ((name, v) # vs) sv =
     (if name = bstr ''server_port'' then
        bindr (case v of JString p \<Rightarrow> str_ncpy (ms_port sv) 7 p | JInteger i \<Rightarrow> put_u64 (ms_port sv) i | _ \<Rightarrow> Inr (ms_port sv))
          (\<lambda>m. server_fields vs (sv\<lparr>ms_port := m\<rparr>))
      else if name = bstr ''password'' then
        bindr (case v of JString p \<Rightarrow> str_ncpy (ms_password sv) 127 p | _ \<Rightarrow> Inr (ms_password sv))
          (\<lambda>m. server_fields vs (sv\<lparr>ms_password := m\<rparr>))
      else if name = bstr ''method'' then
        server_fields vs (case v of JString x \<Rightarrow> sv\<lparr>ms_method := Some x\<rparr> | _ \<Rightarrow> sv)
      else if name = bstr ''fast_open'' then
        bindr (case v of JBoolean b \<Rightarrow> str_ncpy (ms_fast_open sv) 8 (bool_str b) | _ \<Rightarrow> Inr (ms_fast_open sv))
          (\<lambda>m. server_fields vs (sv\<lparr>ms_fast_open := m\<rparr>))
      else if name = bstr ''no_delay'' then
        bindr (case v of JBoolean b \<Rightarrow> str_ncpy (ms_no_delay sv) 8 (bool_str b) | _ \<Rightarrow> Inr (ms_no_delay sv))
          (\<lambda>m. server_fields vs (sv\<lparr>ms_no_delay := m\<rparr>))
      else if name = bstr ''plugin'' then
        server_fields vs (case v of JString x \<Rightarrow> sv\<lparr>ms_plugin := Some x\<rparr> | _ \<Rightarrow> sv)
      else if name = bstr ''plugin_opts'' then
        server_fields vs (case v of JString x \<Rightarrow> sv\<lparr>ms_plugin_opts := Some x\<rparr> | _ \<Rightarrow> sv)
      else if name = bstr ''mode'' then
        server_fields vs (case v of JString x \<Rightarrow> sv\<lparr>ms_mode := Some x\<rparr> | _ \<Rightarrow> sv)
      else Inr sv)"

text \<open>\<open>json_parse_ex\<close> on the data of a command: no data, a syntax error, or the value.\<close>

definition command_json :: "menv \<Rightarrow> bytes \<Rightarrow> nat \<Rightarrow> json option res" where
  "command_json E buf len =
     bindr (get_data buf len) (\<lambda>d.
       case d of None \<Rightarrow> Inr None | Some off \<Rightarrow> bindr (str_at buf off) (\<lambda>t. Inr (me_json E t)))"

definition get_server_m :: "menv \<Rightarrow> bytes \<Rightarrow> nat \<Rightarrow> mserver option res" where
  "get_server_m E buf len =
     bindr (command_json E buf len) (\<lambda>j.
       case j of
         None \<Rightarrow> Inr None
       | Some (JObject vs) \<Rightarrow> bindr (server_fields vs mserver_zero) (\<lambda>sv. Inr (Some sv))
       | Some _ \<Rightarrow> Inr (Some mserver_zero))"

fun traffic_fields :: "(bytes \<times> json) list \<Rightarrow> bytes \<Rightarrow> u64 \<Rightarrow> (bytes \<times> u64) res" where
  "traffic_fields [] port traffic = Inr (port, traffic)"
| "traffic_fields ((name, v) # vs) port traffic =
     (case v of
        JInteger i \<Rightarrow> bindr (str_ncpy port 7 name) (\<lambda>port. traffic_fields vs port i)
      | _ \<Rightarrow> traffic_fields vs port traffic)"

definition parse_traffic :: "menv \<Rightarrow> bytes \<Rightarrow> nat \<Rightarrow> bytes \<Rightarrow> (bytes \<times> u64) option res" where
  "parse_traffic E buf len port =
     bindr (command_json E buf len) (\<lambda>j.
       case j of
         None \<Rightarrow> Inr None
       | Some (JObject vs) \<Rightarrow> bindr (traffic_fields vs port 0) (\<lambda>r. Inr (Some r))
       | Some _ \<Rightarrow> Inr (Some (port, 0)))"

fun port_ip_fields :: "(bytes \<times> json) list \<Rightarrow> bytes \<Rightarrow> bytes \<Rightarrow> (bytes \<times> bytes) res" where
  "port_ip_fields [] port ip = Inr (port, ip)"
| "port_ip_fields ((name, v) # vs) port ip =
     (if name = bstr ''server_port'' then
        bindr (case v of JString p \<Rightarrow> str_ncpy port 7 p | JInteger i \<Rightarrow> put_u64 port i | _ \<Rightarrow> Inr port)
          (\<lambda>port. port_ip_fields vs port ip)
      else if name = bstr ''ip'' then
        bindr (case v of JString a \<Rightarrow> str_ncpy ip (INET6_ADDRSTRLEN - 1) a | _ \<Rightarrow> Inr ip)
          (\<lambda>ip. port_ip_fields vs port ip)
      else port_ip_fields vs port ip)"

text \<open>\<open>None\<close> is the return value -1.\<close>

definition parse_port_ip :: "menv \<Rightarrow> bytes \<Rightarrow> nat \<Rightarrow> bytes \<Rightarrow> bytes \<Rightarrow> (bytes \<times> bytes) option res" where
  "parse_port_ip E buf len port ip =
     bindr (mem_write port 0 [0]) (\<lambda>port.
     bindr (mem_write ip 0 [0]) (\<lambda>ip.
     bindr (command_json E buf len) (\<lambda>j.
       case j of
         None \<Rightarrow> Inr None
       | Some v \<Rightarrow>
           bindr (case v of JObject vs \<Rightarrow> port_ip_fields vs port ip | _ \<Rightarrow> Inr (port, ip)) (\<lambda>(port, ip).
             Inr (if hd port = 0 then None else Some (port, ip))))))"

definition parse_port_only :: "menv \<Rightarrow> bytes \<Rightarrow> nat \<Rightarrow> bytes \<Rightarrow> bytes option res" where
  "parse_port_only E buf len port =
     bindr (parse_port_ip E buf len port (fresh_block (me_junk E) 8 (8 + INET6_ADDRSTRLEN))) (\<lambda>r.
       Inr (map_option fst r))"

section \<open>The lock and status files of a port\<close>

definition write_port_lock_ip :: "bytes \<Rightarrow> bytes \<Rightarrow> os \<Rightarrow> (bool \<times> os) res" where
  "write_port_lock_ip port ip w =
     (if hd port = 0 \<or> hd ip = 0 then Inr (False, w)
      else
        bindr (str_in port) (\<lambda>port.
        let path = ip_lock_sidecar_path 512 port (bstr ''iplock'') in
        if \<not> os_writable w path then Inr (False, w)
        else bindr (str_in ip) (\<lambda>ip. Inr (True, os_write_file w path (ip @ [10])))))"

definition clear_port_lock_ip :: "bytes \<Rightarrow> os \<Rightarrow> os res" where
  "clear_port_lock_ip port w =
     (if hd port = 0 then Inr w
      else bindr (str_in port) (\<lambda>port. Inr (os_unlink w (ip_lock_sidecar_path 512 port (bstr ''iplock'')))))"

definition strip_crlf :: "bytes \<Rightarrow> bytes" where
  "strip_crlf s = rev (dropWhile (\<lambda>c. c = 10 \<or> c = 13) (rev s))"

text \<open>The text in \<open>out\<close>, an array of \<open>out_size\<close> bytes.\<close>

definition read_port_status :: "bytes \<Rightarrow> nat \<Rightarrow> os \<Rightarrow> bytes res" where
  "read_port_status port out_size w =
     bindr (str_in port) (\<lambda>port.
     let locked_ip =
           (case os_fopen_r w (ip_lock_sidecar_path 512 port (bstr ''iplock'')) of
              None \<Rightarrow> []
            | Some d \<Rightarrow> (case fgets INET6_ADDRSTRLEN d of None \<Rightarrow> [] | Some line \<Rightarrow> strip_crlf (c_str line)));
         body =
           (case os_fopen_r w (ip_lock_sidecar_path 512 port (bstr ''ipstatus'')) of
              None \<Rightarrow> []
            | Some d \<Rightarrow> c_str (take (IP_LOCK_STATUS_JSON_MAX + 64 - 1) d))
     in Inr (take (out_size - 1)
          (if body \<noteq> [] then body
           else bstr ''{\"locked_ip\":\"'' @ locked_ip @
             bstr ''\",\"connections\":0,\"active_ips\":[],\"recent_incoming\":[],\"blocked_ips\":[]}'')))"

section \<open>Servers\<close>

text \<open>\<open>create_and_bind\<close> on what \<open>getaddrinfo\<close> returned: whether some address could be bound.\<close>

fun bind_first :: "(nat \<times> bool \<times> bool) list \<Rightarrow> bool" where
  "bind_first [] = False"
| "bind_first ((fam, sock_ok, bind_ok) # rps) =
     (if \<not> sock_ok then bind_first rps else if bind_ok then True else bind_first rps)"

definition create_and_bind :: "bytes option \<Rightarrow> (nat \<times> bool \<times> bool) list option \<Rightarrow> bool" where
  "create_and_bind host addrs =
     (case addrs of
        None \<Rightarrow> False
      | Some result \<Rightarrow>
          bind_first (if host = None \<and> list_ex (\<lambda>a. fst a = AF_INET6) result
                      then dropWhile (\<lambda>a. fst a \<noteq> AF_INET6) result else result))"

fun check_hosts :: "nat \<Rightarrow> (bytes \<Rightarrow> bool \<Rightarrow> (nat \<times> bool \<times> bool) list option) \<Rightarrow> bytes list \<Rightarrow> bool" where
  "check_hosts mode addrs [] = True"
| "check_hosts mode addrs (h # hs) =
     (let first = create_and_bind (Some h) (addrs h (mode \<noteq> UDP_ONLY)) in
      if \<not> first \<or> mode = TCP_AND_UDP \<and> \<not> create_and_bind (Some h) (addrs h False) then False
      else check_hosts mode addrs hs)"

definition check_port :: "menv \<Rightarrow> mio \<Rightarrow> bool" where
  "check_port E io = check_hosts (mc_mode (me_ctx E)) (mi_addrs io) (mc_hosts (me_ctx E))"

definition add_server :: "menv \<Rightarrow> mio \<Rightarrow> mserver \<Rightarrow> mgr \<Rightarrow> (bool \<times> mgr) res" where
  "add_server E io sv s =
     (if \<not> check_port E io then Inr (False, s)
      else
        bindr (str_in (ms_port sv)) (\<lambda>port.
        let s = s\<lparr>mg_table := AList.update port sv (mg_table s)\<rparr> in
        bindr (construct_command_line E sv (mg_os s)) (\<lambda>(cmd, w).
          let s = mout (Run cmd) (s\<lparr>mg_os := w\<rparr>) in Inr (mi_system io, s))))"

definition signal_pid :: "menv \<Rightarrow> bytes \<Rightarrow> mgr \<Rightarrow> mgr" where
  "signal_pid E content s =
     (case scan_int content of
        None \<Rightarrow> s
      | Some None \<Rightarrow> mout (Kill (me_junk_pid E)) s
      | Some (Some pid) \<Rightarrow> mout (Kill pid) s)"

definition kill_server :: "menv \<Rightarrow> bytes \<Rightarrow> bytes \<Rightarrow> mgr \<Rightarrow> mgr" where
  "kill_server E prefix pid_file s =
     (let path = prefix @ bstr ''/'' @ pid_file in
      case os_fopen_r (mg_os s) path of
        None \<Rightarrow> s
      | Some d \<Rightarrow> let s = signal_pid E d s in s\<lparr>mg_os := os_unlink (mg_os s) path\<rparr>)"

definition stop_server_m :: "menv \<Rightarrow> bytes \<Rightarrow> bytes \<Rightarrow> mgr \<Rightarrow> mgr" where
  "stop_server_m E prefix port s =
     (case os_fopen_r (mg_os s) (pid_path prefix port) of
        None \<Rightarrow> s
      | Some d \<Rightarrow> signal_pid E d s)"

definition remove_server :: "menv \<Rightarrow> bytes \<Rightarrow> bytes \<Rightarrow> mgr \<Rightarrow> mgr res" where
  "remove_server E prefix port s =
     bindr (str_in port) (\<lambda>port.
       let s = s\<lparr>mg_table := AList.delete port (mg_table s)\<rparr>;
           s = s\<lparr>mg_os := os_unlink (mg_os s) (ip_lock_sidecar_path 512 port (bstr ''iplock''))\<rparr>;
           s = s\<lparr>mg_os := os_unlink (mg_os s) (ip_lock_sidecar_path 512 port (bstr ''ipstatus''))\<rparr>
       in Inr (stop_server_m E prefix port s))"

definition update_server :: "bytes \<Rightarrow> (mserver \<Rightarrow> mserver) \<Rightarrow> mgr \<Rightarrow> mgr" where
  "update_server port f s =
     (case map_of (mg_table s) port of
        None \<Rightarrow> s
      | Some sv \<Rightarrow> s\<lparr>mg_table := AList.update port (f sv) (mg_table s)\<rparr>)"

definition update_stat :: "bytes \<Rightarrow> u64 \<Rightarrow> mgr \<Rightarrow> mgr res" where
  "update_stat port traffic s =
     bindr (str_in port) (\<lambda>port. Inr (update_server port (\<lambda>sv. sv\<lparr>ms_traffic := traffic\<rparr>) s))"

section \<open>Reports\<close>

text \<open>\<open>sprintf(buf + pos, ...)\<close> at the end \<open>pos\<close> of the string in \<open>buf\<close>.\<close>

definition buf_print :: "bytes \<Rightarrow> bytes \<Rightarrow> bytes res" where
  "buf_print buf t = (if length buf + length t + 1 \<le> BUF_SIZE then Inr (buf @ t) else Inl Out_of_bounds)"

definition list_entry :: "bytes \<Rightarrow> bytes \<Rightarrow> bytes \<Rightarrow> bytes" where
  "list_entry port password m =
     [10, 9] @ bstr ''{\"server_port\":\"'' @ port @ bstr ''\",\"password\":\"'' @ password @ bstr ''\",\"method\":\"'' @ m @
     bstr ''\"},''"

text \<open>\<open>pos > BUF_SIZE - entry_len - 50\<close> in \<open>size_t\<close>: with a longer entry the right side wraps round.\<close>

definition list_full :: "nat \<Rightarrow> nat \<Rightarrow> bool" where
  "list_full pos entry_len \<longleftrightarrow> entry_len + 50 \<le> BUF_SIZE \<and> pos > BUF_SIZE - entry_len - 50"

fun list_loop :: "menv \<Rightarrow> (bytes \<times> mserver) list \<Rightarrow> bytes \<Rightarrow> mgr \<Rightarrow> (bytes \<times> mgr) res" where
  "list_loop E [] buf s = Inr (buf, s)"
| "list_loop E ((k, sv) # t) buf s =
     bindr (str_in (ms_port sv)) (\<lambda>port.
     bindr (str_in (ms_password sv)) (\<lambda>password.
       let m = (case ms_method sv of Some m \<Rightarrow> m | None \<Rightarrow> mc_method (me_ctx E));
           entry_len = length port + length password + length m;
           (buf, s) = (if list_full (length buf) entry_len then ([], mout (Sent buf) s) else (buf, s))
       in bindr (buf_print buf (list_entry port password m)) (\<lambda>buf. list_loop E t buf s)))"

definition list_command :: "menv \<Rightarrow> mgr \<Rightarrow> mgr res" where
  "list_command E s =
     bindr (list_loop E (mg_table s) (bstr ''['') s) (\<lambda>(buf, s).
       if buf = [] then Inl Out_of_bounds
       else bindr (buf_print (take (max (length buf - 1) 1) buf) [10, 93]) (\<lambda>buf. Inr (mout (Sent buf) s)))"

definition ping_entry :: "bytes \<Rightarrow> u64 \<Rightarrow> bytes" where
  "ping_entry port traffic = [34] @ port @ bstr ''\":'' @ dec_str (unat traffic) @ bstr '',''"

fun ping_loop :: "(bytes \<times> mserver) list \<Rightarrow> bytes \<Rightarrow> mgr \<Rightarrow> (bytes \<times> mgr) res" where
  "ping_loop [] buf s = Inr (buf, s)"
| "ping_loop ((k, sv) # t) buf s =
     (if length buf > BUF_SIZE div 2 then ping_loop t [] (mout (Sent (buf[length buf - 1 := 125])) s)
      else
        bindr (str_in (ms_port sv)) (\<lambda>port.
        bindr (buf_print buf (ping_entry port (ms_traffic sv))) (\<lambda>buf. ping_loop t buf s)))"

definition ping_command :: "mgr \<Rightarrow> mgr res" where
  "ping_command s =
     bindr (ping_loop (mg_table s) (bstr ''stat: {'') s) (\<lambda>(buf, s).
       if length buf > 7 then Inr (mout (Sent (buf[length buf - 1 := 125])) s)
       else bindr (buf_print buf [125]) (\<lambda>buf. Inr (mout (Sent buf) s)))"

section \<open>Commands\<close>

definition reply_err :: "mgr \<Rightarrow> mgr" where
  "reply_err s = mout (Sent (bstr ''err'')) s"

definition add_command :: "menv \<Rightarrow> mio \<Rightarrow> bytes \<Rightarrow> nat \<Rightarrow> mgr \<Rightarrow> mgr res" where
  "add_command E io buf r s =
     bindr (get_server_m E buf r) (\<lambda>got.
       case got of
         None \<Rightarrow> Inr (reply_err s)
       | Some sv \<Rightarrow>
           if hd (ms_port sv) = 0 \<or> hd (ms_password sv) = 0 then Inr (reply_err s)
           else
             bindr (remove_server E (me_working_dir E) (ms_port sv) s) (\<lambda>s.
             bindr (add_server E io sv s) (\<lambda>(ok, s).
               Inr (mout (Sent (if ok then bstr ''ok'' else bstr ''port is not available'')) s))))"

definition remove_command :: "menv \<Rightarrow> bytes \<Rightarrow> nat \<Rightarrow> mgr \<Rightarrow> mgr res" where
  "remove_command E buf r s =
     bindr (get_server_m E buf r) (\<lambda>got.
       case got of
         None \<Rightarrow> Inr (reply_err s)
       | Some sv \<Rightarrow>
           if hd (ms_port sv) = 0 then Inr (reply_err s)
           else
             bindr (remove_server E (me_working_dir E) (ms_port sv) s) (\<lambda>s.
               Inr (mout (Sent (bstr ''ok'')) s)))"

definition stat_command :: "menv \<Rightarrow> bytes \<Rightarrow> nat \<Rightarrow> mgr \<Rightarrow> mgr res" where
  "stat_command E buf r s =
     bindr (parse_traffic E buf r (fresh_block (me_junk E) 0 8)) (\<lambda>got.
       case got of None \<Rightarrow> Inr s | Some (port, traffic) \<Rightarrow> update_stat port traffic s)"

text \<open>\<open>strncpy(server->locked_ip, ip, 45); server->locked_ip[45] = 0\<close>.\<close>

definition set_locked :: "bytes \<Rightarrow> mserver \<Rightarrow> mserver" where
  "set_locked ip sv =
     (let t = take (INET6_ADDRSTRLEN - 1) ip
      in sv\<lparr>ms_locked_ip := t @ replicate (INET6_ADDRSTRLEN - length t) 0\<rparr>)"

definition set_ip_command :: "menv \<Rightarrow> bytes \<Rightarrow> nat \<Rightarrow> mgr \<Rightarrow> mgr res" where
  "set_ip_command E buf r s =
     bindr (parse_port_ip E buf r (fresh_block (me_junk E) 0 8) (fresh_block (me_junk E) 8 (8 + INET6_ADDRSTRLEN))) (\<lambda>got.
       case got of
         None \<Rightarrow> Inr (reply_err s)
       | Some (port, ip) \<Rightarrow>
           if hd ip = 0 then Inr (reply_err s)
           else
             bindr (write_port_lock_ip port ip (mg_os s)) (\<lambda>(ok, w).
               if \<not> ok then Inr (reply_err (s\<lparr>mg_os := w\<rparr>))
               else
                 bindr (str_in port) (\<lambda>port.
                 bindr (str_in ip) (\<lambda>ip.
                   Inr (mout (Sent (bstr ''ok'')) (update_server port (set_locked ip) (s\<lparr>mg_os := w\<rparr>)))))))"

definition clear_ip_command :: "menv \<Rightarrow> bytes \<Rightarrow> nat \<Rightarrow> mgr \<Rightarrow> mgr res" where
  "clear_ip_command E buf r s =
     bindr (parse_port_only E buf r (fresh_block (me_junk E) 0 8)) (\<lambda>got.
       case got of
         None \<Rightarrow> Inr (reply_err s)
       | Some port \<Rightarrow>
           bindr (clear_port_lock_ip port (mg_os s)) (\<lambda>w.
           bindr (str_in port) (\<lambda>port.
             Inr (mout (Sent (bstr ''ok''))
               (update_server port (\<lambda>sv. sv\<lparr>ms_locked_ip := (ms_locked_ip sv)[0 := 0]\<rparr>) (s\<lparr>mg_os := w\<rparr>))))))"

definition ip_status_command :: "menv \<Rightarrow> bytes \<Rightarrow> nat \<Rightarrow> mgr \<Rightarrow> mgr res" where
  "ip_status_command E buf r s =
     bindr (parse_port_only E buf r (fresh_block (me_junk E) 0 8)) (\<lambda>got.
       case got of
         None \<Rightarrow> Inr (reply_err s)
       | Some port \<Rightarrow>
           bindr (read_port_status port (IP_LOCK_STATUS_JSON_MAX + 128) (mg_os s)) (\<lambda>status.
             Inr (mout (Sent status) s)))"

definition manager_command :: "menv \<Rightarrow> mio \<Rightarrow> bytes \<Rightarrow> bytes \<Rightarrow> nat \<Rightarrow> mgr \<Rightarrow> mgr res" where
  "manager_command E io action buf r s =
     (if action = bstr ''add'' then add_command E io buf r s
      else if action = bstr ''list'' then list_command E s
      else if action = bstr ''remove'' then remove_command E buf r s
      else if action = bstr ''stat'' then stat_command E buf r s
      else if action = bstr ''ping'' then ping_command s
      else if action = bstr ''set_ip'' then set_ip_command E buf r s
      else if action = bstr ''clear_ip'' then clear_ip_command E buf r s
      else if action = bstr ''ip_status'' then ip_status_command E buf r s
      else Inr s)"

definition manager_recv_cb :: "menv \<Rightarrow> mio \<Rightarrow> mgr \<Rightarrow> mgr res" where
  "manager_recv_cb E io s =
     (case mi_recv io of
        None \<Rightarrow> Inr s
      | Some d \<Rightarrow>
          let r = length d in
          bindr (mem_write (replicate BUF_SIZE 0) 0 d) (\<lambda>buf.
          if r > BUF_SIZE div 2 then Inr s
          else
            bindr (mem_write buf r [0]) (\<lambda>buf.
            bindr (get_action buf r) (\<lambda>(a, buf).
              case a of
                None \<Rightarrow> Inr s
              | Some pos \<Rightarrow> bindr (str_at buf (int pos)) (\<lambda>action. manager_command E io action buf r s)))))"

section \<open>Start and end\<close>

text \<open>A server of the configuration file, before \<open>add_server\<close>.\<close>

definition conf_server :: "bytes \<Rightarrow> bytes \<Rightarrow> mserver res" where
  "conf_server port password =
     bindr (str_ncpy (ms_port mserver_zero) 7 port) (\<lambda>p.
     bindr (str_ncpy (ms_password mserver_zero) 127 password) (\<lambda>w.
       Inr (mserver_zero\<lparr>ms_port := p, ms_password := w\<rparr>)))"

fun add_configured :: "menv \<Rightarrow> (bytes \<times> bytes \<times> mio) list \<Rightarrow> mgr \<Rightarrow> mgr res" where
  "add_configured E [] s = Inr s"
| "add_configured E ((port, password, io) # xs) s =
     bindr (conf_server port password) (\<lambda>sv.
     bindr (add_server E io sv s) (\<lambda>(_, s). add_configured E xs s))"

text \<open>
  The start of \<open>main\<close>: the processes of the \<open>pid\<close> files left in the working directory, whose names are
  given, are ended, then the servers of the configuration file are added. For a name of less than three
  bytes \<open>d_name + len - 3\<close> lies before the name; it is taken not to match.
\<close>

definition is_pid_file :: "bytes \<Rightarrow> bool" where
  "is_pid_file name \<longleftrightarrow> 3 \<le> length name \<and> drop (length name - 3) name = bstr ''pid''"

definition manager_start :: "menv \<Rightarrow> bytes list \<Rightarrow> (bytes \<times> bytes \<times> mio) list \<Rightarrow> os \<Rightarrow> mgr res" where
  "manager_start E names xs w =
     add_configured E xs
       (fold (kill_server E (me_working_dir E)) (filter is_pid_file names) \<lparr>mg_table = [], mg_os = w, mg_trace = []\<rparr>)"

text \<open>The end of \<open>main\<close>: every server is stopped.\<close>

fun stop_all :: "menv \<Rightarrow> (bytes \<times> mserver) list \<Rightarrow> mgr \<Rightarrow> mgr res" where
  "stop_all E [] s = Inr s"
| "stop_all E ((k, sv) # t) s =
     bindr (str_in (ms_port sv)) (\<lambda>port. stop_all E t (stop_server_m E (me_working_dir E) port s))"

text \<open>
  A run: the start, requests of at most the bytes \<open>recvfrom\<close> is given room for, and changes of the files
  by the servers and others.
\<close>

definition mio_ok :: "mio \<Rightarrow> bool" where
  "mio_ok io \<longleftrightarrow> (case mi_recv io of Some d \<Rightarrow> length d \<le> BUF_SIZE | None \<Rightarrow> True)"

text \<open>The ports and passwords of the configuration are C strings.\<close>

definition conf_ok :: "(bytes \<times> bytes \<times> mio) list \<Rightarrow> bool" where
  "conf_ok xs \<longleftrightarrow> (\<forall>(port, password, io) \<in> set xs. 0 \<notin> set port \<and> 0 \<notin> set password)"

inductive mreach :: "menv \<Rightarrow> mgr \<Rightarrow> bool" for E where
  mreach_start: "conf_ok xs \<Longrightarrow> manager_start E pids xs w = Inr s \<Longrightarrow> mreach E s"
| mreach_files: "mreach E s \<Longrightarrow> mreach E (s\<lparr>mg_os := w\<rparr>)"
| mreach_request: "mreach E s \<Longrightarrow> mio_ok io \<Longrightarrow> manager_recv_cb E io s = Inr s' \<Longrightarrow> mreach E s'"

end
