(* ===== verification/Manager_Request.thy ===== *)
theory Manager_Request
  imports Manager
begin

text \<open>
  What the manager makes of a datagram: the command word, the JSON text behind it, and the values of
  the fields it takes from the object. The functions on the command buffer are related to functions
  on lists of bytes.
\<close>

section \<open>Arrays that hold C strings\<close>

text \<open>An array of \<open>n\<close> bytes with a NUL at its end.\<close>

definition ended :: "nat \<Rightarrow> bytes \<Rightarrow> bool" where
  "ended n m \<longleftrightarrow> length m = n \<and> 0 < n \<and> m ! (n - 1) = 0"

lemma ended_str_in: "ended n m \<Longrightarrow> str_in m = Inr (c_str m)"
  by (metis (no_types, lifting) diff_less ended_def nth_mem str_in_def zero_less_one)

lemma ended_zero: "0 < n \<Longrightarrow> ended n (replicate n 0)"
  by (simp add: ended_def)

lemma c_str_zero: "c_str (replicate n 0) = []"
  by (cases n) (simp_all add: c_str_def)

lemma c_str_hd: "m \<noteq> [] \<Longrightarrow> (hd m = 0) = (c_str m = [])"
  by (cases m) (auto simp: c_str_def)

lemma c_str_pad: "0 \<notin> set t \<Longrightarrow> c_str (t @ replicate (Suc k) 0 @ rest) = t"
  by (induction t) (auto simp: c_str_def)

text \<open>\<open>strncpy\<close> of a string shorter than its bound leaves that string, whatever the array held.\<close>

lemma str_ncpy_eq:
  assumes "n \<le> length m"
  shows "str_ncpy m n s = Inr (take n s @ replicate (n - length s) 0 @ drop n m)"
  using assms by (auto simp: str_ncpy_def Let_def min_def)

lemma str_ncpy_short:
  assumes "n \<le> length m" "length s < n" "0 \<notin> set s"
  shows "\<exists>m'. str_ncpy m n s = Inr m' \<and> length m' = length m \<and> c_str m' = s \<and> 0 \<in> set m'"
proof -
  obtain k where k: "n - length s = Suc k" using assms(2) by (metis Suc_diff_Suc)
  then show ?thesis
    using assms c_str_pad [OF assms(3), of k "drop n m"] by (simp add: str_ncpy_eq)
qed

text \<open>Into an array that ends with a NUL, \<open>strncpy\<close> with one byte less keeps it ended and cuts the string.\<close>

lemma str_ncpy_ended:
  assumes "ended (Suc n) m" "0 \<notin> set s"
  shows "\<exists>m'. str_ncpy m n s = Inr m' \<and> ended (Suc n) m' \<and> c_str m' = take n s"
proof -
  have m: "length m = Suc n" "m ! n = 0" using assms(1) by (simp_all add: ended_def)
  then have d: "drop n m = [0]" by (metis Cons_nth_drop_Suc drop_all lessI order_refl)
  let ?m = "take n s @ replicate (n - length s) 0 @ [0]"
  have "?m = take n s @ replicate (Suc (n - length s)) 0 @ []" by (simp add: replicate_append_same)
  moreover have "0 \<notin> set (take n s)" using assms(2) by (meson in_set_takeD)
  ultimately have "c_str ?m = take n s" using c_str_pad by metis
  moreover have "ended (Suc n) ?m" by (auto simp: ended_def nth_append min_def)
  ultimately show ?thesis using m d by (simp add: str_ncpy_eq)
qed

lemma ended_after:
  assumes "ended (Suc n) m" "length t \<le> n"
  shows "ended (Suc n) (t @ 0 # drop (length t + 1) m)"
proof (cases "length t = n")
  case True
  then show ?thesis using assms by (simp add: ended_def nth_append)
next
  case False
  then have l: "length t + 1 \<le> n" using assms(2) by simp
  then have "(t @ 0 # drop (length t + 1) m) ! n = m ! (length t + 1 + (n - (length t + 1)))"
    using assms(1) by (simp add: ended_def nth_append nth_Cons')
  also have "\<dots> = m ! n" using l by (intro arg_cong [of _ _ "nth m"]) linarith
  finally show ?thesis using assms l by (simp add: ended_def)
qed

lemma put_u64_ok:
  assumes "length m = 8"
  shows "\<exists>m'. put_u64 m v = Inr m' \<and> length m' = 8 \<and> c_str m' = take 7 (dec_str (unat v)) \<and> 0 \<in> set m' \<and>
           (ended 8 m \<longrightarrow> ended 8 m')"
proof -
  define t where "t = take 7 (dec_str (unat v))"
  have t: "length t \<le> 7" "0 \<notin> set t" using dec_str_no_nul [of "unat v"] by (auto simp: t_def dest: in_set_takeD)
  let ?m = "t @ 0 # drop (length t + 1) m"
  have "put_u64 m v = Inr ?m" using assms t(1) by (simp add: put_u64_def flip: t_def)
  moreover have "c_str ?m = t" using c_str_pad [OF t(2), of 0] by simp
  moreover have "ended 8 m \<longrightarrow> ended 8 ?m" using ended_after [of 7 m t] t(1) by simp
  ultimately show ?thesis using assms t(1) by (simp add: t_def)
qed

section \<open>The command word and the data\<close>

lemma scan_to_eq:
  assumes "pos \<le> len" "len \<le> length buf" "len - pos \<le> k"
  shows "scan_to stop buf len pos k = Inr (pos + length (takeWhile (\<lambda>c. \<not> stop c) (drop pos (take len buf))))"
  using assms
proof (induction k arbitrary: pos)
  case (Suc k)
  show ?case
  proof (cases "pos < len")
    case True
    then have d: "drop pos (take len buf) = buf ! pos # drop (Suc pos) (take len buf)"
      using Cons_nth_drop_Suc [of pos "take len buf"] Suc.prems(2) by simp
    have r: "mem_read buf pos (Suc 0) = Inr [buf ! pos]"
      using Cons_nth_drop_Suc [of pos buf] True Suc.prems(2) by (auto simp: mem_read_def dest!: sym [of "_ # _"])
    show ?thesis using Suc.IH [of "Suc pos"] Suc.prems True d r by simp
  qed (use Suc.prems in simp)
qed simp

text \<open>The word a datagram begins with, and the datagram once \<open>get_action\<close> has ended that word with a NUL.\<close>

definition word_start :: "bytes \<Rightarrow> nat" where
  "word_start d = length (takeWhile is_space d)"

definition word_end :: "bytes \<Rightarrow> nat" where
  "word_end d = word_start d + length (takeWhile (\<lambda>c. \<not> (is_space c \<or> c = 58)) (drop (word_start d) d))"

definition word_of :: "bytes \<Rightarrow> bytes option" where
  "word_of d =
     (if word_start d = length d then None
      else Some (c_str (takeWhile (\<lambda>c. \<not> (is_space c \<or> c = 58)) (drop (word_start d) d))))"

definition data_start :: "bytes \<Rightarrow> nat" where
  "data_start d = length (takeWhile (\<lambda>c. c \<noteq> 123) d)"

definition data_of :: "bytes \<Rightarrow> bytes option" where
  "data_of d =
     (let d = d[word_end d := 0] in
      if data_start d = length d then None else Some (c_str (drop (data_start d - 1) d)))"

text \<open>The command buffer that holds \<open>d\<close>.\<close>

definition cmd_buf :: "bytes \<Rightarrow> bytes" where
  "cmd_buf d = d @ replicate (BUF_SIZE - length d) 0"

lemma word_bounds: "word_start d \<le> word_end d" "word_end d \<le> length d"
  using length_takeWhile_le [of is_space d] length_takeWhile_le [of "\<lambda>c. \<not> (is_space c \<or> c = 58)" "drop (word_start d) d"]
  by (simp_all add: word_end_def word_start_def) linarith?

lemma get_action_eq:
  assumes "length d \<le> BUF_SIZE div 2"
  shows "get_action (cmd_buf d) (length d) =
    Inr (if word_start d = length d then (None, cmd_buf d) else (Some (word_start d), cmd_buf (d[word_end d := 0])))"
proof -
  have b: "length d < BUF_SIZE" using assms by (simp add: BUF_SIZE_def)
  have t: "take (length d) (cmd_buf d) = d" "length d \<le> length (cmd_buf d)" by (simp_all add: cmd_buf_def)
  have s1: "scan_to (\<lambda>c. \<not> is_space c) (cmd_buf d) (length d) 0 (length d) = Inr (word_start d)"
    using scan_to_eq [of 0 "length d" "cmd_buf d" "length d"] t by (simp add: word_start_def)
  have s2: "scan_to (\<lambda>c. is_space c \<or> c = 58) (cmd_buf d) (length d) (word_start d) (length d) = Inr (word_end d)"
    using scan_to_eq [of "word_start d" "length d" "cmd_buf d" "length d" "\<lambda>c. is_space c \<or> c = 58"] t word_bounds [of d]
    by (simp add: word_end_def)
  have "mem_write (cmd_buf d) (word_end d) [0] = Inr ((cmd_buf d)[word_end d := 0])"
    using word_bounds(2) [of d] b by (simp add: mem_write_def cmd_buf_def upd_conv_take_nth_drop)
  moreover have "(cmd_buf d)[word_end d := 0] = cmd_buf (d[word_end d := 0])"
  proof (cases "word_end d < length d")
    case True
    then show ?thesis by (simp add: cmd_buf_def list_update_append)
  next
    case False
    then have e: "word_end d = length d" using word_bounds(2) [of d] by simp
    have "(replicate (BUF_SIZE - length d) 0)[0 := 0] = (replicate (BUF_SIZE - length d) (0 :: byte))"
      using b by (simp add: list_update_same_conv)
    then show ?thesis using e by (simp add: cmd_buf_def list_update_append list_update_beyond)
  qed
  ultimately show ?thesis using s1 s2 by (simp add: get_action_def)
qed

lemma c_str_app: "0 \<notin> set w \<Longrightarrow> c_str (w @ m) = w @ c_str m"
  by (induction w) (auto simp: c_str_def)

lemma c_str_cut: "c_str (w @ 0 # m) = c_str w"
  by (induction w) (auto simp: c_str_def)

lemma str_in_zeros: "k \<le> length d \<Longrightarrow> length d < BUF_SIZE \<Longrightarrow> str_in (drop k (cmd_buf d)) = Inr (c_str (drop k d))"
  by (cases "BUF_SIZE - length d") (auto simp: cmd_buf_def str_in_def c_str_cut)

lemma get_data_eq:
  "get_data (cmd_buf d) (length d) = Inr (if data_start d = length d then None else Some (int (data_start d) - 1))"
  using scan_to_eq [of 0 "length d" "cmd_buf d" "length d" "\<lambda>c. c = 123"]
  by (simp add: get_data_def data_start_def cmd_buf_def)

lemma word_split:
  assumes "word_start d < length d"
  defines "w \<equiv> takeWhile (\<lambda>c. \<not> (is_space c \<or> c = 58)) (drop (word_start d) d)"
  shows "\<exists>rest. drop (word_start d) (cmd_buf (d[word_end d := 0])) = w @ rest \<and>
           (length d < BUF_SIZE \<longrightarrow> c_str (w @ rest) = c_str w) \<and> word_end d = word_start d + length w"
proof -
  let ?ws = "word_start d"
  have e: "word_end d = ?ws + length w" by (simp add: word_end_def w_def)
  obtain t where t: "drop ?ws d = w @ t" unfolding w_def by (metis takeWhile_dropWhile_id)
  have "drop ?ws (d[word_end d := 0]) = (drop ?ws d)[length w := 0]" by (simp add: e drop_update_swap)
  then have d: "drop ?ws (d[word_end d := 0]) = w @ t[0 := 0]" by (simp add: t list_update_append)
  have b: "?ws \<le> length d" using assms(1) by simp
  let ?rest = "t[0 := 0] @ replicate (BUF_SIZE - length d) 0"
  have "drop ?ws (cmd_buf (d[word_end d := 0])) = w @ ?rest" using b d by (simp add: cmd_buf_def)
  moreover have "c_str (w @ ?rest) = c_str w" if "length d < BUF_SIZE"
  proof (cases t)
    case Nil
    then show ?thesis using that c_str_cut [of w] by (cases "BUF_SIZE - length d") simp_all
  qed (simp add: c_str_cut)
  ultimately show ?thesis using e by blast
qed

lemma word_read:
  assumes "word_start d < length d" "length d < BUF_SIZE"
  shows "str_at (cmd_buf (d[word_end d := 0])) (int (word_start d)) =
    Inr (c_str (takeWhile (\<lambda>c. \<not> (is_space c \<or> c = 58)) (drop (word_start d) d)))"
proof -
  have "str_in (drop (word_start d) (cmd_buf (d[word_end d := 0]))) = Inr (c_str (drop (word_start d) (cmd_buf (d[word_end d := 0]))))"
    using str_in_zeros [of "word_start d" "d[word_end d := 0]"] assms
    by (simp add: str_in_def split: if_splits)
  then show ?thesis using word_split [OF assms(1)] assms(2) by (auto simp: str_at_def)
qed

text \<open>What \<open>manager_recv_cb\<close> does with a datagram.\<close>

lemma recv_eq:
  assumes "mi_recv io = Some d" "length d \<le> BUF_SIZE"
  shows "manager_recv_cb E io s =
    (if length d > BUF_SIZE div 2 then Inr s
     else case word_of d of
            None \<Rightarrow> Inr s
          | Some a \<Rightarrow> manager_command E io a (cmd_buf (d[word_end d := 0])) (length d) s)"
proof (cases "length d > BUF_SIZE div 2")
  case True
  then show ?thesis using assms by (simp add: manager_recv_cb_def)
next
  case False
  then have l: "length d < BUF_SIZE" "length d \<le> BUF_SIZE div 2" by (simp_all add: BUF_SIZE_def)
  have w1: "mem_write (replicate BUF_SIZE 0) 0 d = Inr (cmd_buf d)" using assms(2) by (simp add: cmd_buf_def)
  have "(replicate (BUF_SIZE - length d) 0)[0 := 0] = (replicate (BUF_SIZE - length d) (0 :: byte))"
    using l by (simp add: list_update_same_conv)
  then have "(cmd_buf d)[length d := 0] = cmd_buf d" by (simp add: cmd_buf_def list_update_append)
  then have w2: "mem_write (cmd_buf d) (length d) [0] = Inr (cmd_buf d)"
    using l by (simp add: mem_write_def upd_conv_take_nth_drop cmd_buf_def)
  have "word_start d \<noteq> length d \<Longrightarrow> word_start d < length d" using word_bounds [of d] by simp
  then show ?thesis
    using assms(1) False w1 w2 get_action_eq [OF l(2)] word_read [OF _ l(1)]
    by (auto simp: manager_recv_cb_def word_of_def)
qed

text \<open>The JSON value of a command.\<close>

definition json_of :: "menv \<Rightarrow> bytes \<Rightarrow> json option" where
  "json_of E d = Option.bind (data_of d) (me_json E)"

lemma command_json_eq:
  assumes "word_of d = Some a" "a \<noteq> []" "hd a \<noteq> 123" "length d < BUF_SIZE"
  shows "command_json E (cmd_buf (d[word_end d := 0])) (length d) = Inr (json_of E d)"
proof -
  let ?d = "d[word_end d := 0]"
  have ws: "word_start d < length d" using assms(1) word_bounds [of d] by (auto simp: word_of_def split: if_splits)
  define w where "w = takeWhile (\<lambda>c. \<not> (is_space c \<or> c = 58)) (drop (word_start d) d)"
  have a: "a = c_str w" using assms(1) ws by (simp add: word_of_def w_def)
  then obtain x v where w: "w = x # v" "x = hd a" using assms(2) by (cases w) (auto simp: c_str_def split: if_splits)
  have "word_end d = word_start d + length w" by (simp add: word_end_def w_def)
  then have e: "0 < word_end d" using w(1) by simp
  have "?d ! 0 \<noteq> 123"
  proof (cases "word_start d = 0")
    case True
    then have "d ! 0 = x" using w(1) ws by (cases d) (auto simp: w_def split: if_splits)
    then show ?thesis using w(2) assms(3) e by simp
  next
    case False
    then have "is_space (d ! 0)" by (cases d) (auto simp: word_start_def split: if_splits)
    then show ?thesis using e by (auto simp: is_space_def)
  qed
  moreover have "?d \<noteq> []" using ws by auto
  ultimately have p: "0 < data_start ?d" by (cases ?d) (auto simp: data_start_def)
  have le: "data_start ?d \<le> length d" using length_takeWhile_le [of "\<lambda>c. c \<noteq> 123" ?d] by (simp add: data_start_def)
  have g: "get_data (cmd_buf ?d) (length d) = Inr (if data_start ?d = length d then None else Some (int (data_start ?d) - 1))"
    using get_data_eq [of ?d] by simp
  have "str_at (cmd_buf ?d) (int (data_start ?d) - 1) = Inr (c_str (drop (data_start ?d - 1) ?d))"
    using p le str_in_zeros [of "data_start ?d - 1" ?d] assms(4) by (simp add: str_at_def nat_diff_distrib)
  then show ?thesis using g p by (simp add: command_json_def json_of_def data_of_def Let_def)
qed

section \<open>The fields of an object\<close>

text \<open>What the parser documents: names and strings as C reads them, none longer than the text.\<close>

definition fields_ok :: "nat \<Rightarrow> (bytes \<times> json) list \<Rightarrow> bool" where
  "fields_ok n vs \<longleftrightarrow>
     (\<forall>(name, v) \<in> set vs. 0 \<notin> set name \<and> length name \<le> n \<and>
        (case v of JString x \<Rightarrow> 0 \<notin> set x \<and> length x \<le> n | _ \<Rightarrow> True))"

definition json_ok :: "menv \<Rightarrow> bool" where
  "json_ok E \<longleftrightarrow> (\<forall>t vs. me_json E t = Some (JObject vs) \<longrightarrow> fields_ok (length t) vs)"

text \<open>The value of a field is that of the last member which gives it one.\<close>

definition last_value :: "(bytes \<Rightarrow> json \<Rightarrow> 'a option) \<Rightarrow> (bytes \<times> json) list \<Rightarrow> 'a \<Rightarrow> 'a" where
  "last_value f vs z = foldl (\<lambda>acc (n, v). case f n v of Some x \<Rightarrow> x | None \<Rightarrow> acc) z vs"

lemma last_value_simps [simp]:
  "last_value f [] z = z"
  "last_value f ((n, v) # vs) z = last_value f vs (case f n v of Some x \<Rightarrow> x | None \<Rightarrow> z)"
  by (simp_all add: last_value_def)

text \<open>\<open>get_server\<close> stops at a member it does not know.\<close>

definition known_members :: "(bytes \<times> json) list \<Rightarrow> (bytes \<times> json) list" where
  "known_members vs =
     takeWhile (\<lambda>(n, v). n \<in> {bstr ''server_port'', bstr ''password'', bstr ''method'', bstr ''fast_open'', bstr ''no_delay'',
       bstr ''plugin'', bstr ''plugin_opts'', bstr ''mode''}) vs"

definition port_value :: "bytes \<Rightarrow> json \<Rightarrow> bytes option" where
  "port_value n v =
     (if n = bstr ''server_port''
      then case v of JString p \<Rightarrow> Some (take 7 p) | JInteger i \<Rightarrow> Some (take 7 (dec_str (unat i))) | _ \<Rightarrow> None
      else None)"

definition password_value :: "bytes \<Rightarrow> json \<Rightarrow> bytes option" where
  "password_value n v =
     (if n = bstr ''password'' then case v of JString p \<Rightarrow> Some (take 127 p) | _ \<Rightarrow> None else None)"

definition method_value :: "bytes \<Rightarrow> json \<Rightarrow> bytes option option" where
  "method_value n v =
     (if n = bstr ''method'' then case v of JString p \<Rightarrow> Some (Some p) | _ \<Rightarrow> None else None)"

definition server_wf :: "mserver \<Rightarrow> bool" where
  "server_wf sv \<longleftrightarrow>
     ended 8 (ms_port sv) \<and> ended 128 (ms_password sv) \<and> ended INET6_ADDRSTRLEN (ms_locked_ip sv) \<and>
     ended 8 (ms_fast_open sv) \<and> ended 8 (ms_no_delay sv) \<and>
     (\<forall>m. ms_method sv = Some m \<longrightarrow> 0 \<notin> set m \<and> length m \<le> BUF_SIZE div 2)"

lemma bool_str_ok: "str_ncpy m 8 (bool_str b) = Inr (bool_str b @ replicate (8 - length (bool_str b)) 0)"
  if "length m = 8"
  using that by (simp add: str_ncpy_eq bool_str_def bstr_def)

lemma bool_str_ended: "ended 8 (bool_str b @ replicate (8 - length (bool_str b)) 0)"
  by (cases b) (simp_all add: ended_def bool_str_def bstr_def nth_Cons')

lemma bool_field:
  assumes "ended 8 m"
  shows "\<exists>m'. (case v of JBoolean b \<Rightarrow> str_ncpy m 8 (bool_str b) | _ \<Rightarrow> Inr m) = Inr m' \<and> ended 8 m'"
proof -
  have "length m = 8" using assms by (simp add: ended_def)
  then show ?thesis using bool_str_ok bool_str_ended assms by (cases v) simp_all
qed

lemma port_field:
  assumes "ended 8 m" "case v of JString x \<Rightarrow> 0 \<notin> set x | _ \<Rightarrow> True"
  shows "\<exists>m'. (case v of JString p \<Rightarrow> str_ncpy m 7 p | JInteger i \<Rightarrow> put_u64 m i | _ \<Rightarrow> Inr m) = Inr m' \<and> ended 8 m' \<and>
           c_str m' = (case port_value (bstr ''server_port'') v of Some x \<Rightarrow> x | None \<Rightarrow> c_str m)"
proof -
  have l: "length m = 8" using assms(1) by (simp add: ended_def)
  show ?thesis
    using str_ncpy_ended [of 7 m] put_u64_ok [OF l] assms by (cases v) (auto simp: port_value_def)
qed

lemma password_field:
  assumes "ended 128 m" "case v of JString x \<Rightarrow> 0 \<notin> set x | _ \<Rightarrow> True"
  shows "\<exists>m'. (case v of JString p \<Rightarrow> str_ncpy m 127 p | _ \<Rightarrow> Inr m) = Inr m' \<and> ended 128 m' \<and>
           c_str m' = (case password_value (bstr ''password'') v of Some x \<Rightarrow> x | None \<Rightarrow> c_str m)"
  using str_ncpy_ended [of 127 m] assms by (cases v) (auto simp: password_value_def)

lemma field_names:
  "bstr ''server_port'' \<noteq> bstr ''password''" "bstr ''server_port'' \<noteq> bstr ''method''" "bstr ''password'' \<noteq> bstr ''method''"
  "bstr ''fast_open'' \<noteq> bstr ''server_port''" "bstr ''fast_open'' \<noteq> bstr ''password''" "bstr ''fast_open'' \<noteq> bstr ''method''"
  "bstr ''no_delay'' \<noteq> bstr ''server_port''" "bstr ''no_delay'' \<noteq> bstr ''password''" "bstr ''no_delay'' \<noteq> bstr ''method''"
  "bstr ''plugin'' \<noteq> bstr ''server_port''" "bstr ''plugin'' \<noteq> bstr ''password''" "bstr ''plugin'' \<noteq> bstr ''method''"
  "bstr ''plugin_opts'' \<noteq> bstr ''server_port''" "bstr ''plugin_opts'' \<noteq> bstr ''password''" "bstr ''plugin_opts'' \<noteq> bstr ''method''"
  "bstr ''mode'' \<noteq> bstr ''server_port''" "bstr ''mode'' \<noteq> bstr ''password''" "bstr ''mode'' \<noteq> bstr ''method''"
  "bstr ''ip'' \<noteq> bstr ''server_port''"
  by (simp_all add: bstr_def)

lemma server_fields_ok:
  assumes "fields_ok n vs" "server_wf sv" "n \<le> BUF_SIZE div 2"
  shows "\<exists>sv'. server_fields vs sv = Inr sv' \<and> server_wf sv' \<and>
    c_str (ms_port sv') = last_value port_value (known_members vs) (c_str (ms_port sv)) \<and>
    c_str (ms_password sv') = last_value password_value (known_members vs) (c_str (ms_password sv)) \<and>
    ms_method sv' = last_value method_value (known_members vs) (ms_method sv) \<and>
    ms_traffic sv' = ms_traffic sv \<and> ms_locked_ip sv' = ms_locked_ip sv"
  using assms(1,2)
proof (induction vs arbitrary: sv)
  case Nil
  then show ?case by (simp add: known_members_def)
next
  case (Cons nv vs)
  obtain name v where nv: "nv = (name, v)" by (cases nv)
  note wf = Cons.prems(2) [unfolded server_wf_def]
  have vok: "case v of JString x \<Rightarrow> 0 \<notin> set x \<and> length x \<le> n | _ \<Rightarrow> True" and rest: "fields_ok n vs"
    using Cons.prems(1) nv by (simp_all add: fields_ok_def)
  then have v0: "case v of JString x \<Rightarrow> 0 \<notin> set x | _ \<Rightarrow> True" by (cases v) simp_all
  note IH = Cons.IH [OF rest]
  note names = field_names field_names [symmetric]
  consider "name = bstr ''server_port''" | "name = bstr ''password''" | "name = bstr ''method''" | "name = bstr ''fast_open''"
    | "name = bstr ''no_delay''" | "name = bstr ''plugin''" | "name = bstr ''plugin_opts''" | "name = bstr ''mode''"
    | "name \<notin> {bstr ''server_port'', bstr ''password'', bstr ''method'', bstr ''fast_open'', bstr ''no_delay'',
       bstr ''plugin'', bstr ''plugin_opts'', bstr ''mode''}" by blast
  then show ?case
  proof cases
    case 1
    obtain m where m: "(case v of JString p \<Rightarrow> str_ncpy (ms_port sv) 7 p | JInteger i \<Rightarrow> put_u64 (ms_port sv) i | _ \<Rightarrow> Inr (ms_port sv)) = Inr m"
        "ended 8 m" "c_str m = (case port_value (bstr ''server_port'') v of Some x \<Rightarrow> x | None \<Rightarrow> c_str (ms_port sv))"
      using port_field [of "ms_port sv" v] wf v0 by blast
    have "server_wf (sv\<lparr>ms_port := m\<rparr>)" using wf m(2) by (simp add: server_wf_def)
    from IH [OF this] show ?thesis
      using nv 1 m(1,3) by (simp add: known_members_def password_value_def method_value_def names)
  next
    case 2
    obtain m where m: "(case v of JString p \<Rightarrow> str_ncpy (ms_password sv) 127 p | _ \<Rightarrow> Inr (ms_password sv)) = Inr m"
        "ended 128 m" "c_str m = (case password_value (bstr ''password'') v of Some x \<Rightarrow> x | None \<Rightarrow> c_str (ms_password sv))"
      using password_field [of "ms_password sv" v] wf v0 by blast
    have "server_wf (sv\<lparr>ms_password := m\<rparr>)" using wf m(2) by (simp add: server_wf_def)
    from IH [OF this] show ?thesis
      using nv 2 m(1,3) by (simp add: known_members_def port_value_def method_value_def names)
  next
    case 3
    let ?sv = "case v of JString x \<Rightarrow> sv\<lparr>ms_method := Some x\<rparr> | _ \<Rightarrow> sv"
    have "server_wf ?sv" using wf vok assms(3) by (cases v) (auto simp: server_wf_def)
    from IH [OF this] show ?thesis
      using nv 3 by (cases v) (simp_all add: known_members_def port_value_def password_value_def method_value_def names)
  next
    case 4
    obtain m where m: "(case v of JBoolean b \<Rightarrow> str_ncpy (ms_fast_open sv) 8 (bool_str b) | _ \<Rightarrow> Inr (ms_fast_open sv)) = Inr m" "ended 8 m"
      using bool_field [of "ms_fast_open sv" v] wf by blast
    have "server_wf (sv\<lparr>ms_fast_open := m\<rparr>)" using wf m(2) by (simp add: server_wf_def)
    from IH [OF this] show ?thesis
      using nv 4 m(1) by (simp add: known_members_def port_value_def password_value_def method_value_def names)
  next
    case 5
    obtain m where m: "(case v of JBoolean b \<Rightarrow> str_ncpy (ms_no_delay sv) 8 (bool_str b) | _ \<Rightarrow> Inr (ms_no_delay sv)) = Inr m" "ended 8 m"
      using bool_field [of "ms_no_delay sv" v] wf by blast
    have "server_wf (sv\<lparr>ms_no_delay := m\<rparr>)" using wf m(2) by (simp add: server_wf_def)
    from IH [OF this] show ?thesis
      using nv 5 m(1) by (simp add: known_members_def port_value_def password_value_def method_value_def names bstr_def)
  next
    case 6
    let ?sv = "case v of JString x \<Rightarrow> sv\<lparr>ms_plugin := Some x\<rparr> | _ \<Rightarrow> sv"
    have "server_wf ?sv" using wf by (cases v) (auto simp: server_wf_def)
    from IH [OF this] show ?thesis
      using nv 6 by (cases v) (simp_all add: known_members_def port_value_def password_value_def method_value_def names bstr_def)
  next
    case 7
    let ?sv = "case v of JString x \<Rightarrow> sv\<lparr>ms_plugin_opts := Some x\<rparr> | _ \<Rightarrow> sv"
    have "server_wf ?sv" using wf by (cases v) (auto simp: server_wf_def)
    from IH [OF this] show ?thesis
      using nv 7 by (cases v) (simp_all add: known_members_def port_value_def password_value_def method_value_def names bstr_def)
  next
    case 8
    let ?sv = "case v of JString x \<Rightarrow> sv\<lparr>ms_mode := Some x\<rparr> | _ \<Rightarrow> sv"
    have "server_wf ?sv" using wf by (cases v) (auto simp: server_wf_def)
    from IH [OF this] show ?thesis
      using nv 8 by (cases v) (simp_all add: known_members_def port_value_def password_value_def method_value_def names bstr_def)
  next
    case 9
    then show ?thesis using nv Cons.prems(2) by (simp add: known_members_def)
  qed
qed

end
