(* ===== verification/Manager_Props.thy ===== *)
theory Manager_Props
  imports Manager_Request
begin

text \<open>
  The port manager refines a map from ports to servers. In every reachable state a command that fits
  the arrays it is read into does not fault and changes the map as its specification says; the
  replies to \<open>ping\<close> and \<open>list\<close> show that map; a lock the manager sets is the one the server of the port
  reads.
\<close>

section \<open>Ports and addresses of a command\<close>

definition int_name :: "bytes \<Rightarrow> json \<Rightarrow> bytes option" where
  "int_name n v = (case v of JInteger i \<Rightarrow> Some n | _ \<Rightarrow> None)"

definition int_value :: "bytes \<Rightarrow> json \<Rightarrow> u64 option" where
  "int_value n v = (case v of JInteger i \<Rightarrow> Some i | _ \<Rightarrow> None)"

definition ip_value :: "bytes \<Rightarrow> json \<Rightarrow> bytes option" where
  "ip_value n v = (if n = bstr ''ip'' then case v of JString a \<Rightarrow> Some a | _ \<Rightarrow> None else None)"

text \<open>
  What fits the stack arrays of \<open>manager_recv_cb\<close>: the ports of a \<open>stat\<close> command, of which there must be
  one, and the port and address of the other commands, each with room for its NUL.
\<close>

definition stat_fits :: "(bytes \<times> json) list \<Rightarrow> bool" where
  "stat_fits vs \<longleftrightarrow>
     (\<exists>(n, v) \<in> set vs. int_name n v \<noteq> None) \<and> (\<forall>(n, v) \<in> set vs. int_name n v \<noteq> None \<longrightarrow> length n < 7)"

definition port_fits :: "(bytes \<times> json) list \<Rightarrow> bool" where
  "port_fits vs \<longleftrightarrow>
     (\<forall>(n, v) \<in> set vs. case v of
        JString x \<Rightarrow> (n = bstr ''server_port'' \<longrightarrow> length x < 7) \<and> (n = bstr ''ip'' \<longrightarrow> Suc (length x) < INET6_ADDRSTRLEN)
      | _ \<Rightarrow> True)"

lemma traffic_fields_ok:
  assumes "fields_ok k vs" "\<forall>(n, v) \<in> set vs. int_name n v \<noteq> None \<longrightarrow> length n < 7" "length port = 8"
    and "0 \<in> set port \<or> (\<exists>(n, v) \<in> set vs. int_name n v \<noteq> None)"
  shows "\<exists>port'. traffic_fields vs port t = Inr (port', last_value int_value vs t) \<and> 0 \<in> set port' \<and>
           c_str port' = last_value int_name vs (c_str port)"
  using assms
proof (induction vs arbitrary: port t)
  case (Cons nv vs)
  obtain n v where nv: "nv = (n, v)" by (cases nv)
  have rest: "fields_ok k vs" "0 \<notin> set n" using Cons.prems(1) nv by (auto simp: fields_ok_def)
  show ?case
  proof (cases "\<exists>i. v = JInteger i")
    case True
    then obtain i where i: "v = JInteger i" by blast
    then have "length n < 7" using Cons.prems(2) nv by (simp add: int_name_def)
    then obtain p where p: "str_ncpy port 7 n = Inr p" "length p = 8" "c_str p = n" "0 \<in> set p"
      using str_ncpy_short [of 7 port n] Cons.prems(3) rest(2) by auto
    show ?thesis
      using Cons.IH [OF rest(1) _ p(2), of i] Cons.prems(2) p nv i by (auto simp: int_name_def int_value_def)
  next
    case False
    then have f: "int_name n v = None" "int_value n v = None" by (auto simp: int_name_def int_value_def split: json.splits)
    then have "traffic_fields (nv # vs) port t = traffic_fields vs port t" using nv False by (auto split: json.splits)
    then show ?thesis using Cons.IH [OF rest(1) _ Cons.prems(3), of t] Cons.prems(2,4) nv f by auto
  qed
qed simp

lemma port_ip_fields_ok:
  assumes "fields_ok k vs" "port_fits vs" "length port = 8" "0 \<in> set port" "length ip = INET6_ADDRSTRLEN" "0 \<in> set ip"
  shows "\<exists>port' ip'. port_ip_fields vs port ip = Inr (port', ip') \<and> 0 \<in> set port' \<and> 0 \<in> set ip' \<and>
           length port' = 8 \<and> length ip' = INET6_ADDRSTRLEN \<and>
           c_str port' = last_value port_value vs (c_str port) \<and> c_str ip' = last_value ip_value vs (c_str ip)"
  using assms
proof (induction vs arbitrary: port ip)
  case (Cons nv vs)
  obtain n v where nv: "nv = (n, v)" by (cases nv)
  have rest: "fields_ok k vs" "port_fits vs" using Cons.prems(1,2) by (simp_all add: fields_ok_def port_fits_def)
  have v0: "case v of JString x \<Rightarrow> 0 \<notin> set x | _ \<Rightarrow> True" using Cons.prems(1) nv by (auto simp: fields_ok_def split: json.splits)
  consider "n = bstr ''server_port''" | "n = bstr ''ip''" | "n \<noteq> bstr ''server_port''" "n \<noteq> bstr ''ip''" by blast
  then show ?case
  proof cases
    case 1
    have "\<exists>p. (case v of JString p \<Rightarrow> str_ncpy port 7 p | JInteger i \<Rightarrow> put_u64 port i | _ \<Rightarrow> Inr port) = Inr p \<and>
        length p = 8 \<and> 0 \<in> set p \<and> c_str p = (case port_value n v of Some x \<Rightarrow> x | None \<Rightarrow> c_str port)"
      using Cons.prems(2-4) nv 1 v0 str_ncpy_short [of 7 port] put_u64_ok [of port]
      by (cases v) (fastforce simp: port_value_def port_fits_def)+
    then obtain p where p: "(case v of JString p \<Rightarrow> str_ncpy port 7 p | JInteger i \<Rightarrow> put_u64 port i | _ \<Rightarrow> Inr port) = Inr p"
        "length p = 8" "0 \<in> set p" "c_str p = (case port_value n v of Some x \<Rightarrow> x | None \<Rightarrow> c_str port)" by blast
    have "ip_value n v = None" using 1 field_names by (simp add: ip_value_def)
    then show ?thesis using Cons.IH [OF rest p(2,3) Cons.prems(5,6)] nv 1 p(1,4) by simp
  next
    case 2
    have "\<exists>a. (case v of JString a \<Rightarrow> str_ncpy ip (INET6_ADDRSTRLEN - 1) a | _ \<Rightarrow> Inr ip) = Inr a \<and>
        length a = INET6_ADDRSTRLEN \<and> 0 \<in> set a \<and> c_str a = (case ip_value n v of Some x \<Rightarrow> x | None \<Rightarrow> c_str ip)"
    proof (cases v)
      case (JString a)
      then have "length a < INET6_ADDRSTRLEN - 1" "0 \<notin> set a"
        using Cons.prems(2) nv 2 v0 by (simp_all add: port_fits_def less_diff_conv)
      then show ?thesis
        using str_ncpy_short [of "INET6_ADDRSTRLEN - 1" ip a] Cons.prems(5) JString 2 by (auto simp: ip_value_def)
    qed (use Cons.prems(5,6) in \<open>simp_all add: ip_value_def\<close>)
    then obtain a where a: "(case v of JString a \<Rightarrow> str_ncpy ip (INET6_ADDRSTRLEN - 1) a | _ \<Rightarrow> Inr ip) = Inr a"
        "length a = INET6_ADDRSTRLEN" "0 \<in> set a" "c_str a = (case ip_value n v of Some x \<Rightarrow> x | None \<Rightarrow> c_str ip)" by blast
    have n: "n \<noteq> bstr ''server_port''" "port_value n v = None" using 2 field_names by (simp_all add: port_value_def)
    then show ?thesis using Cons.IH [OF rest Cons.prems(3,4) a(2,3)] nv 2 a(1,4) by simp
  next
    case 3
    then have "port_value n v = None" "ip_value n v = None" by (simp_all add: port_value_def ip_value_def)
    then show ?thesis using Cons.IH [OF rest Cons.prems(3-6)] nv 3 by simp
  qed
qed simp

section \<open>The table as a map\<close>

definition mgr_ok :: "mgr \<Rightarrow> bool" where
  "mgr_ok s \<longleftrightarrow>
     distinct (map fst (mg_table s)) \<and>
     (\<forall>k sv. map_of (mg_table s) k = Some sv \<longrightarrow> server_wf sv \<and> c_str (ms_port sv) = k)"

text \<open>What a command sees of a server: password, method, traffic, lock.\<close>

type_synonym server_view = "bytes \<times> bytes option \<times> u64 \<times> bytes"

definition view_of :: "mserver \<Rightarrow> server_view" where
  "view_of sv = (c_str (ms_password sv), ms_method sv, ms_traffic sv, c_str (ms_locked_ip sv))"

definition servers :: "mgr \<Rightarrow> bytes \<Rightarrow> server_view option" where
  "servers s = (\<lambda>p. map_option view_of (map_of (mg_table s) p))"

lemma mout_fields [simp]:
  "mg_table (mout e s) = mg_table s" "mg_os (mout e s) = mg_os s" "mg_trace (mout e s) = mg_trace s @ [e]"
  by (simp_all add: mout_def)

lemma same_table: "mg_table s' = mg_table s \<Longrightarrow> mgr_ok s' = mgr_ok s \<and> servers s' = servers s"
  by (simp add: mgr_ok_def servers_def)

lemma mgr_ok_mout [simp]: "mgr_ok (mout e s) = mgr_ok s" "servers (mout e s) = servers s"
  using same_table [OF mout_fields(1)] by auto

lemma mgr_okD: "mgr_ok s \<Longrightarrow> map_of (mg_table s) k = Some sv \<Longrightarrow> server_wf sv \<and> c_str (ms_port sv) = k"
  by (simp add: mgr_ok_def)

lemma mgr_ok_update:
  assumes "mgr_ok s" "server_wf sv" "c_str (ms_port sv) = k"
  shows "mgr_ok (s\<lparr>mg_table := AList.update k sv (mg_table s)\<rparr>)"
  using assms by (simp add: mgr_ok_def distinct_update update_conv')

lemma mgr_ok_delete: "mgr_ok s \<Longrightarrow> mgr_ok (s\<lparr>mg_table := AList.delete k (mg_table s)\<rparr>)"
  by (simp add: mgr_ok_def distinct_delete delete_conv')

lemma servers_update: "servers (s\<lparr>mg_table := AList.update k sv (mg_table s)\<rparr>) = (servers s)(k \<mapsto> view_of sv)"
  by (simp add: servers_def update_conv' fun_eq_iff)

lemma servers_delete: "servers (s\<lparr>mg_table := AList.delete k (mg_table s)\<rparr>) = (servers s)(k := None)"
  by (simp add: servers_def delete_conv' fun_eq_iff)

lemma wf_str: 
  assumes "server_wf sv"
  shows "str_in (ms_port sv) = Inr (c_str (ms_port sv))" "str_in (ms_password sv) = Inr (c_str (ms_password sv))"
    "str_in (ms_fast_open sv) = Inr (c_str (ms_fast_open sv))" "str_in (ms_no_delay sv) = Inr (c_str (ms_no_delay sv))"
  using assms by (auto simp: server_wf_def intro: ended_str_in)

lemma wf_lengths:
  assumes "server_wf sv"
  shows "length (c_str (ms_port sv)) \<le> 7" "length (c_str (ms_password sv)) \<le> 127"
proof -
  have *: "length (c_str m) < length m" if "ended n m" for n m
    using that by (intro c_str_less) (metis diff_less ended_def nth_mem zero_less_one)
  show "length (c_str (ms_port sv)) \<le> 7" "length (c_str (ms_password sv)) \<le> 127"
    using assms * [of 8 "ms_port sv"] * [of 128 "ms_password sv"] by (auto simp: server_wf_def ended_def)
qed

section \<open>Commands that change the table\<close>

lemma signal_pid_table [simp]: "mg_table (signal_pid E c s) = mg_table s"
  by (simp add: signal_pid_def split: option.splits)

lemma signal_pid_os [simp]: "mg_os (signal_pid E c s) = mg_os s"
  by (simp add: signal_pid_def split: option.splits)

lemma stop_server_m_table [simp]: "mg_table (stop_server_m E d p s) = mg_table s"
  by (simp add: stop_server_m_def split: option.splits)

lemma remove_server_ok:
  assumes "mgr_ok s" "str_in port = Inr p"
  shows "\<exists>s'. remove_server E d port s = Inr s' \<and> mgr_ok s' \<and> servers s' = (servers s)(p := None) \<and> map_of (mg_table s') p = None"
  using assms mgr_ok_delete [OF assms(1), of p] servers_delete [of p s]
  by (simp add: remove_server_def Let_def mgr_ok_def servers_def delete_conv')

lemma construct_command_line_ok: "server_wf sv \<Longrightarrow> \<exists>cmd w'. construct_command_line E sv w = Inr (cmd, w')"
  by (simp add: construct_command_line_def build_config_def wf_str Let_def)

lemma add_server_ok:
  assumes "mgr_ok s" "server_wf sv"
  shows "\<exists>ok s'. add_server E io sv s = Inr (ok, s') \<and> mgr_ok s' \<and>
           servers s' = (if check_port E io then (servers s)(c_str (ms_port sv) \<mapsto> view_of sv) else servers s)"
proof (cases "check_port E io")
  case True
  let ?s = "s\<lparr>mg_table := AList.update (c_str (ms_port sv)) sv (mg_table s)\<rparr>"
  obtain cmd w where c: "construct_command_line E sv (mg_os s) = Inr (cmd, w)"
    using construct_command_line_ok [OF assms(2)] by blast
  let ?t = "mout (Run cmd) (?s\<lparr>mg_os := w\<rparr>)"
  have "add_server E io sv s = Inr (mi_system io, ?t)"
    using True c wf_str [OF assms(2)] by (simp add: add_server_def)
  moreover have "mgr_ok ?t" "servers ?t = (servers s)(c_str (ms_port sv) \<mapsto> view_of sv)"
    using same_table [of ?t ?s] mgr_ok_update [OF assms refl] servers_update [where s = s] by simp_all
  ultimately show ?thesis using True by simp
next
  case False
  then show ?thesis using assms(1) by (auto simp: add_server_def)
qed

lemma update_server_ok:
  assumes "mgr_ok s" "\<And>sv. server_wf sv \<Longrightarrow> server_wf (f sv) \<and> ms_port (f sv) = ms_port sv \<and> view_of (f sv) = g (view_of sv)"
  shows "mgr_ok (update_server k f s) \<and>
         servers (update_server k f s) = (case servers s k of None \<Rightarrow> servers s | Some v \<Rightarrow> (servers s)(k \<mapsto> g v))"
proof (cases "map_of (mg_table s) k")
  case None
  then show ?thesis using assms(1) by (simp add: update_server_def servers_def)
next
  case (Some sv)
  note sv = mgr_okD [OF assms(1) Some]
  then have f: "server_wf (f sv)" "c_str (ms_port (f sv)) = k" "view_of (f sv) = g (view_of sv)" using assms(2) [of sv] by simp_all
  have "servers s k = Some (view_of sv)" using Some by (simp add: servers_def)
  then show ?thesis
    using Some mgr_ok_update [OF assms(1) f(1,2)] servers_update [of k "f sv" s] f(3) by (simp add: update_server_def)
qed

lemma set_locked_ok:
  assumes "server_wf sv" "0 \<notin> set a" "length a < INET6_ADDRSTRLEN"
  shows "server_wf (set_locked a sv) \<and> ms_port (set_locked a sv) = ms_port sv \<and>
         view_of (set_locked a sv) = (\<lambda>(w, m, t, _). (w, m, t, a)) (view_of sv)"
proof -
  obtain k where k: "INET6_ADDRSTRLEN - length a = Suc k" using assms(3) by (metis Suc_diff_Suc)
  have "c_str (a @ replicate (INET6_ADDRSTRLEN - length a) 0) = a" using c_str_pad [OF assms(2), of k "[]"] k by simp
  moreover have "ended INET6_ADDRSTRLEN (a @ replicate (INET6_ADDRSTRLEN - length a) 0)"
    using assms(3) by (auto simp: ended_def nth_append)
  ultimately show ?thesis
    using assms(1,3) by (simp add: set_locked_def Let_def server_wf_def view_of_def)
qed

lemma clear_locked_ok:
  assumes "server_wf sv"
  shows "server_wf (sv\<lparr>ms_locked_ip := (ms_locked_ip sv)[0 := 0]\<rparr>) \<and>
         view_of (sv\<lparr>ms_locked_ip := (ms_locked_ip sv)[0 := 0]\<rparr>) = (\<lambda>(w, m, t, _). (w, m, t, [])) (view_of sv)"
proof -
  have e: "ended INET6_ADDRSTRLEN (ms_locked_ip sv)" using assms by (simp add: server_wf_def)
  then obtain x m where m: "ms_locked_ip sv = x # m" by (cases "ms_locked_ip sv") (auto simp: ended_def)
  have "ended INET6_ADDRSTRLEN (0 # m)" using e m by (auto simp: ended_def INET6_ADDRSTRLEN_def)
  moreover have "c_str (0 # m) = []" by (simp add: c_str_def)
  ultimately show ?thesis using assms m by (simp add: server_wf_def view_of_def)
qed

section \<open>The specification of the commands\<close>

definition members :: "json option \<Rightarrow> (bytes \<times> json) list" where
  "members j = (case j of Some (JObject vs) \<Rightarrow> vs | _ \<Rightarrow> [])"

definition lock_path :: "bytes \<Rightarrow> bytes" where
  "lock_path p = ip_lock_sidecar_path 512 p (bstr ''iplock'')"

text \<open>
  A server that cannot be added is gone as well: \<open>manager_recv_cb\<close> removes the old one first.
\<close>

definition manager_spec ::
    "bool \<Rightarrow> (bytes \<Rightarrow> bool) \<Rightarrow> bytes \<Rightarrow> json option \<Rightarrow> (bytes \<Rightarrow> server_view option) \<Rightarrow> (bytes \<Rightarrow> server_view option)" where
  "manager_spec available writable a j M =
     (let vs = members j; ks = known_members vs; p = last_value port_value vs []; kp = last_value port_value ks [];
          w = last_value password_value ks []; ip = last_value ip_value vs []
      in if a = bstr ''add'' then
           if kp = [] \<or> w = [] then M
           else M(kp := if available then Some (w, last_value method_value ks None, 0, []) else None)
         else if a = bstr ''remove'' then if kp = [] then M else M(kp := None)
         else if a = bstr ''stat'' then
           case (j, M (last_value int_name vs [])) of
             (Some _, Some (w, m, t, l)) \<Rightarrow> M(last_value int_name vs [] \<mapsto> (w, m, last_value int_value vs 0, l))
           | _ \<Rightarrow> M
         else if a = bstr ''set_ip'' then
           if p = [] \<or> ip = [] \<or> \<not> writable p then M
           else case M p of None \<Rightarrow> M | Some (w, m, t, _) \<Rightarrow> M(p \<mapsto> (w, m, t, ip))
         else if a = bstr ''clear_ip'' then
           if p = [] then M else case M p of None \<Rightarrow> M | Some (w, m, t, _) \<Rightarrow> M(p \<mapsto> (w, m, t, []))
         else M)"

definition command_fits :: "bytes \<Rightarrow> json option \<Rightarrow> bool" where
  "command_fits a j \<longleftrightarrow>
     (a = bstr ''stat'' \<longrightarrow> j \<noteq> None \<longrightarrow> stat_fits (members j)) \<and>
     (a \<in> {bstr ''set_ip'', bstr ''clear_ip'', bstr ''ip_status''} \<longrightarrow> port_fits (members j))"

lemma members_simps [simp]:
  "members None = []" "members (Some (JObject vs)) = vs" "members (Some (JArray xs)) = []" "members (Some (JInteger i)) = []"
  "members (Some JDouble) = []" "members (Some (JString x)) = []" "members (Some (JBoolean b)) = []" "members (Some JNull) = []"
  by (simp_all add: members_def)

lemma last_value_indep:
  "\<exists>(n, v) \<in> set vs. f n v \<noteq> None \<Longrightarrow> last_value f vs z = last_value f vs z'"
proof (induction vs arbitrary: z z')
  case (Cons nv vs)
  obtain n v where nv: "nv = (n, v)" by (cases nv)
  show ?case
  proof (cases "f n v")
    case None
    then have "\<exists>(n, v) \<in> set vs. f n v \<noteq> None" using Cons.prems nv by auto
    then show ?thesis using Cons.IH [of z z'] nv None by simp
  qed (simp add: nv)
qed simp

lemma zero_wf: "server_wf mserver_zero" "c_str (ms_port mserver_zero) = []" "c_str (ms_password mserver_zero) = []"
  "ms_method mserver_zero = None" "ms_traffic mserver_zero = 0" "c_str (ms_locked_ip mserver_zero) = []"
  by (simp_all add: server_wf_def mserver_zero_def ended_zero c_str_zero INET6_ADDRSTRLEN_def)

lemma get_server_ok:
  assumes "command_json E buf r = Inr j" "fields_ok n (members j)" "n \<le> BUF_SIZE div 2"
  shows "\<exists>got. get_server_m E buf r = Inr got \<and> (got = None \<longrightarrow> j = None) \<and>
    (\<forall>sv. got = Some sv \<longrightarrow> server_wf sv \<and> c_str (ms_port sv) = last_value port_value (known_members (members j)) [] \<and>
       view_of sv = (last_value password_value (known_members (members j)) [], last_value method_value (known_members (members j)) None, 0, []))"
proof (cases "\<exists>vs. j = Some (JObject vs)")
  case True
  then obtain vs where j: "j = Some (JObject vs)" by blast
  then show ?thesis
    using server_fields_ok [of n vs mserver_zero] assms zero_wf by (auto simp: get_server_m_def view_of_def)
next
  case False
  then show ?thesis
    using assms(1) zero_wf by (cases j) (auto simp: get_server_m_def view_of_def known_members_def split: json.splits)
qed

lemma ended_hd: "ended n m \<Longrightarrow> (hd m = 0) = (c_str m = [])"
  by (intro c_str_hd) (auto simp: ended_def)

lemma add_command_ok:
  assumes "mgr_ok s" "command_json E buf r = Inr j" "fields_ok n (members j)" "n \<le> BUF_SIZE div 2"
  shows "\<exists>s'. add_command E io buf r s = Inr s' \<and> mgr_ok s' \<and>
           servers s' = manager_spec (check_port E io) wr (bstr ''add'') j (servers s)"
proof -
  obtain got where g: "get_server_m E buf r = Inr got" "got = None \<longrightarrow> j = None"
      "\<And>sv. got = Some sv \<Longrightarrow> server_wf sv \<and> c_str (ms_port sv) = last_value port_value (known_members (members j)) [] \<and>
         view_of sv = (last_value password_value (known_members (members j)) [], last_value method_value (known_members (members j)) None, 0, [])"
    using get_server_ok [OF assms(2-4)] by blast
  show ?thesis
  proof (cases got)
    case None
    then show ?thesis using g(1,2) assms(1) same_table [of "reply_err s" s]
      by (simp add: add_command_def manager_spec_def reply_err_def known_members_def)
  next
    case (Some sv)
    note sv = g(3) [OF Some]
    then have e: "ended 8 (ms_port sv)" "ended 128 (ms_password sv)" by (simp_all add: server_wf_def)
    note h = ended_hd [OF e(1)] ended_hd [OF e(2)]
    have pw: "c_str (ms_password sv) = last_value password_value (known_members (members j)) []"
      using sv by (simp add: view_of_def)
    show ?thesis
    proof (cases "hd (ms_port sv) = 0 \<or> hd (ms_password sv) = 0")
      case True
      then show ?thesis using g(1) Some assms(1) same_table [of "reply_err s" s] h pw sv
        by (auto simp: add_command_def manager_spec_def reply_err_def Let_def)
    next
      case False
      obtain s1 where s1: "remove_server E (me_working_dir E) (ms_port sv) s = Inr s1" "mgr_ok s1"
          "servers s1 = (servers s)(c_str (ms_port sv) := None)"
        using remove_server_ok [OF assms(1) wf_str(1) [of sv]] sv by blast
      obtain ok s2 where s2: "add_server E io sv s1 = Inr (ok, s2)" "mgr_ok s2"
          "servers s2 = (if check_port E io then (servers s1)(c_str (ms_port sv) \<mapsto> view_of sv) else servers s1)"
        using add_server_ok [OF s1(2), of sv E io] sv by blast
      let ?e = "Sent (if ok then bstr ''ok'' else bstr ''port is not available'')"
      have "add_command E io buf r s = Inr (mout ?e s2)"
        using g(1) Some False s1(1) s2(1) by (simp add: add_command_def)
      moreover have "mgr_ok (mout ?e s2)" "servers (mout ?e s2) = servers s2"
        using same_table [of "mout ?e s2" s2] s2(2) by simp_all
      ultimately show ?thesis
        using False h pw sv s1(3) s2(3) by (auto simp: manager_spec_def Let_def fun_eq_iff)
    qed
  qed
qed

lemma remove_command_ok:
  assumes "mgr_ok s" "command_json E buf r = Inr j" "fields_ok n (members j)" "n \<le> BUF_SIZE div 2"
  shows "\<exists>s'. remove_command E buf r s = Inr s' \<and> mgr_ok s' \<and>
           servers s' = manager_spec av wr (bstr ''remove'') j (servers s)"
proof -
  obtain got where g: "get_server_m E buf r = Inr got" "got = None \<longrightarrow> j = None"
      "\<And>sv. got = Some sv \<Longrightarrow> server_wf sv \<and> c_str (ms_port sv) = last_value port_value (known_members (members j)) []"
    using get_server_ok [OF assms(2-4)] by blast
  have a: "bstr ''remove'' \<noteq> bstr ''add''" by (simp add: bstr_def)
  show ?thesis
  proof (cases got)
    case None
    then show ?thesis using g(1,2) assms(1) same_table [of "reply_err s" s] a
      by (simp add: remove_command_def manager_spec_def reply_err_def known_members_def)
  next
    case (Some sv)
    note sv = g(3) [OF Some]
    then have e: "ended 8 (ms_port sv)" by (simp add: server_wf_def)
    note h = ended_hd [OF e]
    show ?thesis
    proof (cases "hd (ms_port sv) = 0")
      case True
      then show ?thesis using g(1) Some assms(1) same_table [of "reply_err s" s] h sv a
        by (auto simp: remove_command_def manager_spec_def reply_err_def Let_def)
    next
      case False
      obtain s1 where s1: "remove_server E (me_working_dir E) (ms_port sv) s = Inr s1" "mgr_ok s1"
          "servers s1 = (servers s)(c_str (ms_port sv) := None)"
        using remove_server_ok [OF assms(1) wf_str(1) [of sv]] sv by blast
      have "mgr_ok (mout (Sent (bstr ''ok'')) s1)" "servers (mout (Sent (bstr ''ok'')) s1) = servers s1"
        using same_table [of "mout (Sent (bstr ''ok'')) s1" s1] s1(2) by simp_all
      then show ?thesis
        using g(1) Some False s1 h sv a by (auto simp: remove_command_def manager_spec_def Let_def)
    qed
  qed
qed

lemma stack_array: "length (fresh_block junk lo hi) = hi - lo"
  by (simp add: fresh_block_def)

lemma stat_command_ok:
  assumes "mgr_ok s" "command_json E buf r = Inr j" "fields_ok n (members j)" "j \<noteq> None \<longrightarrow> stat_fits (members j)"
  shows "\<exists>s'. stat_command E buf r s = Inr s' \<and> mgr_ok s' \<and>
           servers s' = manager_spec av wr (bstr ''stat'') j (servers s)"
proof -
  have a: "bstr ''stat'' \<noteq> bstr ''add''" "bstr ''stat'' \<noteq> bstr ''remove''" by (simp_all add: bstr_def)
  show ?thesis
  proof (cases j)
    case None
    then show ?thesis using assms(1,2) a by (simp add: stat_command_def parse_traffic_def manager_spec_def)
  next
    case (Some v)
    then have f: "stat_fits (members j)" using assms(4) by simp
    then obtain vs where v: "v = JObject vs" using Some by (cases v) (simp_all add: stat_fits_def)
    let ?p = "fresh_block (me_junk E) 0 8" and ?name = "last_value int_name vs []" and ?t = "last_value int_value vs 0"
    have ex: "\<exists>(n, v) \<in> set vs. int_name n v \<noteq> None" using f Some v by (simp add: stat_fits_def)
    obtain p where p: "traffic_fields vs ?p 0 = Inr (p, ?t)" "0 \<in> set p" "c_str p = ?name"
      using traffic_fields_ok [of n vs ?p 0] assms(3) f Some v ex last_value_indep [of vs int_name "c_str ?p" "[]"]
      by (auto simp: stat_fits_def stack_array)
    have "stat_command E buf r s = Inr (update_server ?name (\<lambda>sv. sv\<lparr>ms_traffic := ?t\<rparr>) s)"
      using assms(2) Some v p by (simp add: stat_command_def parse_traffic_def update_stat_def str_in_def)
    moreover note update_server_ok [OF assms(1), of "\<lambda>sv. sv\<lparr>ms_traffic := ?t\<rparr>" "\<lambda>(w, m, _, l). (w, m, ?t, l)" ?name]
    ultimately show ?thesis
      using Some v a by (auto simp: manager_spec_def server_wf_def view_of_def Let_def split: option.splits)
  qed
qed

lemma parse_port_ip_ok:
  assumes "command_json E buf r = Inr j" "fields_ok n (members j)" "port_fits (members j)"
    and "length port = 8" "length ip = INET6_ADDRSTRLEN"
  shows "\<exists>got. parse_port_ip E buf r port ip = Inr got \<and>
    (case got of
       None \<Rightarrow> last_value port_value (members j) [] = []
     | Some (p, a) \<Rightarrow> str_in p = Inr (last_value port_value (members j) []) \<and> str_in a = Inr (last_value ip_value (members j) []) \<and>
         hd p \<noteq> 0 \<and> last_value port_value (members j) [] \<noteq> [] \<and> (hd a = 0) = (last_value ip_value (members j) [] = []))"
proof -
  obtain x po where po: "port = x # po" "length po = 7" using assms(4) by (cases port) auto
  obtain y ad where ad: "ip = y # ad" "length ad = 45" using assms(5) by (cases ip) (auto simp: INET6_ADDRSTRLEN_def)
  have w: "mem_write port 0 [0] = Inr (0 # po)" "mem_write ip 0 [0] = Inr (0 # ad)" using po ad by simp_all
  have z: "c_str (0 # po) = []" "c_str (0 # ad) = []" by (simp_all add: c_str_def)
  have l: "length (0 # po) = 8" "length (0 # ad) = INET6_ADDRSTRLEN" using po ad by (simp_all add: INET6_ADDRSTRLEN_def)
  obtain p a where pa: "port_ip_fields (members j) (0 # po) (0 # ad) = Inr (p, a)" "0 \<in> set p" "0 \<in> set a" "length p = 8"
      "length a = INET6_ADDRSTRLEN" "c_str p = last_value port_value (members j) []" "c_str a = last_value ip_value (members j) []"
    using port_ip_fields_ok [OF assms(2,3) l(1) _ l(2)] z by auto
  have ne: "p \<noteq> []" "a \<noteq> []" using pa(4,5) by (auto simp: INET6_ADDRSTRLEN_def)
  have e: "(case v of JObject vs \<Rightarrow> port_ip_fields vs (0 # po) (0 # ad) | _ \<Rightarrow> Inr (0 # po, 0 # ad)) = Inr (p, a)"
    if "j = Some v" for v
    using pa(1) that by (cases v) simp_all
  show ?thesis
  proof (cases j)
    case None
    then show ?thesis using assms(1) w by (simp add: parse_port_ip_def)
  next
    case (Some v)
    have "parse_port_ip E buf r port ip = Inr (if hd p = 0 then None else Some (p, a))"
      using assms(1) w Some e [OF Some] by (simp add: parse_port_ip_def)
    then show ?thesis
      using pa(2,3,6,7) c_str_hd [OF ne(1)] c_str_hd [OF ne(2)] by (auto simp: str_in_def)
  qed
qed

lemma last_value_ip:
  assumes "fields_ok n vs" "port_fits vs" "0 \<notin> set z" "length z < INET6_ADDRSTRLEN"
  shows "0 \<notin> set (last_value ip_value vs z) \<and> length (last_value ip_value vs z) < INET6_ADDRSTRLEN"
  using assms
proof (induction vs arbitrary: z)
  case (Cons nv vs)
  obtain m v where nv: "nv = (m, v)" by (cases nv)
  have rest: "fields_ok n vs" "port_fits vs" using Cons.prems(1,2) by (simp_all add: fields_ok_def port_fits_def)
  have "0 \<notin> set (case ip_value m v of Some x \<Rightarrow> x | None \<Rightarrow> z) \<and> length (case ip_value m v of Some x \<Rightarrow> x | None \<Rightarrow> z) < INET6_ADDRSTRLEN"
    using Cons.prems nv by (cases v) (auto simp: ip_value_def fields_ok_def port_fits_def)
  then show ?case using Cons.IH [OF rest] nv by simp
qed simp

text \<open>What a command that writes to the lock of a port leaves of the files.\<close>

lemma set_ip_command_ok:
  assumes "mgr_ok s" "command_json E buf r = Inr j" "fields_ok n (members j)" "port_fits (members j)"
  defines "p \<equiv> last_value port_value (members j) []" and "ip \<equiv> last_value ip_value (members j) []"
  shows "\<exists>s'. set_ip_command E buf r s = Inr s' \<and> mgr_ok s' \<and>
           servers s' = manager_spec av (\<lambda>p. os_writable (mg_os s) (lock_path p)) (bstr ''set_ip'') j (servers s) \<and>
           mg_os s' = (if p = [] \<or> ip = [] \<or> \<not> os_writable (mg_os s) (lock_path p) then mg_os s
                       else os_write_file (mg_os s) (lock_path p) (ip @ [10]))"
proof -
  have a: "bstr ''set_ip'' \<noteq> bstr ''add''" "bstr ''set_ip'' \<noteq> bstr ''remove''" "bstr ''set_ip'' \<noteq> bstr ''stat''" by (simp_all add: bstr_def)
  let ?wr = "\<lambda>p. os_writable (mg_os s) (lock_path p)"
  let ?port = "fresh_block (me_junk E) 0 8" and ?ip = "fresh_block (me_junk E) 8 (8 + INET6_ADDRSTRLEN)"
  obtain got where g: "parse_port_ip E buf r ?port ?ip = Inr got"
    "case got of
       None \<Rightarrow> p = []
     | Some (q, b) \<Rightarrow> str_in q = Inr p \<and> str_in b = Inr ip \<and> hd q \<noteq> 0 \<and> p \<noteq> [] \<and> (hd b = 0) = (ip = [])"
    unfolding p_def ip_def using parse_port_ip_ok [OF assms(2-4), of ?port ?ip] by (auto simp: stack_array)
  have err: "mgr_ok (reply_err s)" "servers (reply_err s) = servers s" "mg_os (reply_err s) = mg_os s"
    using same_table [of "reply_err s" s] assms(1) by (simp_all add: reply_err_def)
  show ?thesis
  proof (cases "got = None \<or> ip = [] \<or> \<not> ?wr p")
    case True
    then have "set_ip_command E buf r s = Inr (reply_err s)"
      using g by (auto simp: set_ip_command_def write_port_lock_ip_def lock_path_def Let_def split: option.splits)
    moreover have "p = [] \<or> ip = [] \<or> \<not> ?wr p" using True g(2) by auto
    then have "manager_spec av ?wr (bstr ''set_ip'') j (servers s) = servers s"
      using a by (auto simp: manager_spec_def Let_def p_def ip_def)
    ultimately show ?thesis using err \<open>p = [] \<or> ip = [] \<or> \<not> ?wr p\<close> by auto
  next
    case False
    then obtain q b where got: "got = Some (q, b)" by auto
    let ?s = "s\<lparr>mg_os := os_write_file (mg_os s) (lock_path p) (ip @ [10])\<rparr>"
    let ?u = "update_server p (set_locked ip) ?s"
    have ok: "mgr_ok ?s" "servers ?s = servers s" using assms(1) same_table [of ?s s] by simp_all
    have "set_ip_command E buf r s = Inr (mout (Sent (bstr ''ok'')) ?u)"
      using g False got by (auto simp: set_ip_command_def write_port_lock_ip_def lock_path_def Let_def)
    moreover have "0 \<notin> set ip \<and> length ip < INET6_ADDRSTRLEN"
      unfolding ip_def using last_value_ip [OF assms(3,4)] by (simp add: INET6_ADDRSTRLEN_def)
    then have "mgr_ok ?u \<and> servers ?u = (case servers ?s p of None \<Rightarrow> servers ?s | Some v \<Rightarrow> (servers ?s)(p \<mapsto> (\<lambda>(w, m, t, _). (w, m, t, ip)) v))"
      using update_server_ok [OF ok(1), of "set_locked ip" "\<lambda>(w, m, t, _). (w, m, t, ip)" p] set_locked_ok by blast
    moreover have "mgr_ok (mout (Sent (bstr ''ok'')) ?u) = mgr_ok ?u" "servers (mout (Sent (bstr ''ok'')) ?u) = servers ?u"
      using same_table [of "mout (Sent (bstr ''ok'')) ?u" ?u] by simp_all
    moreover have "mg_os ?u = mg_os ?s" by (simp add: update_server_def split: option.splits)
    moreover have "p \<noteq> []" using g(2) got by simp
    ultimately show ?thesis
      using False ok(2) a by (auto simp: manager_spec_def Let_def p_def [symmetric] ip_def [symmetric] split: option.splits)
  qed
qed

lemma parse_port_only_ok:
  assumes "command_json E buf r = Inr j" "fields_ok n (members j)" "port_fits (members j)"
  shows "\<exists>got. parse_port_only E buf r (fresh_block (me_junk E) 0 8) = Inr got \<and>
    (case got of
       None \<Rightarrow> last_value port_value (members j) [] = []
     | Some p \<Rightarrow> str_in p = Inr (last_value port_value (members j) []) \<and> hd p \<noteq> 0 \<and> last_value port_value (members j) [] \<noteq> [])"
proof -
  obtain got where g: "parse_port_ip E buf r (fresh_block (me_junk E) 0 8) (fresh_block (me_junk E) 8 (8 + INET6_ADDRSTRLEN)) = Inr got"
    "case got of
       None \<Rightarrow> last_value port_value (members j) [] = []
     | Some (p, a) \<Rightarrow> str_in p = Inr (last_value port_value (members j) []) \<and> str_in a = Inr (last_value ip_value (members j) []) \<and>
         hd p \<noteq> 0 \<and> last_value port_value (members j) [] \<noteq> [] \<and> (hd a = 0) = (last_value ip_value (members j) [] = [])"
    using parse_port_ip_ok [OF assms, of "fresh_block (me_junk E) 0 8" "fresh_block (me_junk E) 8 (8 + INET6_ADDRSTRLEN)"]
    by (auto simp: stack_array)
  show ?thesis using g by (cases got) (auto simp: parse_port_only_def)
qed

lemma clear_ip_command_ok:
  assumes "mgr_ok s" "command_json E buf r = Inr j" "fields_ok n (members j)" "port_fits (members j)"
  shows "\<exists>s'. clear_ip_command E buf r s = Inr s' \<and> mgr_ok s' \<and>
           servers s' = manager_spec av wr (bstr ''clear_ip'') j (servers s)"
proof -
  have a: "bstr ''clear_ip'' \<noteq> bstr ''add''" "bstr ''clear_ip'' \<noteq> bstr ''remove''" "bstr ''clear_ip'' \<noteq> bstr ''stat''"
    "bstr ''clear_ip'' \<noteq> bstr ''set_ip''" by (simp_all add: bstr_def)
  define p where "p = last_value port_value (members j) []"
  obtain got where g: "parse_port_only E buf r (fresh_block (me_junk E) 0 8) = Inr got"
      "case got of None \<Rightarrow> p = [] | Some q \<Rightarrow> str_in q = Inr p \<and> hd q \<noteq> 0 \<and> p \<noteq> []"
    unfolding p_def using parse_port_only_ok [OF assms(2-4)] by blast
  show ?thesis
  proof (cases got)
    case None
    then show ?thesis using g assms(1) same_table [of "reply_err s" s] a
      by (auto simp: clear_ip_command_def manager_spec_def reply_err_def Let_def p_def)
  next
    case (Some q)
    let ?f = "\<lambda>sv. sv\<lparr>ms_locked_ip := (ms_locked_ip sv)[0 := 0]\<rparr>"
    let ?s = "s\<lparr>mg_os := os_unlink (mg_os s) (lock_path p)\<rparr>"
    let ?u = "update_server p ?f ?s"
    have ok: "mgr_ok ?s" "servers ?s = servers s" using assms(1) same_table [of ?s s] by simp_all
    have "clear_ip_command E buf r s = Inr (mout (Sent (bstr ''ok'')) ?u)"
      using g Some by (simp add: clear_ip_command_def clear_port_lock_ip_def lock_path_def)
    moreover have "mgr_ok ?u \<and> servers ?u = (case servers ?s p of None \<Rightarrow> servers ?s | Some v \<Rightarrow> (servers ?s)(p \<mapsto> (\<lambda>(w, m, t, _). (w, m, t, [])) v))"
      using update_server_ok [OF ok(1), of ?f "\<lambda>(w, m, t, _). (w, m, t, [])" p] clear_locked_ok by simp
    moreover have "mgr_ok (mout (Sent (bstr ''ok'')) ?u) = mgr_ok ?u" "servers (mout (Sent (bstr ''ok'')) ?u) = servers ?u"
      using same_table [of "mout (Sent (bstr ''ok'')) ?u" ?u] by simp_all
    ultimately show ?thesis
      using g(2) Some ok(2) a by (auto simp: manager_spec_def Let_def p_def [symmetric] split: option.splits)
  qed
qed

lemma ip_status_command_ok:
  assumes "command_json E buf r = Inr j" "fields_ok n (members j)" "port_fits (members j)"
  shows "\<exists>s'. ip_status_command E buf r s = Inr s' \<and> mg_table s' = mg_table s"
proof -
  obtain got where g: "parse_port_only E buf r (fresh_block (me_junk E) 0 8) = Inr got"
      "case got of None \<Rightarrow> True | Some q \<Rightarrow> \<exists>p. str_in q = Inr p"
    using parse_port_only_ok [OF assms] by (auto split: option.splits)
  show ?thesis using g
    by (cases got) (auto simp: ip_status_command_def reply_err_def read_port_status_def Let_def)
qed

section \<open>Reports\<close>

definition method_of :: "menv \<Rightarrow> mserver \<Rightarrow> bytes" where
  "method_of E sv = (case ms_method sv of Some m \<Rightarrow> m | None \<Rightarrow> mc_method (me_ctx E))"

definition list_item :: "menv \<Rightarrow> mserver \<Rightarrow> bytes" where
  "list_item E sv = list_entry (c_str (ms_port sv)) (c_str (ms_password sv)) (method_of E sv)"

definition list_text :: "menv \<Rightarrow> (bytes \<times> mserver) list \<Rightarrow> bytes" where
  "list_text E t = concat (map (\<lambda>(k, sv). list_item E sv) t)"

definition ping_item :: "mserver \<Rightarrow> bytes" where
  "ping_item sv = ping_entry (c_str (ms_port sv)) (ms_traffic sv)"

definition ping_text :: "(bytes \<times> mserver) list \<Rightarrow> bytes" where
  "ping_text t = concat (map (\<lambda>(k, sv). ping_item sv) t)"

definition method_ok :: "menv \<Rightarrow> bool" where
  "method_ok E \<longleftrightarrow> length (mc_method (me_ctx E)) \<le> BUF_SIZE div 2"

definition entries_wf :: "(bytes \<times> mserver) list \<Rightarrow> bool" where
  "entries_wf t \<longleftrightarrow> (\<forall>(k, sv) \<in> set t. server_wf sv)"

lemma mgr_ok_entries: "mgr_ok s \<Longrightarrow> entries_wf (mg_table s)"
  by (auto simp: mgr_ok_def entries_wf_def)

lemma list_entry_length: "length (list_entry p w m) = length p + length w + length m + 47"
  by (simp add: list_entry_def)

lemma method_of_length: "server_wf sv \<Longrightarrow> method_ok E \<Longrightarrow> length (method_of E sv) \<le> BUF_SIZE div 2"
  by (auto simp: method_of_def method_ok_def server_wf_def split: option.splits)

lemma list_step:
  assumes "server_wf sv" "method_ok E"
  defines "n \<equiv> length (list_item E sv)"
  shows "list_loop E ((k, sv) # t) buf s =
    (if length buf + n + 3 > BUF_SIZE then list_loop E t (list_item E sv) (mout (Sent buf) s)
     else list_loop E t (buf @ list_item E sv) s)"
    and "list_item E sv \<noteq> []" "n + 3 \<le> BUF_SIZE"
proof -
  let ?e = "length (c_str (ms_port sv)) + length (c_str (ms_password sv)) + length (method_of E sv)"
  have n: "n = ?e + 47" by (simp add: n_def list_item_def list_entry_length)
  have b: "?e + 100 \<le> BUF_SIZE"
    using wf_lengths [OF assms(1)] method_of_length [OF assms(1,2)] by (simp add: BUF_SIZE_def)
  then show "list_item E sv \<noteq> []" "n + 3 \<le> BUF_SIZE" using n by (auto simp: n_def)
  have f: "list_full (length buf) ?e = (length buf + n + 3 > BUF_SIZE)" using b n by (auto simp: list_full_def)
  show "list_loop E ((k, sv) # t) buf s =
    (if length buf + n + 3 > BUF_SIZE then list_loop E t (list_item E sv) (mout (Sent buf) s)
     else list_loop E t (buf @ list_item E sv) s)"
  proof (cases "length buf + n + 3 > BUF_SIZE")
    case True
    then have "buf_print [] (list_item E sv) = Inr (list_item E sv)" using b n by (simp add: buf_print_def flip: n_def)
    then show ?thesis using True f wf_str(1,2) [OF assms(1)]
      by (simp add: method_of_def [symmetric] list_item_def Let_def)
  next
    case False
    then have "buf_print buf (list_item E sv) = Inr (buf @ list_item E sv)" by (simp add: buf_print_def flip: n_def)
    then show ?thesis using False f wf_str(1,2) [OF assms(1)]
      by (simp add: method_of_def [symmetric] list_item_def Let_def)
  qed
qed

lemma list_loop_ok:
  assumes "entries_wf t" "method_ok E" "0 < length buf" "length buf + 3 \<le> BUF_SIZE"
  shows "\<exists>buf' s'. list_loop E t buf s = Inr (buf', s') \<and> mg_table s' = mg_table s \<and> 0 < length buf' \<and> length buf' + 3 \<le> BUF_SIZE"
  using assms
proof (induction t arbitrary: buf s)
  case (Cons e t)
  obtain k sv where e: "e = (k, sv)" by (cases e)
  have wf: "server_wf sv" "entries_wf t" using Cons.prems(1) e by (simp_all add: entries_wf_def)
  note st = list_step [OF wf(1) Cons.prems(2)]
  show ?case
  proof (cases "length buf + length (list_item E sv) + 3 > BUF_SIZE")
    case True
    then show ?thesis using Cons.IH [OF wf(2) Cons.prems(2), of "list_item E sv" "mout (Sent buf) s"] st e by auto
  next
    case False
    then show ?thesis using Cons.IH [OF wf(2) Cons.prems(2), of "buf @ list_item E sv" s] st e Cons.prems(3) by auto
  qed
qed simp

lemma list_loop_exact:
  assumes "entries_wf t" "method_ok E" "length buf + length (list_text E t) + 3 \<le> BUF_SIZE"
  shows "list_loop E t buf s = Inr (buf @ list_text E t, s)"
  using assms
proof (induction t arbitrary: buf)
  case (Cons e t)
  obtain k sv where e: "e = (k, sv)" by (cases e)
  have wf: "server_wf sv" "entries_wf t" using Cons.prems(1) e by (simp_all add: entries_wf_def)
  show ?case
    using Cons.IH [OF wf(2) Cons.prems(2), of "buf @ list_item E sv"] list_step(1) [OF wf(1) Cons.prems(2)] e Cons.prems(3)
    by (simp add: list_text_def)
qed (simp add: list_text_def)

lemma list_command_ok:
  assumes "mgr_ok s" "method_ok E"
  shows "\<exists>s'. list_command E s = Inr s' \<and> mg_table s' = mg_table s"
proof -
  obtain buf s' where l: "list_loop E (mg_table s) (bstr ''['') s = Inr (buf, s')" "mg_table s' = mg_table s" "0 < length buf" "length buf + 3 \<le> BUF_SIZE"
    using list_loop_ok [OF mgr_ok_entries [OF assms(1)] assms(2), of "bstr ''[''" s] by (auto simp: BUF_SIZE_def)
  then have "buf_print (take (max (length buf - 1) 1) buf) [10, 93] = Inr (take (max (length buf - 1) 1) buf @ [10, 93])"
    by (simp add: buf_print_def)
  then show ?thesis using l by (auto simp: list_command_def)
qed

lemma ping_entry_length: "length (ping_entry p t) \<le> length p + 24" "0 < length (ping_entry p t)"
proof -
  have "unat t < 2 ^ 64" using unsigned_less [of t] by simp
  then have "unat t < 10 ^ 20" by simp
  then have "length (dec_str (unat t)) \<le> 20" by (rule dec_str_length) simp
  then show "length (ping_entry p t) \<le> length p + 24" "0 < length (ping_entry p t)" by (simp_all add: ping_entry_def)
qed

lemma ping_loop_ok:
  assumes "entries_wf t" "length buf \<le> BUF_SIZE div 2 + 31"
  shows "\<exists>buf' s'. ping_loop t buf s = Inr (buf', s') \<and> mg_table s' = mg_table s \<and> length buf' \<le> BUF_SIZE div 2 + 31"
  using assms
proof (induction t arbitrary: buf s)
  case (Cons e t)
  obtain k sv where e: "e = (k, sv)" by (cases e)
  have wf: "server_wf sv" "entries_wf t" using Cons.prems(1) e by (simp_all add: entries_wf_def)
  show ?case
  proof (cases "length buf > BUF_SIZE div 2")
    case True
    then show ?thesis using Cons.IH [OF wf(2), of "[]" "mout (Sent (buf[length buf - 1 := 125])) s"] e by simp
  next
    case False
    have n: "length (ping_item sv) \<le> 31"
      using ping_entry_length(1) [of "c_str (ms_port sv)" "ms_traffic sv"] wf_lengths(1) [OF wf(1)] by (simp add: ping_item_def)
    have "buf_print buf (ping_item sv) = Inr (buf @ ping_item sv)" using False n by (simp add: buf_print_def BUF_SIZE_def)
    then show ?thesis using Cons.IH [OF wf(2), of "buf @ ping_item sv" s] e False n wf_str(1) [OF wf(1)] by (simp add: ping_item_def)
  qed
qed simp

lemma ping_loop_exact:
  assumes "entries_wf t" "length buf + length (ping_text t) \<le> BUF_SIZE div 2"
  shows "ping_loop t buf s = Inr (buf @ ping_text t, s)"
  using assms
proof (induction t arbitrary: buf)
  case (Cons e t)
  obtain k sv where e: "e = (k, sv)" by (cases e)
  have wf: "server_wf sv" "entries_wf t" using Cons.prems(1) e by (simp_all add: entries_wf_def)
  have l: "length buf + length (ping_item sv) + length (ping_text t) \<le> BUF_SIZE div 2"
    using Cons.prems(2) e by (simp add: ping_text_def)
  then have "buf_print buf (ping_item sv) = Inr (buf @ ping_item sv)" by (simp add: buf_print_def BUF_SIZE_def)
  then show ?case using Cons.IH [OF wf(2), of "buf @ ping_item sv"] e l wf_str(1) [OF wf(1)] by (simp add: ping_item_def ping_text_def)
qed (simp add: ping_text_def)

lemma ping_command_ok:
  assumes "mgr_ok s"
  shows "\<exists>s'. ping_command s = Inr s' \<and> mg_table s' = mg_table s"
proof -
  obtain buf s' where l: "ping_loop (mg_table s) (bstr ''stat: {'') s = Inr (buf, s')" "mg_table s' = mg_table s"
    using ping_loop_ok [OF mgr_ok_entries [OF assms], of "bstr ''stat: {''" s] by (auto simp: BUF_SIZE_def)
  then show ?thesis by (auto simp: ping_command_def buf_print_def BUF_SIZE_def)
qed

section \<open>All commands\<close>

lemma data_of_length: "data_of d = Some t \<Longrightarrow> length t \<le> length d"
  using length_takeWhile_le [of "\<lambda>b. b \<noteq> 0" "drop (data_start (d[word_end d := 0]) - 1) (d[word_end d := 0])"]
  by (auto simp: data_of_def Let_def c_str_def split: if_splits)

lemma json_of_fields:
  assumes "json_ok E"
  shows "fields_ok (length d) (members (json_of E d))"
proof (cases "\<exists>vs. json_of E d = Some (JObject vs)")
  case True
  then obtain t vs where t: "data_of d = Some t" "me_json E t = Some (JObject vs)" "json_of E d = Some (JObject vs)"
    by (auto simp: json_of_def bind_eq_Some_conv)
  then have "fields_ok (length t) vs" using assms by (simp add: json_ok_def)
  then show ?thesis using t data_of_length [OF t(1)] by (fastforce simp: fields_ok_def split: json.splits)
next
  case False
  then have "members (json_of E d) = []" unfolding members_def by (auto split: option.splits json.splits)
  then show ?thesis by (simp add: fields_ok_def)
qed

lemma command_ok:
  assumes s: "mgr_ok s" and E: "method_ok E"
    and j: "a \<in> {bstr ''add'', bstr ''remove'', bstr ''stat'', bstr ''set_ip'', bstr ''clear_ip'', bstr ''ip_status''} \<Longrightarrow> command_json E buf r = Inr j"
    and f: "fields_ok n (members j)" "n \<le> BUF_SIZE div 2" and fits: "command_fits a j"
  shows "\<exists>s'. manager_command E io a buf r s = Inr s' \<and> mgr_ok s' \<and>
    servers s' = manager_spec (check_port E io) (\<lambda>p. os_writable (mg_os s) (lock_path p)) a j (servers s)"
proof -
  let ?av = "check_port E io" and ?wr = "\<lambda>p. os_writable (mg_os s) (lock_path p)"
  have quiet: "\<exists>s'. r = Inr s' \<and> mgr_ok s' \<and> servers s' = servers s" if "\<exists>s'. r = Inr s' \<and> mg_table s' = mg_table s" for r :: "mgr res"
    using that s same_table by blast
  have other: "manager_spec ?av ?wr a j M = M" if "a \<notin> {bstr ''add'', bstr ''remove'', bstr ''stat'', bstr ''set_ip'', bstr ''clear_ip''}" for M
    using that by (simp add: manager_spec_def Let_def)
  consider "a = bstr ''add''" | "a = bstr ''list''" | "a = bstr ''remove''" | "a = bstr ''stat''" | "a = bstr ''ping''" | "a = bstr ''set_ip''"
    | "a = bstr ''clear_ip''" | "a = bstr ''ip_status''"
    | "a \<notin> {bstr ''add'', bstr ''list'', bstr ''remove'', bstr ''stat'', bstr ''ping'', bstr ''set_ip'', bstr ''clear_ip'', bstr ''ip_status''}"
    by blast
  then show ?thesis
  proof cases
    case 1
    then show ?thesis using add_command_ok [OF s j f, of io ?wr] by (simp add: manager_command_def)
  next
    case 2
    have "manager_command E io a buf r s = list_command E s" using 2 by (simp add: manager_command_def bstr_def)
    then show ?thesis using quiet [OF list_command_ok [OF s E]] other 2 by (simp add: bstr_def)
  next
    case 3
    have "manager_command E io a buf r s = remove_command E buf r s" using 3 by (simp add: manager_command_def bstr_def)
    then show ?thesis using remove_command_ok [OF s j f, of ?av ?wr] 3 by simp
  next
    case 4
    have "manager_command E io a buf r s = stat_command E buf r s" using 4 by (simp add: manager_command_def bstr_def)
    then show ?thesis using stat_command_ok [OF s j f(1), of ?av ?wr] fits 4 by (simp add: command_fits_def)
  next
    case 5
    have "manager_command E io a buf r s = ping_command s" using 5 by (simp add: manager_command_def bstr_def)
    then show ?thesis using quiet [OF ping_command_ok [OF s]] other 5 by (simp add: bstr_def)
  next
    case 6
    have "manager_command E io a buf r s = set_ip_command E buf r s" using 6 by (simp add: manager_command_def bstr_def)
    moreover have "port_fits (members j)" using fits 6 by (simp add: command_fits_def)
    ultimately show ?thesis using set_ip_command_ok [OF s j f(1), of ?av] 6 by auto
  next
    case 7
    have "manager_command E io a buf r s = clear_ip_command E buf r s" using 7 by (simp add: manager_command_def bstr_def)
    moreover have "port_fits (members j)" using fits 7 by (simp add: command_fits_def)
    ultimately show ?thesis using clear_ip_command_ok [OF s j f(1), of ?av ?wr] 7 by simp
  next
    case 8
    have "manager_command E io a buf r s = ip_status_command E buf r s" using 8 by (simp add: manager_command_def bstr_def)
    moreover have "port_fits (members j)" using fits 8 by (simp add: command_fits_def)
    then have "\<exists>s'. ip_status_command E buf r s = Inr s' \<and> mg_table s' = mg_table s"
      using ip_status_command_ok [OF j f(1)] 8 by simp
    ultimately show ?thesis using quiet other 8 by (simp add: bstr_def)
  next
    case 9
    then show ?thesis using s other by (simp add: manager_command_def)
  qed
qed

lemma command_names:
  assumes "a \<in> {bstr ''add'', bstr ''remove'', bstr ''stat'', bstr ''set_ip'', bstr ''clear_ip'', bstr ''ip_status''}"
  shows "a \<noteq> []" "hd a \<noteq> 123"
  using assms by (auto simp: bstr_def)

lemma recv_refines:
  assumes "mgr_ok s" "json_ok E" "method_ok E" "mi_recv io = Some d" "length d \<le> BUF_SIZE div 2" "word_of d = Some a"
    and "command_fits a (json_of E d)"
  shows "\<exists>s'. manager_recv_cb E io s = Inr s' \<and> mgr_ok s' \<and>
    servers s' = manager_spec (check_port E io) (\<lambda>p. os_writable (mg_os s) (lock_path p)) a (json_of E d) (servers s)"
proof -
  have l: "length d < BUF_SIZE" using assms(5) by (simp add: BUF_SIZE_def)
  have "manager_recv_cb E io s = manager_command E io a (cmd_buf (d[word_end d := 0])) (length d) s"
    using recv_eq [OF assms(4)] l assms(5,6) by simp
  then show ?thesis
    using command_ok [OF assms(1,3) command_json_eq [OF assms(6) command_names l] json_of_fields [OF assms(2)] assms(5,7)] by simp
qed

section \<open>Every reachable state\<close>

text \<open>A command that does not fit either faults or keeps the table well-formed.\<close>

lemma str_in_length: "str_in m = Inr x \<Longrightarrow> 0 \<notin> set x \<and> length x < length m"
  by (auto simp: str_in_def c_str_less c_str_set split: if_splits)

lemma stat_keeps: "mgr_ok s \<Longrightarrow> stat_command E buf r s = Inr s' \<Longrightarrow> mgr_ok s'"
proof -
  assume s: "mgr_ok s" and r: "stat_command E buf r s = Inr s'"
  have "mgr_ok (update_server p (\<lambda>sv. sv\<lparr>ms_traffic := t\<rparr>) s)" for p t
    using update_server_ok [OF s, of "\<lambda>sv. sv\<lparr>ms_traffic := t\<rparr>" "\<lambda>(w, m, _, l). (w, m, t, l)" p]
    by (simp add: server_wf_def view_of_def)
  then show "mgr_ok s'" using s r by (auto simp: stat_command_def update_stat_def res_simps split: option.splits)
qed

lemma port_ip_fields_length: "port_ip_fields vs port ip = Inr (p, a) \<Longrightarrow> length a = length ip"
proof (induction vs arbitrary: port ip)
  case (Cons nv vs)
  obtain n v where nv: "nv = (n, v)" by (cases nv)
  have l: "length b = length ip" if "(case v of JString a \<Rightarrow> str_ncpy ip (INET6_ADDRSTRLEN - 1) a | _ \<Rightarrow> Inr ip) = Inr b" for b
    using that by (cases v) (auto simp: str_ncpy_def Let_def dest: mem_write_length)
  consider "n = bstr ''server_port''" | "n \<noteq> bstr ''server_port''" "n = bstr ''ip''" | "n \<noteq> bstr ''server_port''" "n \<noteq> bstr ''ip''" by blast
  then show ?case
    by cases (use Cons nv l in \<open>auto simp: res_simps\<close>)
qed simp

lemma set_ip_keeps:
  assumes s: "mgr_ok s" and r: "set_ip_command E buf r s = Inr s'"
  shows "mgr_ok s'"
proof -
  let ?ip = "fresh_block (me_junk E) 8 (8 + INET6_ADDRSTRLEN)"
  have err: "mgr_ok (reply_err s)" using same_table [of "reply_err s" s] s by (simp add: reply_err_def)
  have len: "length a = INET6_ADDRSTRLEN" if got: "parse_port_ip E buf r port ?ip = Inr (Some (p, a))" for port p a
  proof -
    obtain po ip' j where 1: "mem_write ?ip 0 [0] = Inr ip'" and 2: "(case j of None \<Rightarrow> Inr None | Some v \<Rightarrow>
           bindr (case v of JObject vs \<Rightarrow> port_ip_fields vs po ip' | _ \<Rightarrow> Inr (po, ip')) (\<lambda>(port, ip).
             Inr (if hd port = 0 then None else Some (port, ip)))) = Inr (Some (p, a))"
      using got unfolding parse_port_ip_def bindr_Inr_iff by blast
    have l: "length ip' = INET6_ADDRSTRLEN" using mem_write_length [OF 1] by (simp add: stack_array)
    obtain v where j: "j = Some v" using 2 by (cases j) simp_all
    have "(case v of JObject vs \<Rightarrow> port_ip_fields vs po ip' | _ \<Rightarrow> Inr (po, ip')) = Inr (p, a)"
      using 2 unfolding j by (auto simp: bindr_Inr_iff split: if_splits)
    then show ?thesis using l by (cases v) (auto dest: port_ip_fields_length)
  qed
  have upd: "mgr_ok (mout e (update_server p (set_locked a) (s\<lparr>mg_os := w\<rparr>)))" if "0 \<notin> set a" "length a < INET6_ADDRSTRLEN" for e p a w
  proof -
    have "mgr_ok (s\<lparr>mg_os := w\<rparr>)" using same_table [of "s\<lparr>mg_os := w\<rparr>" s] s by simp
    from update_server_ok [OF this, of "set_locked a" "\<lambda>(w, m, t, _). (w, m, t, a)" p] set_locked_ok that
    have "mgr_ok (update_server p (set_locked a) (s\<lparr>mg_os := w\<rparr>))" by blast
    then show ?thesis by simp
  qed
  have err2: "mgr_ok (reply_err (s\<lparr>mg_os := w\<rparr>))" for w using same_table [of "reply_err (s\<lparr>mg_os := w\<rparr>)" s] s by (simp add: reply_err_def)
  obtain got where g: "parse_port_ip E buf r (fresh_block (me_junk E) 0 8) ?ip = Inr got"
    using r by (auto simp: set_ip_command_def bindr_Inr_iff)
  show ?thesis
  proof (cases got)
    case None
    then show ?thesis using r g err by (auto simp: set_ip_command_def)
  next
    case (Some pa)
    obtain p a where pa: "pa = (p, a)" by (cases pa)
    have l: "length a = INET6_ADDRSTRLEN" using len g Some pa by blast
    show ?thesis
    proof (cases "hd a = 0")
      case True
      then show ?thesis using r g Some pa err by (auto simp: set_ip_command_def)
    next
      case False
      then obtain fin w where d: "write_port_lock_ip p a (mg_os s) = Inr (fin, w)"
        using r g Some pa by (auto simp: set_ip_command_def bindr_Inr_iff)
      show ?thesis
      proof (cases fin)
        case True
        then obtain x y where "str_in p = Inr x" "str_in a = Inr y"
            "s' = mout (Sent (bstr ''ok'')) (update_server x (set_locked y) (s\<lparr>mg_os := w\<rparr>))"
          using r g Some pa False d by (auto simp: set_ip_command_def bindr_Inr_iff)
        then show ?thesis using upd [of y] str_in_length [of a y] l by simp
      next
        case False
        then show ?thesis using r g Some pa \<open>hd a \<noteq> 0\<close> d err2 [of w] by (auto simp: set_ip_command_def)
      qed
    qed
  qed
qed

lemma clear_ip_keeps:
  assumes s: "mgr_ok s" and r: "clear_ip_command E buf r s = Inr s'"
  shows "mgr_ok s'"
proof -
  have err: "mgr_ok (reply_err s)" using same_table [of "reply_err s" s] s by (simp add: reply_err_def)
  have upd: "mgr_ok (mout e (update_server p (\<lambda>sv. sv\<lparr>ms_locked_ip := (ms_locked_ip sv)[0 := 0]\<rparr>) (s\<lparr>mg_os := w\<rparr>)))" for e p w
  proof -
    have "mgr_ok (s\<lparr>mg_os := w\<rparr>)" using same_table [of "s\<lparr>mg_os := w\<rparr>" s] s by simp
    from update_server_ok [OF this, of "\<lambda>sv. sv\<lparr>ms_locked_ip := (ms_locked_ip sv)[0 := 0]\<rparr>" "\<lambda>(w, m, t, _). (w, m, t, [])" p]
    have "mgr_ok (update_server p (\<lambda>sv. sv\<lparr>ms_locked_ip := (ms_locked_ip sv)[0 := 0]\<rparr>) (s\<lparr>mg_os := w\<rparr>))"
      using clear_locked_ok by simp
    then show ?thesis by simp
  qed
  show ?thesis using r err upd by (auto simp: clear_ip_command_def res_simps split: option.splits)
qed

lemma ip_status_keeps:
  assumes s: "mgr_ok s" and r: "ip_status_command E buf r s = Inr s'"
  shows "mgr_ok s'"
proof -
  obtain got where g: "(case got of None \<Rightarrow> Inr (reply_err s)
      | Some port \<Rightarrow> bindr (read_port_status port (IP_LOCK_STATUS_JSON_MAX + 128) (mg_os s))
          (\<lambda>status. Inr (mout (Sent status) s))) = Inr s'"
    using r unfolding ip_status_command_def bindr_Inr_iff by blast
  show ?thesis using g s by (cases got) (auto simp: reply_err_def bindr_Inr_iff)
qed

lemma command_keeps:
  assumes s: "mgr_ok s" and E: "method_ok E"
    and j: "a \<in> {bstr ''add'', bstr ''remove'', bstr ''stat'', bstr ''set_ip'', bstr ''clear_ip'', bstr ''ip_status''} \<Longrightarrow> command_json E buf r = Inr j"
    and f: "fields_ok n (members j)" "n \<le> BUF_SIZE div 2" and r: "manager_command E io a buf r s = Inr s'"
  shows "mgr_ok s'"
proof (cases "a \<in> {bstr ''stat'', bstr ''set_ip'', bstr ''clear_ip'', bstr ''ip_status''}")
  case False
  then have "command_fits a j" by (simp add: command_fits_def)
  then show ?thesis using command_ok [where a = a and io = io, OF s E j f] r by auto
next
  case True
  then consider "a = bstr ''stat''" | "a = bstr ''set_ip''" | "a = bstr ''clear_ip''" | "a = bstr ''ip_status''" by blast
  then show ?thesis
  proof cases
    case 1
    then show ?thesis using stat_keeps [OF s] r by (simp add: manager_command_def bstr_def)
  next
    case 2
    then have "manager_command E io a buf r s = set_ip_command E buf r s" by (simp add: manager_command_def bstr_def)
    then show ?thesis using set_ip_keeps [OF s] r by simp
  next
    case 3
    then have "manager_command E io a buf r s = clear_ip_command E buf r s" by (simp add: manager_command_def bstr_def)
    then show ?thesis using clear_ip_keeps [OF s] r by simp
  next
    case 4
    then have "manager_command E io a buf r s = ip_status_command E buf r s" by (simp add: manager_command_def bstr_def)
    then show ?thesis using ip_status_keeps [OF s] r by simp
  qed
qed

lemma recv_keeps:
  assumes "mgr_ok s" "json_ok E" "method_ok E" "mio_ok io" "manager_recv_cb E io s = Inr s'"
  shows "mgr_ok s'"
proof (cases "mi_recv io")
  case None
  then show ?thesis using assms(1,5) by (simp add: manager_recv_cb_def)
next
  case (Some d)
  have l: "length d \<le> BUF_SIZE" using assms(4) Some by (simp add: mio_ok_def)
  note e = recv_eq [OF Some l, of E s]
  show ?thesis
  proof (cases "length d > BUF_SIZE div 2 \<or> word_of d = None")
    case True
    then show ?thesis using e assms(1,5) by (auto split: if_splits)
  next
    case False
    then obtain a where a: "word_of d = Some a" and d: "length d \<le> BUF_SIZE div 2" "length d < BUF_SIZE"
      by (auto simp: BUF_SIZE_def)
    show ?thesis
      using command_keeps [OF assms(1,3) command_json_eq [OF a command_names d(2)] json_of_fields [OF assms(2)] d(1)] e a d assms(5)
      by simp
  qed
qed

lemma conf_server_ok:
  assumes "0 \<notin> set port" "0 \<notin> set password"
  shows "\<exists>sv. conf_server port password = Inr sv \<and> server_wf sv"
proof -
  obtain p where p: "str_ncpy (ms_port mserver_zero) 7 port = Inr p" "ended 8 p"
    using str_ncpy_ended [of 7 "ms_port mserver_zero" port] zero_wf(1) assms(1) by (auto simp: server_wf_def)
  obtain q where q: "str_ncpy (ms_password mserver_zero) 127 password = Inr q" "ended 128 q"
    using str_ncpy_ended [of 127 "ms_password mserver_zero" password] zero_wf(1) assms(2) by (auto simp: server_wf_def)
  show ?thesis using p q zero_wf(1) by (auto simp: conf_server_def server_wf_def)
qed

lemma add_configured_ok:
  assumes "conf_ok xs" "mgr_ok s"
  shows "\<exists>s'. add_configured E xs s = Inr s' \<and> mgr_ok s'"
  using assms
proof (induction xs arbitrary: s)
  case (Cons x xs)
  obtain port password io where x: "x = (port, password, io)" by (cases x)
  then obtain sv where sv: "conf_server port password = Inr sv" "server_wf sv"
    using conf_server_ok [of port password] Cons.prems(1) by (auto simp: conf_ok_def)
  obtain b s1 where "add_server E io sv s = Inr (b, s1)" "mgr_ok s1" using add_server_ok [OF Cons.prems(2) sv(2)] by blast
  then show ?case using Cons x sv(1) by (auto simp: conf_ok_def)
qed simp

lemma start_ok:
  assumes "conf_ok xs"
  shows "\<exists>s. manager_start E pids xs w = Inr s \<and> mgr_ok s"
proof -
  have k: "mg_table (fold (kill_server E d) ps s) = mg_table s" for d s ps
    by (induction ps arbitrary: s) (auto simp: kill_server_def Let_def split: option.splits)
  show ?thesis unfolding manager_start_def
    by (rule add_configured_ok [OF assms]) (simp add: mgr_ok_def k)
qed

lemma mreach_ok: "mreach E s \<Longrightarrow> json_ok E \<Longrightarrow> method_ok E \<Longrightarrow> mgr_ok s"
proof (induction rule: mreach.induct)
  case (mreach_start xs pids w s)
  then show ?case using start_ok [of xs E pids w] by simp
next
  case (mreach_files s w)
  then show ?case using same_table [of "s\<lparr>mg_os := w\<rparr>" s] by simp
next
  case (mreach_request s io s')
  then show ?case using recv_keeps by blast
qed

text \<open>At the end every server of the table is stopped without a fault.\<close>

lemma stop_all_ok: "entries_wf t \<Longrightarrow> \<exists>s'. stop_all E t s = Inr s' \<and> mg_table s' = mg_table s"
proof (induction t arbitrary: s)
  case (Cons x t)
  obtain k sv where x: "x = (k, sv)" by (cases x)
  then have "str_in (ms_port sv) = Inr (c_str (ms_port sv))" using Cons.prems wf_str(1) [of sv] by (simp add: entries_wf_def)
  then show ?case using Cons.IH [of "stop_server_m E (me_working_dir E) (c_str (ms_port sv)) s"] Cons.prems x
    by (simp add: entries_wf_def)
qed simp

section \<open>Properties\<close>

text \<open>
  C15. In every reachable state of the manager a request that fits its arrays is carried out without a
  fault, and the table of servers, read as a map from ports to password, method, traffic and lock,
  changes exactly as the specification of its command says.
\<close>

theorem manager_refines:
  assumes "mreach E s" "json_ok E" "method_ok E"
    and "mi_recv io = Some d" "length d \<le> BUF_SIZE div 2" "word_of d = Some a" "command_fits a (json_of E d)"
  shows "\<exists>s'. manager_recv_cb E io s = Inr s' \<and>
    servers s' = manager_spec (check_port E io) (\<lambda>p. os_writable (mg_os s) (lock_path p)) a (json_of E d) (servers s)"
  using recv_refines [OF mreach_ok [OF assms(1-3)] assms(2-7)] by blast

text \<open>
  C22. The reports show the table, as long as it fits one datagram: when the text for \<open>ping\<close> fits half of
  the buffer, the answer is one datagram with the traffic of every port; when the text for \<open>list\<close> fits
  the buffer, the answer is one datagram with port, password and method of every server; both in the
  order in which the servers were added, and neither changes anything. (A larger report is split, and
  \<open>ping\<close> then leaves out the server at which it starts a new datagram.)
\<close>

theorem manager_reports_exact:
  assumes "mreach E s" "json_ok E" "method_ok E" "mi_recv io = Some d" "length d \<le> BUF_SIZE div 2"
  shows "(word_of d = Some (bstr ''ping'') \<and> length (ping_text (mg_table s)) + 7 \<le> BUF_SIZE div 2 \<longrightarrow>
           manager_recv_cb E io s = Inr (mout (Sent (bstr ''stat: {'' @ butlast (ping_text (mg_table s)) @ bstr ''}'')) s)) \<and>
         (word_of d = Some (bstr ''list'') \<and> length (list_text E (mg_table s)) + 4 \<le> BUF_SIZE \<longrightarrow>
           manager_recv_cb E io s = Inr (mout (Sent (bstr ''['' @ butlast (list_text E (mg_table s)) @ [10, 93])) s))"
proof (intro conjI impI)
  note ok = mgr_ok_entries [OF mreach_ok [OF assms(1-3)]]
  have b: "length d \<le> BUF_SIZE" "\<not> length d > BUF_SIZE div 2" using assms(5) by (simp_all add: BUF_SIZE_def)
  {
    assume a: "word_of d = Some (bstr ''ping'') \<and> length (ping_text (mg_table s)) + 7 \<le> BUF_SIZE div 2"
    let ?t = "ping_text (mg_table s)"
    have "ping_loop (mg_table s) (bstr ''stat: {'') s = Inr (bstr ''stat: {'' @ ?t, s)"
      using ping_loop_exact [OF ok] a by simp
    then have "ping_command s = Inr (mout (Sent (bstr ''stat: {'' @ butlast ?t @ bstr ''}'')) s)"
      by (cases ?t rule: rev_cases) (simp_all add: ping_command_def buf_print_def BUF_SIZE_def list_update_append bstr_def)
    then show "manager_recv_cb E io s = Inr (mout (Sent (bstr ''stat: {'' @ butlast ?t @ bstr ''}'')) s)"
      using recv_eq [OF assms(4) b(1)] b(2) a by (simp add: manager_command_def bstr_def)
  }
  {
    assume a: "word_of d = Some (bstr ''list'') \<and> length (list_text E (mg_table s)) + 4 \<le> BUF_SIZE"
    let ?t = "list_text E (mg_table s)"
    have "list_loop E (mg_table s) (bstr ''['') s = Inr (bstr ''['' @ ?t, s)"
      using list_loop_exact [OF ok assms(3)] a by simp
    then have "list_command E s = Inr (mout (Sent (bstr ''['' @ butlast ?t @ [10, 93])) s)"
      using a by (cases ?t rule: rev_cases) (simp_all add: list_command_def buf_print_def BUF_SIZE_def bstr_def)
    then show "manager_recv_cb E io s = Inr (mout (Sent (bstr ''['' @ butlast ?t @ [10, 93])) s)"
      using recv_eq [OF assms(4) b(1)] b(2) a by (simp add: manager_command_def bstr_def)
  }
qed

end
