(* ===== verification/Manager_Runs.thy ===== *)
theory Manager_Runs
  imports Manager_Props
begin

text \<open>
  Properties of single requests to the manager: the lock that \<open>set_ip\<close> writes is the one the server of the
  port reads, and a port too long for the stack array is read past its end. A manager with three known
  texts as its parser gives the witnesses.
\<close>

section \<open>The lock of a port\<close>

lemma strip_plain: "ip_plain ip \<Longrightarrow> ip \<noteq> [] \<and> 0 \<notin> set ip"
  by (auto simp: ip_plain_def ip_str_def)

lemma lock_path_ne: "lock_path p \<noteq> []"
  by (simp add: lock_path_def ip_lock_sidecar_path_def bstr_def)

text \<open>
  A server reads the written address, except when the version of the file it saw last was written in the
  same second: it compares modification times, in seconds.
\<close>

lemma reload_written:
  assumes "ip_plain ip" "il_lock_path L = path" "path \<noteq> []" "os_readable w path"
  shows "ip_lock_get_locked_ip (ip_lock_reload (os_write_file w path (ip @ [10])) L) =
    (if il_mtime L = os_time w then ip_lock_get_locked_ip L else ip)"
  using written_lock_reads_back [OF assms(1)] assms(2-4)
  by (auto simp: ip_lock_get_locked_ip_def ip_lock_reload_def Let_def ip_lock_reset_recent_lists_def os_write_file_def
      os_fopen_r_def split: option.splits)

text \<open>
  C16. A \<open>set_ip\<close> request for a port reaches the server of that port: after it, a server whose lock file is
  the one of the port holds exactly the requested address when it next looks at the file, whatever it
  held before, with one exception: when the version of the file it saw last was written in the second
  of the request, it does not notice the change and keeps what it held. (Whom a server with a holder
  admits is \<open>lock_decides\<close>.)
\<close>

theorem manager_lock_reaches_server:
  assumes "mreach E s" "json_ok E" "method_ok E"
    and "mi_recv io = Some d" "length d \<le> BUF_SIZE div 2" "word_of d = Some (bstr ''set_ip'')"
    and "json_of E d = Some (JObject vs)" "port_fits vs"
    and "last_value port_value vs [] = p" "p \<noteq> []" "last_value ip_value vs [] = ip" "ip_plain ip"
    and "os_writable (mg_os s) (lock_path p)" "os_readable (mg_os s) (lock_path p)"
    and "il_lock_path L = lock_path p"
  shows "\<exists>s'. manager_recv_cb E io s = Inr s' \<and>
    ip_lock_get_locked_ip (ip_lock_reload (mg_os s') L) = (if il_mtime L = os_time (mg_os s) then ip_lock_get_locked_ip L else ip)"
proof -
  let ?b = "cmd_buf (d[word_end d := 0])"
  have l: "length d \<le> BUF_SIZE" "\<not> length d > BUF_SIZE div 2" "length d < BUF_SIZE" using assms(5) by (simp_all add: BUF_SIZE_def)
  have e: "manager_recv_cb E io s = set_ip_command E ?b (length d) s"
    using recv_eq [OF assms(4) l(1)] l(2) assms(6) by (simp add: manager_command_def bstr_def)
  have j: "command_json E ?b (length d) = Inr (Some (JObject vs))"
    using command_json_eq [OF assms(6) _ _ l(3), of E] assms(7) by (simp add: bstr_def)
  have f: "fields_ok (length d) (members (Some (JObject vs)))" using json_of_fields [OF assms(2), of d] assms(7) by simp
  obtain s' where s': "set_ip_command E ?b (length d) s = Inr s'" "mg_os s' = os_write_file (mg_os s) (lock_path p) (ip @ [10])"
    using set_ip_command_ok [OF mreach_ok [OF assms(1-3)] j f] assms(8-11,13) strip_plain [OF assms(12)] by auto
  show ?thesis using e s' reload_written [OF assms(12,15) lock_path_ne assms(14)] by simp
qed

section \<open>A port that is too long\<close>

lemma no_nul_end: "length p = 7 \<Longrightarrow> 0 \<notin> set p \<Longrightarrow> x \<noteq> 0 \<Longrightarrow> str_in (p @ [x]) = Inl Out_of_bounds"
  by (auto simp: str_in_def)

lemma port_array: "mem_write (fresh_block junk 0 8) 0 [0] = Inr (0 # map junk [1..<8])"
  by (simp add: fresh_block_def upt_rec)

lemma ncpy_long:
  assumes "length m = 8" "7 \<le> length p"
  shows "str_ncpy m 7 p = Inr (take 7 p @ drop 7 m)"
  using assms by (simp add: str_ncpy_def)

lemma take7:
  assumes "7 \<le> length p" "0 \<notin> set p" "x \<noteq> 0"
  shows "str_in (take 7 p @ [x]) = Inl Out_of_bounds" "hd (take 7 p @ [x]) \<noteq> 0"
proof -
  have "0 \<notin> set (take 7 p)" using assms(2) by (meson in_set_takeD)
  then show "str_in (take 7 p @ [x]) = Inl Out_of_bounds" using no_nul_end [of "take 7 p"] assms by simp
  show "hd (take 7 p @ [x]) \<noteq> 0" using assms by (cases p) auto
qed

lemma last_byte: "drop 7 (map f [0..<8]) = [f (7 :: nat)]" "drop 7 (x # map f [1..<8]) = [f 7]"
proof -
  show "drop 7 (map f [0..<8]) = [f (7 :: nat)]" by (simp add: numeral_eq_Suc)
  have "drop 7 (x # map f [1..<8]) = drop 6 (map f [1..<8])" by (simp add: drop_Cons')
  then show "drop 7 (x # map f [1..<8]) = [f 7]" by (simp add: numeral_eq_Suc)
qed

lemma port_only_long:
  assumes "command_json E buf r = Inr (Some (JObject [(bstr ''server_port'', JString p)]))" "7 \<le> length p" "0 \<notin> set p"
    and "me_junk E 7 \<noteq> 0"
  shows "parse_port_only E buf r (fresh_block (me_junk E) 0 8) = Inr (Some (take 7 p @ [me_junk E 7]))"
proof -
  have w: "mem_write (fresh_block (me_junk E) 8 (8 + INET6_ADDRSTRLEN)) 0 [0] =
      Inr (0 # drop 1 (fresh_block (me_junk E) 8 (8 + INET6_ADDRSTRLEN)))"
    by (simp add: fresh_block_def INET6_ADDRSTRLEN_def)
  have n: "str_ncpy (0 # map (me_junk E) [1..<8]) 7 p = Inr (take 7 p @ [me_junk E 7])"
    using ncpy_long [of "0 # map (me_junk E) [1..<8]" p] assms(2) last_byte(2) [of 0 "me_junk E"] by simp
  show ?thesis unfolding parse_port_only_def parse_port_ip_def port_array w
    using assms(1) n take7(2) [OF assms(2-4)] by simp
qed

lemma traffic_long:
  assumes "command_json E buf r = Inr (Some (JObject [(p, JInteger i)]))" "7 \<le> length p"
  shows "parse_traffic E buf r (fresh_block (me_junk E) 0 8) = Inr (Some (take 7 p @ [me_junk E 7], i))"
proof -
  have "str_ncpy (fresh_block (me_junk E) 0 8) 7 p = Inr (take 7 p @ [me_junk E 7])"
    using ncpy_long [of "fresh_block (me_junk E) 0 8" p] assms(2) last_byte(1) [of "me_junk E"] by (simp add: fresh_block_def)
  then show ?thesis using assms(1) by (simp add: parse_traffic_def)
qed

text \<open>
  C17. One datagram makes the manager read past the end of a stack array: \<open>strncpy\<close> writes seven bytes of
  the port into \<open>char port[8]\<close>, which is not initialised, and sets no NUL. When the last byte of the
  array is not NUL by chance, a \<open>clear_ip\<close> or \<open>ip_status\<close> request with a port of seven bytes or more,
  and a \<open>stat\<close> request with such a name, is an out-of-bounds read in every state.
\<close>

theorem manager_port_overrun:
  assumes "mi_recv io = Some d" "length d \<le> BUF_SIZE div 2" "word_of d = Some a" "json_of E d = Some (JObject [m])"
    and "a \<in> {bstr ''clear_ip'', bstr ''ip_status''} \<and> m = (bstr ''server_port'', JString p) \<or>
         a = bstr ''stat'' \<and> m = (p, JInteger i)"
    and "7 \<le> length p" "0 \<notin> set p" "me_junk E 7 \<noteq> 0"
  shows "manager_recv_cb E io s = Inl Out_of_bounds"
proof -
  let ?b = "cmd_buf (d[word_end d := 0])"
  have l: "length d \<le> BUF_SIZE" "\<not> length d > BUF_SIZE div 2" "length d < BUF_SIZE" using assms(2) by (simp_all add: BUF_SIZE_def)
  have e: "manager_recv_cb E io s = manager_command E io a ?b (length d) s"
    using recv_eq [OF assms(1) l(1)] l(2) assms(3) by simp
  have "a \<noteq> []" "hd a \<noteq> 123" using assms(5) by (auto simp: bstr_def)
  then have j: "command_json E ?b (length d) = Inr (Some (JObject [m]))"
    using command_json_eq [OF assms(3) _ _ l(3), of E] assms(4) by simp
  note t = take7 [OF assms(6-8)]
  consider (stat) "a = bstr ''stat''" "m = (p, JInteger i)" | (clear) "a = bstr ''clear_ip''" "m = (bstr ''server_port'', JString p)"
    | (status) "a = bstr ''ip_status''" "m = (bstr ''server_port'', JString p)" using assms(5) by blast
  then show ?thesis
  proof cases
    case stat
    then have "manager_command E io a ?b (length d) s = stat_command E ?b (length d) s" by (simp add: manager_command_def bstr_def)
    then show ?thesis using e traffic_long [OF _ assms(6)] j stat(2) t by (simp add: stat_command_def update_stat_def)
  next
    case clear
    then have "manager_command E io a ?b (length d) s = clear_ip_command E ?b (length d) s" by (simp add: manager_command_def bstr_def)
    then show ?thesis using e port_only_long [OF _ assms(6-8)] j clear(2) t by (simp add: clear_ip_command_def clear_port_lock_ip_def)
  next
    case status
    then have "manager_command E io a ?b (length d) s = ip_status_command E ?b (length d) s" by (simp add: manager_command_def bstr_def)
    then show ?thesis using e port_only_long [OF _ assms(6-8)] j status(2) t by (simp add: ip_status_command_def read_port_status_def)
  qed
qed

section \<open>A manager\<close>

definition add_text :: bytes where "add_text = bstr '' {\"server_port\":\"80\",\"password\":\"pw\"}''"
definition lock_text :: bytes where "lock_text = bstr '' {\"server_port\":\"80\",\"ip\":\"1.2.3.4\"}''"
definition long_text :: bytes where "long_text = bstr '' {\"server_port\":\"8388888\"}''"

definition parser0 :: "bytes \<Rightarrow> json option" where
  "parser0 t =
     (if t = add_text then Some (JObject [(bstr ''server_port'', JString (bstr ''80'')), (bstr ''password'', JString (bstr ''pw''))])
      else if t = lock_text then Some (JObject [(bstr ''server_port'', JString (bstr ''80'')), (bstr ''ip'', JString (bstr ''1.2.3.4''))])
      else if t = long_text then Some (JObject [(bstr ''server_port'', JString (bstr ''8388888''))])
      else None)"

definition context0 :: manager_ctx where
  "context0 = \<lparr>mc_fast_open = False, mc_no_delay = False, mc_reuse_port = False, mc_verbose = False, mc_mode = TCP_ONLY,
     mc_timeout = None, mc_method = bstr ''aes-256-gcm'', mc_iface = None, mc_acl = None, mc_user = None, mc_plugin = None,
     mc_plugin_opts = None, mc_manager_address = bstr ''127.0.0.1:8839'', mc_hosts = [], mc_nameservers = None, mc_mtu = 0,
     mc_ipv6first = False, mc_nofile = 0\<rparr>"

definition menv0 :: menv where
  "menv0 = \<lparr>me_ctx = context0, me_json = parser0, me_working_dir = bstr ''/w'', me_executable = bstr ''ss-server'',
     me_junk = (\<lambda>_. 1), me_junk_pid = 1\<rparr>"

definition mgr0 :: mgr where "mgr0 = \<lparr>mg_table = [], mg_os = os0, mg_trace = []\<rparr>"

definition request0 :: "bytes \<Rightarrow> bytes \<Rightarrow> mio" where
  "request0 w t = \<lparr>mi_recv = Some (w @ t), mi_addrs = (\<lambda>_ _. None), mi_system = True\<rparr>"

lemma menv0_ok: "json_ok menv0" "method_ok menv0"
proof -
  show "json_ok menv0"
    by (auto simp: json_ok_def menv0_def parser0_def fields_ok_def add_text_def lock_text_def long_text_def bstr_def split: if_splits)
  show "method_ok menv0" by (simp add: method_ok_def menv0_def context0_def BUF_SIZE_def)
qed

lemma mgr0_reach: "mreach menv0 mgr0"
  by (rule mreach_start [of "[]" menv0 "[]" os0]) (simp_all add: conf_ok_def manager_start_def mgr0_def)

lemma words0:
  "word_of (bstr ''add:'' @ add_text) = Some (bstr ''add'')" "word_of (bstr ''set_ip:'' @ lock_text) = Some (bstr ''set_ip'')"
  "word_of (bstr ''clear_ip:'' @ long_text) = Some (bstr ''clear_ip'')" "word_of (bstr ''ping'') = Some (bstr ''ping'')"
  "word_of (bstr ''list'') = Some (bstr ''list'')"
  by code_simp+

lemma texts0:
  "data_of (bstr ''add:'' @ add_text) = Some add_text" "data_of (bstr ''set_ip:'' @ lock_text) = Some lock_text"
  "data_of (bstr ''clear_ip:'' @ long_text) = Some long_text"
  by code_simp+

lemma distinct0: "lock_text \<noteq> add_text" "long_text \<noteq> add_text" "long_text \<noteq> lock_text"
  by code_simp+

lemma jsons0:
  "json_of menv0 (bstr ''add:'' @ add_text) =
     Some (JObject [(bstr ''server_port'', JString (bstr ''80'')), (bstr ''password'', JString (bstr ''pw''))])"
  "json_of menv0 (bstr ''set_ip:'' @ lock_text) =
     Some (JObject [(bstr ''server_port'', JString (bstr ''80'')), (bstr ''ip'', JString (bstr ''1.2.3.4''))])"
  "json_of menv0 (bstr ''clear_ip:'' @ long_text) = Some (JObject [(bstr ''server_port'', JString (bstr ''8388888''))])"
  using distinct0 by (simp_all add: json_of_def texts0) (simp_all add: menv0_def parser0_def)

text \<open>The same manager with one server in its configuration.\<close>

definition server80 :: mserver where
  "server80 = mserver_zero\<lparr>ms_port := bstr ''80'' @ replicate 6 0, ms_password := bstr ''pw'' @ replicate 126 0\<rparr>"

lemma server80_read: "conf_server (bstr ''80'') (bstr ''pw'') = Inr server80" "c_str (ms_port server80) = bstr ''80''"
    "c_str (ms_password server80) = bstr ''pw''" "ms_method server80 = None" "ms_traffic server80 = 0"
proof -
  have p: "str_ncpy (replicate 8 0) 7 (bstr ''80'') = Inr (bstr ''80'' @ replicate 6 0)" by code_simp
  have q: "str_ncpy (replicate 128 0) 127 (bstr ''pw'') = Inr (bstr ''pw'' @ replicate 126 0)" by code_simp
  show "conf_server (bstr ''80'') (bstr ''pw'') = Inr server80"
    using p q by (simp add: conf_server_def server80_def mserver_zero_def)
  show "c_str (ms_port server80) = bstr ''80''" "c_str (ms_password server80) = bstr ''pw''"
    using c_str_pad [of "bstr ''80''" 5 "[]"] c_str_pad [of "bstr ''pw''" 125 "[]"] by (simp_all add: server80_def bstr_def)
qed (simp_all add: server80_def mserver_zero_def)

lemma mgr1: obtains s where "mreach menv0 s" "mg_table s = [(bstr ''80'', server80)]"
proof -
  let ?xs = "[(bstr ''80'', bstr ''pw'', request0 [] [])]"
  have c: "conf_ok ?xs" by (simp add: conf_ok_def bstr_def)
  have w: "server_wf server80" using conf_server_ok [of "bstr ''80''" "bstr ''pw''"] server80_read(1) by (auto simp: bstr_def)
  have a: "str_in (ms_port server80) = Inr (bstr ''80'')" using wf_str(1) [OF w] server80_read(2) by simp
  obtain cmd os where k: "construct_command_line menv0 server80 os0 = Inr (cmd, os)" using construct_command_line_ok [OF w] by blast
  let ?s = "mout (Run cmd) \<lparr>mg_table = [(bstr ''80'', server80)], mg_os = os, mg_trace = []\<rparr>"
  have "add_server menv0 (request0 [] []) server80 \<lparr>mg_table = [], mg_os = os0, mg_trace = []\<rparr> = Inr (True, ?s)"
    using a k by (simp add: add_server_def check_port_def menv0_def context0_def request0_def mout_def)
  then have "manager_start menv0 [] ?xs os0 = Inr ?s" by (simp add: manager_start_def server80_read(1))
  from mreach_start [OF c this] show ?thesis by (rule that) simp
qed

section \<open>Witnesses\<close>

theorem manager_refines_witness:
  "\<exists>s'. manager_recv_cb menv0 (request0 (bstr ''add:'') add_text) mgr0 = Inr s' \<and>
     servers s' (bstr ''80'') = Some (bstr ''pw'', None, 0, [])"
proof -
  let ?io = "request0 (bstr ''add:'') add_text"
  have d: "mi_recv ?io = Some (bstr ''add:'' @ add_text)" by (simp add: request0_def)
  have l: "length (bstr ''add:'' @ add_text) \<le> BUF_SIZE div 2" by (simp add: BUF_SIZE_def add_text_def)
  have f: "command_fits (bstr ''add'') (json_of menv0 (bstr ''add:'' @ add_text))" by (simp add: command_fits_def bstr_def)
  have c: "check_port menv0 ?io" by (simp add: check_port_def menv0_def context0_def)
  have "manager_spec True wr (bstr ''add'') (json_of menv0 (bstr ''add:'' @ add_text)) M (bstr ''80'') = Some (bstr ''pw'', None, 0, [])" for wr M
    unfolding jsons0
    by (simp add: manager_spec_def known_members_def port_value_def password_value_def method_value_def bstr_def Let_def)
  with manager_refines [OF mgr0_reach menv0_ok d l words0(1) f] c show ?thesis by auto
qed

theorem manager_reports_exact_witness:
  "\<exists>s. mreach menv0 s \<and>
     manager_recv_cb menv0 (request0 (bstr ''ping'') []) s = Inr (mout (Sent (bstr ''stat: {\"80\":0}'')) s) \<and>
     manager_recv_cb menv0 (request0 (bstr ''list'') []) s =
       Inr (mout (Sent (bstr ''['' @ [10, 9] @ bstr ''{\"server_port\":\"80\",\"password\":\"pw\",\"method\":\"aes-256-gcm\"}'' @ [10, 93])) s)"
proof -
  obtain s where s: "mreach menv0 s" "mg_table s = [(bstr ''80'', server80)]" by (rule mgr1)
  have d: "dec_str 0 = [48]" by code_simp
  have ping: "ping_text (mg_table s) = bstr ''\"80\":0,''"
    by (simp add: s(2) ping_text_def ping_item_def ping_entry_def server80_read d bstr_def)
  have list: "list_text menv0 (mg_table s) =
      [10, 9] @ bstr ''{\"server_port\":\"80\",\"password\":\"pw\",\"method\":\"aes-256-gcm\"},''"
    by (simp add: s(2) list_text_def list_item_def list_entry_def method_of_def server80_read menv0_def context0_def bstr_def)
  have "mi_recv (request0 w []) = Some w" for w by (simp add: request0_def)
  then show ?thesis
    using manager_reports_exact [OF s(1) menv0_ok, of "request0 (bstr ''ping'') []" "bstr ''ping''"]
      manager_reports_exact [OF s(1) menv0_ok, of "request0 (bstr ''list'') []" "bstr ''list''"] s(1) words0(4,5)
    by (auto simp: ping list BUF_SIZE_def bstr_def)
qed

theorem manager_lock_reaches_server_witness:
  "\<exists>s'. manager_recv_cb menv0 (request0 (bstr ''set_ip:'') lock_text) mgr0 = Inr s' \<and>
     ip_lock_get_locked_ip (ip_lock_reload (mg_os s')
       (ip_lock_zero\<lparr>il_lock_path := lock_path (bstr ''80''), il_mtime := 1\<rparr>)) = bstr ''1.2.3.4''"
proof -
  let ?L = "ip_lock_zero\<lparr>il_lock_path := lock_path (bstr ''80''), il_mtime := 1\<rparr>"
  have d: "mi_recv (request0 (bstr ''set_ip:'') lock_text) = Some (bstr ''set_ip:'' @ lock_text)" by (simp add: request0_def)
  have ip: "ip_plain (bstr ''1.2.3.4'')" by (simp add: ip_plain_def ip_str_def ip_lock_consts bstr_def)
  have "\<exists>s'. manager_recv_cb menv0 (request0 (bstr ''set_ip:'') lock_text) mgr0 = Inr s' \<and>
      ip_lock_get_locked_ip (ip_lock_reload (mg_os s') ?L) =
        (if il_mtime ?L = os_time (mg_os mgr0) then ip_lock_get_locked_ip ?L else bstr ''1.2.3.4'')"
    by (rule manager_lock_reaches_server [OF mgr0_reach menv0_ok d _ words0(2) jsons0(2) _ _ _ _ ip])
      (simp_all add: BUF_SIZE_def lock_text_def port_fits_def port_value_def ip_value_def mgr0_def os0_def
        INET6_ADDRSTRLEN_def bstr_def)
  moreover have "os_time (mg_os mgr0) \<noteq> 1" by (simp add: mgr0_def os0_def)
  ultimately show ?thesis by simp
qed

theorem manager_port_overrun_witness:
  "manager_recv_cb menv0 (request0 (bstr ''clear_ip:'') long_text) mgr0 = Inl Out_of_bounds"
proof (rule manager_port_overrun [OF _ _ words0(3) jsons0(3)])
  show "mi_recv (request0 (bstr ''clear_ip:'') long_text) = Some (bstr ''clear_ip:'' @ long_text)" by (simp add: request0_def)
  show "bstr ''clear_ip'' \<in> {bstr ''clear_ip'', bstr ''ip_status''} \<and>
      (bstr ''server_port'', JString (bstr ''8388888'')) = (bstr ''server_port'', JString (bstr ''8388888'')) \<or>
      bstr ''clear_ip'' = bstr ''stat'' \<and> (bstr ''server_port'', JString (bstr ''8388888'')) = (bstr ''8388888'', JInteger 0)"
    by simp
qed (simp_all add: BUF_SIZE_def long_text_def menv0_def bstr_def)

end
