(* ===== verification/Acl.thy ===== *)
theory Acl
  imports IP_Lock Netutils
begin

text \<open>
  Access control lists: the pattern rules of \<^verbatim>\<open>src/rule.c\<close> and the lists of \<^verbatim>\<open>src/acl.c\<close> with the
  parser of the ACL file.

  An \<open>ip_set\<close> of libipset is the predicate of the addresses it contains; adding a network of \<open>n\<close>
  prefix bits adds the addresses that agree with it on the first \<open>n\<close> bits, and nothing when \<open>n\<close> is out
  of range. The regular expressions of PCRE2 and the numeric address parser are parameters (the
  record \<open>acl_env\<close>). The file is its content; lines are read with \<open>fgets\<close> on a buffer of 256 bytes.
\<close>

section \<open>Rules\<close>

record 're acl_env =
  ae_ip :: ip_parse
  ae_compile :: "bytes \<Rightarrow> 're option"
  ae_match :: "'re \<Rightarrow> bytes \<Rightarrow> bool"

record 're rule =
  ru_pattern :: "bytes option"
  ru_re :: "'re option"

definition new_rule :: "'re rule" where
  "new_rule = \<lparr>ru_pattern = None, ru_re = None\<rparr>"

definition accept_rule_arg :: "'re rule \<Rightarrow> bytes \<Rightarrow> int \<times> 're rule" where
  "accept_rule_arg rule arg =
     (case ru_pattern rule of
        None \<Rightarrow> (1, rule\<lparr>ru_pattern := Some arg\<rparr>)
      | Some _ \<Rightarrow> (-1, rule))"

definition add_rule :: "'re rule list \<Rightarrow> 're rule \<Rightarrow> 're rule list" where
  "add_rule rules rule = rules @ [rule]"

definition init_rule :: "'re acl_env \<Rightarrow> 're rule \<Rightarrow> bool \<times> 're rule" where
  "init_rule E rule =
     (case ru_re rule of
        None \<Rightarrow>
          (case ae_compile E (case ru_pattern rule of Some p \<Rightarrow> p | None \<Rightarrow> []) of
             None \<Rightarrow> (False, rule)
           | Some re \<Rightarrow> (True, rule\<lparr>ru_re := Some re\<rparr>))
      | Some _ \<Rightarrow> (True, rule))"

text \<open>\<open>pcre2_match\<close> on a rule whose pattern did not compile (\<open>NULL\<close>) returns an error: no match.\<close>

fun lookup_rule :: "'re acl_env \<Rightarrow> 're rule list \<Rightarrow> bytes \<Rightarrow> 're rule option" where
  "lookup_rule E [] name = None"
| "lookup_rule E (rule # rules) name =
     (case ru_re rule of
        Some re \<Rightarrow> if ae_match E re name then Some rule else lookup_rule E rules name
      | None \<Rightarrow> lookup_rule E rules name)"

section \<open>Address sets\<close>

type_synonym ip_set = "bytes \<Rightarrow> bool"

text \<open>Bit \<open>i\<close> of an address, the most significant bit of its first byte first.\<close>

definition addr_bit :: "bytes \<Rightarrow> nat \<Rightarrow> bool" where
  "addr_bit a i = bit (a ! (i div 8)) (7 - i mod 8)"

definition same_prefix :: "nat \<Rightarrow> bytes \<Rightarrow> bytes \<Rightarrow> bool" where
  "same_prefix n a b = (length a = length b \<and> list_all (\<lambda>i. addr_bit a i = addr_bit b i) [0..<n])"

definition ipset_add :: "ip_set \<Rightarrow> bytes \<Rightarrow> ip_set" where
  "ipset_add S a = (\<lambda>x. x = a \<or> S x)"

definition ipset_remove :: "ip_set \<Rightarrow> bytes \<Rightarrow> ip_set" where
  "ipset_remove S a = (\<lambda>x. x \<noteq> a \<and> S x)"

definition ipset_add_network :: "ip_set \<Rightarrow> bytes \<Rightarrow> nat \<Rightarrow> ip_set" where
  "ipset_add_network S a n = (if n > 8 * length a then S else (\<lambda>x. same_prefix n a x \<or> S x))"

section \<open>The lists\<close>

datatype acl_mode = BLACK_LIST | WHITE_LIST

record 're acl_list =
  al_ipv4 :: ip_set
  al_ipv6 :: ip_set
  al_rules :: "'re rule list"

record 're acl =
  acl_black :: "'re acl_list"
  acl_white :: "'re acl_list"
  acl_outbound :: "'re acl_list"
  acl_mode_f :: acl_mode

definition acl_list_empty :: "'re acl_list" where
  "acl_list_empty = \<lparr>al_ipv4 = (\<lambda>_. False), al_ipv6 = (\<lambda>_. False), al_rules = []\<rparr>"

text \<open>The rightmost slash, as the loop over \<open>strchr\<close> finds it; \<open>atoi\<close> of what follows.\<close>

fun last_slash :: "bytes \<Rightarrow> nat option" where
  "last_slash [] = None"
| "last_slash (c # s) =
     (case last_slash s of Some i \<Rightarrow> Some (Suc i) | None \<Rightarrow> if c = 47 then Some 0 else None)"

definition parse_addr_cidr :: "bytes \<Rightarrow> bytes \<times> int" where
  "parse_addr_cidr str =
     (case last_slash str of
        None \<Rightarrow> (str, -1)
      | Some ret \<Rightarrow> (take ret str, atoi (drop (ret + 1) str)))"

definition trimwhitespace :: "bytes \<Rightarrow> bytes" where
  "trimwhitespace str =
     (let str = dropWhile is_space str
      in if str = [] then [] else rev (dropWhile is_space (rev str)))"

text \<open>Which list the following lines go to: the three pointers the loop keeps, always changed together.\<close>

datatype acl_target = To_black | To_white | To_outbound

definition acl_upd :: "acl_target \<Rightarrow> ('re acl_list \<Rightarrow> 're acl_list) \<Rightarrow> 're acl \<Rightarrow> 're acl" where
  "acl_upd t f A =
     (case t of
        To_black \<Rightarrow> A\<lparr>acl_black := f (acl_black A)\<rparr>
      | To_white \<Rightarrow> A\<lparr>acl_white := f (acl_white A)\<rparr>
      | To_outbound \<Rightarrow> A\<lparr>acl_outbound := f (acl_outbound A)\<rparr>)"

text \<open>
  \<open>unsigned\<close> conversion of the \<open>int\<close> prefix length at the call is the identity on the non-negative
  values that reach it.
\<close>

definition acl_add_item :: "'re acl_env \<Rightarrow> bytes \<Rightarrow> 're acl_list \<Rightarrow> 're acl_list" where
  "acl_add_item E line L =
     (let (host, cidr) = parse_addr_cidr line in
      case ae_ip E host of
        Some (V4 a) \<Rightarrow>
          if cidr \<ge> 0 then L\<lparr>al_ipv4 := ipset_add_network (al_ipv4 L) a (nat cidr)\<rparr>
          else L\<lparr>al_ipv4 := ipset_add (al_ipv4 L) a\<rparr>
      | Some (V6 a) \<Rightarrow>
          if cidr \<ge> 0 then L\<lparr>al_ipv6 := ipset_add_network (al_ipv6 L) a (nat cidr)\<rparr>
          else L\<lparr>al_ipv6 := ipset_add (al_ipv6 L) a\<rparr>
      | None \<Rightarrow>
          let rule = new_rule;
              (_, rule) = accept_rule_arg rule line;
              (_, rule) = init_rule E rule
          in L\<lparr>al_rules := add_rule (al_rules L) rule\<rparr>)"

definition acl_clean_line :: "bytes \<Rightarrow> bytes" where
  "acl_clean_line buf =
     (let buf = (if buf \<noteq> [] \<and> last buf = 10 then butlast buf else buf)
      in trimwhitespace (takeWhile (\<lambda>c. c \<noteq> 35) buf))"

definition acl_line :: "'re acl_env \<Rightarrow> bytes \<Rightarrow> acl_target \<times> 're acl \<Rightarrow> acl_target \<times> 're acl" where
  "acl_line E buf = (\<lambda>(t, A).
     let line = acl_clean_line buf in
     if line = [] then (t, A)
     else if line = bstr ''[outbound_block_list]'' then (To_outbound, A)
     else if line = bstr ''[black_list]'' \<or> line = bstr ''[bypass_list]'' then (To_black, A)
     else if line = bstr ''[white_list]'' \<or> line = bstr ''[proxy_list]'' then (To_white, A)
     else if line = bstr ''[reject_all]'' \<or> line = bstr ''[bypass_all]'' then (t, A\<lparr>acl_mode_f := WHITE_LIST\<rparr>)
     else if line = bstr ''[accept_all]'' \<or> line = bstr ''[proxy_all]'' then (t, A\<lparr>acl_mode_f := BLACK_LIST\<rparr>)
     else (t, acl_upd t (acl_add_item E line) A))"

text \<open>
  Reading: \<open>read_chunk\<close> is one \<open>fgets(buf, 256, f)\<close> with the rest of the file; a chunk is part of a
  long line when its string has 255 bytes and does not end a line.
\<close>

definition read_chunk :: "bytes \<Rightarrow> bytes \<times> bytes" where
  "read_chunk s = (let l = fgets_line 255 s in (c_str l, drop (length l) s))"

definition chunk_is_long :: "bytes \<Rightarrow> bool" where
  "chunk_is_long buf = (length buf = 255 \<and> buf ! 254 \<noteq> 10)"

lemma fgets_line_nonempty: "s \<noteq> [] \<Longrightarrow> 0 < n \<Longrightarrow> fgets_line n s \<noteq> []"
  by (cases n; cases s) auto

lemma read_chunk_shrinks: "s \<noteq> [] \<Longrightarrow> read_chunk s = (b, r) \<Longrightarrow> length r < length s"
  using fgets_line_nonempty [of s 255] by (auto simp: read_chunk_def Let_def)

text \<open>The inner loop: the rest of the file after the chunks of a long line.\<close>

function acl_skip_long :: "bytes \<Rightarrow> bytes" where
  "acl_skip_long s =
     (if s = [] then []
      else let (buf, r) = read_chunk s in if chunk_is_long buf then acl_skip_long r else r)"
  by auto

termination
  by (relation "measure length") (simp, metis in_measure read_chunk_shrinks)

declare acl_skip_long.simps [simp del]

lemma acl_skip_long_le: "length (acl_skip_long s) \<le> length s"
proof (induction s rule: acl_skip_long.induct)
  case (1 s)
  then show ?case
    using read_chunk_shrinks [of s]
    by (subst acl_skip_long.simps) (fastforce split: prod.splits intro: order_trans less_imp_le)
qed

function acl_read :: "'re acl_env \<Rightarrow> bytes \<Rightarrow> acl_target \<times> 're acl \<Rightarrow> acl_target \<times> 're acl" where
  "acl_read E s st =
     (if s = [] then st
      else
        let (buf, r) = read_chunk s in
        if chunk_is_long buf then acl_read E (acl_skip_long r) st
        else acl_read E r (acl_line E buf st))"
  by auto

termination
proof (relation "measure (\<lambda>(E, s, st). length s)", goal_cases)
  case (2 E s st x buf r)
  then show ?case using read_chunk_shrinks [of s buf r] acl_skip_long_le [of r] by simp
next
  case (3 E s st x buf r)
  then show ?case using read_chunk_shrinks [of s buf r] by simp
qed simp

declare acl_read.simps [simp del]

definition init_acl :: "'re acl_env \<Rightarrow> os \<Rightarrow> bytes option \<Rightarrow> 're acl \<Rightarrow> int \<times> 're acl" where
  "init_acl E w path A =
     (case path of
        None \<Rightarrow> (-1, A)
      | Some p \<Rightarrow>
          let A = A\<lparr>acl_black := acl_list_empty, acl_white := acl_list_empty,
                    acl_outbound := acl_list_empty\<rparr>
          in case os_fopen_r w p of
               None \<Rightarrow> (-1, A)
             | Some content \<Rightarrow> (0, snd (acl_read E content (To_black, A))))"

definition get_acl_mode :: "'re acl \<Rightarrow> acl_mode" where
  "get_acl_mode A = acl_mode_f A"

definition acl_match_host :: "'re acl_env \<Rightarrow> 're acl \<Rightarrow> bytes \<Rightarrow> int" where
  "acl_match_host E A host =
     (case ae_ip E host of
        None \<Rightarrow>
          if lookup_rule E (al_rules (acl_black A)) host \<noteq> None then 1
          else if lookup_rule E (al_rules (acl_white A)) host \<noteq> None then -1
          else 0
      | Some (V4 a) \<Rightarrow>
          if al_ipv4 (acl_black A) a then 1 else if al_ipv4 (acl_white A) a then -1 else 0
      | Some (V6 a) \<Rightarrow>
          if al_ipv6 (acl_black A) a then 1 else if al_ipv6 (acl_white A) a then -1 else 0)"

definition acl_add_ip :: "'re acl_env \<Rightarrow> bytes \<Rightarrow> 're acl \<Rightarrow> int \<times> 're acl" where
  "acl_add_ip E ip A =
     (case ae_ip E ip of
        None \<Rightarrow> (-1, A)
      | Some (V4 a) \<Rightarrow> (0, acl_upd To_black (\<lambda>L. L\<lparr>al_ipv4 := ipset_add (al_ipv4 L) a\<rparr>) A)
      | Some (V6 a) \<Rightarrow> (0, acl_upd To_black (\<lambda>L. L\<lparr>al_ipv6 := ipset_add (al_ipv6 L) a\<rparr>) A))"

definition acl_remove_ip :: "'re acl_env \<Rightarrow> bytes \<Rightarrow> 're acl \<Rightarrow> int \<times> 're acl" where
  "acl_remove_ip E ip A =
     (case ae_ip E ip of
        None \<Rightarrow> (-1, A)
      | Some (V4 a) \<Rightarrow> (0, acl_upd To_black (\<lambda>L. L\<lparr>al_ipv4 := ipset_remove (al_ipv4 L) a\<rparr>) A)
      | Some (V6 a) \<Rightarrow> (0, acl_upd To_black (\<lambda>L. L\<lparr>al_ipv6 := ipset_remove (al_ipv6 L) a\<rparr>) A))"

definition outbound_block_match_host :: "'re acl_env \<Rightarrow> 're acl \<Rightarrow> bytes \<Rightarrow> int" where
  "outbound_block_match_host E A host =
     (case ae_ip E host of
        None \<Rightarrow> if lookup_rule E (al_rules (acl_outbound A)) host \<noteq> None then 1 else 0
      | Some (V4 a) \<Rightarrow> if al_ipv4 (acl_outbound A) a then 1 else 0
      | Some (V6 a) \<Rightarrow> if al_ipv6 (acl_outbound A) a then 1 else 0)"

text \<open>\<open>free_acl\<close> empties four of the sets and the two rule lists; the outbound list keeps its contents.\<close>

definition free_rules :: "'re rule list \<Rightarrow> 're rule list" where
  "free_rules rules = []"

definition free_acl :: "'re acl \<Rightarrow> 're acl" where
  "free_acl A = A\<lparr>acl_black := \<lparr>al_ipv4 = (\<lambda>_. False), al_ipv6 = (\<lambda>_. False), al_rules = free_rules (al_rules (acl_black A))\<rparr>,
                  acl_white := \<lparr>al_ipv4 = (\<lambda>_. False), al_ipv6 = (\<lambda>_. False), al_rules = free_rules (al_rules (acl_white A))\<rparr>\<rparr>"

section \<open>What an ACL file means\<close>

text \<open>
  The reference reading of the file: its lines, those of 255 bytes and more (with the line end)
  dropped whole; the item lines of each list; and when an item covers a host.
\<close>

function file_lines :: "bytes \<Rightarrow> bytes list" where
  "file_lines s =
     (if s = [] then []
      else
        let l = takeWhile (\<lambda>c. c \<noteq> 10) s; r = drop (length l + 1) s;
            short = (if length l < length s then length l + 1 \<le> 255 else length l < 255)
        in (if short then [l] else []) @ file_lines r)"
  by auto

termination
proof (relation "measure length", goal_cases)
  case (2 s)
  then show ?case by (cases s) auto
qed simp

declare file_lines.simps [simp del]

definition clean_line :: "bytes \<Rightarrow> bytes" where
  "clean_line l = trimwhitespace (takeWhile (\<lambda>c. c \<noteq> 35) l)"

fun switch_target :: "bytes \<Rightarrow> acl_target option" where
  "switch_target line =
     (if line = bstr ''[outbound_block_list]'' then Some To_outbound
      else if line = bstr ''[black_list]'' \<or> line = bstr ''[bypass_list]'' then Some To_black
      else if line = bstr ''[white_list]'' \<or> line = bstr ''[proxy_list]'' then Some To_white
      else None)"

fun switch_mode :: "bytes \<Rightarrow> acl_mode option" where
  "switch_mode line =
     (if line = bstr ''[reject_all]'' \<or> line = bstr ''[bypass_all]'' then Some WHITE_LIST
      else if line = bstr ''[accept_all]'' \<or> line = bstr ''[proxy_all]'' then Some BLACK_LIST
      else None)"

declare switch_target.simps [simp del] switch_mode.simps [simp del]

fun items_of :: "acl_target \<Rightarrow> acl_target \<Rightarrow> bytes list \<Rightarrow> bytes list" where
  "items_of t cur [] = []"
| "items_of t cur (line # ls) =
     (if line = [] then items_of t cur ls
      else case switch_target line of
        Some t' \<Rightarrow> items_of t t' ls
      | None \<Rightarrow>
          if switch_mode line = None \<and> cur = t then line # items_of t cur ls else items_of t cur ls)"

fun mode_of :: "acl_mode \<Rightarrow> bytes list \<Rightarrow> acl_mode" where
  "mode_of m [] = m"
| "mode_of m (line # ls) = mode_of (case switch_mode line of Some m' \<Rightarrow> m' | None \<Rightarrow> m) ls"

definition net_hits :: "bytes \<Rightarrow> int \<Rightarrow> bytes \<Rightarrow> bool" where
  "net_hits a cidr x = (if cidr \<ge> 0 then nat cidr \<le> 8 * length a \<and> same_prefix (nat cidr) a x else x = a)"

definition item_hits :: "'re acl_env \<Rightarrow> bytes \<Rightarrow> bytes \<Rightarrow> bool" where
  "item_hits E line host =
     (let (item, cidr) = parse_addr_cidr line in
      case (ae_ip E item, ae_ip E host) of
        (Some (V4 a), Some (V4 x)) \<Rightarrow> net_hits a cidr x
      | (Some (V6 a), Some (V6 x)) \<Rightarrow> net_hits a cidr x
      | (None, None) \<Rightarrow> (case ae_compile E line of Some re \<Rightarrow> ae_match E re host | None \<Rightarrow> False)
      | _ \<Rightarrow> False)"

definition list_hits :: "'re acl_env \<Rightarrow> 're acl_list \<Rightarrow> bytes \<Rightarrow> bool" where
  "list_hits E L host =
     (case ae_ip E host of
        None \<Rightarrow> lookup_rule E (al_rules L) host \<noteq> None
      | Some (V4 a) \<Rightarrow> al_ipv4 L a
      | Some (V6 a) \<Rightarrow> al_ipv6 L a)"

definition any_hits :: "'re acl_env \<Rightarrow> bytes list \<Rightarrow> bytes \<Rightarrow> bool" where
  "any_hits E items host = list_ex (\<lambda>line. item_hits E line host) items"

lemma lookup_rule_append:
  "lookup_rule E (rs @ [r]) name =
     (case lookup_rule E rs name of Some x \<Rightarrow> Some x | None \<Rightarrow> lookup_rule E [r] name)"
  by (induction rs) (auto split: option.splits)

lemma list_hits_empty [simp]: "\<not> list_hits E acl_list_empty host"
  by (auto simp: list_hits_def acl_list_empty_def split: option.splits cork_ip.splits)

lemma list_hits_add: "list_hits E (acl_add_item E line L) host \<longleftrightarrow> item_hits E line host \<or> list_hits E L host"
proof -
  obtain item cidr where pc: "parse_addr_cidr line = (item, cidr)" by (cases "parse_addr_cidr line")
  show ?thesis
  proof (cases "ae_ip E item")
    case None
    then show ?thesis
      using pc
      by (cases "ae_ip E host")
        (auto simp: list_hits_def acl_add_item_def item_hits_def add_rule_def lookup_rule_append new_rule_def
          accept_rule_arg_def init_rule_def split: option.splits cork_ip.splits)
  next
    case (Some ip)
    then show ?thesis
      using pc
      by (cases "ae_ip E host"; cases ip)
        (auto simp: list_hits_def acl_add_item_def item_hits_def ipset_add_def ipset_add_network_def net_hits_def
          split: option.splits cork_ip.splits)
  qed
qed

fun sel :: "acl_target \<Rightarrow> 're acl \<Rightarrow> 're acl_list" where
  "sel To_black A = acl_black A"
| "sel To_white A = acl_white A"
| "sel To_outbound A = acl_outbound A"

lemma sel_upd: "sel t (acl_upd u f A) = (if t = u then f (sel t A) else sel t A)"
  by (cases t; cases u) (auto simp: acl_upd_def)

lemma upd_mode: "acl_mode_f (acl_upd u f A) = acl_mode_f A"
  by (cases u) (auto simp: acl_upd_def)

lemma sel_mode: "sel t (A\<lparr>acl_mode_f := m\<rparr>) = sel t A"
  by (cases t) auto

lemma match_hits:
  "acl_match_host E A host =
     (if list_hits E (sel To_black A) host then 1 else if list_hits E (sel To_white A) host then -1 else 0)"
  "outbound_block_match_host E A host = (if list_hits E (sel To_outbound A) host then 1 else 0)"
  by (auto simp: acl_match_host_def outbound_block_match_host_def list_hits_def
      split: option.splits cork_ip.splits)

lemma acl_line_spec:
  fixes buf
  defines "line \<equiv> acl_clean_line buf"
  shows "acl_line E buf (cur, A) =
    (if line = [] then (cur, A)
     else case switch_target line of
       Some t \<Rightarrow> (t, A)
     | None \<Rightarrow> case switch_mode line of
         Some m \<Rightarrow> (cur, A\<lparr>acl_mode_f := m\<rparr>)
       | None \<Rightarrow> (cur, acl_upd cur (acl_add_item E line) A))"
  unfolding acl_line_def line_def [symmetric] by (simp add: switch_target.simps switch_mode.simps)

lemma any_hits_simps [simp]:
  "\<not> any_hits E [] host" "any_hits E (l # ls) host \<longleftrightarrow> item_hits E l host \<or> any_hits E ls host"
  by (auto simp: any_hits_def)

lemma acl_fold_spec:
  "case fold (acl_line E) bufs (cur, A) of (cur', A') \<Rightarrow>
     (\<forall>t. list_hits E (sel t A') host \<longleftrightarrow>
        any_hits E (items_of t cur (map acl_clean_line bufs)) host \<or> list_hits E (sel t A) host) \<and>
     acl_mode_f A' = mode_of (acl_mode_f A) (map acl_clean_line bufs)"
proof (induction bufs arbitrary: cur A)
  case (Cons b bs)
  let ?l = "acl_clean_line b"
  have empty: "switch_mode [] = None" "switch_target [] = None"
    by (auto simp: switch_mode.simps switch_target.simps bstr_def)
  have excl: "switch_target ?l \<noteq> None \<Longrightarrow> switch_mode ?l = None"
    by (auto simp: switch_mode.simps switch_target.simps bstr_def split: if_splits)
  consider "?l = []" | t where "?l \<noteq> []" "switch_target ?l = Some t"
    | m where "?l \<noteq> []" "switch_target ?l = None" "switch_mode ?l = Some m"
    | "?l \<noteq> []" "switch_target ?l = None" "switch_mode ?l = None"
    by (cases "?l = []"; cases "switch_target ?l"; cases "switch_mode ?l") auto
  then show ?case
  proof cases
    case 1
    then show ?thesis using Cons [of cur A] by (simp add: acl_line_spec empty)
  next
    case (2 t)
    then show ?thesis using Cons [of t A] excl by (simp add: acl_line_spec)
  next
    case (3 m)
    then show ?thesis using Cons [of cur "A\<lparr>acl_mode_f := m\<rparr>"] by (simp add: acl_line_spec sel_mode)
  next
    case 4
    then have "acl_line E b (cur, A) = (cur, acl_upd cur (acl_add_item E ?l) A)"
      by (simp add: acl_line_spec)
    with 4 show ?thesis
      using Cons [of cur "acl_upd cur (acl_add_item E ?l) A"]
      by (auto simp: sel_upd upd_mode list_hits_add split: prod.splits)
  qed
qed simp

section \<open>Reading the file in chunks\<close>

fun acl_chunks_step :: "bytes \<Rightarrow> bytes option \<times> bytes" where
  "acl_chunks_step s =
     (let (buf, r) = read_chunk s in if chunk_is_long buf then (None, acl_skip_long r) else (Some buf, r))"

lemma acl_read_step:
  "s \<noteq> [] \<Longrightarrow> acl_read E s st =
     (case acl_chunks_step s of (None, r) \<Rightarrow> acl_read E r st | (Some b, r) \<Rightarrow> acl_read E r (acl_line E b st))"
  by (subst acl_read.simps) (simp split: prod.splits)

lemma fgets_line_line: "10 \<notin> set l \<Longrightarrow> fgets_line n (l @ 10 # r) = (if length l < n then l @ [10] else take n l)"
proof (induction l arbitrary: n)
  case Nil
  then show ?case by (cases n) auto
next
  case (Cons c l)
  then show ?case by (cases n) auto
qed

lemma fgets_line_last: "10 \<notin> set l \<Longrightarrow> fgets_line n l = take n l"
proof (induction l arbitrary: n)
  case Nil
  then show ?case by (cases n) auto
next
  case (Cons c l)
  then show ?case by (cases n) auto
qed

lemma read_chunk_line:
  assumes "10 \<notin> set l" "0 \<notin> set l"
  shows "read_chunk (l @ 10 # r) = (if length l < 255 then (l @ [10], r) else (take 255 l, drop 255 l @ 10 # r))"
    and "read_chunk l = (take 255 l, drop 255 l)"
proof -
  have nul: "0 \<notin> set (l @ [10])" "0 \<notin> set (take 255 l)"
    using assms by (auto dest: in_set_takeD)
  show "read_chunk (l @ 10 # r) = (if length l < 255 then (l @ [10], r) else (take 255 l, drop 255 l @ 10 # r))"
    "read_chunk l = (take 255 l, drop 255 l)"
    using assms nul c_str_no_nul [of "l @ [10]"] c_str_no_nul [of "take 255 l"]
    by (auto simp: read_chunk_def fgets_line_line fgets_line_last min_def)
qed

lemma long_take: "10 \<notin> set l \<Longrightarrow> chunk_is_long (take 255 l) \<longleftrightarrow> 255 \<le> length l"
proof -
  assume l: "10 \<notin> set l"
  have "255 \<le> length l \<Longrightarrow> l ! 254 \<in> set l" by (rule nth_mem) simp
  then have "255 \<le> length l \<Longrightarrow> l ! 254 \<noteq> 10" using l by metis
  then show ?thesis by (auto simp: chunk_is_long_def)
qed

lemma not_long_eol: "\<not> chunk_is_long (l @ [10])"
  by (auto simp: chunk_is_long_def nth_append)

lemma skip_long_line:
  assumes "10 \<notin> set l" "0 \<notin> set l"
  shows "acl_skip_long (l @ 10 # r) = r \<and> acl_skip_long l = []"
  using assms
proof (induction "length l" arbitrary: l rule: less_induct)
  case less
  show ?case
  proof (cases "length l < 255")
    case True
    then show ?thesis
      using less.prems not_long_eol [of l] long_take [of l]
      by (subst (1 2) acl_skip_long.simps) (simp add: read_chunk_line)
  next
    case False
    have "10 \<notin> set (drop 255 l)" "0 \<notin> set (drop 255 l)" using less.prems by (auto dest: in_set_dropD)
    then have "acl_skip_long (drop 255 l @ 10 # r) = r" "acl_skip_long (drop 255 l) = []"
      using less.hyps [of "drop 255 l"] False by auto
    then show ?thesis
      using less.prems False
      by (subst (1 2) acl_skip_long.simps) (simp add: read_chunk_line long_take)
  qed
qed

lemma chunks_step_line:
  assumes "10 \<notin> set l" "0 \<notin> set l"
  shows "acl_chunks_step (l @ 10 # r) = (if length l < 255 then Some (l @ [10]) else None, r)"
    and "acl_chunks_step l = (if length l < 255 then Some l else None, [])"
proof -
  have "10 \<notin> set (drop 255 l)" "0 \<notin> set (drop 255 l)" using assms by (auto dest: in_set_dropD)
  note skip = skip_long_line [OF this, of r]
  show "acl_chunks_step (l @ 10 # r) = (if length l < 255 then Some (l @ [10]) else None, r)"
    "acl_chunks_step l = (if length l < 255 then Some l else None, [])"
    using assms skip not_long_eol [of l] by (auto simp: read_chunk_line long_take)
qed

lemma clean_line_eq: "10 \<notin> set l \<Longrightarrow> acl_clean_line (l @ [10]) = clean_line l \<and> acl_clean_line l = clean_line l"
proof -
  assume l: "10 \<notin> set l"
  have "l \<noteq> [] \<Longrightarrow> last l \<noteq> 10" using l last_in_set [of l] by metis
  then show ?thesis by (auto simp: acl_clean_line_def clean_line_def)
qed

lemma file_lines_Nil: "file_lines [] = []"
  by (subst file_lines.simps) simp

lemma acl_read_lines:
  assumes "0 \<notin> set s"
  shows "\<exists>bufs. acl_read E s st = fold (acl_line E) bufs st \<and>
           map acl_clean_line bufs = map clean_line (file_lines s)"
  using assms
proof (induction s arbitrary: st rule: file_lines.induct)
  case (1 s)
  let ?l = "takeWhile (\<lambda>c. c \<noteq> 10) s"
  show ?case
  proof (cases "s = []")
    case True
    then show ?thesis by (subst acl_read.simps, subst file_lines.simps) simp
  next
    case False
    have l: "10 \<notin> set ?l" "0 \<notin> set ?l" using 1(2) by (auto dest: set_takeWhileD)
    show ?thesis
    proof (cases "length ?l < length s")
      case True
      let ?r = "drop (length ?l + 1) s"
      have s: "s = ?l @ 10 # ?r"
        using True nth_length_takeWhile [OF True] by (metis Cons_nth_drop_Suc Suc_eq_plus1 append_take_drop_id takeWhile_eq_take)
      obtain bufs where IH: "\<And>st. \<exists>bufs. acl_read E ?r st = fold (acl_line E) bufs st \<and>
          map acl_clean_line bufs = map clean_line (file_lines ?r)"
        using 1(1) [OF False refl refl refl] 1(2) by (auto dest: in_set_dropD)
      have "acl_chunks_step s = (if length ?l < 255 then Some (?l @ [10]) else None, ?r)"
        using chunks_step_line(1) [OF l, of ?r] s by metis
      then have rd: "acl_read E s st =
          acl_read E ?r (if length ?l < 255 then acl_line E (?l @ [10]) st else st)"
        using acl_read_step [OF False, of E st] by (simp del: acl_chunks_step.simps)
      obtain bs where bs: "acl_read E ?r (if length ?l < 255 then acl_line E (?l @ [10]) st else st) =
          fold (acl_line E) bs (if length ?l < 255 then acl_line E (?l @ [10]) st else st)"
          "map acl_clean_line bs = map clean_line (file_lines ?r)"
        using IH by blast
      have "file_lines s = (if length ?l < 255 then [?l] else []) @ file_lines ?r"
        by (subst file_lines.simps) (simp only: Let_def, simp add: True False)
      then show ?thesis
        using rd bs clean_line_eq [OF l(1)]
        by (intro exI [of _ "(if length ?l < 255 then [?l @ [10]] else []) @ bs"]) simp
    next
      case nonl: False
      then have s: "?l = s" by (metis linorder_not_le take_all takeWhile_eq_take)
      have "acl_chunks_step s = (if length s < 255 then Some s else None, [])"
        using chunks_step_line(2) [OF l] s by metis
      then have rd: "acl_read E s st = (if length s < 255 then acl_line E s st else st)"
        using acl_read_step [OF False, of E st] by (simp add: acl_read.simps del: acl_chunks_step.simps)
      have "file_lines s = (if length s < 255 then [s] else [])"
        by (subst file_lines.simps) (simp only: Let_def s, simp add: False file_lines_Nil)
      moreover have "10 \<notin> set s" using l(1) unfolding s .
      ultimately show ?thesis
        using rd clean_line_eq [of s]
        by (intro exI [of _ "if length s < 255 then [s] else []"]) simp
    qed
  qed
qed

section \<open>Properties\<close>

text \<open>
  C29. What an ACL file means: after \<open>init_acl\<close> has read a file without NUL bytes, a host is
  black-listed, white-listed or outbound-blocked exactly when an item line of the corresponding
  sections covers it (a network that contains its address, or a pattern that matches a name), black
  before white, and the mode is the last one the file sets. Lines are the lines of the file: one of
  255 bytes and more is dropped whole, wherever the 256-byte buffer cuts it.
\<close>

theorem acl_file_meaning:
  assumes "os_fopen_r w p = Some content" "0 \<notin> set content" "init_acl E w (Some p) A = (err, A')"
  defines "ls \<equiv> map clean_line (file_lines content)"
  shows "err = 0 \<and>
    acl_match_host E A' host =
      (if any_hits E (items_of To_black To_black ls) host then 1
       else if any_hits E (items_of To_white To_black ls) host then -1 else 0) \<and>
    outbound_block_match_host E A' host =
      (if any_hits E (items_of To_outbound To_black ls) host then 1 else 0) \<and>
    get_acl_mode A' = mode_of (acl_mode_f A) ls"
proof -
  let ?A = "A\<lparr>acl_black := acl_list_empty, acl_white := acl_list_empty, acl_outbound := acl_list_empty\<rparr>"
  obtain bufs where bufs: "acl_read E content (To_black, ?A) = fold (acl_line E) bufs (To_black, ?A)"
    "map acl_clean_line bufs = ls"
    using acl_read_lines [OF assms(2), of E "(To_black, ?A)"] unfolding ls_def by blast
  have A': "err = 0" "A' = snd (fold (acl_line E) bufs (To_black, ?A))"
    using assms(1,3) bufs(1) by (auto simp: init_acl_def)
  have "\<not> list_hits E (sel t ?A) host" for t by (cases t) simp_all
  then have "list_hits E (sel t A') host \<longleftrightarrow> any_hits E (items_of t To_black ls) host"
    "acl_mode_f A' = mode_of (acl_mode_f A) ls" for t
    using acl_fold_spec [where E = E and bufs = bufs and cur = To_black and A = ?A and host = host] bufs(2) by (auto simp: A'(2) split: prod.splits)
  then show ?thesis using A'(1) by (simp add: match_hits get_acl_mode_def del: sel.simps)
qed

definition acl_env0 :: "bytes acl_env" where
  "acl_env0 = \<lparr>ae_ip = (\<lambda>_. None), ae_compile = Some, ae_match = (=)\<rparr>"

definition acl0 :: "bytes acl" where
  "acl0 = \<lparr>acl_black = acl_list_empty, acl_white = acl_list_empty, acl_outbound = acl_list_empty,
     acl_mode_f = BLACK_LIST\<rparr>"

theorem acl_file_meaning_witness:
  "fst (init_acl acl_env0 (os_write_file os0 [97] [120, 10]) (Some [97]) acl0) = 0"
  using acl_file_meaning [of "os_write_file os0 [97] [120, 10]" "[97]" "[120, 10]" acl_env0 acl0]
  by (cases "init_acl acl_env0 (os_write_file os0 [97] [120, 10]) (Some [97]) acl0")
    (auto simp: os_fopen_r_def os_write_file_def os0_def)

text \<open>
  Adding an address to the running server's black list makes the list match it; removing it
  again restores the decision for every host, unless the address was listed already, in which case
  it is no longer matched by its address. A text that is not an address changes nothing.
\<close>

theorem acl_add_remove_ip:
  "(case acl_add_ip E ip A of (err, A1) \<Rightarrow>
      (err = (if ae_ip E ip = None then -1 else 0)) \<and>
      (if err = 0 then acl_match_host E A1 ip = 1 else A1 = A) \<and>
      (case acl_remove_ip E ip A1 of (_, A2) \<Rightarrow>
         acl_match_host E A2 host =
           (if ae_ip E ip \<noteq> None \<and> ae_ip E host = ae_ip E ip
            then (if list_hits E (acl_white A) host then -1 else 0)
            else acl_match_host E A host)))"
proof (cases "ae_ip E ip")
  case None
  then show ?thesis by (simp add: acl_add_ip_def acl_remove_ip_def)
next
  case (Some a)
  show ?thesis
    by (cases a; cases "ae_ip E host"; simp add: Some acl_add_ip_def acl_remove_ip_def acl_match_host_def
        acl_upd_def ipset_add_def ipset_remove_def list_hits_def split: cork_ip.split)
qed

end
