(* ===== verification/Server.thy ===== *)
theory Server
  imports Crypto_Kdf Buffer Acl
begin

text \<open>
  The connection handling of \<^verbatim>\<open>ss-server\<close> (\<^verbatim>\<open>src/server.c\<close>): one \<open>server\<close> object per client, one
  \<open>remote\<close> object per outgoing connection, one \<open>query\<close> per pending name lookup, and the libev callbacks
  that move data between them.

  The heap is explicit: an object is an address (a number), live when its map defines it; pointers
  are \<open>nat option\<close>, and following \<open>NULL\<close> or a freed object is the fault \<open>Dangling\<close>, so that the absence
  of null dereferences and uses after free is a theorem. A watcher (\<open>ev_io\<close>, \<open>ev_timer\<close>) is a flag of
  the object that owns it: started or stopped. The results of the system calls a callback makes are
  its input record \<open>io\<close>. What the callbacks do to the outside is appended to \<open>ss_trace\<close>: bytes the
  kernel accepted on a socket, closed sockets, and, as observation points, what the cipher delivered
  and produced. The cipher operations of the \<open>crypto_t\<close> structure, \<open>inet_ntop\<close>, and the contents of
  fresh memory are the record \<open>env\<close>; name resolution is the event that calls \<open>resolv_cb\<close>.

  Left out: log messages and the connection counters they print, socket options, MPTCP,
  netfilter marks, and the Windows and BSD variants of fast open.
\<close>

section \<open>State\<close>

datatype stage = STAGE_INIT | STAGE_RESOLVE | STAGE_STREAM | STAGE_STOP

record 'c server =
  sv_stage :: stage
  sv_frag :: nat
  sv_peer_ip :: bytes
  sv_buf :: buffer
  sv_e_ctx :: 'c
  sv_d_ctx :: 'c
  sv_recv_io :: bool
  sv_send_io :: bool
  sv_timer :: bool
  sv_remote :: "nat option"
  sv_query :: "nat option"

record remote =
  rm_buf :: buffer
  rm_recv_io :: bool
  rm_send_io :: bool
  rm_recv_connected :: bool
  rm_send_connected :: bool
  rm_server :: "nat option"

record query =
  qr_server :: "nat option"
  qr_hostname :: bytes
  qr_port :: u16

datatype event_out =
  Sent_client nat bytes
| Sent_remote nat bytes
| Closed_client nat
| Closed_remote nat
| Refused bytes
| Plain nat bytes
| Cipher nat bytes

record ('c, 'w, 're) ss =
  ss_servers :: "nat \<Rightarrow> 'c server option"
  ss_remotes :: "nat \<Rightarrow> remote option"
  ss_queries :: "nat \<Rightarrow> query option"
  ss_conns :: "nat list"
  ss_next :: nat
  ss_lock :: ip_lock
  ss_os :: os
  ss_world :: 'w
  ss_acl :: "'re acl"
  ss_fast_open :: bool
  ss_tx :: u64
  ss_rx :: u64
  ss_trace :: "event_out list"

record ('c, 'w, 're) env =
  en_encrypt :: "'w \<Rightarrow> buffer \<Rightarrow> 'c \<Rightarrow> nat \<Rightarrow> (int \<times> buffer \<times> 'c \<times> 'w) res"
  en_decrypt :: "'w \<Rightarrow> buffer \<Rightarrow> 'c \<Rightarrow> nat \<Rightarrow> (int \<times> buffer \<times> 'c \<times> 'w) res"
  en_ctx_init :: "'w \<Rightarrow> bool \<Rightarrow> ('c \<times> 'w) res"
  en_acl_on :: bool
  en_acl :: "'re acl_env"
  en_ntop :: "sockaddr \<Rightarrow> bytes"
  en_bind_local :: "sockaddr \<Rightarrow> bool"
  en_junk :: junk

text \<open>Results of \<open>recv\<close>, \<open>send\<close> and the fast-open connect; the other calls only succeed or fail.\<close>

datatype recv_res = Recv bytes | Recv_eof | Recv_again | Recv_err
datatype send_res = Send nat | Send_again | Send_err
datatype fast_res = Fast_sent nat | Fast_in_progress | Fast_unsupported | Fast_err | Fast_fatal

record io =
  io_recv :: recv_res
  io_send :: send_res
  io_socket :: bool
  io_bind :: bool
  io_fast :: fast_res
  io_connect :: bool
  io_peername :: bool

definition SOCKET_BUF_SIZE :: nat where "SOCKET_BUF_SIZE = 16 * 1024 - 1"
definition MAX_HOSTNAME_LEN :: nat where "MAX_HOSTNAME_LEN = 256"

section \<open>Objects\<close>

definition get_server :: "('c, 'w, 're) ss \<Rightarrow> nat \<Rightarrow> 'c server res" where
  "get_server s sid = (case ss_servers s sid of Some sv \<Rightarrow> Inr sv | None \<Rightarrow> Inl Dangling)"

definition get_remote :: "('c, 'w, 're) ss \<Rightarrow> nat \<Rightarrow> remote res" where
  "get_remote s rid = (case ss_remotes s rid of Some r \<Rightarrow> Inr r | None \<Rightarrow> Inl Dangling)"

definition get_query :: "('c, 'w, 're) ss \<Rightarrow> nat \<Rightarrow> query res" where
  "get_query s qid = (case ss_queries s qid of Some q \<Rightarrow> Inr q | None \<Rightarrow> Inl Dangling)"

definition deref :: "nat option \<Rightarrow> nat res" where
  "deref p = (case p of Some a \<Rightarrow> Inr a | None \<Rightarrow> Inl Dangling)"

definition upd_server :: "nat \<Rightarrow> ('c server \<Rightarrow> 'c server) \<Rightarrow> ('c, 'w, 're) ss \<Rightarrow> ('c, 'w, 're) ss res" where
  "upd_server sid f s =
     bindr (get_server s sid) (\<lambda>sv. Inr (s\<lparr>ss_servers := (ss_servers s)(sid \<mapsto> f sv)\<rparr>))"

definition upd_remote :: "nat \<Rightarrow> (remote \<Rightarrow> remote) \<Rightarrow> ('c, 'w, 're) ss \<Rightarrow> ('c, 'w, 're) ss res" where
  "upd_remote rid f s =
     bindr (get_remote s rid) (\<lambda>r. Inr (s\<lparr>ss_remotes := (ss_remotes s)(rid \<mapsto> f r)\<rparr>))"

definition upd_query :: "nat \<Rightarrow> (query \<Rightarrow> query) \<Rightarrow> ('c, 'w, 're) ss \<Rightarrow> ('c, 'w, 're) ss res" where
  "upd_query qid f s =
     bindr (get_query s qid) (\<lambda>q. Inr (s\<lparr>ss_queries := (ss_queries s)(qid \<mapsto> f q)\<rparr>))"

definition trace :: "event_out \<Rightarrow> ('c, 'w, 're) ss \<Rightarrow> ('c, 'w, 're) ss" where
  "trace e s = s\<lparr>ss_trace := ss_trace s @ [e]\<rparr>"

section \<open>The client lock\<close>

text \<open>The \<open>peer_ip\<close> strings met on a walk over \<open>connections\<close>.\<close>

fun peer_list :: "('c, 'w, 're) ss \<Rightarrow> nat list \<Rightarrow> bytes list res" where
  "peer_list s [] = Inr []"
| "peer_list s (sid # sids) =
     bindr (get_server s sid) (\<lambda>sv. bindr (peer_list s sids) (\<lambda>ps. Inr (sv_peer_ip sv # ps)))"

definition count_connections_for_ip :: "('c, 'w, 're) ss \<Rightarrow> bytes \<Rightarrow> nat res" where
  "count_connections_for_ip s ip =
     (if ip = [] then Inr 0
      else bindr (peer_list s (ss_conns s)) (\<lambda>ps. Inr (length (filter (\<lambda>p. p \<noteq> [] \<and> p = ip) ps))))"

fun unique_ips :: "bytes list \<Rightarrow> bytes list \<Rightarrow> bytes list" where
  "unique_ips [] acc = acc"
| "unique_ips (p # ps) acc =
     (if p = [] then unique_ips ps acc
      else if p \<notin> set acc \<and> length acc < IP_LOCK_MAX_TRACK_IPS then unique_ips ps (acc @ [p])
      else unique_ips ps acc)"

definition update_ip_lock_status :: "('c, 'w, 're) ss \<Rightarrow> ('c, 'w, 're) ss res" where
  "update_ip_lock_status s =
     bindr (peer_list s (ss_conns s)) (\<lambda>ps.
       bindr (ip_lock_write_status (ss_os s) (length (filter (\<lambda>p. p \<noteq> []) ps)) (unique_ips ps []) (ss_lock s))
         (\<lambda>(L, w). Inr (s\<lparr>ss_lock := L, ss_os := w\<rparr>)))"

definition ss_should_iplock_port :: "bytes option \<Rightarrow> bytes option \<Rightarrow> bytes \<Rightarrow> bool" where
  "ss_should_iplock_port min_env max_env port_str =
     (case (min_env, max_env) of
        (Some mn, Some mx) \<Rightarrow>
          let port = atoi port_str; min_port = atoi mn; max_port = atoi mx in
          if port \<le> 0 \<or> min_port \<le> 0 \<or> max_port \<le> 0 then True
          else port \<ge> min_port \<and> port \<le> max_port
      | _ \<Rightarrow> True)"

definition check_ip_lock_allowed :: "bytes \<Rightarrow> ('c, 'w, 're) ss \<Rightarrow> (bool \<times> ('c, 'w, 're) ss) res" where
  "check_ip_lock_allowed peer_ip s =
     (if \<not> ip_lock_is_enabled (ss_lock s) then Inr (True, s)
      else if peer_ip = [] then Inr (True, s)
      else
        let s = s\<lparr>ss_lock := ip_lock_reload (ss_os s) (ss_lock s)\<rparr>;
            locked = ip_lock_get_locked_ip (ss_lock s);
            grab = (\<lambda>s. let (L, w) = ip_lock_set (ss_os s) peer_ip (ss_lock s) in s\<lparr>ss_lock := L, ss_os := w\<rparr>)
        in if locked = [] then Inr (True, grab s)
           else if peer_ip = locked then Inr (True, s)
           else
             bindr (count_connections_for_ip s locked) (\<lambda>n.
               if n > 0 then Inr (False, s) else Inr (True, grab s)))"

section \<open>Creating and freeing\<close>

definition new_remote :: "('c, 'w, 're) env \<Rightarrow> ('c, 'w, 're) ss \<Rightarrow> nat \<times> ('c, 'w, 're) ss" where
  "new_remote E s =
     (let rid = ss_next s;
          r = \<lparr>rm_buf = balloc (en_junk E) SOCKET_BUF_SIZE, rm_recv_io = False, rm_send_io = False,
               rm_recv_connected = False, rm_send_connected = False, rm_server = None\<rparr>
      in (rid, s\<lparr>ss_next := rid + 1, ss_remotes := (ss_remotes s)(rid \<mapsto> r)\<rparr>))"

definition free_remote :: "nat \<Rightarrow> ('c, 'w, 're) ss \<Rightarrow> ('c, 'w, 're) ss res" where
  "free_remote rid s =
     bindr (get_remote s rid) (\<lambda>r.
       bindr (case rm_server r of
                Some sid \<Rightarrow> upd_server sid (\<lambda>sv. sv\<lparr>sv_remote := None\<rparr>) s
              | None \<Rightarrow> Inr s)
         (\<lambda>s. if rm_recv_io r \<or> rm_send_io r then Inl Dangling
              else Inr (s\<lparr>ss_remotes := (ss_remotes s)(rid := None)\<rparr>)))"

definition close_and_free_remote :: "nat option \<Rightarrow> ('c, 'w, 're) ss \<Rightarrow> ('c, 'w, 're) ss res" where
  "close_and_free_remote ro s =
     (case ro of
        None \<Rightarrow> Inr s
      | Some rid \<Rightarrow>
          bindr (upd_remote rid (\<lambda>r. r\<lparr>rm_send_io := False, rm_recv_io := False\<rparr>) s) (\<lambda>s.
            free_remote rid (trace (Closed_remote rid) s)))"

definition new_server :: "('c, 'w, 're) env \<Rightarrow> ('c, 'w, 're) ss \<Rightarrow> (nat \<times> ('c, 'w, 're) ss) res" where
  "new_server E s =
     (let sid = ss_next s in
      bindr (en_ctx_init E (ss_world s) True) (\<lambda>(e_ctx, w).
      bindr (en_ctx_init E w False) (\<lambda>(d_ctx, w).
        let sv = \<lparr>sv_stage = STAGE_INIT, sv_frag = 0, sv_peer_ip = [],
                  sv_buf = balloc (en_junk E) SOCKET_BUF_SIZE, sv_e_ctx = e_ctx, sv_d_ctx = d_ctx,
                  sv_recv_io = False, sv_send_io = False, sv_timer = False,
                  sv_remote = None, sv_query = None\<rparr>
        in Inr (sid, s\<lparr>ss_next := sid + 1, ss_servers := (ss_servers s)(sid \<mapsto> sv), ss_world := w,
                       ss_conns := ss_conns s @ [sid]\<rparr>))))"

definition free_server :: "nat \<Rightarrow> ('c, 'w, 're) ss \<Rightarrow> ('c, 'w, 're) ss res" where
  "free_server sid s =
     bindr (get_server s sid) (\<lambda>sv.
       let s = s\<lparr>ss_conns := remove1 sid (ss_conns s)\<rparr> in
       bindr (case sv_remote sv of
                Some rid \<Rightarrow> upd_remote rid (\<lambda>r. r\<lparr>rm_server := None\<rparr>) s
              | None \<Rightarrow> Inr s)
         (\<lambda>s. if sv_recv_io sv \<or> sv_send_io sv \<or> sv_timer sv then Inl Dangling
              else Inr (s\<lparr>ss_servers := (ss_servers s)(sid := None)\<rparr>)))"

definition close_and_free_server :: "nat \<Rightarrow> ('c, 'w, 're) ss \<Rightarrow> ('c, 'w, 're) ss res" where
  "close_and_free_server sid s =
     bindr (get_server s sid) (\<lambda>sv.
       bindr (case sv_query sv of
                Some qid \<Rightarrow>
                  bindr (upd_query qid (\<lambda>q. q\<lparr>qr_server := None\<rparr>) s)
                    (upd_server sid (\<lambda>sv. sv\<lparr>sv_query := None\<rparr>))
              | None \<Rightarrow> Inr s) (\<lambda>s.
         bindr (upd_server sid (\<lambda>sv. sv\<lparr>sv_send_io := False, sv_recv_io := False, sv_timer := False\<rparr>) s) (\<lambda>s.
           bindr (free_server sid (trace (Closed_client sid) s)) update_ip_lock_status)))"

text \<open>The pair of calls that ends most callbacks.\<close>

definition close_both :: "nat option \<Rightarrow> nat \<Rightarrow> ('c, 'w, 're) ss \<Rightarrow> ('c, 'w, 're) ss res" where
  "close_both ro sid s = bindr (close_and_free_remote ro s) (close_and_free_server sid)"

fun close_all :: "nat list \<Rightarrow> ('c, 'w, 're) ss \<Rightarrow> ('c, 'w, 're) ss res" where
  "close_all [] s = Inr s"
| "close_all (sid # sids) s =
     bindr (get_server s sid) (\<lambda>sv.
       bindr (close_and_free_server sid s) (\<lambda>s.
         bindr (close_and_free_remote (sv_remote sv) s) (close_all sids)))"

definition free_connections :: "('c, 'w, 're) ss \<Rightarrow> ('c, 'w, 're) ss res" where
  "free_connections s = close_all (ss_conns s) s"

definition stop_server :: "nat \<Rightarrow> ('c, 'w, 're) ss \<Rightarrow> ('c, 'w, 're) ss res" where
  "stop_server sid = upd_server sid (\<lambda>sv. sv\<lparr>sv_stage := STAGE_STOP\<rparr>)"

section \<open>Connecting\<close>

text \<open>
  \<open>connect_to_remote\<close>: the outbound block list, the socket, a new \<open>remote\<close>, then fast open (which may
  already send part of the buffered request) or a plain connect. \<open>io_connect\<close> is false when the
  connect fails with another error than \<^verbatim>\<open>EINPROGRESS\<close>.
\<close>

definition fast_open_connect ::
    "io \<Rightarrow> nat \<Rightarrow> nat \<Rightarrow> ('c, 'w, 're) ss \<Rightarrow> ('c, 'w, 're) ss res" where
  "fast_open_connect io rid sid s =
     (case io_fast io of
        Fast_fatal \<Rightarrow> Inl (Fatal ''failed to set TCP_FASTOPEN_CONNECT'')
      | Fast_in_progress \<Rightarrow> Inr s
      | Fast_unsupported \<Rightarrow> Inr (s\<lparr>ss_fast_open := False\<rparr>)
      | Fast_err \<Rightarrow> Inr s
      | Fast_sent n \<Rightarrow>
          bindr (get_server s sid) (\<lambda>sv.
          bindr (mem_read (buf_data (sv_buf sv)) (buf_idx (sv_buf sv)) (buf_len (sv_buf sv))) (\<lambda>d.
            let n = min n (length d) in
            bindr (upd_server sid (\<lambda>sv. sv\<lparr>sv_buf := (sv_buf sv)\<lparr>buf_idx := buf_idx (sv_buf sv) + n,
                                                             buf_len := buf_len (sv_buf sv) - n\<rparr>\<rparr>) s)
              (\<lambda>s. Inr (trace (Sent_remote rid (take n d)) s)))))"

definition connect_to_remote ::
    "('c, 'w, 're) env \<Rightarrow> io \<Rightarrow> sockaddr \<Rightarrow> nat \<Rightarrow> ('c, 'w, 're) ss \<Rightarrow> (nat option \<times> ('c, 'w, 're) ss) res" where
  "connect_to_remote E io addr sid s =
     (if en_acl_on E \<and> outbound_block_match_host (en_acl E) (ss_acl s)
            (case addr of SOther _ _ \<Rightarrow> [] | _ \<Rightarrow> en_ntop E addr) = 1
      then Inr (None, s)
      else if \<not> io_socket io then Inr (None, s)
      else if en_bind_local E addr \<and> \<not> io_bind io then Inl (Fatal ''cannot bind socket'')
      else
        let (rid, s) = new_remote E s in
        bindr (if ss_fast_open s then fast_open_connect io rid sid s else Inr s) (\<lambda>s.
          if \<not> ss_fast_open s \<and> \<not> io_connect io
          then bindr (close_and_free_remote (Some rid) s) (\<lambda>s. Inr (None, s))
          else Inr (Some rid, s)))"

text \<open>
  Hand the connection over: the two objects point to each other and what is left of the request
  moves to the buffer of the remote.
\<close>

definition attach_remote ::
    "('c, 'w, 're) env \<Rightarrow> nat \<Rightarrow> nat \<Rightarrow> ('c, 'w, 're) ss \<Rightarrow> ('c, 'w, 're) ss res" where
  "attach_remote E rid sid s =
     bindr (upd_server sid (\<lambda>sv. sv\<lparr>sv_remote := Some rid\<rparr>) s) (\<lambda>s.
     bindr (upd_remote rid (\<lambda>r. r\<lparr>rm_server := Some sid\<rparr>) s) (\<lambda>s.
     bindr (get_server s sid) (\<lambda>sv.
     bindr (get_remote s rid) (\<lambda>r.
       let sb = sv_buf sv in
       if buf_len sb > 0 then
         let rb = brealloc (en_junk E) (rm_buf r) (buf_len sb) SOCKET_BUF_SIZE in
         bindr (mem_read (buf_data sb) (buf_idx sb) (buf_len sb)) (\<lambda>d.
         bindr (mem_write (buf_data rb) 0 d) (\<lambda>rd.
         bindr (upd_remote rid (\<lambda>r. r\<lparr>rm_buf := rb\<lparr>buf_data := rd, buf_len := buf_len sb, buf_idx := 0\<rparr>\<rparr>) s) (\<lambda>s.
           upd_server sid (\<lambda>sv. sv\<lparr>sv_buf := (sv_buf sv)\<lparr>buf_len := 0, buf_idx := 0\<rparr>\<rparr>) s)))
       else Inr s))))"

section \<open>The request header\<close>

text \<open>
  What the first plaintext of a connection asks for: \<open>Req_stop\<close> (malformed, the connection is
  stopped), \<open>Req_close\<close> (blocked), \<open>Req_connect\<close> a numeric address, or \<open>Req_resolve\<close> a name; the last two
  with the length of the header.
\<close>

datatype request =
  Req_stop
| Req_close
| Req_connect sockaddr nat
| Req_resolve bytes u16 nat

text \<open>The two port bytes as they lie in memory, which is how \<open>sin_port\<close> holds them.\<close>

definition raw16 :: "bytes \<Rightarrow> u16" where
  "raw16 d = ucast (d ! 0) OR push_bit 8 (ucast (d ! 1))"

text \<open>\<open>char host[255] = { 0 }\<close> filled with the name.\<close>

definition request_host :: "bytes \<Rightarrow> bytes res" where
  "request_host name = mem_write (replicate 255 0) 0 name"

definition parse_domain ::
    "('c, 'w, 're) env \<Rightarrow> 're acl \<Rightarrow> buffer \<Rightarrow> (request option \<times> sockaddr option \<times> bytes \<times> nat) res" where
  "parse_domain E A b =
     bindr (mem_read (buf_data b) 1 1) (\<lambda>nl.
       let name_len = unat (nl ! 0) in
       if name_len + 4 \<le> buf_len b then
         bindr (mem_read (buf_data b) 2 name_len) (\<lambda>name.
         bindr (request_host name) (\<lambda>host.
         let offset = 1 + name_len + 1 in
         bindr (if en_acl_on E
                then bindr (str_in host) (\<lambda>h. Inr (outbound_block_match_host (en_acl E) A h = 1))
                else Inr False) (\<lambda>blocked.
         if blocked then Inr (Some Req_close, None, [], offset)
         else
           bindr (str_in host) (\<lambda>h.
             case ae_ip (en_acl E) h of
               Some ip \<Rightarrow>
                 bindr (mem_read (buf_data b) offset 2) (\<lambda>p.
                   Inr (None, Some (case ip of V4 a \<Rightarrow> SIN (raw16 p) a | V6 a \<Rightarrow> SIN6 (raw16 p) a), h, offset))
             | None \<Rightarrow>
                 bindr (validate_hostname (Some host) name_len) (\<lambda>ok.
                   Inr (if ok then None else Some Req_stop, None, h, offset))))))
       else Inr (Some Req_stop, None, [], 0))"

definition parse_request ::
    "('c, 'w, 're) env \<Rightarrow> 're acl \<Rightarrow> buffer \<Rightarrow> request res" where
  "parse_request E A b =
     bindr (mem_read (buf_data b) 0 1) (\<lambda>t.
       let atyp = (t ! 0) AND 0xF in
       bindr (if atyp = 1 then
                if buf_len b \<ge> 4 + 3 then
                  bindr (mem_read (buf_data b) 1 4) (\<lambda>a.
                  bindr (mem_read (buf_data b) 5 2) (\<lambda>p. Inr (None, Some (SIN (raw16 p) a), [], 5)))
                else Inr (Some Req_stop, None, [], 1)
              else if atyp = 3 then parse_domain E A b
              else if atyp = 4 then
                if buf_len b \<ge> 16 + 3 then
                  bindr (mem_read (buf_data b) 1 16) (\<lambda>a.
                  bindr (mem_read (buf_data b) 17 2) (\<lambda>p. Inr (None, Some (SIN6 (raw16 p) a), [], 17)))
                else Inr (Some Req_stop, None, [], 1)
              else Inr (None, None, [], 1))
         (\<lambda>(early, addr, host, offset).
           case early of
             Some q \<Rightarrow> Inr q
           | None \<Rightarrow>
               if offset = 1 then Inr Req_stop
               else
                 bindr (mem_read (buf_data b) offset 2) (\<lambda>p.
                   let port = raw16 p; offset = offset + 2 in
                   if buf_len b < offset then Inr Req_stop
                   else case addr of
                     Some a \<Rightarrow> Inr (Req_connect a offset)
                   | None \<Rightarrow> Inr (Req_resolve host port offset))))"

section \<open>Callbacks\<close>

text \<open>The first request: lines after \<open>STAGE_INIT\<close> was recognised.\<close>

definition server_request ::
    "('c, 'w, 're) env \<Rightarrow> io \<Rightarrow> nat \<Rightarrow> ('c, 'w, 're) ss \<Rightarrow> ('c, 'w, 're) ss res" where
  "server_request E io sid s =
     bindr (get_server s sid) (\<lambda>sv.
     bindr (parse_request E (ss_acl s) (sv_buf sv)) (\<lambda>rq.
       let skip = (\<lambda>n sv. sv\<lparr>sv_buf := (sv_buf sv)\<lparr>buf_len := buf_len (sv_buf sv) - n, buf_idx := n\<rparr>\<rparr>) in
       case rq of
         Req_stop \<Rightarrow> stop_server sid s
       | Req_close \<Rightarrow> close_and_free_server sid s
       | Req_connect addr n \<Rightarrow>
           bindr (upd_server sid (skip n) s) (\<lambda>s.
           bindr (connect_to_remote E io addr sid s) (\<lambda>(ro, s).
             case ro of
               None \<Rightarrow> close_and_free_server sid s
             | Some rid \<Rightarrow>
                 bindr (attach_remote E rid sid s) (\<lambda>s.
                 bindr (upd_server sid (\<lambda>sv. sv\<lparr>sv_recv_io := False\<rparr>) s)
                   (upd_remote rid (\<lambda>r. r\<lparr>rm_send_io := True\<rparr>)))))
       | Req_resolve host port n \<Rightarrow>
           bindr (upd_server sid (skip n) s) (\<lambda>s.
             let qid = ss_next s;
                 q = \<lparr>qr_server = Some sid, qr_hostname = take (MAX_HOSTNAME_LEN - 1) host, qr_port = port\<rparr>;
                 s = s\<lparr>ss_next := qid + 1, ss_queries := (ss_queries s)(qid \<mapsto> q)\<rparr>
             in upd_server sid (\<lambda>sv. sv\<lparr>sv_recv_io := False, sv_query := Some qid,
                                          sv_stage := STAGE_RESOLVE\<rparr>) s)))"

text \<open>Data for the remote, in \<open>STAGE_STREAM\<close>.\<close>

definition server_forward ::
    "io \<Rightarrow> nat \<Rightarrow> nat \<Rightarrow> ('c, 'w, 're) ss \<Rightarrow> ('c, 'w, 're) ss res" where
  "server_forward io sid rid s =
     bindr (get_remote s rid) (\<lambda>r.
     bindr (mem_read (buf_data (rm_buf r)) 0 (buf_len (rm_buf r))) (\<lambda>d.
       case io_send io of
         Send_again \<Rightarrow>
           bindr (upd_remote rid (\<lambda>r. r\<lparr>rm_buf := (rm_buf r)\<lparr>buf_idx := 0\<rparr>, rm_send_io := True\<rparr>) s)
             (upd_server sid (\<lambda>sv. sv\<lparr>sv_recv_io := False\<rparr>))
       | Send_err \<Rightarrow> close_both (Some rid) sid s
       | Send n \<Rightarrow>
           let n = min n (length d); s = trace (Sent_remote rid (take n d)) s in
           if n < buf_len (rm_buf r) then
             bindr (upd_remote rid (\<lambda>r. r\<lparr>rm_buf := (rm_buf r)\<lparr>buf_len := buf_len (rm_buf r) - n, buf_idx := n\<rparr>,
                                          rm_send_io := True\<rparr>) s)
               (upd_server sid (\<lambda>sv. sv\<lparr>sv_recv_io := False\<rparr>))
           else Inr s))"

text \<open>
  \<open>store_buf\<close> writes back the buffer \<open>recv\<close> filled: the remote's in \<open>STAGE_STREAM\<close>, the server's otherwise.
\<close>

definition store_buf :: "nat option \<Rightarrow> nat \<Rightarrow> buffer \<Rightarrow> ('c, 'w, 're) ss \<Rightarrow> ('c, 'w, 're) ss res" where
  "store_buf ro sid b s =
     (case ro of
        Some rid \<Rightarrow> upd_remote rid (\<lambda>r. r\<lparr>rm_buf := b\<rparr>) s
      | None \<Rightarrow> upd_server sid (\<lambda>sv. sv\<lparr>sv_buf := b\<rparr>) s)"

definition load_buf :: "nat option \<Rightarrow> nat \<Rightarrow> ('c, 'w, 're) ss \<Rightarrow> buffer res" where
  "load_buf ro sid s =
     (case ro of
        Some rid \<Rightarrow> bindr (get_remote s rid) (\<lambda>r. Inr (rm_buf r))
      | None \<Rightarrow> bindr (get_server s sid) (\<lambda>sv. Inr (sv_buf sv)))"

definition server_recv_data ::
    "('c, 'w, 're) env \<Rightarrow> io \<Rightarrow> bytes \<Rightarrow> nat option \<Rightarrow> nat \<Rightarrow> ('c, 'w, 're) ss \<Rightarrow> ('c, 'w, 're) ss res" where
  "server_recv_data E io bs remote sid s =
     bindr (load_buf remote sid s) (\<lambda>buf.
     bindr (mem_write (buf_data buf) 0 bs) (\<lambda>d.
       let buf = buf\<lparr>buf_data := d\<rparr> in
       bindr (store_buf remote sid buf s) (\<lambda>s.
       bindr (get_server s sid) (\<lambda>sv.
         if sv_stage sv = STAGE_STOP then Inr s
         else
           let s = s\<lparr>ss_tx := ss_tx s + of_nat (length bs)\<rparr>; buf = buf\<lparr>buf_len := length bs\<rparr> in
           bindr (en_decrypt E (ss_world s) buf (sv_d_ctx sv) SOCKET_BUF_SIZE) (\<lambda>(err, buf, d_ctx, w).
           bindr (store_buf remote sid buf (s\<lparr>ss_world := w\<rparr>)) (\<lambda>s.
           bindr (upd_server sid (\<lambda>sv. sv\<lparr>sv_d_ctx := d_ctx\<rparr>) s) (\<lambda>s.
             if err = CRYPTO_ERROR then stop_server sid s
             else if err = CRYPTO_NEED_MORE then
               (if sv_stage sv \<noteq> STAGE_STREAM then upd_server sid (\<lambda>sv. sv\<lparr>sv_frag := sv_frag sv + 1\<rparr>) s
                else Inr s)
             else
               bindr (mem_read (buf_data buf) 0 (buf_len buf)) (\<lambda>plain.
                 let s = trace (Plain sid plain) s in
                 if sv_stage sv = STAGE_STREAM then bindr (deref remote) (\<lambda>rid. server_forward io sid rid s)
                 else if sv_stage sv = STAGE_INIT then server_request E io sid s
                 else Inl (Fatal ''server context error'')))))))))"

definition server_recv_cb ::
    "('c, 'w, 're) env \<Rightarrow> io \<Rightarrow> nat \<Rightarrow> ('c, 'w, 're) ss \<Rightarrow> ('c, 'w, 're) ss res" where
  "server_recv_cb E io sid s =
     bindr (get_server s sid) (\<lambda>sv.
     bindr (if sv_stage sv = STAGE_STREAM then
              bindr (deref (sv_remote sv)) (\<lambda>rid.
              bindr (get_remote s rid) (\<lambda>_.
              bindr (if \<not> ip_lock_is_enabled (ss_lock s)
                     then upd_server sid (\<lambda>sv. sv\<lparr>sv_timer := True\<rparr>) s else Inr s)
                (\<lambda>s. Inr (Some rid, s))))
            else Inr (None, s)) (\<lambda>(remote, s).
       case io_recv io of
         Recv_eof \<Rightarrow> close_both remote sid s
       | Recv_again \<Rightarrow> Inr s
       | Recv_err \<Rightarrow> close_both remote sid s
       | Recv bs \<Rightarrow> server_recv_data E io bs remote sid s))"

definition server_send_cb :: "io \<Rightarrow> nat \<Rightarrow> ('c, 'w, 're) ss \<Rightarrow> ('c, 'w, 're) ss res" where
  "server_send_cb io sid s =
     bindr (get_server s sid) (\<lambda>sv.
       case sv_remote sv of
         None \<Rightarrow> close_and_free_server sid s
       | Some rid \<Rightarrow>
           if buf_len (sv_buf sv) = 0 then close_both (Some rid) sid s
           else
             bindr (mem_read (buf_data (sv_buf sv)) (buf_idx (sv_buf sv)) (buf_len (sv_buf sv))) (\<lambda>d.
               case io_send io of
                 Send_again \<Rightarrow> Inr s
               | Send_err \<Rightarrow> close_both (Some rid) sid s
               | Send n \<Rightarrow>
                   let n = min n (length d); s = trace (Sent_client sid (take n d)) s in
                   if n < buf_len (sv_buf sv) then
                     upd_server sid (\<lambda>sv. sv\<lparr>sv_buf := (sv_buf sv)\<lparr>buf_len := buf_len (sv_buf sv) - n,
                                                              buf_idx := buf_idx (sv_buf sv) + n\<rparr>\<rparr>) s
                   else
                     bindr (upd_server sid (\<lambda>sv. sv\<lparr>sv_buf := (sv_buf sv)\<lparr>buf_len := 0, buf_idx := 0\<rparr>,
                                                      sv_send_io := False\<rparr>) s)
                       (upd_remote rid (\<lambda>r. r\<lparr>rm_recv_io := True\<rparr>))))"

definition server_timeout_cb :: "nat \<Rightarrow> ('c, 'w, 're) ss \<Rightarrow> ('c, 'w, 're) ss res" where
  "server_timeout_cb sid s =
     bindr (get_server s sid) (\<lambda>sv. close_both (sv_remote sv) sid s)"

definition resolv_free_cb :: "nat \<Rightarrow> ('c, 'w, 're) ss \<Rightarrow> ('c, 'w, 're) ss res" where
  "resolv_free_cb qid s =
     bindr (get_query s qid) (\<lambda>q.
       bindr (case qr_server q of
                Some sid \<Rightarrow> upd_server sid (\<lambda>sv. sv\<lparr>sv_query := None\<rparr>) s
              | None \<Rightarrow> Inr s)
         (\<lambda>s. Inr (s\<lparr>ss_queries := (ss_queries s)(qid := None)\<rparr>)))"

definition resolv_cb ::
    "('c, 'w, 're) env \<Rightarrow> io \<Rightarrow> sockaddr option \<Rightarrow> nat \<Rightarrow> ('c, 'w, 're) ss \<Rightarrow> ('c, 'w, 're) ss res" where
  "resolv_cb E io addr qid s =
     bindr (get_query s qid) (\<lambda>q.
       case qr_server q of
         None \<Rightarrow> Inr s
       | Some sid \<Rightarrow>
           bindr (get_server s sid) (\<lambda>_.
             case addr of
               None \<Rightarrow> close_and_free_server sid s
             | Some a \<Rightarrow>
                 bindr (connect_to_remote E io a sid s) (\<lambda>(ro, s).
                   case ro of
                     None \<Rightarrow> close_and_free_server sid s
                   | Some rid \<Rightarrow>
                       bindr (attach_remote E rid sid s)
                         (upd_remote rid (\<lambda>r. r\<lparr>rm_send_io := True\<rparr>)))))"

text \<open>The resolver calls \<open>resolv_cb\<close> and then \<open>resolv_free_cb\<close> for every query.\<close>

definition resolved ::
    "('c, 'w, 're) env \<Rightarrow> io \<Rightarrow> sockaddr option \<Rightarrow> nat \<Rightarrow> ('c, 'w, 're) ss \<Rightarrow> ('c, 'w, 're) ss res" where
  "resolved E io addr qid s = bindr (resolv_cb E io addr qid s) (resolv_free_cb qid)"

definition remote_recv_data ::
    "('c, 'w, 're) env \<Rightarrow> io \<Rightarrow> bytes \<Rightarrow> nat \<Rightarrow> nat \<Rightarrow> ('c, 'w, 're) ss \<Rightarrow> ('c, 'w, 're) ss res" where
  "remote_recv_data E io bs rid sid s =
     bindr (get_server s sid) (\<lambda>sv.
     bindr (mem_write (buf_data (sv_buf sv)) 0 bs) (\<lambda>d.
     bindr (upd_server sid (\<lambda>sv. sv\<lparr>sv_buf := (sv_buf sv)\<lparr>buf_data := d\<rparr>\<rparr>) s) (\<lambda>s.
       let s = s\<lparr>ss_rx := ss_rx s + of_nat (length bs)\<rparr> in
       if sv_stage sv = STAGE_STOP then Inr s
       else
         bindr (en_encrypt E (ss_world s) ((sv_buf sv)\<lparr>buf_data := d, buf_len := length bs\<rparr>) (sv_e_ctx sv)
                  SOCKET_BUF_SIZE) (\<lambda>(err, buf, e_ctx, w).
         bindr (upd_server sid (\<lambda>sv. sv\<lparr>sv_buf := buf, sv_e_ctx := e_ctx\<rparr>) (s\<lparr>ss_world := w\<rparr>)) (\<lambda>s.
           if err \<noteq> 0 then close_both (Some rid) sid s
           else
             bindr (mem_read (buf_data buf) 0 (buf_len buf)) (\<lambda>c.
             let s = trace (Cipher sid c) s; connected = upd_remote rid (\<lambda>r. r\<lparr>rm_recv_connected := True\<rparr>) in
             case io_send io of
               Send_again \<Rightarrow>
                 bindr (upd_server sid (\<lambda>sv. sv\<lparr>sv_buf := buf\<lparr>buf_idx := 0\<rparr>, sv_send_io := True\<rparr>) s) (\<lambda>s.
                 bindr (upd_remote rid (\<lambda>r. r\<lparr>rm_recv_io := False\<rparr>) s) connected)
             | Send_err \<Rightarrow> close_both (Some rid) sid s
             | Send n \<Rightarrow>
                 let n = min n (length c); s = trace (Sent_client sid (take n c)) s in
                 if n < buf_len buf then
                   bindr (upd_server sid (\<lambda>sv. sv\<lparr>sv_buf := buf\<lparr>buf_len := buf_len buf - n, buf_idx := n\<rparr>,
                                                    sv_send_io := True\<rparr>) s) (\<lambda>s.
                   bindr (upd_remote rid (\<lambda>r. r\<lparr>rm_recv_io := False\<rparr>) s) connected)
                 else connected s))))))"

definition remote_recv_cb ::
    "('c, 'w, 're) env \<Rightarrow> io \<Rightarrow> nat \<Rightarrow> ('c, 'w, 're) ss \<Rightarrow> ('c, 'w, 're) ss res" where
  "remote_recv_cb E io rid s =
     bindr (get_remote s rid) (\<lambda>r.
       case rm_server r of
         None \<Rightarrow> close_and_free_remote (Some rid) s
       | Some sid \<Rightarrow>
           bindr (if \<not> ip_lock_is_enabled (ss_lock s)
                  then upd_server sid (\<lambda>sv. sv\<lparr>sv_timer := True\<rparr>) s else Inr s) (\<lambda>s.
             case io_recv io of
               Recv_eof \<Rightarrow> close_both (Some rid) sid s
             | Recv_again \<Rightarrow> Inr s
             | Recv_err \<Rightarrow> close_both (Some rid) sid s
             | Recv bs \<Rightarrow> remote_recv_data E io bs rid sid s))"

definition remote_send_data :: "io \<Rightarrow> nat \<Rightarrow> nat \<Rightarrow> ('c, 'w, 're) ss \<Rightarrow> ('c, 'w, 're) ss res" where
  "remote_send_data io rid sid s =
     bindr (get_remote s rid) (\<lambda>r.
       if buf_len (rm_buf r) = 0 then close_both (Some rid) sid s
       else
         bindr (mem_read (buf_data (rm_buf r)) (buf_idx (rm_buf r)) (buf_len (rm_buf r))) (\<lambda>d.
           case io_send io of
             Send_again \<Rightarrow> Inr s
           | Send_err \<Rightarrow> close_both (Some rid) sid s
           | Send n \<Rightarrow>
               let n = min n (length d); s = trace (Sent_remote rid (take n d)) s in
               if n < buf_len (rm_buf r) then
                 upd_remote rid (\<lambda>r. r\<lparr>rm_buf := (rm_buf r)\<lparr>buf_len := buf_len (rm_buf r) - n,
                                                       buf_idx := buf_idx (rm_buf r) + n\<rparr>\<rparr>) s
               else
                 bindr (upd_remote rid (\<lambda>r. r\<lparr>rm_buf := (rm_buf r)\<lparr>buf_len := 0, buf_idx := 0\<rparr>,
                                              rm_send_io := False\<rparr>) s) (\<lambda>s.
                 bindr (get_server s sid) (\<lambda>sv.
                 bindr (upd_server sid (\<lambda>sv. sv\<lparr>sv_recv_io := True\<rparr>) s) (\<lambda>s.
                   if sv_stage sv \<noteq> STAGE_STREAM then
                     bindr (upd_server sid (\<lambda>sv. sv\<lparr>sv_stage := STAGE_STREAM\<rparr>) s)
                       (upd_remote rid (\<lambda>r. r\<lparr>rm_recv_io := True\<rparr>))
                   else Inr s)))))"

definition remote_send_cb :: "io \<Rightarrow> nat \<Rightarrow> ('c, 'w, 're) ss \<Rightarrow> ('c, 'w, 're) ss res" where
  "remote_send_cb io rid s =
     bindr (get_remote s rid) (\<lambda>r.
       case rm_server r of
         None \<Rightarrow> close_and_free_remote (Some rid) s
       | Some sid \<Rightarrow>
           if \<not> rm_send_connected r then
             if io_peername io then
               bindr (upd_remote rid (\<lambda>r. r\<lparr>rm_send_connected := True\<rparr>) s) (\<lambda>s.
                 if buf_len (rm_buf r) = 0 then
                   bindr (upd_server sid (\<lambda>sv. sv\<lparr>sv_stage := STAGE_STREAM, sv_recv_io := True\<rparr>) s)
                     (upd_remote rid (\<lambda>r. r\<lparr>rm_send_io := False, rm_recv_io := True\<rparr>))
                 else remote_send_data io rid sid s)
             else close_both (Some rid) sid s
           else remote_send_data io rid sid s)"

text \<open>
  A new client: \<open>peer\<close> is its address as \<open>get_peer_name\<close> formats it, \<open>None\<close> when \<open>getpeername\<close> fails.
\<close>

definition accept_admit ::
    "('c, 'w, 're) env \<Rightarrow> bytes option \<Rightarrow> ('c, 'w, 're) ss \<Rightarrow> (bool \<times> ('c, 'w, 're) ss) res" where
  "accept_admit E peer s =
     (case peer of
        None \<Rightarrow> Inr (True, s)
      | Some p \<Rightarrow>
          if en_acl_on E \<and>
             (get_acl_mode (ss_acl s) = BLACK_LIST \<and> acl_match_host (en_acl E) (ss_acl s) p = 1 \<or>
              get_acl_mode (ss_acl s) = WHITE_LIST \<and> acl_match_host (en_acl E) (ss_acl s) p \<ge> 0)
          then Inr (False, trace (Refused p) s)
          else
            bindr (check_ip_lock_allowed p s) (\<lambda>(ok, s).
              if \<not> ok then
                bindr (if ip_lock_is_enabled (ss_lock s)
                       then update_ip_lock_status (s\<lparr>ss_lock := ip_lock_record_blocked (ss_os s) p (ss_lock s)\<rparr>)
                       else Inr s) (\<lambda>s. Inr (False, trace (Refused p) s))
              else
                Inr (True, if ip_lock_is_enabled (ss_lock s)
                           then s\<lparr>ss_lock := ip_lock_record_incoming (ss_os s) p (ss_lock s)\<rparr> else s)))"

definition accept_cb ::
    "('c, 'w, 're) env \<Rightarrow> bytes option \<Rightarrow> ('c, 'w, 're) ss \<Rightarrow> ('c, 'w, 're) ss res" where
  "accept_cb E peer s =
     bindr (accept_admit E peer s) (\<lambda>(ok, s).
       if \<not> ok then Inr s
       else
         bindr (new_server E s) (\<lambda>(sid, s).
         bindr (case peer of
                  Some p \<Rightarrow> upd_server sid (\<lambda>sv. sv\<lparr>sv_peer_ip := str_copy INET6_ADDRSTRLEN p\<rparr>) s
                | None \<Rightarrow> Inr s) (\<lambda>s.
         bindr (update_ip_lock_status s) (\<lambda>s.
           upd_server sid (\<lambda>sv. sv\<lparr>sv_recv_io := True,
                                    sv_timer := \<not> ip_lock_is_enabled (ss_lock s)\<rparr>) s))))"

text \<open>The message of \<open>stat_update_cb\<close> and its effect on the status file; \<open>io\<close> is whether the datagram was sent.\<close>

definition stat_message :: "bytes \<Rightarrow> u64 \<Rightarrow> u64 \<Rightarrow> bytes" where
  "stat_message port t r =
     take (SOCKET_BUF_SIZE - 1)
       (bstr ''stat: {\"'' @ port @ bstr ''\":'' @ dec_str (unat (t + r)) @ bstr ''}'')"

definition stat_update_cb :: "bool \<Rightarrow> ('c, 'w, 're) ss \<Rightarrow> ('c, 'w, 're) ss res" where
  "stat_update_cb sent s =
     (if sent \<and> ip_lock_is_enabled (ss_lock s) then update_ip_lock_status s else Inr s)"

section \<open>Steps\<close>

text \<open>
  What the event loop may call next: a callback of a started watcher, an accepted client, an
  answer of the resolver, the passing of time, the statistics timer, and, at any moment, another
  process (the manager, an administrator) that leaves the files and their permissions in any state.
  \<open>recv\<close> delivers at least one byte and at most what was asked for.
\<close>

definition io_ok :: "io \<Rightarrow> bool" where
  "io_ok io = (case io_recv io of Recv bs \<Rightarrow> bs \<noteq> [] \<and> length bs \<le> SOCKET_BUF_SIZE | _ \<Rightarrow> True)"

datatype ev =
  Accept "bytes option"
| Server_recv io nat
| Server_send io nat
| Server_timeout nat
| Remote_recv io nat
| Remote_send io nat
| Resolved io "sockaddr option" nat
| Stat bool
| Tick int
| Files os

fun enabled :: "('c, 'w, 're) ss \<Rightarrow> ev \<Rightarrow> bool" where
  "enabled s (Accept peer) = (case peer of Some p \<Rightarrow> p = [] \<or> ip_str p | None \<Rightarrow> True)"
| "enabled s (Server_recv io sid) = (io_ok io \<and> (case ss_servers s sid of Some sv \<Rightarrow> sv_recv_io sv | None \<Rightarrow> False))"
| "enabled s (Server_send io sid) = (io_ok io \<and> (case ss_servers s sid of Some sv \<Rightarrow> sv_send_io sv | None \<Rightarrow> False))"
| "enabled s (Server_timeout sid) = (case ss_servers s sid of Some sv \<Rightarrow> sv_timer sv | None \<Rightarrow> False)"
| "enabled s (Remote_recv io rid) = (io_ok io \<and> (case ss_remotes s rid of Some r \<Rightarrow> rm_recv_io r | None \<Rightarrow> False))"
| "enabled s (Remote_send io rid) = (io_ok io \<and> (case ss_remotes s rid of Some r \<Rightarrow> rm_send_io r | None \<Rightarrow> False))"
| "enabled s (Resolved io a qid) = (ss_queries s qid \<noteq> None)"
| "enabled s (Stat sent) = True"
| "enabled s (Tick dt) = (0 \<le> dt)"
| "enabled s (Files w) = True"

fun handle :: "('c, 'w, 're) env \<Rightarrow> ev \<Rightarrow> ('c, 'w, 're) ss \<Rightarrow> ('c, 'w, 're) ss res" where
  "handle E (Accept peer) s = accept_cb E peer s"
| "handle E (Server_recv io sid) s = server_recv_cb E io sid s"
| "handle E (Server_send io sid) s = server_send_cb io sid s"
| "handle E (Server_timeout sid) s = server_timeout_cb sid s"
| "handle E (Remote_recv io rid) s = remote_recv_cb E io rid s"
| "handle E (Remote_send io rid) s = remote_send_cb io rid s"
| "handle E (Resolved io a qid) s = resolved E io a qid s"
| "handle E (Stat sent) s = stat_update_cb sent s"
| "handle E (Tick dt) s = Inr (s\<lparr>ss_os := (ss_os s)\<lparr>os_time := os_time (ss_os s) + dt\<rparr>\<rparr>)"
| "handle E (Files w) s = Inr (s\<lparr>ss_os := w\<lparr>os_time := os_time (ss_os s)\<rparr>\<rparr>)"

definition ss_start :: "ip_lock \<Rightarrow> os \<Rightarrow> 'w \<Rightarrow> 're acl \<Rightarrow> bool \<Rightarrow> ('c, 'w, 're) ss" where
  "ss_start L w world A fast =
     \<lparr>ss_servers = Map.empty, ss_remotes = Map.empty, ss_queries = Map.empty, ss_conns = [], ss_next = 0,
      ss_lock = L, ss_os = w, ss_world = world, ss_acl = A, ss_fast_open = fast, ss_tx = 0, ss_rx = 0,
      ss_trace = []\<rparr>"

inductive reach :: "('c, 'w, 're) env \<Rightarrow> ('c, 'w, 're) ss \<Rightarrow> ('c, 'w, 're) ss \<Rightarrow> bool" for E s0 where
  reach_start: "reach E s0 s0"
| reach_step: "reach E s0 s \<Longrightarrow> enabled s e \<Longrightarrow> handle E e s = Inr s' \<Longrightarrow> reach E s0 s'"

text \<open>The runs during which no other process touches the files.\<close>

fun own_event :: "ev \<Rightarrow> bool" where
  "own_event (Files w) = False"
| "own_event e = True"

inductive reach_alone :: "('c, 'w, 're) env \<Rightarrow> ('c, 'w, 're) ss \<Rightarrow> ('c, 'w, 're) ss \<Rightarrow> bool" for E s0 where
  alone_start: "reach_alone E s0 s0"
| alone_step: "reach_alone E s0 s \<Longrightarrow> enabled s e \<Longrightarrow> own_event e \<Longrightarrow> handle E e s = Inr s' \<Longrightarrow> reach_alone E s0 s'"

end
