(* ===== verification/Server_Inv.thy ===== *)
theory Server_Inv
  imports Server
begin

text \<open>
  The invariant of the relay and the rules by which the callbacks keep it.

  \<open>links\<close> is the shape of the heap: \<open>server\<close>, \<open>remote\<close> and \<open>query\<close> objects point to each other or to
  nothing, the list of connections holds exactly the live servers, every socket buffer is a block
  of at least \<open>SOCKET_BUF_SIZE\<close> bytes. \<open>flow\<close> is the protocol between the two watchers of a
  connection and its stage, together with the accounting of the relayed bytes: the payload the
  cipher delivered is what the kernel took for the remote followed by what is buffered for it, and
  the ciphertext produced is what the kernel took for the client followed by what is buffered.
  \<open>inv_x X\<close> asks the latter of all connections but those in \<open>X\<close>, which are in the middle of a callback.
\<close>

section \<open>Results\<close>

text \<open>
  The ways a callback may end: in a state with property \<open>P\<close>, in one of the two deliberate exits of
  the process, or, where \<open>ov\<close> allows it, by reading past the end of \<open>host\<close>.
\<close>

definition deliberate :: "fault set" where
  "deliberate = {Fatal ''cannot bind socket'', Fatal ''failed to set TCP_FASTOPEN_CONNECT''}"

definition safe :: "bool \<Rightarrow> ('a \<Rightarrow> bool) \<Rightarrow> 'a res \<Rightarrow> bool" where
  "safe ov P m = (case m of Inr x \<Rightarrow> P x | Inl f \<Rightarrow> f \<in> deliberate \<or> ov \<and> f = Out_of_bounds)"

lemma safe_simps [simp]:
  "safe ov P (Inr x) = P x"
  "safe ov P (bindr m f) = safe ov (\<lambda>x. safe ov P (f x)) m"
  by (cases m; simp add: safe_def)+

lemma safe_mono: "safe ov P m \<Longrightarrow> (\<And>x. P x \<Longrightarrow> Q x) \<Longrightarrow> (ov \<Longrightarrow> ov') \<Longrightarrow> safe ov' Q m"
  by (auto simp: safe_def split: sum.splits)

lemma safe_eq: "m = Inr x \<Longrightarrow> P x \<Longrightarrow> safe ov P m"
  by simp

section \<open>Accounting\<close>

definition sock_buf :: "buffer \<Rightarrow> bool" where
  "sock_buf b \<longleftrightarrow> length (buf_data b) = buf_capacity b \<and> SOCKET_BUF_SIZE \<le> buf_capacity b"

definition window :: "buffer \<Rightarrow> bool" where
  "window b \<longleftrightarrow> buf_idx b + buf_len b \<le> buf_capacity b"

definition plain_of :: "nat \<Rightarrow> event_out list \<Rightarrow> bytes" where
  "plain_of sid tr = concat (map (\<lambda>e. case e of Plain i d \<Rightarrow> if i = sid then d else [] | _ \<Rightarrow> []) tr)"

definition cipher_of :: "nat \<Rightarrow> event_out list \<Rightarrow> bytes" where
  "cipher_of sid tr = concat (map (\<lambda>e. case e of Cipher i d \<Rightarrow> if i = sid then d else [] | _ \<Rightarrow> []) tr)"

definition to_remote :: "nat \<Rightarrow> event_out list \<Rightarrow> bytes" where
  "to_remote rid tr = concat (map (\<lambda>e. case e of Sent_remote i d \<Rightarrow> if i = rid then d else [] | _ \<Rightarrow> []) tr)"

definition to_client :: "nat \<Rightarrow> event_out list \<Rightarrow> bytes" where
  "to_client sid tr = concat (map (\<lambda>e. case e of Sent_client i d \<Rightarrow> if i = sid then d else [] | _ \<Rightarrow> []) tr)"

lemmas projections = plain_of_def cipher_of_def to_remote_def to_client_def

lemma projections_append [simp]:
  "plain_of i (a @ b) = plain_of i a @ plain_of i b" "cipher_of i (a @ b) = cipher_of i a @ cipher_of i b"
  "to_remote i (a @ b) = to_remote i a @ to_remote i b" "to_client i (a @ b) = to_client i a @ to_client i b"
  by (simp_all add: projections)

lemma projections_Cons [simp]:
  "plain_of i (e # es) = (case e of Plain j d \<Rightarrow> if j = i then d else [] | _ \<Rightarrow> []) @ plain_of i es"
  "cipher_of i (e # es) = (case e of Cipher j d \<Rightarrow> if j = i then d else [] | _ \<Rightarrow> []) @ cipher_of i es"
  "to_remote i (e # es) = (case e of Sent_remote j d \<Rightarrow> if j = i then d else [] | _ \<Rightarrow> []) @ to_remote i es"
  "to_client i (e # es) = (case e of Sent_client j d \<Rightarrow> if j = i then d else [] | _ \<Rightarrow> []) @ to_client i es"
  by (simp_all add: projections)

lemma projections_nil [simp]: "plain_of i [] = []" "cipher_of i [] = []" "to_remote i [] = []" "to_client i [] = []"
  by (simp_all add: projections)

text \<open>Whose event it is: that of a client connection, of a remote one, or of nobody.\<close>

definition about :: "nat set \<Rightarrow> nat set \<Rightarrow> event_out \<Rightarrow> bool" where
  "about S R e = (case e of Sent_client i _ \<Rightarrow> i \<in> S | Closed_client i \<Rightarrow> i \<in> S | Plain i _ \<Rightarrow> i \<in> S
     | Cipher i _ \<Rightarrow> i \<in> S | Sent_remote i _ \<Rightarrow> i \<in> R | Closed_remote i \<Rightarrow> i \<in> R | Refused _ \<Rightarrow> True)"

lemma about_simps [simp]:
  "about S R (Sent_client i d) = (i \<in> S)" "about S R (Closed_client i) = (i \<in> S)" "about S R (Plain i d) = (i \<in> S)"
  "about S R (Cipher i d) = (i \<in> S)" "about S R (Sent_remote i d) = (i \<in> R)" "about S R (Closed_remote i) = (i \<in> R)"
  "about S R (Refused p)"
  by (simp_all add: about_def)

lemma about_mono: "about S R e \<Longrightarrow> S \<subseteq> S' \<Longrightarrow> R \<subseteq> R' \<Longrightarrow> about S' R' e"
  by (cases e) auto

lemma projections_other:
  assumes "\<forall>e\<in>set es. about S R e"
  shows "i \<notin> S \<Longrightarrow> plain_of i es = []" "i \<notin> S \<Longrightarrow> cipher_of i es = []"
    "i \<notin> R \<Longrightarrow> to_remote i es = []" "i \<notin> S \<Longrightarrow> to_client i es = []"
proof -
  have "\<forall>e\<in>set es. i \<notin> S \<longrightarrow> plain_of i [e] = [] \<and> cipher_of i [e] = [] \<and> to_client i [e] = []"
       "\<forall>e\<in>set es. i \<notin> R \<longrightarrow> to_remote i [e] = []"
    using assms by (auto split: event_out.splits)
  then show "i \<notin> S \<Longrightarrow> plain_of i es = []" "i \<notin> S \<Longrightarrow> cipher_of i es = []"
    "i \<notin> R \<Longrightarrow> to_remote i es = []" "i \<notin> S \<Longrightarrow> to_client i es = []"
    by (auto simp: projections)
qed

text \<open>The length of the address header at the front of the plaintext, and what follows it.\<close>

definition header_len :: "bytes \<Rightarrow> nat" where
  "header_len p =
     (if p ! 0 AND 0xF = 1 then 7 else if p ! 0 AND 0xF = 3 then unat (p ! 1) + 4 else 19)"

definition has_header :: "bytes \<Rightarrow> bool" where
  "has_header p \<longleftrightarrow> 2 \<le> length p \<and> header_len p \<le> length p"

definition payload :: "bytes \<Rightarrow> bytes" where
  "payload p = drop (header_len p) p"

lemma has_header_append: "has_header p \<Longrightarrow> has_header (p @ q)"
  by (auto simp: has_header_def header_len_def nth_append)

lemma payload_append: "has_header p \<Longrightarrow> payload (p @ q) = payload p @ q"
  by (auto simp: has_header_def payload_def header_len_def nth_append)

section \<open>The invariant\<close>

definition linked :: "('c, 'w, 're) ss \<Rightarrow> 'c server \<Rightarrow> (nat \<times> remote) option" where
  "linked s sv = (case sv_remote sv of None \<Rightarrow> None | Some rid \<Rightarrow> map_option (Pair rid) (ss_remotes s rid))"

definition up_pending :: "remote \<Rightarrow> bytes" where
  "up_pending r = (if rm_send_io r then buf_bytes (rm_buf r) else [])"

definition down_pending :: "'c server \<Rightarrow> bytes" where
  "down_pending sv = (if sv_send_io sv then buf_bytes (sv_buf sv) else [])"

definition up_ok :: "event_out list \<Rightarrow> nat \<Rightarrow> nat \<Rightarrow> remote \<Rightarrow> bool" where
  "up_ok tr sid rid r \<longleftrightarrow> has_header (plain_of sid tr) \<and>
     payload (plain_of sid tr) = to_remote rid tr @ up_pending r"

definition down_ok :: "event_out list \<Rightarrow> nat \<Rightarrow> 'c server \<Rightarrow> bool" where
  "down_ok tr sid sv \<longleftrightarrow> cipher_of sid tr = to_client sid tr @ down_pending sv"

definition starting :: "event_out list \<Rightarrow> nat \<Rightarrow> 'c server \<Rightarrow> nat \<Rightarrow> remote \<Rightarrow> bool" where
  "starting tr sid sv rid r \<longleftrightarrow> \<not> sv_recv_io sv \<and> rm_send_io r \<and> \<not> rm_recv_io r \<and> window (rm_buf r) \<and> up_ok tr sid rid r"

definition flow :: "event_out list \<Rightarrow> nat \<Rightarrow> 'c server \<Rightarrow> (nat \<times> remote) option \<Rightarrow> bool" where
  "flow tr sid sv ro =
     (case sv_stage sv of
        STAGE_INIT \<Rightarrow> \<not> sv_send_io sv \<and> down_ok tr sid sv \<and> sv_query sv = None \<and>
          (case ro of None \<Rightarrow> sv_recv_io sv \<and> plain_of sid tr = []
           | Some (rid, r) \<Rightarrow> starting tr sid sv rid r)
      | STAGE_RESOLVE \<Rightarrow> \<not> sv_send_io sv \<and> down_ok tr sid sv \<and>
          (case ro of None \<Rightarrow> \<not> sv_recv_io sv \<and> sv_query sv \<noteq> None \<and> window (sv_buf sv) \<and>
                              has_header (plain_of sid tr) \<and> payload (plain_of sid tr) = buf_bytes (sv_buf sv)
           | Some (rid, r) \<Rightarrow> sv_query sv = None \<and> starting tr sid sv rid r)
      | STAGE_STREAM \<Rightarrow> sv_query sv = None \<and> down_ok tr sid sv \<and> (sv_send_io sv \<longrightarrow> window (sv_buf sv)) \<and>
          (case ro of None \<Rightarrow> False
           | Some (rid, r) \<Rightarrow> rm_send_connected r \<and> up_ok tr sid rid r \<and> (rm_send_io r \<longrightarrow> window (rm_buf r)) \<and>
               rm_send_io r = (\<not> sv_recv_io sv) \<and> rm_recv_io r = (\<not> sv_send_io sv))
      | STAGE_STOP \<Rightarrow> sv_query sv = None \<and> sv_recv_io sv \<and> (sv_send_io sv \<longrightarrow> window (sv_buf sv)) \<and>
          (case ro of None \<Rightarrow> True
           | Some (rid, r) \<Rightarrow> rm_send_connected r \<and> \<not> rm_send_io r \<and> rm_recv_io r = (\<not> sv_send_io sv)))"

lemma flow_frame:
  assumes "\<forall>e\<in>set es. about S R e" "sid \<notin> S" "\<And>rid r. ro = Some (rid, r) \<Longrightarrow> rid \<notin> R"
  shows "flow (tr @ es) sid sv ro = flow tr sid sv ro"
  using assms(2,3) projections_other [OF assms(1)]
  by (auto simp: flow_def starting_def up_ok_def down_ok_def split: stage.splits option.splits)

definition srv_ok :: "('c \<Rightarrow> bool) \<Rightarrow> ('c \<Rightarrow> bool) \<Rightarrow> 'c server \<Rightarrow> bool" where
  "srv_ok einv dinv sv \<longleftrightarrow> sock_buf (sv_buf sv) \<and> einv (sv_e_ctx sv) \<and>
     (sv_stage sv \<noteq> STAGE_STOP \<longrightarrow> dinv (sv_d_ctx sv)) \<and> (sv_peer_ip sv = [] \<or> ip_str (sv_peer_ip sv))"

definition srv_links :: "('c, 'w, 're) ss \<Rightarrow> nat \<Rightarrow> 'c server \<Rightarrow> bool" where
  "srv_links s sid sv \<longleftrightarrow>
     (\<forall>rid. sv_remote sv = Some rid \<longrightarrow> (\<exists>r. ss_remotes s rid = Some r \<and> rm_server r = Some sid)) \<and>
     (\<forall>qid. sv_query sv = Some qid \<longrightarrow> (\<exists>q. ss_queries s qid = Some q \<and> qr_server q = Some sid))"

definition rem_links :: "('c, 'w, 're) ss \<Rightarrow> nat \<Rightarrow> remote \<Rightarrow> bool" where
  "rem_links s rid r \<longleftrightarrow>
     (\<forall>sid. rm_server r = Some sid \<longrightarrow> (\<exists>sv. ss_servers s sid = Some sv \<and> sv_remote sv = Some rid))"

definition qry_links :: "('c, 'w, 're) ss \<Rightarrow> nat \<Rightarrow> query \<Rightarrow> bool" where
  "qry_links s qid q \<longleftrightarrow>
     (\<forall>sid. qr_server q = Some sid \<longrightarrow> (\<exists>sv. ss_servers s sid = Some sv \<and> sv_query sv = Some qid))"

definition links :: "('w \<Rightarrow> bool) \<Rightarrow> ('c \<Rightarrow> bool) \<Rightarrow> ('c \<Rightarrow> bool) \<Rightarrow> ('c, 'w, 're) ss \<Rightarrow> bool" where
  "links winv einv dinv s \<longleftrightarrow>
     (\<forall>sid sv. ss_servers s sid = Some sv \<longrightarrow> sid < ss_next s \<and> srv_ok einv dinv sv \<and> srv_links s sid sv) \<and>
     (\<forall>rid r. ss_remotes s rid = Some r \<longrightarrow> rid < ss_next s \<and> sock_buf (rm_buf r) \<and> rem_links s rid r) \<and>
     (\<forall>qid q. ss_queries s qid = Some q \<longrightarrow> qid < ss_next s \<and> qry_links s qid q) \<and>
     distinct (ss_conns s) \<and> set (ss_conns s) = dom (ss_servers s) \<and>
     winv (ss_world s) \<and> ip_lock_ok (ss_lock s) \<and>
     (\<forall>e\<in>set (ss_trace s). about {..<ss_next s} {..<ss_next s} e)"

definition inv_x :: "('w \<Rightarrow> bool) \<Rightarrow> ('c \<Rightarrow> bool) \<Rightarrow> ('c \<Rightarrow> bool) \<Rightarrow> nat set \<Rightarrow> ('c, 'w, 're) ss \<Rightarrow> bool" where
  "inv_x winv einv dinv X s \<longleftrightarrow> links winv einv dinv s \<and>
     (\<forall>sid sv. ss_servers s sid = Some sv \<longrightarrow> sid \<notin> X \<longrightarrow> flow (ss_trace s) sid sv (linked s sv))"

abbreviation inv :: "('w \<Rightarrow> bool) \<Rightarrow> ('c \<Rightarrow> bool) \<Rightarrow> ('c \<Rightarrow> bool) \<Rightarrow> ('c, 'w, 're) ss \<Rightarrow> bool" where
  "inv winv einv dinv \<equiv> inv_x winv einv dinv {}"

lemma linksI:
  assumes "\<And>sid sv. ss_servers s sid = Some sv \<Longrightarrow> sid < ss_next s \<and> srv_ok e d sv \<and> srv_links s sid sv"
    and "\<And>rid r. ss_remotes s rid = Some r \<Longrightarrow> rid < ss_next s \<and> sock_buf (rm_buf r) \<and> rem_links s rid r"
    and "\<And>qid q. ss_queries s qid = Some q \<Longrightarrow> qid < ss_next s \<and> qry_links s qid q"
    and "distinct (ss_conns s)" "set (ss_conns s) = dom (ss_servers s)" "W (ss_world s)" "ip_lock_ok (ss_lock s)"
    and "\<forall>e\<in>set (ss_trace s). about {..<ss_next s} {..<ss_next s} e"
  shows "links W e d s"
  using assms unfolding links_def by blast

lemma links_server:
  assumes "links W e d s" "ss_servers s sid = Some sv"
  shows "sid < ss_next s" "srv_ok e d sv" "sid \<in> set (ss_conns s)" "srv_links s sid sv"
    "sv_remote sv = Some rid \<Longrightarrow> \<exists>r. ss_remotes s rid = Some r \<and> rm_server r = Some sid"
    "sv_query sv = Some qid \<Longrightarrow> \<exists>q. ss_queries s qid = Some q \<and> qr_server q = Some sid"
  using assms unfolding links_def srv_links_def by blast+

lemma links_remote:
  assumes "links W e d s" "ss_remotes s rid = Some r"
  shows "rid < ss_next s" "sock_buf (rm_buf r)" "rem_links s rid r"
    "rm_server r = Some sid \<Longrightarrow> \<exists>sv. ss_servers s sid = Some sv \<and> sv_remote sv = Some rid"
  using assms unfolding links_def rem_links_def by blast+

lemma links_query:
  assumes "links W e d s" "ss_queries s qid = Some q"
  shows "qid < ss_next s" "qry_links s qid q"
    "qr_server q = Some sid \<Longrightarrow> \<exists>sv. ss_servers s sid = Some sv \<and> sv_query sv = Some qid"
  using assms unfolding links_def qry_links_def by blast+

lemma links_glob:
  assumes "links W e d s"
  shows "W (ss_world s)" "ip_lock_ok (ss_lock s)" "distinct (ss_conns s)" "set (ss_conns s) = dom (ss_servers s)"
    "\<forall>e\<in>set (ss_trace s). about {..<ss_next s} {..<ss_next s} e"
  using assms unfolding links_def by blast+

lemma inv_links: "inv_x W e d X s \<Longrightarrow> links W e d s"
  by (simp add: inv_x_def)

lemma inv_mono: "inv_x W e d X s \<Longrightarrow> X \<subseteq> Y \<Longrightarrow> inv_x W e d Y s"
  by (auto simp: inv_x_def)

lemma inv_flow: "inv_x W e d X s \<Longrightarrow> ss_servers s sid = Some sv \<Longrightarrow> sid \<notin> X \<Longrightarrow> flow (ss_trace s) sid sv (linked s sv)"
  by (simp add: inv_x_def)

lemma inv_finish:
  assumes "inv_x W e d {sid} s" "\<And>sv. ss_servers s sid = Some sv \<Longrightarrow> flow (ss_trace s) sid sv (linked s sv)"
  shows "inv W e d s"
  using assms by (auto simp: inv_x_def)

text \<open>A remote only the connection \<open>sid\<close> may point to.\<close>

definition owned :: "('c, 'w, 're) ss \<Rightarrow> nat \<Rightarrow> nat \<Rightarrow> bool" where
  "owned s sid rid \<longleftrightarrow> rid < ss_next s \<and>
     (\<forall>i sv. ss_servers s i = Some sv \<longrightarrow> sv_remote sv = Some rid \<longrightarrow> i = sid)"

lemma ownedI:
  assumes "links W e d s" "ss_remotes s rid = Some r" "rm_server r = Some sid \<or> rm_server r = None"
  shows "owned s sid rid"
  using assms(2,3) links_remote(1) [OF assms(1,2)] links_server(5) [OF assms(1)]
  by (fastforce simp: owned_def)

lemma linked_Some: "linked s sv = Some (rid, r) \<longleftrightarrow> sv_remote sv = Some rid \<and> ss_remotes s rid = Some r"
  by (auto simp: linked_def split: option.splits)

lemma linked_eq: "sv_remote sv = None \<Longrightarrow> linked s sv = None"
  "sv_remote sv = Some rid \<Longrightarrow> ss_remotes s rid = Some r \<Longrightarrow> linked s sv = Some (rid, r)"
  by (auto simp: linked_def)

text \<open>Events of the connection \<open>sid\<close> and of remotes it owns do not disturb the others.\<close>

lemma flow_others:
  assumes "inv_x W e d {sid} s" "ss_servers s i = Some sv" "i \<noteq> sid"
    and "\<forall>e\<in>set es. about {sid} R e" "\<forall>rid\<in>R. owned s sid rid"
  shows "flow (ss_trace s @ es) i sv (linked s sv)"
proof -
  have "flow (ss_trace s) i sv (linked s sv)" using assms(1-3) by (simp add: inv_x_def)
  moreover have "linked s sv = Some (rid, r) \<Longrightarrow> rid \<notin> R" for rid r
    using assms(2,3,5) by (auto simp: linked_Some owned_def)
  ultimately show ?thesis using flow_frame [OF assms(4), of i "linked s sv" "ss_trace s" sv] assms(3) by simp
qed

lemma trace_ids:
  assumes "links W e d s" "ss_servers s sid = Some sv"
    and "\<forall>e\<in>set es. about {sid} R e" "\<forall>rid\<in>R. owned s sid rid" "ss_next s \<le> n"
  shows "\<forall>e\<in>set (ss_trace s @ es). about {..<n} {..<n} e"
proof -
  have "sid < ss_next s" using links_server(1) [OF assms(1,2)] .
  moreover have "R \<subseteq> {..<ss_next s}" using assms(4) by (auto simp: owned_def)
  ultimately have sub: "{sid} \<subseteq> {..<n}" "R \<subseteq> {..<n}" "{..<ss_next s} \<subseteq> {..<n}" using assms(5) by auto
  have "about {..<n} {..<n} x" if "x \<in> set (ss_trace s)" for x
    using about_mono [OF bspec [OF links_glob(5) [OF assms(1)] that] sub(3,3)] .
  moreover have "about {..<n} {..<n} x" if "x \<in> set es" for x
    using about_mono [OF bspec [OF assms(3) that] sub(1,2)] .
  ultimately show ?thesis by auto
qed

lemma inv_upd_server:
  assumes i: "inv_x W e d {sid} s" and sv: "ss_servers s sid = Some sv"
    and eqs: "ss_servers s' = (ss_servers s)(sid \<mapsto> sv')" "ss_remotes s' = ss_remotes s"
      "ss_queries s' = ss_queries s" "ss_conns s' = ss_conns s" "ss_next s' = ss_next s"
    and keep: "sv_remote sv' = sv_remote sv" "sv_query sv' = sv_query sv" "srv_ok e d sv'"
    and glob: "W (ss_world s')" "ip_lock_ok (ss_lock s')"
    and tr: "ss_trace s' = ss_trace s @ es" "\<forall>e\<in>set es. about {sid} R e" "\<forall>rid\<in>R. owned s sid rid"
  shows "inv_x W e d {sid} s'"
proof -
  note l = inv_links [OF i]
  have "links W e d s'"
  proof (rule linksI)
    show "i < ss_next s' \<and> srv_ok e d sv1 \<and> srv_links s' i sv1" if "ss_servers s' i = Some sv1" for i sv1
      using that links_server(1,2,4) [OF l] sv keep by (auto simp: eqs srv_links_def split: if_splits)
    show "i < ss_next s' \<and> sock_buf (rm_buf r) \<and> rem_links s' i r" if "ss_remotes s' i = Some r" for i r
      using that links_remote(1-3) [OF l, of i r] sv keep by (auto simp: eqs rem_links_def)
    show "i < ss_next s' \<and> qry_links s' i q" if "ss_queries s' i = Some q" for i q
      using that links_query(1,2) [OF l, of i q] sv keep by (auto simp: eqs qry_links_def)
    show "\<forall>e\<in>set (ss_trace s'). about {..<ss_next s'} {..<ss_next s'} e"
      using trace_ids [OF l sv tr(2,3) order.refl] unfolding eqs tr(1) .
  qed (use links_glob(3,4) [OF l] sv glob in \<open>auto simp: eqs\<close>)
  moreover have "flow (ss_trace s') i sv1 (linked s' sv1)" if "ss_servers s' i = Some sv1" "i \<noteq> sid" for i sv1
    using flow_others [OF i _ that(2) tr(2,3), of sv1] that by (simp add: eqs tr(1) linked_def cong: option.case_cong)
  ultimately show ?thesis by (auto simp: inv_x_def)
qed

lemma inv_upd_remote:
  assumes i: "inv_x W e d {sid} s" and r: "ss_remotes s rid = Some r" and p: "owned s sid rid"
    and eqs: "ss_servers s' = ss_servers s" "ss_remotes s' = (ss_remotes s)(rid \<mapsto> r')"
      "ss_queries s' = ss_queries s" "ss_conns s' = ss_conns s" "ss_next s' = ss_next s"
      "ss_world s' = ss_world s" "ss_lock s' = ss_lock s" "ss_trace s' = ss_trace s"
    and keep: "rm_server r' = rm_server r" "sock_buf (rm_buf r')"
  shows "inv_x W e d {sid} s'"
proof -
  note l = inv_links [OF i]
  have "links W e d s'"
  proof (rule linksI)
    show "i < ss_next s' \<and> srv_ok e d sv1 \<and> srv_links s' i sv1" if "ss_servers s' i = Some sv1" for i sv1
      using that links_server(1,2,4) [OF l, of i sv1] r keep by (auto simp: eqs srv_links_def)
    show "i < ss_next s' \<and> sock_buf (rm_buf r1) \<and> rem_links s' i r1" if "ss_remotes s' i = Some r1" for i r1
      using that links_remote(1-3) [OF l] r keep by (auto simp: eqs rem_links_def split: if_splits)
    show "i < ss_next s' \<and> qry_links s' i q" if "ss_queries s' i = Some q" for i q
      using that links_query(1,2) [OF l, of i q] by (auto simp: eqs qry_links_def)
  qed (use links_glob [OF l] in \<open>auto simp: eqs\<close>)
  moreover have "flow (ss_trace s') i sv1 (linked s' sv1)" if "ss_servers s' i = Some sv1" "i \<noteq> sid" for i sv1
  proof -
    have "sv_remote sv1 \<noteq> Some rid" using p that by (auto simp: owned_def eqs)
    then have "linked s' sv1 = linked s sv1" by (auto simp: linked_def eqs split: option.splits)
    then show ?thesis using i that by (simp add: inv_x_def eqs)
  qed
  ultimately show ?thesis by (auto simp: inv_x_def)
qed

section \<open>The status file\<close>

lemma peer_list_eq:
  "set sids \<subseteq> dom (ss_servers s) \<Longrightarrow> peer_list s sids = Inr (map (\<lambda>i. sv_peer_ip (the (ss_servers s i))) sids)"
  by (induction sids) (auto simp: get_server_def)

definition peers :: "('c, 'w, 're) ss \<Rightarrow> bytes list" where
  "peers s = map (\<lambda>i. sv_peer_ip (the (ss_servers s i))) (ss_conns s)"

lemma peers_eq: "links W e d s \<Longrightarrow> peer_list s (ss_conns s) = Inr (peers s)"
  using links_glob(4) by (fastforce simp: peers_def intro: peer_list_eq)

lemma peers_ip_str: "links W e d s \<Longrightarrow> p \<in> set (peers s) \<Longrightarrow> p = [] \<or> ip_str p"
  using links_glob(4) [of W e d s] links_server(2) [of W e d s] by (fastforce simp: peers_def srv_ok_def)

lemma unique_ips_bound:
  "length acc \<le> IP_LOCK_MAX_TRACK_IPS \<Longrightarrow> length (unique_ips ps acc) \<le> IP_LOCK_MAX_TRACK_IPS"
  by (induction ps acc rule: unique_ips.induct) auto

lemma unique_ips_set: "set (unique_ips ps acc) \<subseteq> set acc \<union> (set ps - {[]})"
  by (induction ps acc rule: unique_ips.induct) auto

text \<open>What the callbacks that only report may do to the lock: nothing.\<close>

definition lock_kept :: "ip_lock \<Rightarrow> os \<Rightarrow> ip_lock \<Rightarrow> os \<Rightarrow> bool" where
  "lock_kept L w L' w' \<longleftrightarrow> ip_lock_ok L' \<and> il_enabled L' = il_enabled L \<and> il_locked L' = il_locked L \<and>
     (lock_sync (L, w) \<longrightarrow> lock_sync (L', w'))"

lemma pruned_kept:
  assumes "ip_lock_ok L"
  shows "lock_kept L w (pruned w L) w" "lock_kept L w (pruned w L) (os_write_file w (il_status_path L) c)"
  using assms recent_wf_prune
  by (auto simp: lock_kept_def pruned_def ip_lock_ok_def lock_sync_def os_write_file_def)

lemma update_status:
  assumes "links W e d s"
  shows "\<exists>L w. update_ip_lock_status s = Inr (s\<lparr>ss_lock := L, ss_os := w\<rparr>) \<and> lock_kept (ss_lock s) (ss_os s) L w"
proof -
  note ok = links_glob(2) [OF assms]
  have u: "length (unique_ips (peers s) []) \<le> IP_LOCK_MAX_TRACK_IPS" "\<forall>ip\<in>set (unique_ips (peers s) []). ip_str ip"
    using unique_ips_set [of "peers s" "[]"] peers_ip_str [OF assms] by (auto intro: unique_ips_bound)
  have "lock_kept (ss_lock s) (ss_os s) (ss_lock s) (ss_os s)" using ok by (simp add: lock_kept_def)
  then obtain L w where k: "lock_kept (ss_lock s) (ss_os s) L w"
      "ip_lock_write_status (ss_os s) (length (filter (\<lambda>p. p \<noteq> []) (peers s))) (unique_ips (peers s) []) (ss_lock s) = Inr (L, w)"
    using pruned_kept [OF ok, of "ss_os s"] 
    by (cases "il_status_path (ss_lock s) = []"; cases "os_writable (ss_os s) (il_status_path (ss_lock s))")
      (auto simp: write_status_eq [OF ok u])
  then have "update_ip_lock_status s = Inr (s\<lparr>ss_lock := L, ss_os := w\<rparr>)"
    by (simp add: update_ip_lock_status_def peers_eq [OF assms])
  then show ?thesis using k by blast
qed

section \<open>Closing\<close>

lemma free_remote_inv:
  assumes i: "inv_x W e d {sid} s" and r: "ss_remotes s rid = Some r"
    and own: "rm_server r = Some sid \<or> rm_server r = None"
  shows "\<exists>s'. close_and_free_remote (Some rid) s = Inr s' \<and> inv_x W e d {sid} s' \<and>
     ss_servers s' = (if rm_server r = None then ss_servers s
                      else (ss_servers s)(sid \<mapsto> (the (ss_servers s sid))\<lparr>sv_remote := None\<rparr>)) \<and>
     ss_remotes s' = (ss_remotes s)(rid := None) \<and> ss_queries s' = ss_queries s \<and> ss_conns s' = ss_conns s \<and>
     ss_next s' = ss_next s \<and> ss_lock s' = ss_lock s \<and> ss_os s' = ss_os s"
proof -
  note l = inv_links [OF i]
  have o: "owned s sid rid" using ownedI [OF l r own] .
  have sv: "\<exists>sv. ss_servers s sid = Some sv \<and> sv_remote sv = Some rid" if "rm_server r = Some sid"
    using links_remote(4) [OF l r that] .
  define s' where "s' = (if rm_server r = None then s
      else s\<lparr>ss_servers := (ss_servers s)(sid \<mapsto> (the (ss_servers s sid))\<lparr>sv_remote := None\<rparr>)\<rparr>)
      \<lparr>ss_trace := ss_trace s @ [Closed_remote rid], ss_remotes := (ss_remotes s)(rid := None)\<rparr>"
  have eq: "close_and_free_remote (Some rid) s = Inr s'"
    using r own sv
    by (auto simp: close_and_free_remote_def free_remote_def upd_remote_def get_remote_def upd_server_def
        get_server_def trace_def s'_def)
  have f: "ss_servers s' = (if rm_server r = None then ss_servers s
                      else (ss_servers s)(sid \<mapsto> (the (ss_servers s sid))\<lparr>sv_remote := None\<rparr>))"
     "ss_remotes s' = (ss_remotes s)(rid := None)" "ss_queries s' = ss_queries s" "ss_conns s' = ss_conns s"
     "ss_next s' = ss_next s" "ss_lock s' = ss_lock s" "ss_os s' = ss_os s" "ss_world s' = ss_world s"
     "ss_trace s' = ss_trace s @ [Closed_remote rid]"
    by (auto simp: s'_def)
  have "links W e d s'"
  proof (rule linksI)
    show "i < ss_next s' \<and> srv_ok e d sv1 \<and> srv_links s' i sv1" if g: "ss_servers s' i = Some sv1" for i sv1
    proof -
      obtain sv0 where sv0: "ss_servers s i = Some sv0" "sv1 = sv0 \<or> i = sid \<and> sv1 = sv0\<lparr>sv_remote := None\<rparr>"
      proof (cases "rm_server r = None \<or> i \<noteq> sid")
        case True
        then show thesis using that g by (auto simp: f split: if_splits)
      next
        case False
        then obtain sv0 where "ss_servers s sid = Some sv0" using sv own by auto
        then show thesis using that [of sv0] g False by (auto simp: f)
      qed
      have "sv_remote sv1 \<noteq> Some rid"
      proof
        assume a: "sv_remote sv1 = Some rid"
        then have "sv_remote sv0 = Some rid" "sv1 = sv0" using sv0(2) by auto
        moreover from this have "rm_server r = Some i" using links_server(5) [OF l sv0(1), of rid] r by auto
        ultimately show False using g a own by (auto simp: f)
      qed
      then show ?thesis
        using sv0 links_server(1,2,4) [OF l sv0(1)] by (auto simp: f srv_links_def srv_ok_def)
    qed
    show "i < ss_next s' \<and> sock_buf (rm_buf r1) \<and> rem_links s' i r1" if "ss_remotes s' i = Some r1" for i r1
      using that links_remote(1-3) [OF l, of i r1] own sv by (auto simp: f rem_links_def split: if_splits)
    show "i < ss_next s' \<and> qry_links s' i q" if "ss_queries s' i = Some q" for i q
      using that links_query(1,2) [OF l, of i q] own sv by (auto simp: f qry_links_def)
    show "\<forall>e\<in>set (ss_trace s'). about {..<ss_next s'} {..<ss_next s'} e"
      using links_glob(5) [OF l] links_remote(1) [OF l r] by (auto simp: f)
    show "set (ss_conns s') = dom (ss_servers s')" using links_glob(4) [OF l] own sv by (auto simp: f)
  qed (use links_glob [OF l] in \<open>auto simp: f\<close>)
  moreover have "flow (ss_trace s') i sv1 (linked s' sv1)" if "ss_servers s' i = Some sv1" "i \<noteq> sid" for i sv1
  proof -
    have sv1: "ss_servers s i = Some sv1" using that by (auto simp: f split: if_splits)
    then have "sv_remote sv1 \<noteq> Some rid" using o that(2) by (auto simp: owned_def)
    then have "linked s' sv1 = linked s sv1" by (auto simp: linked_def f split: option.splits)
    then show ?thesis using flow_others [OF i sv1 that(2), of "[Closed_remote rid]" "{rid}"] o by (simp add: f)
  qed
  ultimately show ?thesis using eq f by (auto simp: inv_x_def)
qed

lemma inv_lock:
  assumes "inv_x W e d X s" "ip_lock_ok L"
  shows "inv_x W e d X (s\<lparr>ss_lock := L, ss_os := w\<rparr>)"
  using assms by (simp add: inv_x_def links_def srv_links_def rem_links_def qry_links_def linked_def cong: option.case_cong)

definition unquery :: "nat option \<Rightarrow> (nat \<Rightarrow> query option) \<Rightarrow> nat \<Rightarrow> query option" where
  "unquery qo m = (case qo of None \<Rightarrow> m | Some qid \<Rightarrow> m(qid \<mapsto> (the (m qid))\<lparr>qr_server := None\<rparr>))"

definition orphan :: "nat option \<Rightarrow> (nat \<Rightarrow> remote option) \<Rightarrow> nat \<Rightarrow> remote option" where
  "orphan ro m = (case ro of None \<Rightarrow> m | Some rid \<Rightarrow> m(rid \<mapsto> (the (m rid))\<lparr>rm_server := None\<rparr>))"

lemma free_server_eq:
  assumes l: "links W e d s" and sv: "ss_servers s sid = Some sv"
  shows "close_and_free_server sid s =
     update_ip_lock_status (s\<lparr>ss_servers := (ss_servers s)(sid := None),
       ss_remotes := orphan (sv_remote sv) (ss_remotes s), ss_queries := unquery (sv_query sv) (ss_queries s),
       ss_conns := remove1 sid (ss_conns s), ss_trace := ss_trace s @ [Closed_client sid]\<rparr>)"
proof -
  have "\<exists>r. sv_remote sv = Some rid \<longrightarrow> ss_remotes s rid = Some r" "\<exists>q. sv_query sv = Some qid \<longrightarrow> ss_queries s qid = Some q"
    for rid qid using links_server(5,6) [OF l sv] by blast+
  then obtain r q where "sv_remote sv = Some rid \<longrightarrow> ss_remotes s rid = Some (r rid)"
      "sv_query sv = Some qid \<longrightarrow> ss_queries s qid = Some (q qid)" for rid qid by metis
  then show ?thesis
    using sv
    by (cases "sv_remote sv"; cases "sv_query sv")
      (simp_all add: close_and_free_server_def get_server_def upd_server_def upd_query_def get_query_def
        free_server_def upd_remote_def get_remote_def trace_def orphan_def unquery_def Let_def,
       (rule arg_cong [where f = update_ip_lock_status], simp)+)
qed

lemma free_server_inv:
  assumes i: "inv_x W e d {sid} s" and sv: "ss_servers s sid = Some sv"
  shows "\<exists>s'. close_and_free_server sid s = Inr s' \<and> inv W e d s' \<and>
     ss_servers s' = (ss_servers s)(sid := None) \<and> ss_remotes s' = orphan (sv_remote sv) (ss_remotes s) \<and>
     ss_queries s' = unquery (sv_query sv) (ss_queries s) \<and> ss_conns s' = remove1 sid (ss_conns s) \<and>
     ss_next s' = ss_next s \<and> lock_kept (ss_lock s) (ss_os s) (ss_lock s') (ss_os s')"
proof -
  note l = inv_links [OF i]
  define s1 where "s1 = s\<lparr>ss_servers := (ss_servers s)(sid := None),
       ss_remotes := orphan (sv_remote sv) (ss_remotes s), ss_queries := unquery (sv_query sv) (ss_queries s),
       ss_conns := remove1 sid (ss_conns s), ss_trace := ss_trace s @ [Closed_client sid]\<rparr>"
  have rem: "\<exists>r0. ss_remotes s j = Some r0 \<and> rm_buf r = rm_buf r0 \<and> rm_server r \<noteq> Some sid \<and>
      (rm_server r = None \<or> rm_server r = rm_server r0)" if "ss_remotes s1 j = Some r" for j r
    using that links_server(5) [OF l sv] links_remote(4) [OF l, of j _ sid] sv
    by (cases "sv_remote sv = Some j") (auto simp: s1_def orphan_def split: option.splits if_splits)
  have qry: "\<exists>q0. ss_queries s j = Some q0 \<and> qr_server q \<noteq> Some sid \<and>
      (qr_server q = None \<or> qr_server q = qr_server q0)" if "ss_queries s1 j = Some q" for j q
    using that links_server(6) [OF l sv] links_query(3) [OF l, of j _ sid] sv
    by (cases "sv_query sv = Some j") (auto simp: s1_def unquery_def split: option.splits if_splits)
  have other: "sv_remote sv1 = Some rid \<Longrightarrow> ss_remotes s1 rid = ss_remotes s rid"
      "sv_query sv1 = Some qid \<Longrightarrow> ss_queries s1 qid = ss_queries s qid"
    if "ss_servers s j = Some sv1" "j \<noteq> sid" for j sv1 rid qid
    using that links_server(5,6) [OF l that(1)] links_server(5,6) [OF l sv]
    by (fastforce simp: s1_def orphan_def unquery_def split: option.splits)+
  have "links W e d s1"
  proof (rule linksI)
    show "j < ss_next s1 \<and> srv_ok e d sv1 \<and> srv_links s1 j sv1" if "ss_servers s1 j = Some sv1" for j sv1
    proof -
      have j: "ss_servers s j = Some sv1" "j \<noteq> sid" using that by (auto simp: s1_def split: if_splits)
      have "srv_links s1 j sv1"
        using other [OF j] links_server(5,6) [OF l j(1)] by (simp add: srv_links_def)
      then show ?thesis using links_server(1,2) [OF l j(1)] by (simp add: s1_def)
    qed
    show "j < ss_next s1 \<and> sock_buf (rm_buf r) \<and> rem_links s1 j r" if g: "ss_remotes s1 j = Some r" for j r
    proof -
      obtain r0 where r0: "ss_remotes s j = Some r0" "rm_buf r = rm_buf r0" "rm_server r \<noteq> Some sid"
          "rm_server r = None \<or> rm_server r = rm_server r0" using rem [OF g] by blast
      have "rem_links s1 j r"
        using links_remote(3) [OF l r0(1)] r0(3,4) by (auto simp: rem_links_def s1_def)
      then show ?thesis using links_remote(1,2) [OF l r0(1)] r0(2) by (simp add: s1_def)
    qed
    show "j < ss_next s1 \<and> qry_links s1 j q" if g: "ss_queries s1 j = Some q" for j q
    proof -
      obtain q0 where q0: "ss_queries s j = Some q0" "qr_server q \<noteq> Some sid"
          "qr_server q = None \<or> qr_server q = qr_server q0" using qry [OF g] by blast
      have "qry_links s1 j q" using links_query(2) [OF l q0(1)] q0(2,3) by (auto simp: qry_links_def s1_def)
      then show ?thesis using links_query(1) [OF l q0(1)] by (simp add: s1_def)
    qed
    show "set (ss_conns s1) = dom (ss_servers s1)" "distinct (ss_conns s1)"
      using links_glob(3,4) [OF l] by (auto simp: s1_def)
    show "\<forall>e\<in>set (ss_trace s1). about {..<ss_next s1} {..<ss_next s1} e"
      using links_glob(5) [OF l] links_server(1) [OF l sv] by (auto simp: s1_def)
  qed (use links_glob [OF l] in \<open>auto simp: s1_def\<close>)
  moreover have "flow (ss_trace s1) j sv1 (linked s1 sv1)" if "ss_servers s1 j = Some sv1" for j sv1
  proof -
    have j: "ss_servers s j = Some sv1" "j \<noteq> sid" using that by (auto simp: s1_def split: if_splits)
    have "linked s1 sv1 = linked s sv1" using other(1) [OF j] by (auto simp: linked_def split: option.splits)
    then show ?thesis using flow_others [OF i j, of "[Closed_client sid]" "{}"] by (simp add: s1_def)
  qed
  ultimately have i1: "inv W e d s1" by (simp add: inv_x_def)
  obtain L w where u: "update_ip_lock_status s1 = Inr (s1\<lparr>ss_lock := L, ss_os := w\<rparr>)"
      "lock_kept (ss_lock s1) (ss_os s1) L w" using update_status [OF inv_links [OF i1]] by blast
  then have "ip_lock_ok L" by (simp add: lock_kept_def)
  then show ?thesis
    using u inv_lock [OF i1, of L w] free_server_eq [OF l sv] by (simp add: s1_def)
qed

section \<open>One callback\<close>

text \<open>
  \<open>quiet s0 s\<close>: since \<open>s0\<close> no connection was added, none changed its address, and the lock is as it was.
  \<open>good s0 X s\<close> is what a callback that began in \<open>s0\<close> knows in \<open>s\<close> while it works on the connections \<open>X\<close>.
\<close>

definition quiet :: "('c, 'w, 're) ss \<Rightarrow> ('c, 'w, 're) ss \<Rightarrow> bool" where
  "quiet s0 s \<longleftrightarrow> lock_kept (ss_lock s0) (ss_os s0) (ss_lock s) (ss_os s) \<and>
     (\<forall>i sv. ss_servers s i = Some sv \<longrightarrow> (\<exists>sv0. ss_servers s0 i = Some sv0 \<and> sv_peer_ip sv = sv_peer_ip sv0))"

definition good :: "('w \<Rightarrow> bool) \<Rightarrow> ('c \<Rightarrow> bool) \<Rightarrow> ('c \<Rightarrow> bool) \<Rightarrow> ('c, 'w, 're) ss \<Rightarrow> nat set \<Rightarrow> ('c, 'w, 're) ss \<Rightarrow> bool" where
  "good W e d s0 X s \<longleftrightarrow> inv_x W e d X s \<and> quiet s0 s"

lemma lock_kept_trans: "lock_kept L w L1 w1 \<Longrightarrow> lock_kept L1 w1 L2 w2 \<Longrightarrow> lock_kept L w L2 w2"
  by (auto simp: lock_kept_def)

lemma quiet_trans: "quiet s0 s1 \<Longrightarrow> quiet s1 s2 \<Longrightarrow> quiet s0 s2"
  unfolding quiet_def using lock_kept_trans by metis

lemma good_enter: "inv W e d s \<Longrightarrow> good W e d s X s"
  using inv_mono [of W e d "{}" s X] links_glob(2) [OF inv_links, of W e d "{}" s]
  by (auto simp: good_def quiet_def lock_kept_def)

lemma good_links: "good W e d s0 X s \<Longrightarrow> links W e d s"
  by (auto simp: good_def dest: inv_links)

lemma good_finish:
  assumes "good W e d s0 {sid} s" "\<And>sv. ss_servers s sid = Some sv \<Longrightarrow> flow (ss_trace s) sid sv (linked s sv)"
  shows "good W e d s0 {} s"
  using assms(1) inv_finish [OF _ assms(2), of W e d] by (simp add: good_def)

lemma good_server:
  assumes g: "good W e d s0 {sid} s" and sv: "ss_servers s sid = Some sv"
    and eqs: "ss_servers s' = (ss_servers s)(sid \<mapsto> sv')" "ss_remotes s' = ss_remotes s"
      "ss_queries s' = ss_queries s" "ss_conns s' = ss_conns s" "ss_next s' = ss_next s"
      "ss_lock s' = ss_lock s" "ss_os s' = ss_os s"
    and keep: "sv_remote sv' = sv_remote sv" "sv_query sv' = sv_query sv" "sv_peer_ip sv' = sv_peer_ip sv"
      "srv_ok e d sv'" "W (ss_world s')"
    and tr: "ss_trace s' = ss_trace s @ es" "\<forall>e\<in>set es. about {sid} R e" "\<forall>rid\<in>R. owned s sid rid"
  shows "good W e d s0 {sid} s'"
proof -
  have "inv_x W e d {sid} s'"
    by (rule inv_upd_server [where sv = sv and R = R])
      (use g sv eqs keep tr links_glob(2) [OF good_links [OF g]] in \<open>auto simp: good_def\<close>)
  then show ?thesis using g sv keep(3) by (auto simp: good_def quiet_def eqs)
qed

lemma good_remote:
  assumes g: "good W e d s0 {sid} s" and r: "ss_remotes s rid = Some r" and p: "owned s sid rid"
    and eqs: "ss_servers s' = ss_servers s" "ss_remotes s' = (ss_remotes s)(rid \<mapsto> r')"
      "ss_queries s' = ss_queries s" "ss_conns s' = ss_conns s" "ss_next s' = ss_next s"
      "ss_world s' = ss_world s" "ss_lock s' = ss_lock s" "ss_os s' = ss_os s" "ss_trace s' = ss_trace s"
    and keep: "rm_server r' = rm_server r" "sock_buf (rm_buf r')"
  shows "good W e d s0 {sid} s'"
proof -
  have "inv_x W e d {sid} s'"
    by (rule inv_upd_remote [where r = r]) (use assms in \<open>auto simp: good_def\<close>)
  then show ?thesis using g by (auto simp: good_def quiet_def eqs)
qed

lemma good_close_server:
  assumes g: "good W e d s0 {sid} s" and sv: "ss_servers s sid = Some sv"
  shows "\<exists>s'. close_and_free_server sid s = Inr s' \<and> good W e d s0 {} s' \<and>
     ss_servers s' = (ss_servers s)(sid := None) \<and> ss_remotes s' = orphan (sv_remote sv) (ss_remotes s) \<and>
     ss_queries s' = unquery (sv_query sv) (ss_queries s)"
proof -
  obtain s' where s': "close_and_free_server sid s = Inr s'" "inv W e d s'" "ss_servers s' = (ss_servers s)(sid := None)"
      "ss_remotes s' = orphan (sv_remote sv) (ss_remotes s)" "ss_queries s' = unquery (sv_query sv) (ss_queries s)"
      "lock_kept (ss_lock s) (ss_os s) (ss_lock s') (ss_os s')"
    using free_server_inv [OF _ sv, of W e d] g unfolding good_def by blast
  have "quiet s s'" using s'(3,6) by (auto simp: quiet_def)
  then have "good W e d s0 {} s'" using s'(2) g by (auto simp: good_def intro: quiet_trans)
  then show ?thesis using s' by blast
qed

lemma good_close_remote:
  assumes g: "good W e d s0 {sid} s" and r: "ss_remotes s rid = Some r"
    and own: "rm_server r = Some sid \<or> rm_server r = None"
  shows "\<exists>s'. close_and_free_remote (Some rid) s = Inr s' \<and> good W e d s0 {sid} s' \<and>
     ss_servers s' = (if rm_server r = None then ss_servers s
                      else (ss_servers s)(sid \<mapsto> (the (ss_servers s sid))\<lparr>sv_remote := None\<rparr>)) \<and>
     ss_remotes s' = (ss_remotes s)(rid := None) \<and> ss_queries s' = ss_queries s"
proof -
  obtain s' where s': "close_and_free_remote (Some rid) s = Inr s'" "inv_x W e d {sid} s'"
     "ss_servers s' = (if rm_server r = None then ss_servers s
                      else (ss_servers s)(sid \<mapsto> (the (ss_servers s sid))\<lparr>sv_remote := None\<rparr>))"
     "ss_remotes s' = (ss_remotes s)(rid := None)" "ss_queries s' = ss_queries s"
     "ss_lock s' = ss_lock s" "ss_os s' = ss_os s"
    using free_remote_inv [OF _ r own, of W e d] g unfolding good_def by blast
  have "rm_server r = Some sid \<Longrightarrow> ss_servers s sid \<noteq> None" using links_remote(4) [OF good_links [OF g] r] by blast
  then have "quiet s0 s'" using g s'(3,6,7) own by (auto simp: good_def quiet_def)
  then show ?thesis using s' by (auto simp: good_def)
qed

lemma good_close_both:
  assumes g: "good W e d s0 {sid} s" and sv: "ss_servers s sid = Some sv" and ro: "ro = None \<or> ro = sv_remote sv"
  shows "\<exists>s'. close_both ro sid s = Inr s' \<and> good W e d s0 {} s' \<and> ss_servers s' = (ss_servers s)(sid := None)"
proof (cases ro)
  case None
  then show ?thesis using good_close_server [OF g sv] by (auto simp: close_both_def close_and_free_remote_def)
next
  case (Some rid)
  then have "sv_remote sv = Some rid" using ro by auto
  then obtain r where r: "ss_remotes s rid = Some r" "rm_server r = Some sid"
    using links_server(5) [OF good_links [OF g] sv] by blast
  then obtain s1 where s1: "close_and_free_remote (Some rid) s = Inr s1" "good W e d s0 {sid} s1"
      "ss_servers s1 = (ss_servers s)(sid \<mapsto> sv\<lparr>sv_remote := None\<rparr>)"
    using good_close_remote [OF g r(1)] sv by auto
  then obtain s2 where "close_and_free_server sid s1 = Inr s2" "good W e d s0 {} s2"
      "ss_servers s2 = (ss_servers s1)(sid := None)"
    using good_close_server [OF s1(2)] by force
  then show ?thesis using s1 Some by (auto simp: close_both_def)
qed

text \<open>
  A step that also changes what the connection points to: the remote \<open>rid\<close> and the query \<open>qid\<close>, which no
  other connection points to, may be created, linked, unlinked or freed.
\<close>

lemma good_relink:
  assumes g: "good W e d s0 {sid} s" and sv: "ss_servers s sid = Some sv"
    and eqs: "ss_servers s' = (ss_servers s)(sid \<mapsto> sv')" "ss_remotes s' = (ss_remotes s)(rid := ro)"
      "ss_queries s' = (ss_queries s)(qid := qo)" "ss_conns s' = ss_conns s" "ss_next s \<le> ss_next s'"
      "ss_lock s' = ss_lock s" "ss_os s' = ss_os s" "ss_world s' = ss_world s" "ss_trace s' = ss_trace s"
    and keep: "sv_peer_ip sv' = sv_peer_ip sv" "srv_ok e d sv'"
    and mine: "\<forall>i sv. ss_servers s i = Some sv \<longrightarrow> sv_remote sv = Some rid \<or> sv_query sv = Some qid \<longrightarrow> i = sid"
    and only: "sv_remote sv = None \<or> sv_remote sv = Some rid" "sv_query sv = None \<or> sv_query sv = Some qid"
    and srv: "srv_links s' sid sv'"
    and rem: "\<And>r. ro = Some r \<Longrightarrow> rid < ss_next s' \<and> sock_buf (rm_buf r) \<and> rem_links s' rid r"
    and qry: "\<And>q. qo = Some q \<Longrightarrow> qid < ss_next s' \<and> qry_links s' qid q"
  shows "good W e d s0 {sid} s'"
proof -
  note l = good_links [OF g]
  have ids: "x < ss_next s \<Longrightarrow> x < ss_next s'" for x using eqs(5) by simp
  have "links W e d s'"
  proof (rule linksI)
    show "i < ss_next s' \<and> srv_ok e d sv1 \<and> srv_links s' i sv1" if "ss_servers s' i = Some sv1" for i sv1
    proof (cases "i = sid")
      case True
      then show ?thesis using that keep(2) srv links_server(1) [OF l sv] ids by (simp add: eqs(1))
    next
      case False
      then have i: "ss_servers s i = Some sv1" using that by (simp add: eqs(1))
      then have "sv_remote sv1 \<noteq> Some rid" "sv_query sv1 \<noteq> Some qid" using mine False by blast+
      then show ?thesis
        using links_server(1,2,4) [OF l i] ids by (auto simp: srv_links_def eqs(2,3))
    qed
    show "i < ss_next s' \<and> sock_buf (rm_buf r) \<and> rem_links s' i r" if "ss_remotes s' i = Some r" for i r
    proof (cases "i = rid")
      case True
      then show ?thesis using that rem by (simp add: eqs(2))
    next
      case False
      then have i: "ss_remotes s i = Some r" using that by (simp add: eqs(2))
      have "rm_server r \<noteq> Some sid" using links_remote(4) [OF l i, of sid] sv only(1) False by auto
      then show ?thesis using links_remote(1-3) [OF l i] ids by (auto simp: rem_links_def eqs(1))
    qed
    show "i < ss_next s' \<and> qry_links s' i q" if "ss_queries s' i = Some q" for i q
    proof (cases "i = qid")
      case True
      then show ?thesis using that qry by (simp add: eqs(3))
    next
      case False
      then have i: "ss_queries s i = Some q" using that by (simp add: eqs(3))
      have "qr_server q \<noteq> Some sid" using links_query(3) [OF l i, of sid] sv only(2) False by auto
      then show ?thesis using links_query(1,2) [OF l i] ids by (auto simp: qry_links_def eqs(1))
    qed
    show "set (ss_conns s') = dom (ss_servers s')" using links_glob(4) [OF l] sv by (auto simp: eqs)
    show "\<forall>x\<in>set (ss_trace s'). about {..<ss_next s'} {..<ss_next s'} x"
      using trace_ids [OF l sv _ _ eqs(5), of "[]" "{}"] by (simp add: eqs(9))
  qed (use links_glob [OF l] in \<open>simp_all add: eqs(4-9)\<close>)
  moreover have "flow (ss_trace s') i sv1 (linked s' sv1)" if "ss_servers s' i = Some sv1" "i \<noteq> sid" for i sv1
  proof -
    have i: "ss_servers s i = Some sv1" using that by (simp add: eqs(1))
    then have "sv_remote sv1 \<noteq> Some rid" using mine that(2) by blast
    then have "linked s' sv1 = linked s sv1" by (auto simp: linked_def eqs(2) split: option.splits)
    then show ?thesis using g i that(2) by (simp add: good_def inv_x_def eqs(9))
  qed
  moreover have "quiet s0 s'"
    using g sv keep(1) by (auto simp: good_def quiet_def eqs(1,6,7))
  ultimately show ?thesis by (simp add: good_def inv_x_def)
qed

lemma fresh_id:
  assumes "links W e d s"
  shows "ss_remotes s (ss_next s) = None" "ss_queries s (ss_next s) = None" "ss_servers s (ss_next s) = None"
    "\<forall>i sv. ss_servers s i = Some sv \<longrightarrow> sv_remote sv \<noteq> Some (ss_next s) \<and> sv_query sv \<noteq> Some (ss_next s)"
    "to_remote (ss_next s) (ss_trace s) = []" "plain_of (ss_next s) (ss_trace s) = []"
    "cipher_of (ss_next s) (ss_trace s) = []" "to_client (ss_next s) (ss_trace s) = []"
proof -
  show r: "ss_remotes s (ss_next s) = None" and q: "ss_queries s (ss_next s) = None" and "ss_servers s (ss_next s) = None"
    using links_remote(1) [OF assms, of "ss_next s"] links_query(1) [OF assms, of "ss_next s"]
      links_server(1) [OF assms, of "ss_next s"] by fastforce+
  show "\<forall>i sv. ss_servers s i = Some sv \<longrightarrow> sv_remote sv \<noteq> Some (ss_next s) \<and> sv_query sv \<noteq> Some (ss_next s)"
    using r q links_server(5,6) [OF assms] by (metis option.distinct(1))
qed (use projections_other [OF links_glob(5) [OF assms], of "ss_next s"] in simp_all)

lemma sole:
  assumes "links W e d s" "ss_servers s sid = Some sv" "ss_servers s i = Some sv1"
  shows "sv_remote sv = Some rid \<Longrightarrow> sv_remote sv1 = Some rid \<Longrightarrow> i = sid"
    "sv_query sv = Some qid \<Longrightarrow> sv_query sv1 = Some qid \<Longrightarrow> i = sid"
  using links_server(5,6) [OF assms(1,2)] links_server(5,6) [OF assms(1,3)] by force+

end
