(* ===== verification/Server_Safe.thy ===== *)
theory Server_Safe
  imports Server_Inv
begin

text \<open>
  The callbacks of the relay keep its invariant. The callbacks that do not touch the cipher come
  first; those that do are treated inside the locale \<open>relay_crypto\<close>, which states what the relay
  relies on of the cipher module.
\<close>

lemma get_eq:
  "ss_servers s sid = Some sv \<Longrightarrow> get_server s sid = Inr sv"
  "ss_remotes s rid = Some r \<Longrightarrow> get_remote s rid = Inr r"
  "ss_queries s qid = Some q \<Longrightarrow> get_query s qid = Inr q"
  by (simp_all add: get_server_def get_remote_def get_query_def)

lemma upd_eq:
  "ss_servers s sid = Some sv \<Longrightarrow> upd_server sid f s = Inr (s\<lparr>ss_servers := (ss_servers s)(sid \<mapsto> f sv)\<rparr>)"
  "ss_remotes s rid = Some r \<Longrightarrow> upd_remote rid g s = Inr (s\<lparr>ss_remotes := (ss_remotes s)(rid \<mapsto> g r)\<rparr>)"
  "ss_queries s qid = Some q \<Longrightarrow> upd_query qid h s = Inr (s\<lparr>ss_queries := (ss_queries s)(qid \<mapsto> h q)\<rparr>)"
  by (simp_all add: upd_server_def upd_remote_def upd_query_def get_eq)

lemma trace_fields [simp]:
  "ss_servers (trace x s) = ss_servers s" "ss_remotes (trace x s) = ss_remotes s"
  "ss_queries (trace x s) = ss_queries s" "ss_conns (trace x s) = ss_conns s" "ss_next (trace x s) = ss_next s"
  "ss_lock (trace x s) = ss_lock s" "ss_os (trace x s) = ss_os s" "ss_world (trace x s) = ss_world s"
  "ss_acl (trace x s) = ss_acl s" "ss_fast_open (trace x s) = ss_fast_open s"
  "ss_trace (trace x s) = ss_trace s @ [x]"
  by (simp_all add: trace_def)

section \<open>Partly sent buffers\<close>

lemma window_read:
  assumes "sock_buf b" "window b"
  shows "mem_read (buf_data b) (buf_idx b) (buf_len b) = Inr (buf_bytes b)" "length (buf_bytes b) = buf_len b"
  using assms by (auto simp: sock_buf_def window_def buf_bytes_def)

lemma shift_bytes:
  assumes "n < buf_len b"
  shows "buf_bytes (b\<lparr>buf_len := buf_len b - n, buf_idx := buf_idx b + n\<rparr>) = drop n (buf_bytes b)"
  using assms by (simp add: buf_bytes_def drop_take add.commute)

lemma shift_buf:
  "sock_buf (b\<lparr>buf_len := l, buf_idx := i\<rparr>) = sock_buf b" "sock_buf (b\<lparr>buf_idx := i\<rparr>) = sock_buf b"
  "window b \<Longrightarrow> n \<le> buf_len b \<Longrightarrow> window (b\<lparr>buf_len := buf_len b - n, buf_idx := buf_idx b + n\<rparr>)"
  "sock_buf b \<Longrightarrow> l \<le> SOCKET_BUF_SIZE \<Longrightarrow> window (b\<lparr>buf_len := l, buf_idx := 0\<rparr>)"
  by (auto simp: sock_buf_def window_def)

lemma srv_okD:
  "srv_ok e d sv \<Longrightarrow> sock_buf (sv_buf sv)" "srv_ok e d sv \<Longrightarrow> e (sv_e_ctx sv)"
  "srv_ok e d sv \<Longrightarrow> sv_stage sv \<noteq> STAGE_STOP \<Longrightarrow> d (sv_d_ctx sv)"
  by (auto simp: srv_ok_def)

lemma sock_buf_upd [simp]:
  "sock_buf (b\<lparr>buf_len := l\<rparr>) = sock_buf b" "sock_buf (b\<lparr>buf_idx := i\<rparr>) = sock_buf b"
  by (simp_all add: sock_buf_def)

text \<open>
  A callback whose net effect is a new \<open>server\<close> and a new \<open>remote\<close> record for its connection, or
  only a new \<open>server\<close> record.
\<close>

lemma good_conn:
  assumes g: "good W e d s0 {sid} s"
    and own: "ss_servers s sid = Some sv" "sv_remote sv = Some rid" "ss_remotes s rid = Some r"
    and eqs: "ss_servers s' = (ss_servers s)(sid \<mapsto> sv')" "ss_remotes s' = (ss_remotes s)(rid \<mapsto> r')"
      "ss_queries s' = ss_queries s" "ss_conns s' = ss_conns s" "ss_next s' = ss_next s"
      "ss_lock s' = ss_lock s" "ss_os s' = ss_os s"
    and keep: "sv_remote sv' = Some rid" "sv_query sv' = sv_query sv" "sv_peer_ip sv' = sv_peer_ip sv"
      "srv_ok e d sv'" "W (ss_world s')" "rm_server r' = rm_server r" "sock_buf (rm_buf r')"
    and tr: "ss_trace s' = ss_trace s @ es" "\<forall>e\<in>set es. about {sid} {rid} e"
    and fl: "flow (ss_trace s') sid sv' (Some (rid, r'))"
  shows "good W e d s0 {} s'"
proof -
  note l = good_links [OF g]
  have r: "rm_server r = Some sid" using links_server(5) [OF l own(1,2)] own(3) by auto
  note ow = ownedI [OF l own(3) disjI1 [OF r]]
  let ?s1 = "s'\<lparr>ss_remotes := ss_remotes s\<rparr>"
  have g1: "good W e d s0 {sid} ?s1"
    by (rule good_server [OF g own(1), where R = "{rid}" and sv' = sv' and es = es])
      (use tr(2) ow in \<open>simp_all add: eqs own keep tr(1)\<close>)
  have ow1: "owned ?s1 sid rid" using ow by (simp add: owned_def eqs(1,5))
  have "good W e d s0 {sid} s'"
    by (rule good_remote [OF g1 _ ow1, where r = r and r' = r']) (use own(3) eqs(2) keep(6,7) in simp_all)
  moreover have "flow (ss_trace s') sid sv1 (linked s' sv1)" if "ss_servers s' sid = Some sv1" for sv1
    using that fl linked_eq(2) [of sv' rid s' r'] keep(1) eqs(1,2) by simp
  ultimately show ?thesis by (rule good_finish)
qed

lemma good_srv:
  assumes g: "good W e d s0 {sid} s" and own: "ss_servers s sid = Some sv"
    and eqs: "ss_servers s' = (ss_servers s)(sid \<mapsto> sv')" "ss_remotes s' = ss_remotes s"
      "ss_queries s' = ss_queries s" "ss_conns s' = ss_conns s" "ss_next s' = ss_next s"
      "ss_lock s' = ss_lock s" "ss_os s' = ss_os s"
    and keep: "sv_remote sv' = sv_remote sv" "sv_query sv' = sv_query sv" "sv_peer_ip sv' = sv_peer_ip sv"
      "srv_ok e d sv'" "W (ss_world s')"
    and tr: "ss_trace s' = ss_trace s @ es" "\<forall>e\<in>set es. about {sid} {} e"
    and fl: "flow (ss_trace s') sid sv' (linked s sv)"
  shows "good W e d s0 {} s'"
proof -
  have g1: "good W e d s0 {sid} s'"
    by (rule good_server [OF g own(1), where R = "{}" and sv' = sv' and es = es]) (use tr(2) in \<open>simp_all add: eqs keep tr(1)\<close>)
  have "linked s' sv' = linked s sv" unfolding linked_def keep(1) eqs(2) ..
  then show ?thesis using good_finish [OF g1] fl eqs by simp
qed

lemmas flow_simps = flow_def starting_def up_ok_def down_ok_def up_pending_def down_pending_def

section \<open>Sending\<close>

lemma server_send_good:
  assumes i: "inv W e d s" and sv: "ss_servers s sid = Some sv" "sv_send_io sv"
  shows "\<exists>s'. server_send_cb io sid s = Inr s' \<and> good W e d s {} s'"
proof -
  note l = inv_links [OF i] and g = good_enter [OF i, of "{sid}"]
  note ok = links_server(2) [OF l sv(1)] and fl = inv_flow [OF i sv(1), simplified]
  have w: "window (sv_buf sv)" using fl sv(2) by (auto simp: flow_def split: stage.splits)
  note rd = window_read [OF srv_okD(1) [OF ok] w]
  let ?b = "sv_buf sv" and ?d = "buf_bytes (sv_buf sv)"
  show ?thesis
  proof (cases "sv_remote sv")
    case None
    then show ?thesis using good_close_server [OF g sv(1)] sv by (auto simp: server_send_cb_def get_eq)
  next
    case (Some rid)
    then obtain r where r: "ss_remotes s rid = Some r" "rm_server r = Some sid" using links_server(5) [OF l sv(1)] by blast
    note lk = linked_eq(2) [OF Some r(1)]
    have close: "\<exists>s'. close_both (Some rid) sid s = Inr s' \<and> good W e d s {} s'"
      using good_close_both [OF g sv(1), of "Some rid"] Some by auto
    consider "buf_len ?b = 0" | "buf_len ?b \<noteq> 0" "io_send io = Send_again" | "buf_len ?b \<noteq> 0" "io_send io = Send_err"
      | n where "buf_len ?b \<noteq> 0" "io_send io = Send n" "n < buf_len ?b" | n where "buf_len ?b \<noteq> 0" "io_send io = Send n" "buf_len ?b \<le> n"
      by (cases "io_send io") (force simp: not_less)+
    then show ?thesis
    proof cases
      case 1
      then show ?thesis using close sv Some by (simp add: server_send_cb_def get_eq)
    next
      case 2
      then show ?thesis using sv Some rd good_enter [OF i, of "{}"] by (simp add: server_send_cb_def get_eq)
    next
      case 3
      then show ?thesis using close sv Some rd by (simp add: server_send_cb_def get_eq)
    next
      case (4 n)
      let ?sv = "sv\<lparr>sv_buf := ?b\<lparr>buf_len := buf_len ?b - n, buf_idx := buf_idx ?b + n\<rparr>\<rparr>"
      let ?t = "trace (Sent_client sid (take n ?d)) s"
      let ?s = "?t\<lparr>ss_servers := (ss_servers s)(sid \<mapsto> ?sv)\<rparr>"
      have e: "server_send_cb io sid s = Inr ?s"
        using 4 sv Some rd upd_eq(1) [of ?t sid sv] by (simp add: server_send_cb_def get_eq Let_def)
      have "good W e d s {} ?s"
      proof (rule good_srv [OF g sv(1), where sv' = ?sv and es = "[Sent_client sid (take n ?d)]"])
        show "flow (ss_trace ?s) sid ?sv (linked s sv)"
          using fl w sv(2) 4(3) shift_bytes [OF 4(3)] by (auto simp: lk flow_simps shift_buf split: stage.splits)
      qed (use ok links_glob(1) [OF l] in \<open>auto simp: srv_ok_def\<close>)
      then show ?thesis using e by auto
    next
      case (5 n)
      let ?sv = "sv\<lparr>sv_buf := ?b\<lparr>buf_len := 0, buf_idx := 0\<rparr>, sv_send_io := False\<rparr>"
      let ?t = "trace (Sent_client sid ?d) s"
      let ?s1 = "?t\<lparr>ss_servers := (ss_servers s)(sid \<mapsto> ?sv)\<rparr>"
      let ?r = "r\<lparr>rm_recv_io := True\<rparr>"
      let ?s = "?s1\<lparr>ss_remotes := (ss_remotes s)(rid \<mapsto> ?r)\<rparr>"
      have e: "server_send_cb io sid s = Inr ?s"
        using 5 sv Some rd upd_eq(1) [of ?t sid sv] upd_eq(2) [of ?s1 rid r] r
        by (simp add: server_send_cb_def get_eq Let_def)
      have "good W e d s {} ?s"
      proof (rule good_conn [OF g sv(1) Some r(1), where sv' = ?sv and r' = ?r and es = "[Sent_client sid ?d]"])
        show "flow (ss_trace ?s) sid ?sv (Some (rid, ?r))"
          using fl w sv(2) by (auto simp: lk flow_simps split: stage.splits)
      qed (use Some ok links_glob(1) [OF l] links_remote(2) [OF l r(1)] in \<open>auto simp: srv_ok_def\<close>)
      then show ?thesis using e by auto
    qed
  qed
qed

lemma remote_send_data_good:
  assumes g: "good W e d s0 {sid} s"
    and own: "ss_servers s sid = Some sv" "sv_remote sv = Some rid" "ss_remotes s rid = Some r"
    and r: "rm_send_io r" "rm_send_connected r" and fl: "flow (ss_trace s) sid sv (Some (rid, r))"
  shows "\<exists>s'. remote_send_data io rid sid s = Inr s' \<and> good W e d s0 {} s'"
proof -
  note l = good_links [OF g]
  note ok = links_server(2) [OF l own(1)]
  let ?b = "rm_buf r" and ?d = "buf_bytes (rm_buf r)"
  have w: "window ?b" and rs: "\<not> sv_recv_io sv" "sv_stage sv \<noteq> STAGE_STOP"
    using fl r(1) by (auto simp: flow_simps split: stage.splits)
  note rd = window_read [OF links_remote(2) [OF l own(3)] w]
  have close: "\<exists>s'. close_both (Some rid) sid s = Inr s' \<and> good W e d s0 {} s'"
    using good_close_both [OF g own(1), of "Some rid"] own(2) by auto
  consider "buf_len ?b = 0" | "buf_len ?b \<noteq> 0" "io_send io = Send_again" | "buf_len ?b \<noteq> 0" "io_send io = Send_err"
    | n where "buf_len ?b \<noteq> 0" "io_send io = Send n" "n < buf_len ?b" | n where "buf_len ?b \<noteq> 0" "io_send io = Send n" "buf_len ?b \<le> n"
    by (cases "io_send io") (force simp: not_less)+
  then show ?thesis
  proof cases
    case 1
    then show ?thesis using close own by (simp add: remote_send_data_def get_eq)
  next
    case 2
    have "good W e d s0 {} s" by (rule good_finish [OF g]) (use own(1) fl linked_eq(2) [OF own(2,3)] in simp)
    then show ?thesis using 2 own rd by (simp add: remote_send_data_def get_eq)
  next
    case 3
    then show ?thesis using close own rd by (simp add: remote_send_data_def get_eq)
  next
    case (4 n)
    let ?r = "r\<lparr>rm_buf := ?b\<lparr>buf_len := buf_len ?b - n, buf_idx := buf_idx ?b + n\<rparr>\<rparr>"
    let ?t = "trace (Sent_remote rid (take n ?d)) s"
    let ?s = "?t\<lparr>ss_remotes := (ss_remotes s)(rid \<mapsto> ?r)\<rparr>"
    have e: "remote_send_data io rid sid s = Inr ?s"
      using 4 own rd upd_eq(2) [of ?t rid r] by (simp add: remote_send_data_def get_eq Let_def)
    have "good W e d s0 {} ?s"
    proof (rule good_conn [OF g own, where sv' = sv and r' = ?r and es = "[Sent_remote rid (take n ?d)]"])
      show "flow (ss_trace ?s) sid sv (Some (rid, ?r))"
        using fl w r 4(3) shift_bytes [OF 4(3)] by (auto simp: flow_simps shift_buf split: stage.splits)
    qed (use own ok links_glob(1) [OF l] links_remote(2) [OF l own(3)] in \<open>auto simp: fun_upd_idem\<close>)
    then show ?thesis using e by auto
  next
    case (5 n)
    let ?r0 = "r\<lparr>rm_buf := ?b\<lparr>buf_len := 0, buf_idx := 0\<rparr>, rm_send_io := False\<rparr>"
    let ?r = "if sv_stage sv = STAGE_STREAM then ?r0 else ?r0\<lparr>rm_recv_io := True\<rparr>"
    let ?sv = "sv\<lparr>sv_recv_io := True, sv_stage := STAGE_STREAM\<rparr>"
    let ?t = "trace (Sent_remote rid ?d) s"
    let ?s = "?t\<lparr>ss_remotes := (ss_remotes s)(rid \<mapsto> ?r), ss_servers := (ss_servers s)(sid \<mapsto> ?sv)\<rparr>"
    have e: "remote_send_data io rid sid s = Inr ?s"
      using 5 own rd by (cases "sv_stage sv = STAGE_STREAM"; cases sv) (simp_all add: remote_send_data_def get_eq upd_eq Let_def)
    have "good W e d s0 {} ?s"
    proof (rule good_conn [OF g own, where sv' = ?sv and r' = ?r and es = "[Sent_remote rid ?d]"])
      show "flow (ss_trace ?s) sid ?sv (Some (rid, ?r))"
        using fl w r 5 by (auto simp: flow_simps split: stage.splits)
    qed (use own ok rs links_glob(1) [OF l] links_remote(2) [OF l own(3)] in \<open>auto simp: srv_ok_def\<close>)
    then show ?thesis using e by auto
  qed
qed

text \<open>A remote whose client is gone closes itself.\<close>

lemma orphan_good:
  assumes i: "inv W e d s" and r: "ss_remotes s rid = Some r" "rm_server r = None"
  shows "\<exists>s'. close_and_free_remote (Some rid) s = Inr s' \<and> good W e d s {} s'"
proof -
  have n: "ss_servers s (ss_next s) = None"
    using links_server(1) [OF inv_links [OF i], of "ss_next s"] by fastforce
  obtain s' where "close_and_free_remote (Some rid) s = Inr s'" "good W e d s {ss_next s} s'" "ss_servers s' = ss_servers s"
    using good_close_remote [OF good_enter [OF i, of "{ss_next s}"] r(1)] r(2) by auto
  then show ?thesis using good_finish [of W e d s "ss_next s" s'] n by auto
qed

lemma remote_send_good:
  assumes i: "inv W e d s" and r: "ss_remotes s rid = Some r" "rm_send_io r"
  shows "\<exists>s'. remote_send_cb io rid s = Inr s' \<and> good W e d s {} s'"
proof (cases "rm_server r")
  case None
  then show ?thesis using orphan_good [OF i r(1)] r by (simp add: remote_send_cb_def get_eq)
next
  case (Some sid)
  note l = inv_links [OF i] and g = good_enter [OF i, of "{sid}"]
  obtain sv where sv: "ss_servers s sid = Some sv" "sv_remote sv = Some rid" using links_remote(4) [OF l r(1) Some] by blast
  note ok = links_server(2) [OF l sv(1)] and wg = links_glob(1) [OF l] and sb = links_remote(2) [OF l r(1)]
  have fl: "flow (ss_trace s) sid sv (Some (rid, r))" using inv_flow [OF i sv(1)] linked_eq(2) [OF sv(2) r(1)] by simp
  show ?thesis
  proof (cases "rm_send_connected r")
    case True
    then show ?thesis using remote_send_data_good [OF g sv r(1,2) True fl] r Some by (simp add: remote_send_cb_def get_eq)
  next
    case conn: False
    show ?thesis
    proof (cases "io_peername io")
      case False
      then show ?thesis
        using conn Some r good_close_both [OF g sv(1), of "Some rid"] sv(2) by (auto simp: remote_send_cb_def get_eq)
    next
      case pn: True
      let ?r1 = "r\<lparr>rm_send_connected := True\<rparr>"
      let ?s1 = "s\<lparr>ss_remotes := (ss_remotes s)(rid \<mapsto> ?r1)\<rparr>"
      have fl1: "flow (ss_trace s) sid sv (Some (rid, ?r1))" using fl conn by (auto simp: flow_simps split: stage.splits)
      show ?thesis
      proof (cases "buf_len (rm_buf r) = 0")
        case True
        let ?r = "?r1\<lparr>rm_send_io := False, rm_recv_io := True\<rparr>"
        let ?sv = "sv\<lparr>sv_stage := STAGE_STREAM, sv_recv_io := True\<rparr>"
        let ?s = "s\<lparr>ss_remotes := (ss_remotes s)(rid \<mapsto> ?r), ss_servers := (ss_servers s)(sid \<mapsto> ?sv)\<rparr>"
        have e: "remote_send_cb io rid s = Inr ?s"
          using True pn conn Some r sv by (simp add: remote_send_cb_def get_eq upd_eq)
        have st: "sv_stage sv \<noteq> STAGE_STREAM" "sv_stage sv \<noteq> STAGE_STOP" "buf_bytes (rm_buf r) = []"
          using fl conn True by (auto simp: flow_def buf_bytes_def split: stage.splits)
        have "good W e d s {} ?s"
        proof (rule good_conn [OF g sv r(1), where sv' = ?sv and r' = ?r and es = "[]"])
          show "flow (ss_trace ?s) sid ?sv (Some (rid, ?r))"
            using fl st r(2) by (auto simp: flow_simps split: stage.splits)
        qed (use sv ok st wg sb in \<open>auto simp: srv_ok_def\<close>)
        then show ?thesis using e by auto
      next
        case False
        have ow: "owned s sid rid" using ownedI [OF l r(1)] Some by simp
        have g1: "good W e d s {sid} ?s1"
          by (rule good_remote [OF g r(1) ow, where r' = ?r1]) (use sb in simp_all)
        have "remote_send_cb io rid s = remote_send_data io rid sid ?s1"
          using False pn conn Some r by (simp add: remote_send_cb_def get_eq upd_eq)
        then show ?thesis
          using remote_send_data_good [OF g1 _ sv(2), of ?r1 io] sv r fl1 by simp
      qed
    qed
  qed
qed

end
