(* ===== verification/Server_Connect.thy ===== *)
theory Server_Connect
  imports Server_Safe
begin

text \<open>
  Opening the outgoing connection: \<open>connect_to_remote\<close>, the hand-over of the buffered payload in
  \<open>attach_remote\<close>, and the answer of the resolver. Bytes sent by fast open are accounted for.
\<close>

definition fresh_remote :: "('c, 'w, 're) ss \<Rightarrow> nat \<Rightarrow> remote \<Rightarrow> bool" where
  "fresh_remote s rid r \<longleftrightarrow> ss_remotes s rid = Some r \<and> rm_server r = None \<and> \<not> rm_send_io r \<and> \<not> rm_recv_io r \<and>
     buf_len (rm_buf r) = 0 \<and> buf_idx (rm_buf r) = 0"

lemma new_remote_good:
  assumes g: "good W e d s0 {sid} s" and sv: "ss_servers s sid = Some sv"
    and rn: "sv_remote sv = None" and n: "new_remote E s = (rid, s')"
  shows "good W e d s0 {sid} s'" "\<exists>r. fresh_remote s' rid r" "rid = ss_next s" "owned s' sid rid"
proof -
  note l = good_links [OF g] and f = fresh_id [OF good_links [OF g]]
  define r where "r = \<lparr>rm_buf = balloc (en_junk E) SOCKET_BUF_SIZE, rm_recv_io = False, rm_send_io = False,
               rm_recv_connected = False, rm_send_connected = False, rm_server = None\<rparr>"
  have e: "rid = ss_next s" "s' = s\<lparr>ss_next := ss_next s + 1, ss_remotes := (ss_remotes s)(ss_next s \<mapsto> r)\<rparr>"
    using n by (auto simp: new_remote_def Let_def r_def)
  have "srv_links s' sid sv"
    using links_server(4) [OF l sv] f(4) sv by (auto simp: srv_links_def e)
  moreover have "qry_links s' qid q" "qid < ss_next s'" if "ss_queries s qid = Some q" for qid q
    using links_query(1,2) [OF l that] by (auto simp: qry_links_def e)
  ultimately show gd: "good W e d s0 {sid} s'"
    using rn f(4) sole(2) [OF l sv] links_server(2) [OF l sv]
    by (intro good_relink [OF g sv, where rid = rid and ro = "Some r" and sv' = sv and
          qid = "case sv_query sv of None \<Rightarrow> rid | Some q \<Rightarrow> q" and
          qo = "case sv_query sv of None \<Rightarrow> None | Some q \<Rightarrow> ss_queries s q"])
      (auto simp: e sv r_def sock_buf_def buf_simps rem_links_def fun_upd_idem f(2) split: option.splits)
  show "\<exists>r. fresh_remote s' rid r" by (simp add: fresh_remote_def e r_def buf_simps)
  show "rid = ss_next s" by (rule e(1))
  show "owned s' sid rid" using f(4) by (simp add: owned_def e)
qed

text \<open>
  What holds of the connection after a part of the buffered payload may have gone to the new remote.
\<close>

definition opened :: "event_out list \<Rightarrow> nat \<Rightarrow> 'c server \<Rightarrow> nat \<Rightarrow> ('c, 'w, 're) ss \<Rightarrow> bool" where
  "opened tr sid sv rid s' \<longleftrightarrow>
     (\<exists>b r es. ss_servers s' sid = Some (sv\<lparr>sv_buf := b\<rparr>) \<and> sock_buf b \<and> window b \<and>
        fresh_remote s' rid r \<and> ss_trace s' = tr @ es \<and> (\<forall>x\<in>set es. about {} {rid} x) \<and>
        buf_bytes (sv_buf sv) = to_remote rid (ss_trace s') @ buf_bytes b)"

lemma split_bytes:
  assumes "n \<le> buf_len b"
  shows "take n (buf_bytes b) @ buf_bytes (b\<lparr>buf_idx := buf_idx b + n, buf_len := buf_len b - n\<rparr>) = buf_bytes b"
proof -
  have "buf_bytes (b\<lparr>buf_idx := buf_idx b + n, buf_len := buf_len b - n\<rparr>) = drop n (buf_bytes b)"
    using assms by (simp add: buf_bytes_def drop_take add.commute)
  then show ?thesis by simp
qed

lemma fast_open_safe:
  assumes g: "good W e d s0 {sid} s" and sv: "ss_servers s sid = Some sv" and w: "window (sv_buf sv)"
    and ow: "owned s sid rid" and f: "fresh_remote s rid r" and t0: "to_remote rid (ss_trace s) = []"
  shows "safe False (\<lambda>s'. good W e d s0 {sid} s' \<and> ss_queries s' = ss_queries s \<and> opened (ss_trace s) sid sv rid s')
     (fast_open_connect io rid sid s)"
proof -
  note l = good_links [OF g] and ok = links_server(2) [OF good_links [OF g] sv]
  note sb = srv_okD(1) [OF ok] and wg = links_glob(1) [OF l]
  let ?b = "sv_buf sv"
  have sv_id: "sv\<lparr>sv_buf := sv_buf sv\<rparr> = sv" by simp
  have o: "opened (ss_trace s) sid sv rid s'"
    if "s' = s \<or> s' = s\<lparr>ss_fast_open := False\<rparr>" for s'
    unfolding opened_def using that f sv w sb t0 by (intro exI [of _ ?b] exI [of _ r] exI [of _ "[]"]) (auto simp: fresh_remote_def)
  have g1: "good W e d s0 {sid} (s\<lparr>ss_fast_open := False\<rparr>)"
    by (rule good_server [OF g sv, where sv' = sv and es = "[]" and R = "{}"]) (use sv ok wg in \<open>auto simp: fun_upd_idem\<close>)
  show ?thesis
  proof (cases "io_fast io")
    case (Fast_sent n)
    let ?n = "min n (buf_len ?b)"
    let ?sv = "sv\<lparr>sv_buf := ?b\<lparr>buf_idx := buf_idx ?b + ?n, buf_len := buf_len ?b - ?n\<rparr>\<rparr>"
    let ?x = "Sent_remote rid (take ?n (buf_bytes ?b))"
    let ?s = "trace ?x (s\<lparr>ss_servers := (ss_servers s)(sid \<mapsto> ?sv)\<rparr>)"
    have e: "fast_open_connect io rid sid s = Inr ?s"
      using Fast_sent window_read [OF sb w] sv by (simp add: fast_open_connect_def get_eq upd_eq Let_def)
    have "good W e d s0 {sid} ?s"
      by (rule good_server [OF g sv, where sv' = ?sv and es = "[?x]" and R = "{rid}"])
        (use ok wg ow in \<open>auto simp: srv_ok_def\<close>)
    moreover have "opened (ss_trace s) sid sv rid ?s"
      unfolding opened_def
    proof (intro exI [of _ "sv_buf ?sv"] exI [of _ r] exI [of _ "[?x]"] conjI)
      show "buf_bytes ?b = to_remote rid (ss_trace ?s) @ buf_bytes (sv_buf ?sv)"
        using t0 split_bytes [of ?n ?b] by simp
    qed (use f sb w in \<open>auto simp: fresh_remote_def window_def\<close>)
    ultimately show ?thesis by (simp add: e)
  qed (use g g1 o in \<open>auto simp: fast_open_connect_def safe_def deliberate_def\<close>)
qed

lemma connect_safe:
  assumes g: "good W e d s0 {sid} s" and sv: "ss_servers s sid = Some sv" "sv_remote sv = None" and w: "window (sv_buf sv)"
  shows "safe False (\<lambda>(ro, s'). good W e d s0 {sid} s' \<and> ss_queries s' = ss_queries s \<and>
       (\<exists>b. ss_servers s' sid = Some (sv\<lparr>sv_buf := b\<rparr>)) \<and>
       (\<forall>rid. ro = Some rid \<longrightarrow> opened (ss_trace s) sid sv rid s'))
     (connect_to_remote E io addr sid s)"
proof -
  note l = good_links [OF g]
  have sv_id: "\<exists>b. sv = sv\<lparr>sv_buf := b\<rparr>" by (rule exI [of _ "sv_buf sv"]) simp
  have skip: "safe False (\<lambda>(ro, s'). good W e d s0 {sid} s' \<and> ss_queries s' = ss_queries s \<and>
       (\<exists>b. ss_servers s' sid = Some (sv\<lparr>sv_buf := b\<rparr>)) \<and>
       (\<forall>rid. ro = Some rid \<longrightarrow> opened (ss_trace s) sid sv rid s')) (Inr (None, s))"
    using g sv sv_id by simp
  obtain rid s1 where n: "new_remote E s = (rid, s1)" by (cases "new_remote E s")
  note nr = new_remote_good [OF g sv n]
  obtain r where r: "fresh_remote s1 rid r" using nr(2) by blast
  have s1: "ss_servers s1 = ss_servers s" "ss_trace s1 = ss_trace s" "ss_queries s1 = ss_queries s"
    using n by (auto simp: new_remote_def Let_def)
  have sv1: "ss_servers s1 sid = Some sv" using s1 sv by simp
  have t0: "to_remote rid (ss_trace s1) = []" using fresh_id(5) [OF l] nr(3) s1 by simp
  have o: "opened (ss_trace s) sid sv rid s1"
    unfolding opened_def using r sv1 w s1 t0 srv_okD(1) [OF links_server(2) [OF l sv(1)]]
    by (intro exI [of _ "sv_buf sv"] exI [of _ r] exI [of _ "[]"]) auto
  let ?m = "if ss_fast_open s1 then fast_open_connect io rid sid s1 else Inr s1"
  let ?P = "\<lambda>s2. good W e d s0 {sid} s2 \<and> ss_queries s2 = ss_queries s \<and> opened (ss_trace s) sid sv rid s2"
  have m: "safe False ?P ?m"
    using fast_open_safe [OF nr(1) sv1 w nr(4) r t0, of io] nr(1) o s1 by (simp split: if_split)
  have fin: "safe False (\<lambda>(ro, s'). good W e d s0 {sid} s' \<and> ss_queries s' = ss_queries s \<and>
       (\<exists>b. ss_servers s' sid = Some (sv\<lparr>sv_buf := b\<rparr>)) \<and>
       (\<forall>rid. ro = Some rid \<longrightarrow> opened (ss_trace s) sid sv rid s'))
     (if \<not> ss_fast_open s2 \<and> \<not> io_connect io
          then bindr (close_and_free_remote (Some rid) s2) (\<lambda>s. Inr (None, s))
          else Inr (Some rid, s2))" if P: "?P s2" for s2
  proof -
    obtain b r2 where o2: "ss_servers s2 sid = Some (sv\<lparr>sv_buf := b\<rparr>)" "ss_remotes s2 rid = Some r2" "rm_server r2 = None"
      using P by (auto simp: opened_def fresh_remote_def)
    obtain s3 where "close_and_free_remote (Some rid) s2 = Inr s3" "good W e d s0 {sid} s3"
        "ss_servers s3 = ss_servers s2" "ss_queries s3 = ss_queries s2"
      using good_close_remote [OF conjunct1 [OF P] o2(2)] o2(3) by auto
    then show ?thesis using P o2(1) by auto
  qed
  have "safe False (\<lambda>(ro, s'). good W e d s0 {sid} s' \<and> ss_queries s' = ss_queries s \<and>
       (\<exists>b. ss_servers s' sid = Some (sv\<lparr>sv_buf := b\<rparr>)) \<and>
       (\<forall>rid. ro = Some rid \<longrightarrow> opened (ss_trace s) sid sv rid s'))
     (bindr ?m (\<lambda>s2. if \<not> ss_fast_open s2 \<and> \<not> io_connect io
          then bindr (close_and_free_remote (Some rid) s2) (\<lambda>s. Inr (None, s))
          else Inr (Some rid, s2)))"
    unfolding safe_simps(2) [of _ _ ?m] by (rule safe_mono [OF m fin]) simp_all
  then show ?thesis
    using skip by (simp add: connect_to_remote_def n safe_def [of _ _ "Inl _"] deliberate_def del: safe_simps(2))
qed

text \<open>The hand-over: nothing of the request is lost.\<close>

definition handed :: "nat \<Rightarrow> 'c server \<Rightarrow> nat \<Rightarrow> bytes \<Rightarrow> ('c, 'w, 're) ss \<Rightarrow> bool" where
  "handed sid sv rid xs s' \<longleftrightarrow>
     (\<exists>b r. ss_servers s' sid = Some (sv\<lparr>sv_remote := Some rid, sv_buf := b\<rparr>) \<and> sock_buf b \<and>
        ss_remotes s' rid = Some r \<and> rm_server r = Some sid \<and> \<not> rm_recv_io r \<and> window (rm_buf r) \<and>
        buf_bytes (rm_buf r) = xs)"

lemma brealloc_sock: "sock_buf b \<Longrightarrow> sock_buf (brealloc junk b l SOCKET_BUF_SIZE)"
  using brealloc_length [of b junk l SOCKET_BUF_SIZE] by (auto simp: sock_buf_def buf_simps)

lemma attach_good:
  assumes g: "good W e d s0 {sid} s" and sv: "ss_servers s sid = Some sv" "sv_remote sv = None" "window (sv_buf sv)"
    and f: "fresh_remote s rid r"
  shows "\<exists>s'. attach_remote E rid sid s = Inr s' \<and> good W e d s0 {sid} s' \<and> ss_trace s' = ss_trace s \<and>
     ss_queries s' = ss_queries s \<and> handed sid sv rid (buf_bytes (sv_buf sv)) s'"
proof -
  note l = good_links [OF g] and ok = links_server(2) [OF good_links [OF g] sv(1)]
  note sb = srv_okD(1) [OF ok] and wg = links_glob(1) [OF l]
  have r: "ss_remotes s rid = Some r" "rm_server r = None" "\<not> rm_recv_io r" "buf_len (rm_buf r) = 0" "buf_idx (rm_buf r) = 0"
    using f by (auto simp: fresh_remote_def)
  note rb = links_remote(2) [OF l r(1)]
  let ?b = "sv_buf sv"
  let ?n = "brealloc (en_junk E) (rm_buf r) (buf_len ?b) SOCKET_BUF_SIZE"
  have len: "buf_len ?b \<le> length (buf_data ?n)" "length (buf_data ?n) = buf_capacity ?n"
    using brealloc_sock [OF rb] rb by (auto simp: sock_buf_def buf_simps)
  note rd = window_read [OF sb sv(3)]
  define rd' where "rd' = buf_bytes ?b @ drop (buf_len ?b) (buf_data ?n)"
  have wr: "mem_write (buf_data ?n) 0 (buf_bytes ?b) = Inr rd'" "length rd' = buf_capacity ?n"
    using len rd(2) by (simp_all add: rd'_def)
  define r1 where "r1 = (if buf_len ?b > 0
    then r\<lparr>rm_server := Some sid, rm_buf := ?n\<lparr>buf_data := rd', buf_len := buf_len ?b, buf_idx := 0\<rparr>\<rparr>
    else r\<lparr>rm_server := Some sid\<rparr>)"
  define b1 where "b1 = (if buf_len ?b > 0 then ?b\<lparr>buf_len := 0, buf_idx := 0\<rparr> else ?b)"
  let ?sv = "sv\<lparr>sv_remote := Some rid, sv_buf := b1\<rparr>"
  let ?s = "s\<lparr>ss_servers := (ss_servers s)(sid \<mapsto> ?sv), ss_remotes := (ss_remotes s)(rid \<mapsto> r1)\<rparr>"
  have e: "attach_remote E rid sid s = Inr ?s"
    using sv(1) r(1) rd(1) wr(1) by (simp add: attach_remote_def upd_eq get_eq Let_def r1_def b1_def)
  have r1: "sock_buf (rm_buf r1)" "rm_server r1 = Some sid" "\<not> rm_recv_io r1" "window (rm_buf r1)"
      "buf_bytes (rm_buf r1) = buf_bytes ?b"
    using rb r(3-5) brealloc_sock [OF rb, of "en_junk E" "buf_len ?b"] wr(2) len rd(2)
    by (auto simp: r1_def sock_buf_def window_def) (auto simp: buf_bytes_def rd'_def)
  have unl: "ss_servers s i = Some sv1 \<Longrightarrow> sv_remote sv1 \<noteq> Some rid" for i sv1
    using links_server(5) [OF l, of i sv1 rid] r(1,2) by auto
  have b1: "sock_buf b1" using sb by (simp add: b1_def)
  have "good W e d s0 {sid} ?s"
  proof (rule good_relink [OF g sv(1), where rid = rid and ro = "Some r1" and sv' = ?sv and
        qid = "case sv_query sv of None \<Rightarrow> ss_next s | Some q \<Rightarrow> q" and
        qo = "case sv_query sv of None \<Rightarrow> None | Some q \<Rightarrow> ss_queries s q"])
    show "\<forall>i sv1. ss_servers s i = Some sv1 \<longrightarrow>
         sv_remote sv1 = Some rid \<or> sv_query sv1 = Some (case sv_query sv of None \<Rightarrow> ss_next s | Some q \<Rightarrow> q) \<longrightarrow> i = sid"
      using unl fresh_id(4) [OF l] sole(2) [OF l sv(1)] by (auto split: option.splits)
    show "srv_links ?s sid ?sv" using r1(2) links_server(4) [OF l sv(1)] by (auto simp: srv_links_def)
    show "\<And>x. Some r1 = Some x \<Longrightarrow> rid < ss_next ?s \<and> sock_buf (rm_buf x) \<and> rem_links ?s rid x"
      using r1 links_remote(1) [OF l r(1)] by (auto simp: rem_links_def)
    show "(case sv_query sv of None \<Rightarrow> ss_next s | Some q \<Rightarrow> q) < ss_next ?s \<and>
        qry_links ?s (case sv_query sv of None \<Rightarrow> ss_next s | Some q \<Rightarrow> q) x"
      if "(case sv_query sv of None \<Rightarrow> None | Some q \<Rightarrow> ss_queries s q) = Some x" for x
      using that links_query(1,2) [OF l, of _ x] sv(1) by (auto simp: qry_links_def split: option.splits)
  qed (use sv ok b1 fresh_id(2) [OF l] in \<open>auto simp: srv_ok_def fun_upd_idem split: option.splits\<close>)
  moreover have "handed sid sv rid (buf_bytes ?b) ?s"
    unfolding handed_def using b1 r1 by (intro exI [of _ b1] exI [of _ r1]) simp
  ultimately show ?thesis using e by simp
qed

lemma drop_query:
  assumes g: "good W e d s0 X s" and q: "ss_queries s qid = Some q" "qr_server q = None"
  shows "\<exists>s'. resolv_free_cb qid s = Inr s' \<and> good W e d s0 X s'"
proof -
  note l = good_links [OF g]
  let ?s = "s\<lparr>ss_queries := (ss_queries s)(qid := None)\<rparr>"
  have n: "ss_servers s i = Some sv \<Longrightarrow> sv_query sv \<noteq> Some qid" for i sv
    using links_server(6) [OF l, of i sv qid] q by auto
  have "links W e d ?s"
  proof (rule linksI)
    show "i < ss_next ?s \<and> srv_ok e d sv \<and> srv_links ?s i sv" if "ss_servers ?s i = Some sv" for i sv
      using that links_server(1,2,4) [OF l, of i sv] n by (auto simp: srv_links_def)
    show "i < ss_next ?s \<and> sock_buf (rm_buf r) \<and> rem_links ?s i r" if "ss_remotes ?s i = Some r" for i r
      using that links_remote(1-3) [OF l, of i r] by (auto simp: rem_links_def)
    show "i < ss_next ?s \<and> qry_links ?s i x" if "ss_queries ?s i = Some x" for i x
      using that links_query(1,2) [OF l, of i x] by (auto simp: qry_links_def split: if_splits)
  qed (use links_glob [OF l] in auto)
  then have "good W e d s0 X ?s"
    using g by (simp add: good_def inv_x_def quiet_def linked_def cong: option.case_cong)
  then show ?thesis using q by (simp add: resolv_free_cb_def get_eq)
qed

text \<open>The flow of a connection whose remote has just been started.\<close>

lemma started_flow:
  assumes "sv_stage sv = STAGE_INIT \<or> sv_stage sv = STAGE_RESOLVE" "\<not> sv_send_io sv" "\<not> sv_recv_io sv"
    and "sv_query sv = None" "down_ok tr sid sv" "has_header (plain_of sid tr)"
    and "payload (plain_of sid tr) = to_remote rid tr @ buf_bytes (rm_buf r)"
    and "rm_send_io r" "\<not> rm_recv_io r" "window (rm_buf r)"
  shows "flow tr sid sv (Some (rid, r))"
  using assms by (auto simp: flow_simps)

lemma resolved_safe:
  assumes i: "inv W e d s" and q: "ss_queries s qid = Some q"
  shows "safe False (good W e d s {}) (resolved E io addr qid s)"
proof (cases "qr_server q")
  case None
  then show ?thesis using drop_query [OF good_enter [OF i, of "{}"] q None] q by (auto simp: resolved_def resolv_cb_def get_eq)
next
  case (Some sid)
  note l = inv_links [OF i] and g = good_enter [OF i, of "{sid}"]
  obtain sv where sv: "ss_servers s sid = Some sv" "sv_query sv = Some qid" using links_query(3) [OF l q Some] by blast
  note ok = links_server(2) [OF l sv(1)]
  have fl: "sv_stage sv = STAGE_RESOLVE" "linked s sv = None" "\<not> sv_recv_io sv" "\<not> sv_send_io sv" "window (sv_buf sv)"
      "down_ok (ss_trace s) sid sv" "has_header (plain_of sid (ss_trace s))"
      "payload (plain_of sid (ss_trace s)) = buf_bytes (sv_buf sv)"
    using inv_flow [OF i sv(1)] sv(2) by (auto simp: flow_def split: stage.splits option.splits)
  have rn: "sv_remote sv = None" using fl(2) links_server(5) [OF l sv(1)] by (cases "sv_remote sv") (auto simp: linked_def)
  have close: "\<exists>s2. bindr (close_and_free_server sid s1) (resolv_free_cb qid) = Inr s2 \<and> good W e d s {} s2"
    if g1: "good W e d s {sid} s1" "ss_queries s1 = ss_queries s" "ss_servers s1 sid = Some (sv\<lparr>sv_buf := b\<rparr>)" for s1 b
  proof -
    obtain s2 where s2: "close_and_free_server sid s1 = Inr s2" "good W e d s {} s2"
        "ss_queries s2 = unquery (Some qid) (ss_queries s)"
      using good_close_server [OF g1(1,3)] g1(2) sv(2) by auto
    then have "ss_queries s2 qid = Some (q\<lparr>qr_server := None\<rparr>)" using q by (simp add: unquery_def)
    then show ?thesis using drop_query [OF s2(2)] s2(1) by simp
  qed
  show ?thesis
  proof (cases addr)
    case None
    have "sv = sv\<lparr>sv_buf := sv_buf sv\<rparr>" by simp
    then show ?thesis
      using close [OF g refl, of "sv_buf sv"] None q Some sv
      by (auto simp: resolved_def resolv_cb_def get_eq simp del: safe_simps(2) intro: safe_eq)
  next
    case (Some a)
    have fin: "safe False (good W e d s {})
        (bindr (case ro of
                 None \<Rightarrow> close_and_free_server sid s1
               | Some rid \<Rightarrow> bindr (attach_remote E rid sid s1) (upd_remote rid (\<lambda>r. r\<lparr>rm_send_io := True\<rparr>))) (resolv_free_cb qid))"
      if g1: "good W e d s {sid} s1" "ss_queries s1 = ss_queries s" "\<exists>b. ss_servers s1 sid = Some (sv\<lparr>sv_buf := b\<rparr>)"
        and op: "\<forall>rid. ro = Some rid \<longrightarrow> opened (ss_trace s) sid sv rid s1" for ro s1
    proof (cases ro)
      case None
      then show ?thesis using close [OF g1(1,2)] g1(3) by (auto simp del: safe_simps(2) intro: safe_eq)
    next
      case (Some rid)
      then obtain b r es where o: "ss_servers s1 sid = Some (sv\<lparr>sv_buf := b\<rparr>)" "window b" "fresh_remote s1 rid r"
          "ss_trace s1 = ss_trace s @ es" "\<forall>x\<in>set es. about {} {rid} x"
          "buf_bytes (sv_buf sv) = to_remote rid (ss_trace s1) @ buf_bytes b"
        using op by (auto simp: opened_def)
      let ?sv1 = "sv\<lparr>sv_buf := b\<rparr>"
      obtain s2 where s2: "attach_remote E rid sid s1 = Inr s2" "good W e d s {sid} s2" "ss_trace s2 = ss_trace s1"
          "ss_queries s2 = ss_queries s" "handed sid ?sv1 rid (buf_bytes b) s2"
        using attach_good [OF g1(1) o(1) _ _ o(3), of E] rn o(2) g1(2) by auto
      then obtain b2 r2 where h: "ss_servers s2 sid = Some (?sv1\<lparr>sv_remote := Some rid, sv_buf := b2\<rparr>)" "sock_buf b2"
          "ss_remotes s2 rid = Some r2" "rm_server r2 = Some sid" "\<not> rm_recv_io r2" "window (rm_buf r2)"
          "buf_bytes (rm_buf r2) = buf_bytes b"
        by (auto simp: handed_def)
      let ?sv = "sv\<lparr>sv_remote := Some rid, sv_buf := b2, sv_query := None\<rparr>" and ?r = "r2\<lparr>rm_send_io := True\<rparr>"
      let ?s = "s2\<lparr>ss_remotes := (ss_remotes s2)(rid \<mapsto> ?r), ss_servers := (ss_servers s2)(sid \<mapsto> ?sv),
                   ss_queries := (ss_queries s2)(qid := None)\<rparr>"
      have e: "bindr (bindr (attach_remote E rid sid s1) (upd_remote rid (\<lambda>r. r\<lparr>rm_send_io := True\<rparr>))) (resolv_free_cb qid)
          = Inr ?s"
        using s2(1,4) h(1,3) q \<open>qr_server q = Some sid\<close> by (simp add: upd_eq resolv_free_cb_def get_eq)
      note l2 = good_links [OF s2(2)]
      have g3: "good W e d s {sid} ?s"
      proof (rule good_relink [OF s2(2) h(1), where rid = rid and ro = "Some ?r" and sv' = ?sv and qid = qid and qo = None])
        show "\<forall>i sv1. ss_servers s2 i = Some sv1 \<longrightarrow> sv_remote sv1 = Some rid \<or> sv_query sv1 = Some qid \<longrightarrow> i = sid"
          using sole [OF l2 h(1)] sv(2) by auto
        show "\<And>x. Some ?r = Some x \<Longrightarrow> rid < ss_next ?s \<and> sock_buf (rm_buf x) \<and> rem_links ?s rid x"
          using links_remote(1,2) [OF l2 h(3)] h(4) by (auto simp: rem_links_def)
      qed (use links_server(2) [OF l2 h(1)] h ok sv(2) in \<open>auto simp: srv_ok_def srv_links_def\<close>)
      have pr: "plain_of sid (ss_trace s2) = plain_of sid (ss_trace s)" "cipher_of sid (ss_trace s2) = cipher_of sid (ss_trace s)"
          "to_client sid (ss_trace s2) = to_client sid (ss_trace s)"
        using projections_other [OF o(5), of sid] s2(3) o(4) by auto
      have "flow (ss_trace ?s) sid ?sv (Some (rid, ?r))"
        by (rule started_flow) (use fl pr h o(6) s2(3) in \<open>auto simp: down_ok_def down_pending_def\<close>)
      then have "good W e d s {} ?s"
        using good_finish [OF g3] linked_eq(2) [of ?sv rid ?s ?r] by simp
      then show ?thesis using Some e by simp
    qed
    have "safe False (good W e d s {})
       (bindr (connect_to_remote E io a sid s) (\<lambda>(ro, s1). bindr (case ro of
                 None \<Rightarrow> close_and_free_server sid s1
               | Some rid \<Rightarrow> bindr (attach_remote E rid sid s1) (upd_remote rid (\<lambda>r. r\<lparr>rm_send_io := True\<rparr>))) (resolv_free_cb qid)))"
      unfolding safe_simps(2) [of _ _ "connect_to_remote E io a sid s"]
      by (rule safe_mono [OF connect_safe [OF g sv(1) rn fl(5), of E io a]]) (use fin in \<open>auto simp del: safe_simps(2)\<close>)
    then show ?thesis
      using Some q sv \<open>qr_server q = Some sid\<close>
      by (simp add: resolved_def resolv_cb_def get_eq bindr_assoc case_prod_unfold del: safe_simps(2))
  qed
qed

end
