(* ===== verification/Server_Request.thy ===== *)
theory Server_Request
  imports Server_Inv
begin

text \<open>
  The request header of \<^verbatim>\<open>server_recv_cb\<close> (\<^verbatim>\<open>src/server.c\<close>): on the plaintext of the first packet
  \<open>parse_request\<close> computes the grammar \<open>request_spec\<close> of the protocol, except that a host name of
  255 bytes fills \<open>host[255]\<close> without the NUL that every later use of \<open>host\<close> relies on.
\<close>

definition request_spec :: "('c, 'w, 're) env \<Rightarrow> 're acl \<Rightarrow> bytes \<Rightarrow> request" where
  "request_spec E A p =
     (case p of
        [] \<Rightarrow> Req_stop
      | t # q \<Rightarrow>
          let k = t AND 0xF in
          if k = 1 then
            (if 6 \<le> length q then Req_connect (SIN (raw16 (drop 4 q)) (take 4 q)) 7 else Req_stop)
          else if k = 4 then
            (if 18 \<le> length q then Req_connect (SIN6 (raw16 (drop 16 q)) (take 16 q)) 19 else Req_stop)
          else if k = 3 then
            (case q of
               [] \<Rightarrow> Req_stop
             | nl # r \<Rightarrow>
                 let n = unat nl; name = take n r; host = c_str name; port = raw16 (drop n r) in
                 if length r < n + 2 then Req_stop
                 else if en_acl_on E \<and> outbound_block_match_host (en_acl E) A host = 1 then Req_close
                 else
                   (case ae_ip (en_acl E) host of
                      Some (V4 a) \<Rightarrow> Req_connect (SIN port a) (n + 4)
                    | Some (V6 a) \<Rightarrow> Req_connect (SIN6 port a) (n + 4)
                    | None \<Rightarrow> if hostname_ok name then Req_resolve host port (n + 4) else Req_stop))
          else Req_stop)"

text \<open>A request by name whose name has 255 bytes.\<close>

definition overlong :: "bytes \<Rightarrow> bool" where
  "overlong p \<longleftrightarrow> 259 \<le> length p \<and> p ! 0 AND 0xF = 3 \<and> p ! 1 = 255"

lemma raw16_take [simp]: "2 \<le> m \<Longrightarrow> raw16 (take m d) = raw16 d"
  by (simp add: raw16_def)

lemma strchr_safe: "safe True (\<lambda>_. True) (strchr_from c m)"
  by (induction c m rule: strchr_from.induct) (auto simp: safe_def split: sum.splits)

lemma strspn_safe: "safe True (\<lambda>_. True) (strspn_from m)"
  by (induction m rule: strspn_from.induct) (auto simp: safe_def split: sum.splits)

lemma validate_labels_safe: "safe True (\<lambda>_. True) (validate_labels m n l)"
proof (induction m n l rule: validate_labels.induct)
  case (1 m n l)
  have b: "safe True (\<lambda>_. True) (byte_at m i)" for i by (simp add: byte_at_def safe_def)
  show ?case
    by (subst validate_labels.simps)
      (use 1 in \<open>auto simp: Let_def intro!: safe_mono [OF strchr_safe] safe_mono [OF strspn_safe] safe_mono [OF b]\<close>)
qed

lemma validate_hostname_safe: "safe True (\<lambda>_. True) (validate_hostname h n)"
  by (auto simp: validate_hostname_def byte_at_def safe_def [of _ _ "Inl _"]
      intro: validate_labels_safe split: option.splits)

text \<open>The plaintext of a buffer, read from its start.\<close>

definition front :: "buffer \<Rightarrow> bytes" where
  "front b = take (buf_len b) (buf_data b)"

lemma front_read:
  assumes "buf_len b \<le> length (buf_data b)" "off + n \<le> buf_len b"
  shows "mem_read (buf_data b) off n = Inr (take n (drop off (front b)))"
  using assms by (simp add: front_def drop_take)

lemma length_front: "buf_len b \<le> length (buf_data b) \<Longrightarrow> length (front b) = buf_len b"
  by (simp add: front_def)

lemma request_host_eq:
  "length name \<le> 255 \<Longrightarrow> request_host name = Inr (name @ replicate (255 - length name) 0)"
  by (simp add: request_host_def)

lemma parse_domain_eq:
  assumes b: "buf_len b \<le> length (buf_data b)" and p: "front b = t # nl # r" and n: "n = unat nl" "n \<le> 254"
  shows "parse_domain E A b =
     (let name = take n r; host = c_str name; port = raw16 (drop n r) in
      Inr (if length r < n + 2 then (Some Req_stop, None, [], 0)
           else if en_acl_on E \<and> outbound_block_match_host (en_acl E) A host = 1 then (Some Req_close, None, [], n + 2)
           else case ae_ip (en_acl E) host of
               Some ip \<Rightarrow> (None, Some (case ip of V4 a \<Rightarrow> SIN port a | V6 a \<Rightarrow> SIN6 port a), host, n + 2)
             | None \<Rightarrow> (if hostname_ok name then None else Some Req_stop, None, host, n + 2)))"
proof -
  have len: "length r + 2 = buf_len b" using length_front [OF b] p by simp
  have r1: "mem_read (buf_data b) 1 1 = Inr [nl]" using front_read [OF b, of 1 1] p len by simp
  let ?name = "take n r"
  show ?thesis
  proof (cases "length r < n + 2")
    case True
    then show ?thesis using r1 len n by (simp add: parse_domain_def Let_def)
  next
    case False
    obtain k where k: "255 - length ?name = Suc k" using n(2) by (cases "255 - length ?name") auto
    have host: "request_host ?name = Inr (?name @ 0 # replicate k 0)"
      using request_host_eq [of ?name] n(2) k by (simp del: length_take)
    have cs: "c_str (?name @ 0 # replicate k 0) = c_str ?name" using c_str_zeros [of ?name k] by simp
    have rd: "mem_read (buf_data b) 2 n = Inr ?name" using front_read [OF b, of 2 n] p len False by simp
    have rp: "mem_read (buf_data b) (Suc (Suc n)) 2 = Inr (take 2 (drop n r))"
      using front_read [OF b, of "Suc (Suc n)" 2] p len False by simp
    have v: "validate_hostname (Some (?name @ 0 # replicate k 0)) n = Inr (hostname_ok ?name)"
      using validate_hostname_eq [of ?name "replicate k 0"] False by (simp add: min_def split: if_splits)
    show ?thesis
      using False len r1 unfolding n(1)
      by (simp add: parse_domain_def Let_def rd [unfolded n(1)] host [unfolded n(1)] str_in_def cs [unfolded n(1)]
          rp [unfolded n(1)] v [unfolded n(1)] split: option.split cork_ip.split)
  qed
qed

lemma parse_domain_short:
  assumes "2 \<le> length (buf_data b)" "buf_len b < 4"
  shows "parse_domain E A b = Inr (Some Req_stop, None, [], 0)"
  using assms by (simp add: parse_domain_def)

lemma parse_request_eq:
  assumes b: "buf_len b \<le> length (buf_data b)" "2 \<le> length (buf_data b)" and o: "\<not> overlong (front b)"
  shows "parse_request E A b = Inr (request_spec E A (front b))"
proof (cases "front b")
  case Nil
  then have l: "buf_len b = 0" using b by (auto simp: front_def)
  have "mem_read (buf_data b) 0 1 = Inr (take 1 (buf_data b))" using b(2) by simp
  then show ?thesis using Nil l parse_domain_short [OF b(2), of E A] by (simp add: parse_request_def request_spec_def Let_def)
next
  case (Cons t q)
  then have len: "buf_len b = Suc (length q)" using length_front [OF b(1)] Cons by simp
  have r0: "mem_read (buf_data b) 0 1 = Inr [t]" using front_read [OF b(1), of 0 1] Cons len by simp
  note fr = front_read [OF b(1), unfolded Cons len]
  consider "t AND 0xF = 1" | "t AND 0xF = 4" | "t AND 0xF = 3" | "t AND 0xF \<noteq> 1" "t AND 0xF \<noteq> 3" "t AND 0xF \<noteq> 4" by blast
  then show ?thesis
  proof cases
    case 1
    have "mem_read (buf_data b) 1 4 = Inr (take 4 q)" "mem_read (buf_data b) 5 2 = Inr (take 2 (drop 4 q))" if "6 \<le> length q"
      using fr [of 1 4] fr [of 5 2] that by simp_all
    then show ?thesis using 1 r0 len Cons by (auto simp: parse_request_def request_spec_def)
  next
    case 2
    have "mem_read (buf_data b) 1 16 = Inr (take 16 q)" "mem_read (buf_data b) 17 2 = Inr (take 2 (drop 16 q))"
      if "18 \<le> length q" using fr [of 1 16] fr [of 17 2] that by simp_all
    then show ?thesis using 2 r0 len Cons by (auto simp: parse_request_def request_spec_def)
  next
    case 3
    show ?thesis
    proof (cases q)
      case Nil
      then show ?thesis using 3 r0 Cons len parse_domain_short [OF b(2), of E A]
        by (simp add: parse_request_def request_spec_def)
    next
      case q: (Cons nl r)
      define n where "n = unat nl"
      show ?thesis
      proof (cases "length r < n + 2")
        case True
        then have "parse_domain E A b = Inr (Some Req_stop, None, [], 0)"
          using fr [of 1 1] q len by (simp add: parse_domain_def n_def)
        then show ?thesis using 3 r0 Cons q True by (simp add: parse_request_def request_spec_def Let_def n_def)
      next
        case False
        have "n < 256" using unsigned_less [of nl] by (simp add: n_def)
        moreover have "n \<noteq> 255"
        proof
          assume "n = 255"
          then have "nl = 255" unfolding n_def by (simp add: word_unat_eq_iff)
          then show False using o False Cons q 3 by (simp add: overlong_def n_def)
        qed
        ultimately have n: "n \<le> 254" by simp
        have rp: "mem_read (buf_data b) (n + 2) 2 = Inr (take 2 (drop n r))"
          using fr [of "n + 2" 2] q False by simp
        show ?thesis
          using 3 r0 Cons q False len rp parse_domain_eq [OF b(1) Cons [unfolded q] n_def n, of E A]
          by (auto simp: parse_request_def request_spec_def Let_def n_def split: option.split cork_ip.split)
      qed
    qed
  next
    case 4
    then show ?thesis using r0 Cons by (simp add: parse_request_def request_spec_def)
  qed
qed

text \<open>The header of an accepted request.\<close>

fun req_len :: "request \<Rightarrow> nat option" where
  "req_len (Req_connect a n) = Some n"
| "req_len (Req_resolve h p n) = Some n"
| "req_len _ = None"

lemma request_spec_header:
  "req_len (request_spec E A p) = Some n \<Longrightarrow> has_header p \<and> n = header_len p"
  by (auto simp: request_spec_def has_header_def header_len_def Let_def split: list.splits if_splits option.splits cork_ip.splits)

lemma parse_overlong:
  assumes b: "buf_len b \<le> length (buf_data b)" and o: "overlong (front b)"
  shows "safe True (\<lambda>rq. \<forall>n. req_len rq = Some n \<longrightarrow> has_header (front b) \<and> n = header_len (front b)) (parse_request E A b)"
    and "0 \<notin> set (take 255 (drop 2 (front b))) \<Longrightarrow> parse_request E A b = Inl Out_of_bounds"
proof -
  let ?p = "front b"
  have len: "259 \<le> buf_len b" using o length_front [OF b] by (simp add: overlong_def)
  have r0: "mem_read (buf_data b) 0 1 = Inr [?p ! 0]"
    using front_read [OF b, of 0 1] len length_front [OF b] by (cases ?p) auto
  have r1: "mem_read (buf_data b) 1 1 = Inr [255]"
    using front_read [OF b, of 1 1] len o length_front [OF b]
    by (cases ?p; cases "tl ?p") (auto simp: overlong_def)
  let ?n = "take 255 (drop 2 ?p)"
  have rn: "mem_read (buf_data b) 2 255 = Inr ?n" using front_read [OF b, of 2 255] len by simp
  have host: "request_host ?n = Inr ?n" using length_front [OF b] len by (simp add: request_host_def)
  have rp: "mem_read (buf_data b) 257 2 = Inr (take 2 (drop 257 ?p))" using front_read [OF b, of 257 2] len by simp
  have hd: "?p ! 0 AND 0xF = 3" "has_header ?p" "header_len ?p = 259"
    using o by (auto simp: overlong_def has_header_def header_len_def)
  have sd: "safe True (\<lambda>(early, addr, host, offset). offset = 257 \<and> (\<forall>q. early = Some q \<longrightarrow> req_len q = None)) (parse_domain E A b)"
    using len
    by (auto simp: parse_domain_def r1 [simplified] rn host str_in_def rp safe_def [of _ _ "Inl _"] Let_def
        intro!: safe_mono [OF validate_hostname_safe] split: option.splits)
  show "safe True (\<lambda>rq. \<forall>n. req_len rq = Some n \<longrightarrow> has_header ?p \<and> n = header_len ?p) (parse_request E A b)"
  proof -
    have e: "parse_request E A b = bindr (parse_domain E A b) (\<lambda>(early, addr, host, offset).
          case early of
            Some q \<Rightarrow> Inr q
          | None \<Rightarrow>
              if offset = 1 then Inr Req_stop
              else
                bindr (mem_read (buf_data b) offset 2) (\<lambda>p.
                  let port = raw16 p; offset = offset + 2 in
                  if buf_len b < offset then Inr Req_stop
                  else case addr of
                    Some a \<Rightarrow> Inr (Req_connect a offset)
                  | None \<Rightarrow> Inr (Req_resolve host port offset)))"
      using r0 hd(1) by (simp add: parse_request_def)
    show ?thesis
      unfolding e safe_simps(2) by (rule safe_mono [OF sd]) (use len rp hd in \<open>auto split: option.splits\<close>)
  qed
  show "parse_request E A b = Inl Out_of_bounds" if "0 \<notin> set ?n"
    using that len hd r0 r1
    by (simp add: parse_request_def parse_domain_def rn host str_in_def Let_def)
qed

lemma parse_request_safe:
  assumes "buf_len b \<le> length (buf_data b)" "2 \<le> length (buf_data b)"
  shows "safe (overlong (front b)) (\<lambda>rq. \<forall>n. req_len rq = Some n \<longrightarrow> has_header (front b) \<and> n = header_len (front b))
     (parse_request E A b)"
proof (cases "overlong (front b)")
  case True
  then show ?thesis using parse_overlong(1) [OF assms(1) True, of E A] by simp
next
  case False
  then show ?thesis using parse_request_eq [OF assms False, of E A] request_spec_header [of E A] by simp
qed

section \<open>Properties\<close>

text \<open>What a client sends: the type byte, the address, the port in memory order.\<close>

definition port_bytes :: "u16 \<Rightarrow> bytes" where
  "port_bytes p = [ucast p, ucast (drop_bit 8 p)]"

fun request_bytes :: "request \<Rightarrow> bytes" where
  "request_bytes (Req_connect (SIN p a) n) = 1 # a @ port_bytes p"
| "request_bytes (Req_connect (SIN6 p a) n) = 4 # a @ port_bytes p"
| "request_bytes (Req_resolve h p n) = 3 # of_nat (length h) # h @ port_bytes p"
| "request_bytes _ = []"

text \<open>The requests a client can ask for and this server will serve.\<close>

fun servable :: "('c, 'w, 're) env \<Rightarrow> 're acl \<Rightarrow> request \<Rightarrow> bool" where
  "servable E A (Req_connect (SIN p a) n) = (length a = 4 \<and> n = 7)"
| "servable E A (Req_connect (SIN6 p a) n) = (length a = 16 \<and> n = 19)"
| "servable E A (Req_resolve h p n) =
     (hostname_ok h \<and> length h \<le> 254 \<and> 0 \<notin> set h \<and> n = length h + 4 \<and> ae_ip (en_acl E) h = None \<and>
      \<not> (en_acl_on E \<and> outbound_block_match_host (en_acl E) A h = 1))"
| "servable E A _ = False"

lemma raw16_port [simp]: "raw16 (port_bytes p @ r) = p"
proof -
  have "ucast (ucast p :: byte) OR push_bit 8 (ucast (ucast (drop_bit 8 p) :: byte)) = p"
    by (rule bit_word_eqI) (auto simp: bit_simps)
  then show ?thesis by (simp add: raw16_def port_bytes_def)
qed

lemma length_port_bytes [simp]: "length (port_bytes p) = 2"
  by (simp add: port_bytes_def)

lemma c_str_id: "0 \<notin> set h \<Longrightarrow> c_str h = h"
  by (rule c_str_no_nul)

lemma request_spec_bytes:
  assumes "servable E A rq"
  shows "request_spec E A (request_bytes rq @ rest) = rq" "\<not> overlong (request_bytes rq @ rest)"
  using assms
proof (induction E A rq rule: servable.induct)
  case (3 E A h p n)
  {
    case 1
    then have "unat (of_nat (length h) :: byte) = length h" by (simp add: unat_of_nat)
    then show ?case using 1 by (simp add: request_spec_def Let_def c_str_id)
  next
    case 2
    then have "unat (of_nat (length h) :: byte) = length h" by (simp add: unat_of_nat)
    then have "(of_nat (length h) :: byte) \<noteq> 255" using 2 by (auto dest: arg_cong [of _ _ unat])
    then show ?case by (simp add: overlong_def)
  }
qed (simp_all add: request_spec_def overlong_def Let_def)


definition env0 :: "(unit, unit, bytes) env" where
  "env0 = \<lparr>en_encrypt = (\<lambda>w b c n. Inr (0, b, c, w)), en_decrypt = (\<lambda>w b c n. Inr (0, b, c, w)),
     en_ctx_init = (\<lambda>w _. Inr ((), w)), en_acl_on = False, en_acl = acl_env0, en_ntop = (\<lambda>_. []),
     en_bind_local = (\<lambda>_. False), en_junk = (\<lambda>_. 0)\<rparr>"

definition packet :: "bytes \<Rightarrow> buffer" where
  "packet xs = \<lparr>buf_idx = 0, buf_len = length xs, buf_capacity = length xs, buf_data = xs\<rparr>"

lemma front_packet [simp]: "front (packet xs) = xs" "buf_len (packet xs) = length xs" "buf_data (packet xs) = xs"
  by (simp_all add: front_def packet_def)


text \<open>
  C25. Round trip: every address and every host name of up to 254 bytes the server serves is read
  back from the bytes a client sends for it, with the port and the length of the header, whatever
  payload follows in the same packet.
\<close>

theorem request_roundtrip:
  assumes "servable E A rq" "front b = request_bytes rq @ rest"
    and "buf_len b \<le> length (buf_data b)" "2 \<le> length (buf_data b)"
  shows "parse_request E A b = Inr rq"
  using parse_request_eq [OF assms(3,4), of E A] request_spec_bytes [OF assms(1), of rest] assms(2) by simp

theorem request_roundtrip_witness:
  "parse_request env0 acl0 (packet (request_bytes (Req_resolve [97, 46, 98] 80 7) @ [1, 2])) = Inr (Req_resolve [97, 46, 98] 80 7)"
  using request_roundtrip [of env0 acl0 "Req_resolve [97, 46, 98] 80 7"
      "packet (request_bytes (Req_resolve [97, 46, 98] 80 7) @ [1, 2])" "[1, 2]"]
  by (simp add: env0_def acl_env0_def) code_simp

text \<open>
  C37. The host buffer: \<open>host[255]\<close> has no room for the terminating NUL of a name of 255 bytes. A
  client that knows the password and asks for such a name makes the server read past the buffer,
  in the block list, in \<open>cork_ip_init\<close> or later; the model stops with \<open>Out_of_bounds\<close>.
\<close>

theorem request_host_overrun:
  assumes "buf_len b \<le> length (buf_data b)" "overlong (front b)" "0 \<notin> set (take 255 (drop 2 (front b)))"
  shows "parse_request E A b = Inl Out_of_bounds"
  by (rule parse_overlong(2) [OF assms])

theorem request_host_overrun_witness:
  "parse_request env0 acl0 (packet (3 # 255 # replicate 257 97)) = Inl Out_of_bounds"
  using request_host_overrun [of "packet (3 # 255 # replicate 257 97)" env0 acl0]
  by (simp add: overlong_def)

end
