(* ===== verification/Server_Relay.thy ===== *)
theory Server_Relay
  imports Server_Connect Server_Request
begin

text \<open>
  The callbacks that use the cipher. The locale \<open>relay_crypto\<close> is the contract of the cipher module
  as the relay relies on it: contexts can be made, a received packet of at most \<open>SOCKET_BUF_SIZE\<close>
  bytes can be decrypted and a packet of that size encrypted without fault, and the buffer handed
  back is again a socket buffer.
\<close>

locale relay_crypto =
  fixes E :: "('c, 'w, 're) env" and winv :: "'w \<Rightarrow> bool" and einv :: "'c \<Rightarrow> bool" and dinv :: "'c \<Rightarrow> bool"
  assumes ctx_enc: "winv w \<Longrightarrow> \<exists>c w'. en_ctx_init E w True = Inr (c, w') \<and> winv w' \<and> einv c"
    and ctx_dec: "winv w \<Longrightarrow> \<exists>c w'. en_ctx_init E w False = Inr (c, w') \<and> winv w' \<and> dinv c"
    and decrypts: "winv w \<Longrightarrow> dinv c \<Longrightarrow> sock_buf b \<Longrightarrow> 0 < buf_len b \<Longrightarrow> buf_len b \<le> SOCKET_BUF_SIZE \<Longrightarrow>
      \<exists>r b' c' w'. en_decrypt E w b c SOCKET_BUF_SIZE = Inr (r, b', c', w') \<and> winv w' \<and> sock_buf b' \<and>
        (r = CRYPTO_ERROR \<or> (r = CRYPTO_NEED_MORE \<or> r = CRYPTO_OK \<and> buf_len b' \<le> buf_capacity b') \<and> dinv c')"
    and encrypts: "winv w \<Longrightarrow> einv c \<Longrightarrow> sock_buf b \<Longrightarrow> 0 < buf_len b \<Longrightarrow> buf_len b \<le> SOCKET_BUF_SIZE \<Longrightarrow>
      \<exists>r b' c' w'. en_encrypt E w b c SOCKET_BUF_SIZE = Inr (r, b', c', w') \<and> winv w' \<and> sock_buf b' \<and> einv c' \<and>
        (r = 0 \<longrightarrow> buf_len b' \<le> buf_capacity b')"

section \<open>Data for the remote\<close>

lemma crypto_codes [simp]: "CRYPTO_ERROR \<noteq> CRYPTO_OK" "CRYPTO_NEED_MORE \<noteq> CRYPTO_OK" "CRYPTO_NEED_MORE \<noteq> CRYPTO_ERROR"
  "CRYPTO_OK \<noteq> CRYPTO_ERROR" "CRYPTO_OK \<noteq> CRYPTO_NEED_MORE" "CRYPTO_ERROR \<noteq> CRYPTO_NEED_MORE"
  by (simp_all add: CRYPTO_ERROR_def CRYPTO_OK_def CRYPTO_NEED_MORE_def)

lemma front_bytes:
  "buf_bytes (b\<lparr>buf_idx := 0\<rparr>) = front b"
  "n \<le> buf_len b \<Longrightarrow> buf_bytes (b\<lparr>buf_len := buf_len b - n, buf_idx := n\<rparr>) = drop n (front b)"
  by (simp_all add: buf_bytes_def front_def drop_take)

text \<open>
  A connection in \<open>STAGE_STREAM\<close> whose decrypted bytes lie in the buffer of the remote: those and
  what the kernel took are the payload so far.
\<close>

definition to_forward :: "event_out list \<Rightarrow> nat \<Rightarrow> 'c server \<Rightarrow> nat \<Rightarrow> remote \<Rightarrow> bool" where
  "to_forward tr sid sv rid r \<longleftrightarrow>
     sv_stage sv = STAGE_STREAM \<and> sv_query sv = None \<and> down_ok tr sid sv \<and> (sv_send_io sv \<longrightarrow> window (sv_buf sv)) \<and>
     rm_send_connected r \<and> \<not> rm_send_io r \<and> sv_recv_io sv \<and> rm_recv_io r = (\<not> sv_send_io sv) \<and> buf_len (rm_buf r) \<le> buf_capacity (rm_buf r) \<and>
     has_header (plain_of sid tr) \<and> payload (plain_of sid tr) = to_remote rid tr @ front (rm_buf r)"

lemma forward_good:
  assumes g: "good W e d s0 {sid} s"
    and own: "ss_servers s sid = Some sv" "sv_remote sv = Some rid" "ss_remotes s rid = Some r"
    and tf: "to_forward (ss_trace s) sid sv rid r"
  shows "\<exists>s'. server_forward io sid rid s = Inr s' \<and> good W e d s0 {} s'"
proof -
  note l = good_links [OF g]
  note ok = links_server(2) [OF l own(1)] and wg = links_glob(1) [OF l] and rb = links_remote(2) [OF l own(3)]
  let ?b = "rm_buf r" and ?d = "front (rm_buf r)"
  have len: "buf_len ?b \<le> length (buf_data ?b)" "length ?d = buf_len ?b"
    using tf rb length_front [of ?b] by (auto simp: to_forward_def sock_buf_def)
  have rd: "mem_read (buf_data ?b) 0 (buf_len ?b) = Inr ?d" using len(1) by (simp add: front_def)
  consider "io_send io = Send_again" | "io_send io = Send_err"
    | n where "io_send io = Send n" "n < buf_len ?b" | n where "io_send io = Send n" "buf_len ?b \<le> n"
    by (cases "io_send io") (force simp: not_less)+
  then show ?thesis
  proof cases
    case 1
    let ?r = "r\<lparr>rm_buf := ?b\<lparr>buf_idx := 0\<rparr>, rm_send_io := True\<rparr>" and ?sv = "sv\<lparr>sv_recv_io := False\<rparr>"
    let ?s = "s\<lparr>ss_remotes := (ss_remotes s)(rid \<mapsto> ?r), ss_servers := (ss_servers s)(sid \<mapsto> ?sv)\<rparr>"
    have e: "server_forward io sid rid s = Inr ?s" using 1 own rd by (simp add: server_forward_def get_eq upd_eq)
    have "good W e d s0 {} ?s"
    proof (rule good_conn [OF g own, where sv' = ?sv and r' = ?r and es = "[]"])
      show "flow (ss_trace ?s) sid ?sv (Some (rid, ?r))"
        using tf front_bytes(1) [of ?b] by (simp add: to_forward_def flow_simps window_def)
    qed (use own ok wg rb tf in \<open>auto simp: srv_ok_def to_forward_def\<close>)
    then show ?thesis using e by auto
  next
    case 2
    then show ?thesis
      using good_close_both [OF g own(1), of "Some rid"] own rd by (auto simp: server_forward_def get_eq)
  next
    case (3 n)
    let ?r = "r\<lparr>rm_buf := ?b\<lparr>buf_len := buf_len ?b - n, buf_idx := n\<rparr>, rm_send_io := True\<rparr>" and ?sv = "sv\<lparr>sv_recv_io := False\<rparr>"
    let ?x = "Sent_remote rid (take n ?d)"
    let ?s = "(trace ?x s)\<lparr>ss_remotes := (ss_remotes s)(rid \<mapsto> ?r), ss_servers := (ss_servers s)(sid \<mapsto> ?sv)\<rparr>"
    have e: "server_forward io sid rid s = Inr ?s" using 3 own rd len by (simp add: server_forward_def get_eq upd_eq Let_def)
    have "good W e d s0 {} ?s"
    proof (rule good_conn [OF g own, where sv' = ?sv and r' = ?r and es = "[?x]"])
      show "flow (ss_trace ?s) sid ?sv (Some (rid, ?r))"
        using tf 3(2) front_bytes(2) [of n ?b] by (auto simp: to_forward_def flow_simps window_def)
    qed (use own ok wg rb tf in \<open>auto simp: srv_ok_def to_forward_def\<close>)
    then show ?thesis using e by auto
  next
    case (4 n)
    let ?x = "Sent_remote rid ?d"
    have e: "server_forward io sid rid s = Inr (trace ?x s)" using 4 own rd len by (simp add: server_forward_def get_eq Let_def)
    have "good W e d s0 {} (trace ?x s)"
    proof (rule good_conn [OF g own, where sv' = sv and r' = r and es = "[?x]"])
      show "flow (ss_trace (trace ?x s)) sid sv (Some (rid, r))"
        using tf by (auto simp: to_forward_def flow_simps)
    qed (use own ok wg rb in \<open>auto simp: fun_upd_idem\<close>)
    then show ?thesis using e by auto
  qed
qed

lemma received:
  assumes "sock_buf b" "bs \<noteq> []" "length bs \<le> SOCKET_BUF_SIZE"
  shows "\<exists>d. mem_write (buf_data b) 0 bs = Inr d \<and> sock_buf (b\<lparr>buf_data := d\<rparr>) \<and>
    sock_buf (b\<lparr>buf_data := d, buf_len := length bs\<rparr>)"
proof -
  have "length bs \<le> length (buf_data b)" using assms by (simp add: sock_buf_def)
  then show ?thesis using assms(1) by (simp add: sock_buf_def)
qed

section \<open>The first request\<close>

lemma stop_good:
  assumes g: "good W e d s0 {sid} s" and sv: "ss_servers s sid = Some sv" "sv_remote sv = None" "sv_query sv = None"
    and io: "sv_recv_io sv" "\<not> sv_send_io sv"
  shows "\<exists>s'. stop_server sid s = Inr s' \<and> good W e d s0 {} s'"
proof -
  note l = good_links [OF g]
  let ?sv = "sv\<lparr>sv_stage := STAGE_STOP\<rparr>"
  let ?s = "s\<lparr>ss_servers := (ss_servers s)(sid \<mapsto> ?sv)\<rparr>"
  have "good W e d s0 {} ?s"
  proof (rule good_srv [OF g sv(1), where sv' = ?sv and es = "[]"])
    show "flow (ss_trace ?s) sid ?sv (linked s sv)"
      using sv io linked_eq(1) [OF sv(2), of s] by (simp add: flow_def)
  qed (use links_server(2) [OF l sv(1)] links_glob(1) [OF l] in \<open>auto simp: srv_ok_def\<close>)
  then show ?thesis using sv(1) by (simp add: stop_server_def upd_eq)
qed

lemma safe_ex: "\<exists>s'. m = Inr s' \<and> P s' \<Longrightarrow> safe ov P m"
  by auto

lemma connect_request:
  assumes g: "good W e d s0 {sid} s"
    and sv: "ss_servers s sid = Some sv" "sv_remote sv = None" "sv_query sv = None" "sv_stage sv = STAGE_INIT" "\<not> sv_send_io sv"
    and w: "window (sv_buf sv)" and acc: "down_ok (ss_trace s) sid sv" "has_header (plain_of sid (ss_trace s))"
      "payload (plain_of sid (ss_trace s)) = buf_bytes (sv_buf sv)"
  shows "safe False (good W e d s0 {})
     (bindr (connect_to_remote E io addr sid s) (\<lambda>(ro, s).
             case ro of
               None \<Rightarrow> close_and_free_server sid s
             | Some rid \<Rightarrow>
                 bindr (attach_remote E rid sid s) (\<lambda>s.
                 bindr (upd_server sid (\<lambda>sv. sv\<lparr>sv_recv_io := False\<rparr>) s)
                   (upd_remote rid (\<lambda>r. r\<lparr>rm_send_io := True\<rparr>)))))"
proof -
  have fin: "safe False (good W e d s0 {})
      (case ro of None \<Rightarrow> close_and_free_server sid s1
             | Some rid \<Rightarrow>
                 bindr (attach_remote E rid sid s1) (\<lambda>s.
                 bindr (upd_server sid (\<lambda>sv. sv\<lparr>sv_recv_io := False\<rparr>) s)
                   (upd_remote rid (\<lambda>r. r\<lparr>rm_send_io := True\<rparr>))))"
    if g1: "good W e d s0 {sid} s1" "\<exists>b. ss_servers s1 sid = Some (sv\<lparr>sv_buf := b\<rparr>)"
      and op: "\<forall>rid. ro = Some rid \<longrightarrow> opened (ss_trace s) sid sv rid s1" for ro s1
  proof (cases ro)
    case None
    then show ?thesis using good_close_server [OF g1(1)] g1(2) by (auto intro: safe_eq)
  next
    case (Some rid)
    then obtain b r es where o: "ss_servers s1 sid = Some (sv\<lparr>sv_buf := b\<rparr>)" "window b" "fresh_remote s1 rid r"
        "ss_trace s1 = ss_trace s @ es" "\<forall>x\<in>set es. about {} {rid} x"
        "buf_bytes (sv_buf sv) = to_remote rid (ss_trace s1) @ buf_bytes b"
      using op by (auto simp: opened_def)
    obtain s2 where s2: "attach_remote E rid sid s1 = Inr s2" "good W e d s0 {sid} s2" "ss_trace s2 = ss_trace s1"
        "handed sid (sv\<lparr>sv_buf := b\<rparr>) rid (buf_bytes b) s2"
      using attach_good [OF g1(1) o(1) _ _ o(3), of E] sv(2) o(2) by auto
    then obtain b2 r2 where h: "ss_servers s2 sid = Some (sv\<lparr>sv_remote := Some rid, sv_buf := b2\<rparr>)" "sock_buf b2"
        "ss_remotes s2 rid = Some r2" "rm_server r2 = Some sid" "\<not> rm_recv_io r2" "window (rm_buf r2)"
        "buf_bytes (rm_buf r2) = buf_bytes b"
      by (auto simp: handed_def)
    let ?sv2 = "sv\<lparr>sv_remote := Some rid, sv_buf := b2\<rparr>"
    let ?sv = "sv\<lparr>sv_remote := Some rid, sv_buf := b2, sv_recv_io := False\<rparr>" and ?r = "r2\<lparr>rm_send_io := True\<rparr>"
    let ?s = "s2\<lparr>ss_servers := (ss_servers s2)(sid \<mapsto> ?sv), ss_remotes := (ss_remotes s2)(rid \<mapsto> ?r)\<rparr>"
    have e: "bindr (attach_remote E rid sid s1) (\<lambda>s.
                 bindr (upd_server sid (\<lambda>sv. sv\<lparr>sv_recv_io := False\<rparr>) s)
                   (upd_remote rid (\<lambda>r. r\<lparr>rm_send_io := True\<rparr>))) = Inr ?s"
      using s2(1) h(1,3) by (simp add: upd_eq)
    note l2 = good_links [OF s2(2)]
    have pr: "plain_of sid (ss_trace s2) = plain_of sid (ss_trace s)" "cipher_of sid (ss_trace s2) = cipher_of sid (ss_trace s)"
        "to_client sid (ss_trace s2) = to_client sid (ss_trace s)"
      using projections_other [OF o(5), of sid] s2(3) o(4) by auto
    have "good W e d s0 {} ?s"
    proof (rule good_conn [OF s2(2) h(1) _ h(3), where sv' = ?sv and r' = ?r and es = "[]"])
      show "flow (ss_trace ?s) sid ?sv (Some (rid, ?r))"
        by (rule started_flow) (use sv acc pr h o(6) s2(3) in \<open>auto simp: down_ok_def down_pending_def\<close>)
    qed (use links_server(2) [OF l2 h(1)] links_remote(2) [OF l2 h(3)] links_glob(1) [OF l2] in \<open>auto simp: srv_ok_def\<close>)
    then show ?thesis using Some e by simp
  qed
  show ?thesis
    unfolding safe_simps(2) [of _ _ "connect_to_remote E io addr sid s"]
    by (rule safe_mono [OF connect_safe [OF g sv(1,2) w, of E io addr]]) (use fin in \<open>auto simp del: safe_simps(2)\<close>)
qed

lemma request_good:
  assumes g: "good W e d s0 {sid} s"
    and sv: "ss_servers s sid = Some sv" "sv_remote sv = None" "sv_query sv = None" "sv_stage sv = STAGE_INIT"
      "\<not> sv_send_io sv" "sv_recv_io sv"
    and len: "buf_len (sv_buf sv) \<le> buf_capacity (sv_buf sv)"
    and acc: "down_ok (ss_trace s) sid sv" "plain_of sid (ss_trace s) = front (sv_buf sv)"
  shows "safe (overlong (front (sv_buf sv))) (good W e d s0 {}) (server_request E io sid s)"
proof -
  note l = good_links [OF g]
  note ok = links_server(2) [OF l sv(1)] and wg = links_glob(1) [OF l]
  let ?b = "sv_buf sv" and ?p = "front (sv_buf sv)"
  have blen: "buf_len ?b \<le> length (buf_data ?b)" "2 \<le> length (buf_data ?b)"
    using len srv_okD(1) [OF ok] by (auto simp: sock_buf_def SOCKET_BUF_SIZE_def)
  have skipped: "good W e d s0 {sid} s1" "ss_servers s1 sid = Some sv1" "window (sv_buf sv1)"
      "payload (plain_of sid (ss_trace s)) = buf_bytes (sv_buf sv1)"
    if h: "has_header ?p" "n = header_len ?p"
      and sv1: "sv1 = sv\<lparr>sv_buf := ?b\<lparr>buf_len := buf_len ?b - n, buf_idx := n\<rparr>\<rparr>"
      and s1: "s1 = s\<lparr>ss_servers := (ss_servers s)(sid \<mapsto> sv1)\<rparr>" for n sv1 s1
  proof -
    have n: "n \<le> buf_len ?b" using h length_front [OF blen(1)] by (simp add: has_header_def)
    show "good W e d s0 {sid} s1"
      by (rule good_server [OF g sv(1), where sv' = sv1 and es = "[]" and R = "{}"])
        (use ok wg in \<open>auto simp: s1 sv1 srv_ok_def\<close>)
    show "ss_servers s1 sid = Some sv1" by (simp add: s1)
    show "window (sv_buf sv1)" using n len by (simp add: sv1 window_def)
    show "payload (plain_of sid (ss_trace s)) = buf_bytes (sv_buf sv1)"
      using front_bytes(2) [OF n] h by (simp add: sv1 acc payload_def)
  qed
  have step: "safe False (good W e d s0 {})
      (let skip = (\<lambda>n sv. sv\<lparr>sv_buf := (sv_buf sv)\<lparr>buf_len := buf_len (sv_buf sv) - n, buf_idx := n\<rparr>\<rparr>) in
       case rq of
         Req_stop \<Rightarrow> stop_server sid s
       | Req_close \<Rightarrow> close_and_free_server sid s
       | Req_connect addr n \<Rightarrow>
           bindr (upd_server sid (skip n) s) (\<lambda>s.
           bindr (connect_to_remote E io addr sid s) (\<lambda>(ro, s).
             case ro of
               None \<Rightarrow> close_and_free_server sid s
             | Some rid \<Rightarrow>
                 bindr (attach_remote E rid sid s) (\<lambda>s.
                 bindr (upd_server sid (\<lambda>sv. sv\<lparr>sv_recv_io := False\<rparr>) s)
                   (upd_remote rid (\<lambda>r. r\<lparr>rm_send_io := True\<rparr>)))))
       | Req_resolve host port n \<Rightarrow>
           bindr (upd_server sid (skip n) s) (\<lambda>s.
             let qid = ss_next s;
                 q = \<lparr>qr_server = Some sid, qr_hostname = take (MAX_HOSTNAME_LEN - 1) host, qr_port = port\<rparr>;
                 s = s\<lparr>ss_next := qid + 1, ss_queries := (ss_queries s)(qid \<mapsto> q)\<rparr>
             in upd_server sid (\<lambda>sv. sv\<lparr>sv_recv_io := False, sv_query := Some qid,
                                          sv_stage := STAGE_RESOLVE\<rparr>) s))"
    if rq: "\<forall>n. req_len rq = Some n \<longrightarrow> has_header ?p \<and> n = header_len ?p" for rq
  proof (cases rq)
    case Req_stop
    then show ?thesis using stop_good [OF g sv(1-3,6,5)] by (auto intro: safe_ex)
  next
    case Req_close
    then show ?thesis using good_close_server [OF g sv(1)] by (auto intro: safe_ex)
  next
    case (Req_connect addr n)
    note k = skipped [of n, OF _ _ refl refl]
    show ?thesis
      using rq connect_request [OF k(1,2), where E = E and io = io and addr = addr] k(3,4) sv acc
      by (simp add: Req_connect upd_eq Let_def down_ok_def down_pending_def del: safe_simps(2))
  next
    case (Req_resolve host port n)
    then have h: "has_header ?p" "n = header_len ?p" using rq by auto
    let ?sv1 = "sv\<lparr>sv_buf := ?b\<lparr>buf_len := buf_len ?b - n, buf_idx := n\<rparr>\<rparr>"
    let ?s1 = "s\<lparr>ss_servers := (ss_servers s)(sid \<mapsto> ?sv1)\<rparr>"
    note k = skipped [OF h refl refl]
    let ?q = "\<lparr>qr_server = Some sid, qr_hostname = take (MAX_HOSTNAME_LEN - 1) host, qr_port = port\<rparr>"
    let ?sv = "?sv1\<lparr>sv_recv_io := False, sv_query := Some (ss_next s), sv_stage := STAGE_RESOLVE\<rparr>"
    let ?s = "?s1\<lparr>ss_next := ss_next s + 1, ss_queries := (ss_queries s)(ss_next s \<mapsto> ?q),
        ss_servers := (ss_servers ?s1)(sid \<mapsto> ?sv)\<rparr>"
    note l1 = good_links [OF k(1)]
    have g2: "good W e d s0 {sid} ?s"
      by (rule good_relink [OF k(1,2), where sv' = ?sv and rid = "ss_next s" and ro = None and qid = "ss_next s" and qo = "Some ?q"])
        (use fresh_id [OF l1] links_server(1,2) [OF l1 k(2)] sv in \<open>auto simp: srv_ok_def srv_links_def qry_links_def fun_upd_idem\<close>)
    have "flow (ss_trace ?s) sid ?sv None"
      using sv acc k(3,4) h(1) by (simp add: flow_simps)
    then have "good W e d s0 {} ?s"
      using good_finish [OF g2] linked_eq(1) [of ?sv ?s] sv(2) by simp
    then show ?thesis using sv(1) by (simp add: Req_resolve upd_eq Let_def)
  qed
  have "safe (overlong ?p) (\<lambda>rq. \<forall>n. req_len rq = Some n \<longrightarrow> has_header ?p \<and> n = header_len ?p)
      (parse_request E (ss_acl s) ?b)" by (rule parse_request_safe [OF blen])
  then show ?thesis
    unfolding server_request_def get_eq(1) [OF sv(1)] bindr.simps safe_simps(2)
    by (rule safe_mono) (use step in \<open>auto intro: safe_mono\<close>)
qed

text \<open>The plaintext the callback will see, when it is in \<open>STAGE_INIT\<close> and authentic.\<close>

definition first_plain :: "('c, 'w, 're) env \<Rightarrow> 'c server \<Rightarrow> 'w \<Rightarrow> bytes \<Rightarrow> bytes option" where
  "first_plain E sv w bs =
     (case mem_write (buf_data (sv_buf sv)) 0 bs of
        Inr d \<Rightarrow>
          (case en_decrypt E w ((sv_buf sv)\<lparr>buf_data := d, buf_len := length bs\<rparr>) (sv_d_ctx sv) SOCKET_BUF_SIZE of
             Inr (r, b, _, _) \<Rightarrow> if r = CRYPTO_OK then Some (front b) else None
           | Inl _ \<Rightarrow> None)
      | Inl _ \<Rightarrow> None)"

lemma same: "ss_servers s sid = Some sv \<Longrightarrow> s\<lparr>ss_servers := (ss_servers s)(sid \<mapsto> sv)\<rparr> = s"
  by (simp add: fun_upd_idem)

context relay_crypto
begin

lemma recv_stream:
  assumes g: "good winv einv dinv s0 {sid} s"
    and own: "ss_servers s sid = Some sv" "sv_remote sv = Some rid" "ss_remotes s rid = Some r"
    and st: "sv_stage sv = STAGE_STREAM" "sv_recv_io sv" and fl: "flow (ss_trace s) sid sv (Some (rid, r))"
    and bs: "bs \<noteq> []" "length bs \<le> SOCKET_BUF_SIZE"
  shows "\<exists>s'. server_recv_data E io bs (Some rid) sid s = Inr s' \<and> good winv einv dinv s0 {} s'"
proof -
  note l = good_links [OF g]
  note ok = links_server(2) [OF l own(1)] and wg = links_glob(1) [OF l] and rb = links_remote(2) [OF l own(3)]
  have f: "sv_query sv = None" "down_ok (ss_trace s) sid sv" "sv_send_io sv \<Longrightarrow> window (sv_buf sv)" "rm_send_connected r"
      "\<not> rm_send_io r" "rm_recv_io r = (\<not> sv_send_io sv)" "has_header (plain_of sid (ss_trace s))"
      "payload (plain_of sid (ss_trace s)) = to_remote rid (ss_trace s)"
    using fl st by (auto simp: flow_simps)
  obtain d where d: "mem_write (buf_data (rm_buf r)) 0 bs = Inr d" "sock_buf ((rm_buf r)\<lparr>buf_data := d\<rparr>)"
      "sock_buf ((rm_buf r)\<lparr>buf_data := d, buf_len := length bs\<rparr>)" using received [OF rb bs] by blast
  obtain x b c w where dec: "en_decrypt E (ss_world s) ((rm_buf r)\<lparr>buf_data := d, buf_len := length bs\<rparr>) (sv_d_ctx sv)
        SOCKET_BUF_SIZE = Inr (x, b, c, w)" "winv w" "sock_buf b"
      "x = CRYPTO_ERROR \<or> (x = CRYPTO_NEED_MORE \<or> x = CRYPTO_OK \<and> buf_len b \<le> buf_capacity b) \<and> dinv c"
    using decrypts [OF wg srv_okD(3) [OF ok] d(3)] st(1) bs by auto
  let ?sv = "sv\<lparr>sv_d_ctx := c\<rparr>" and ?r = "r\<lparr>rm_buf := b\<rparr>"
  let ?s1 = "s\<lparr>ss_tx := ss_tx s + of_nat (length bs), ss_world := w, ss_remotes := (ss_remotes s)(rid \<mapsto> ?r),
               ss_servers := (ss_servers s)(sid \<mapsto> ?sv)\<rparr>"
  have e: "server_recv_data E io bs (Some rid) sid s =
      (if x = CRYPTO_ERROR then stop_server sid ?s1 else if x = CRYPTO_NEED_MORE then Inr ?s1
       else bindr (mem_read (buf_data b) 0 (buf_len b)) (\<lambda>plain. server_forward io sid rid (trace (Plain sid plain) ?s1)))"
    using own st(1) d(1) dec(1) by (simp add: server_recv_data_def load_buf_def store_buf_def get_eq upd_eq Let_def deref_def)
  show ?thesis
  proof (cases "x = CRYPTO_ERROR")
    case True
    let ?sv2 = "?sv\<lparr>sv_stage := STAGE_STOP\<rparr>"
    let ?s = "?s1\<lparr>ss_servers := (ss_servers s)(sid \<mapsto> ?sv2)\<rparr>"
    have "good winv einv dinv s0 {} ?s"
    proof (rule good_conn [OF g own, where sv' = ?sv2 and r' = ?r and es = "[]"])
      show "flow (ss_trace ?s) sid ?sv2 (Some (rid, ?r))" using f st by (simp add: flow_def)
    qed (use own ok dec in \<open>auto simp: srv_ok_def\<close>)
    then show ?thesis using e True by (simp add: stop_server_def upd_eq)
  next
    case ne: False
    show ?thesis
    proof (cases "x = CRYPTO_NEED_MORE")
      case True
      have "good winv einv dinv s0 {} ?s1"
      proof (rule good_conn [OF g own, where sv' = ?sv and r' = ?r and es = "[]"])
        show "flow (ss_trace ?s1) sid ?sv (Some (rid, ?r))" using f st by (simp add: flow_simps)
      qed (use own ok dec True ne in \<open>auto simp: srv_ok_def\<close>)
      then show ?thesis using e True by simp
    next
      case False
      then have x: "x = CRYPTO_OK" "buf_len b \<le> buf_capacity b" "dinv c" using dec(4) ne by auto
      have rd: "mem_read (buf_data b) 0 (buf_len b) = Inr (front b)"
        using x(2) dec(3) by (simp add: front_def sock_buf_def)
      let ?x = "Plain sid (front b)"
      let ?s = "trace ?x ?s1"
      have ow: "owned s sid rid" using ownedI [OF l own(3)] links_server(5) [OF l own(1,2)] own(3) by auto
      have g1: "good winv einv dinv s0 {sid} (s\<lparr>ss_tx := ss_tx s + of_nat (length bs), ss_world := w,
               ss_servers := (ss_servers s)(sid \<mapsto> ?sv), ss_trace := ss_trace s @ [?x]\<rparr>)"
        by (rule good_server [OF g own(1), where sv' = ?sv and es = "[?x]" and R = "{}"])
          (use ok dec x in \<open>auto simp: srv_ok_def\<close>)
      have ow1: "owned (s\<lparr>ss_tx := ss_tx s + of_nat (length bs), ss_world := w,
               ss_servers := (ss_servers s)(sid \<mapsto> ?sv), ss_trace := ss_trace s @ [?x]\<rparr>) sid rid"
        using ow by (simp add: owned_def)
      have g2: "good winv einv dinv s0 {sid} ?s"
        by (rule good_remote [OF g1, where rid = rid and r = r and r' = ?r])
          (use own(3) dec(3) ow1 in simp_all)
      have "to_forward (ss_trace ?s) sid ?sv rid ?r"
        using f st x(2) payload_append [OF f(7)] has_header_append [OF f(7)] by (simp add: to_forward_def down_ok_def down_pending_def)
      then show ?thesis
        using forward_good [OF g2, of ?sv rid ?r io] own e ne False rd by simp
    qed
  qed
qed

lemma recv_init:
  assumes g: "good winv einv dinv s0 {sid} s"
    and sv: "ss_servers s sid = Some sv" "sv_stage sv = STAGE_INIT" "sv_recv_io sv" "sv_remote sv = None"
    and fl: "flow (ss_trace s) sid sv None"
    and bs: "bs \<noteq> []" "length bs \<le> SOCKET_BUF_SIZE"
  shows "safe (\<exists>p. first_plain E sv (ss_world s) bs = Some p \<and> overlong p) (good winv einv dinv s0 {})
     (server_recv_data E io bs None sid s)"
proof -
  note l = good_links [OF g]
  note ok = links_server(2) [OF l sv(1)] and wg = links_glob(1) [OF l]
  note lk = linked_eq(1) [OF sv(4), of s]
  have f: "sv_query sv = None" "\<not> sv_send_io sv" "down_ok (ss_trace s) sid sv" "plain_of sid (ss_trace s) = []"
    using fl sv(2) by (auto simp: flow_def)
  obtain d where d: "mem_write (buf_data (sv_buf sv)) 0 bs = Inr d" "sock_buf ((sv_buf sv)\<lparr>buf_data := d\<rparr>)"
      "sock_buf ((sv_buf sv)\<lparr>buf_data := d, buf_len := length bs\<rparr>)" using received [OF srv_okD(1) [OF ok] bs] by blast
  obtain x b c w where dec: "en_decrypt E (ss_world s) ((sv_buf sv)\<lparr>buf_data := d, buf_len := length bs\<rparr>) (sv_d_ctx sv)
        SOCKET_BUF_SIZE = Inr (x, b, c, w)" "winv w" "sock_buf b"
      "x = CRYPTO_ERROR \<or> (x = CRYPTO_NEED_MORE \<or> x = CRYPTO_OK \<and> buf_len b \<le> buf_capacity b) \<and> dinv c"
    using decrypts [OF wg srv_okD(3) [OF ok] d(3)] sv(2) bs by auto
  let ?sv = "sv\<lparr>sv_buf := b, sv_d_ctx := c\<rparr>"
  let ?s1 = "s\<lparr>ss_tx := ss_tx s + of_nat (length bs), ss_world := w, ss_servers := (ss_servers s)(sid \<mapsto> ?sv)\<rparr>"
  have e: "server_recv_data E io bs None sid s =
      (if x = CRYPTO_ERROR then stop_server sid ?s1
       else if x = CRYPTO_NEED_MORE then upd_server sid (\<lambda>sv. sv\<lparr>sv_frag := sv_frag sv + 1\<rparr>) ?s1
       else bindr (mem_read (buf_data b) 0 (buf_len b)) (\<lambda>plain. server_request E io sid (trace (Plain sid plain) ?s1)))"
    using sv(1,2) d(1) dec(1) by (simp add: server_recv_data_def load_buf_def store_buf_def get_eq upd_eq Let_def)
  show ?thesis
  proof (cases "x = CRYPTO_ERROR")
    case True
    let ?sv2 = "?sv\<lparr>sv_stage := STAGE_STOP\<rparr>"
    let ?s = "?s1\<lparr>ss_servers := (ss_servers s)(sid \<mapsto> ?sv2)\<rparr>"
    have "good winv einv dinv s0 {} ?s"
    proof (rule good_srv [OF g sv(1), where sv' = ?sv2 and es = "[]"])
      show "flow (ss_trace ?s) sid ?sv2 (linked s sv)" using f sv lk by (simp add: flow_def)
    qed (use ok dec in \<open>auto simp: srv_ok_def\<close>)
    then show ?thesis using e True by (simp add: stop_server_def upd_eq)
  next
    case ne: False
    show ?thesis
    proof (cases "x = CRYPTO_NEED_MORE")
      case True
      let ?sv2 = "?sv\<lparr>sv_frag := sv_frag sv + 1\<rparr>"
      let ?s = "?s1\<lparr>ss_servers := (ss_servers s)(sid \<mapsto> ?sv2)\<rparr>"
      have "good winv einv dinv s0 {} ?s"
      proof (rule good_srv [OF g sv(1), where sv' = ?sv2 and es = "[]"])
        show "flow (ss_trace ?s) sid ?sv2 (linked s sv)" using f sv lk by (simp add: flow_simps)
      qed (use ok dec True ne in \<open>auto simp: srv_ok_def\<close>)
      then show ?thesis using e True by (simp add: upd_eq)
    next
      case False
      then have x: "x = CRYPTO_OK" "buf_len b \<le> buf_capacity b" "dinv c" using dec(4) ne by auto
      have rd: "mem_read (buf_data b) 0 (buf_len b) = Inr (front b)"
        using x(2) dec(3) by (simp add: front_def sock_buf_def)
      let ?x = "Plain sid (front b)"
      have g1: "good winv einv dinv s0 {sid} (trace ?x ?s1)"
        by (rule good_server [OF g sv(1), where sv' = ?sv and es = "[?x]" and R = "{}"])
          (use ok dec x in \<open>auto simp: srv_ok_def\<close>)
      have ov: "first_plain E sv (ss_world s) bs = Some (front b)" using d(1) dec(1) x(1) by (simp add: first_plain_def)
      have "safe (overlong (front b)) (good winv einv dinv s0 {}) (server_request E io sid (trace ?x ?s1))"
        using request_good [OF g1, of ?sv E io] sv f x(2) by (simp add: down_ok_def down_pending_def)
      then show ?thesis using e ne False rd ov by simp
    qed
  qed
qed

lemma recv_stopped:
  assumes g: "good winv einv dinv s0 {sid} s"
    and sv: "ss_servers s sid = Some sv" "sv_stage sv = STAGE_STOP"
    and fl: "flow (ss_trace s) sid sv (linked s sv)"
    and bs: "bs \<noteq> []" "length bs \<le> SOCKET_BUF_SIZE"
  shows "\<exists>s'. server_recv_data E io bs None sid s = Inr s' \<and> good winv einv dinv s0 {} s'"
proof -
  note l = good_links [OF g]
  note ok = links_server(2) [OF l sv(1)] and wg = links_glob(1) [OF l]
  obtain d where d: "mem_write (buf_data (sv_buf sv)) 0 bs = Inr d" "sock_buf ((sv_buf sv)\<lparr>buf_data := d\<rparr>)"
    using received [OF srv_okD(1) [OF ok] bs] by blast
  let ?sv = "sv\<lparr>sv_buf := (sv_buf sv)\<lparr>buf_data := d\<rparr>\<rparr>"
  let ?s = "s\<lparr>ss_servers := (ss_servers s)(sid \<mapsto> ?sv)\<rparr>"
  have "good winv einv dinv s0 {} ?s"
  proof (rule good_srv [OF g sv(1), where sv' = ?sv and es = "[]"])
    show "flow (ss_trace ?s) sid ?sv (linked s sv)"
      using fl sv(2) by (auto simp: flow_def window_def split: option.splits)
  qed (use ok d wg in \<open>auto simp: srv_ok_def\<close>)
  then show ?thesis
    using sv d(1) by (simp add: server_recv_data_def load_buf_def store_buf_def get_eq upd_eq Let_def)
qed

lemma server_recv_good:
  assumes i: "inv winv einv dinv s" and sv: "ss_servers s sid = Some sv" "sv_recv_io sv" and io: "io_ok io"
  shows "safe (sv_stage sv = STAGE_INIT \<and> (\<exists>bs p. io_recv io = Recv bs \<and> first_plain E sv (ss_world s) bs = Some p \<and> overlong p))
     (good winv einv dinv s {}) (server_recv_cb E io sid s)"
proof -
  note l = inv_links [OF i] and g = good_enter [OF i, of "{sid}"] and fl = inv_flow [OF i sv(1), simplified]
  note ok = links_server(2) [OF l sv(1)] and wg = links_glob(1) [OF l]
  have bs: "io_recv io = Recv bs \<Longrightarrow> bs \<noteq> [] \<and> length bs \<le> SOCKET_BUF_SIZE" for bs using io by (simp add: io_ok_def)
  show ?thesis
  proof (cases "sv_stage sv = STAGE_STREAM")
    case st: True
    have "linked s sv \<noteq> None" using fl st by (auto simp: flow_def split: option.splits)
    then obtain rid r where lk: "linked s sv = Some (rid, r)" by auto
    then have r: "sv_remote sv = Some rid" "ss_remotes s rid = Some r" "linked s sv = Some (rid, r)"
      by (simp_all add: linked_Some)
    let ?sv = "if ip_lock_is_enabled (ss_lock s) then sv else sv\<lparr>sv_timer := True\<rparr>"
    let ?s = "s\<lparr>ss_servers := (ss_servers s)(sid \<mapsto> ?sv)\<rparr>"
    have g1: "good winv einv dinv s {sid} ?s"
      by (rule good_server [OF g sv(1), where sv' = ?sv and es = "[]" and R = "{}"]) (use ok wg in \<open>auto simp: srv_ok_def\<close>)
    have fl1: "flow (ss_trace ?s) sid ?sv (Some (rid, r))"
      using fl r(3) by (auto simp: flow_simps split: stage.splits)
    have e: "server_recv_cb E io sid s = (case io_recv io of
         Recv_eof \<Rightarrow> close_both (Some rid) sid ?s
       | Recv_again \<Rightarrow> Inr ?s
       | Recv_err \<Rightarrow> close_both (Some rid) sid ?s
       | Recv bs \<Rightarrow> server_recv_data E io bs (Some rid) sid ?s)"
      using sv(1) r st same [OF sv(1)]
      by (cases "ip_lock_is_enabled (ss_lock s)"; cases "io_recv io") (simp_all add: server_recv_cb_def get_eq upd_eq deref_def)
    show ?thesis
    proof (cases "io_recv io")
      case (Recv bs)
      then show ?thesis
        using recv_stream [OF g1, of ?sv rid r bs io] bs [OF Recv] r(1,2) st sv(2) fl1 e by auto
    next
      case Recv_again
      have "good winv einv dinv s {} ?s" using good_finish [OF g1] fl1 linked_eq(2) [of ?sv rid ?s r] r by simp
      then show ?thesis using e Recv_again by simp
    qed (use good_close_both [OF g1, of ?sv "Some rid"] r(1) e in auto)
  next
    case st: False
    have e: "server_recv_cb E io sid s = (case io_recv io of
         Recv_eof \<Rightarrow> close_both None sid s
       | Recv_again \<Rightarrow> Inr s
       | Recv_err \<Rightarrow> close_both None sid s
       | Recv bs \<Rightarrow> server_recv_data E io bs None sid s)"
      using sv(1) st by (simp add: server_recv_cb_def get_eq)
    show ?thesis
    proof (cases "io_recv io")
      case (Recv bs)
      consider "sv_stage sv = STAGE_INIT" "linked s sv = None" | "sv_stage sv = STAGE_STOP"
        using fl st sv(2) by (cases "sv_stage sv") (auto simp: flow_simps split: option.splits)
      then show ?thesis
      proof cases
        case 1
        have "sv_remote sv = None" using 1(2) links_server(5) [OF l sv(1)] by (cases "sv_remote sv") (auto simp: linked_def)
        then show ?thesis
          using recv_init [OF g sv(1) 1(1) sv(2) _ _, of bs io] fl 1 bs [OF Recv] e Recv by simp
      next
        case 2
        then show ?thesis using recv_stopped [OF g sv(1) 2 fl, of bs io] bs [OF Recv] e Recv by auto
      qed
    next
      case Recv_again
      then show ?thesis using e good_enter [OF i, of "{}"] by simp
    qed (use good_close_both [OF g sv(1), of None] e in auto)
  qed
qed

section \<open>Data for the client\<close>

lemma remote_recv_stream:
  assumes g: "good winv einv dinv s0 {sid} s"
    and own: "ss_servers s sid = Some sv" "sv_remote sv = Some rid" "ss_remotes s rid = Some r"
    and st: "sv_stage sv = STAGE_STREAM" "rm_recv_io r" and fl: "flow (ss_trace s) sid sv (Some (rid, r))"
    and bs: "bs \<noteq> []" "length bs \<le> SOCKET_BUF_SIZE"
  shows "\<exists>s'. remote_recv_data E io bs rid sid s = Inr s' \<and> good winv einv dinv s0 {} s'"
proof -
  note l = good_links [OF g]
  note ok = links_server(2) [OF l own(1)] and wg = links_glob(1) [OF l] and rb = links_remote(2) [OF l own(3)]
  have f: "sv_query sv = None" "\<not> sv_send_io sv" "cipher_of sid (ss_trace s) = to_client sid (ss_trace s)"
      "up_ok (ss_trace s) sid rid r" "rm_send_connected r" "rm_send_io r = (\<not> sv_recv_io sv)" "rm_send_io r \<longrightarrow> window (rm_buf r)"
    using fl st by (auto simp: flow_simps)
  obtain d where d: "mem_write (buf_data (sv_buf sv)) 0 bs = Inr d" "sock_buf ((sv_buf sv)\<lparr>buf_data := d\<rparr>)"
      "sock_buf ((sv_buf sv)\<lparr>buf_data := d, buf_len := length bs\<rparr>)" using received [OF srv_okD(1) [OF ok] bs] by blast
  obtain x b c w where enc: "en_encrypt E (ss_world s) ((sv_buf sv)\<lparr>buf_data := d, buf_len := length bs\<rparr>) (sv_e_ctx sv)
        SOCKET_BUF_SIZE = Inr (x, b, c, w)" "winv w" "sock_buf b" "einv c" "x = 0 \<longrightarrow> buf_len b \<le> buf_capacity b"
    using encrypts [OF wg srv_okD(2) [OF ok] d(3)] bs by auto
  let ?sv = "sv\<lparr>sv_buf := b, sv_e_ctx := c\<rparr>"
  let ?s1 = "s\<lparr>ss_rx := ss_rx s + of_nat (length bs), ss_world := w, ss_servers := (ss_servers s)(sid \<mapsto> ?sv)\<rparr>"
  have okb: "srv_ok einv dinv (?sv\<lparr>sv_buf := b'\<rparr>)" if "sock_buf b'" for b' using ok enc that by (simp add: srv_ok_def)
  show ?thesis
  proof (cases "x = 0")
    case False
    have g1: "good winv einv dinv s0 {sid} ?s1"
      by (rule good_server [OF g own(1), where sv' = ?sv and es = "[]" and R = "{}"])
        (use ok enc in \<open>auto simp: srv_ok_def\<close>)
    have "remote_recv_data E io bs rid sid s = close_both (Some rid) sid ?s1"
      using own st(1) d(1) enc(1) False by (simp add: remote_recv_data_def get_eq upd_eq Let_def)
    then show ?thesis using good_close_both [OF g1, of ?sv "Some rid"] own(2) by auto
  next
    case True
    have len: "buf_len b \<le> length (buf_data b)" "length (front b) = buf_len b"
      using enc True length_front [of b] by (auto simp: sock_buf_def)
    have rd: "mem_read (buf_data b) 0 (buf_len b) = Inr (front b)" using len(1) by (simp add: front_def)
    let ?x = "Cipher sid (front b)"
    have stuck: "\<exists>s'. bindr (upd_server sid (\<lambda>sv. sv\<lparr>sv_buf := b', sv_send_io := True\<rparr>) s2) (\<lambda>s.
          bindr (upd_remote rid (\<lambda>r. r\<lparr>rm_recv_io := False\<rparr>) s) (upd_remote rid (\<lambda>r. r\<lparr>rm_recv_connected := True\<rparr>))) = Inr s' \<and>
        good winv einv dinv s0 {} s'"
      if s2: "s2 = ?s1\<lparr>ss_trace := ss_trace s @ ?x # es\<rparr>"
        and es: "es = [] \<and> xs = [] \<or> es = [Sent_client sid xs]" and b': "sock_buf b'" "window b'" "front b = xs @ buf_bytes b'"
      for s2 es xs b'
    proof -
      let ?sv' = "?sv\<lparr>sv_buf := b', sv_send_io := True\<rparr>" and ?r = "r\<lparr>rm_recv_io := False, rm_recv_connected := True\<rparr>"
      let ?s = "s2\<lparr>ss_servers := (ss_servers s)(sid \<mapsto> ?sv'), ss_remotes := (ss_remotes s)(rid \<mapsto> ?r)\<rparr>"
      have "good winv einv dinv s0 {} ?s"
      proof (rule good_conn [OF g own, where sv' = ?sv' and r' = ?r and es = "?x # es"])
        show "flow (ss_trace ?s) sid ?sv' (Some (rid, ?r))"
          using f st(1) es b' by (auto simp: s2 flow_simps)
      qed (use es okb [OF b'(1)] own enc rb in \<open>auto simp: s2 srv_ok_def\<close>)
      then show ?thesis using own(3) by (simp add: upd_eq s2)
    qed
    have e: "remote_recv_data E io bs rid sid s =
        (let s = trace ?x ?s1; connected = upd_remote rid (\<lambda>r. r\<lparr>rm_recv_connected := True\<rparr>) in
             case io_send io of
               Send_again \<Rightarrow>
                 bindr (upd_server sid (\<lambda>sv. sv\<lparr>sv_buf := b\<lparr>buf_idx := 0\<rparr>, sv_send_io := True\<rparr>) s) (\<lambda>s.
                 bindr (upd_remote rid (\<lambda>r. r\<lparr>rm_recv_io := False\<rparr>) s) connected)
             | Send_err \<Rightarrow> close_both (Some rid) sid s
             | Send n \<Rightarrow>
                 let n = min n (length (front b)); s = trace (Sent_client sid (take n (front b))) s in
                 if n < buf_len b then
                   bindr (upd_server sid (\<lambda>sv. sv\<lparr>sv_buf := b\<lparr>buf_len := buf_len b - n, buf_idx := n\<rparr>,
                                                    sv_send_io := True\<rparr>) s) (\<lambda>s.
                   bindr (upd_remote rid (\<lambda>r. r\<lparr>rm_recv_io := False\<rparr>) s) connected)
                 else connected s)"
      using own st(1) d(1) enc(1) True rd by (simp add: remote_recv_data_def get_eq upd_eq)
    consider "io_send io = Send_again" | "io_send io = Send_err"
      | n where "io_send io = Send n" "n < buf_len b" | n where "io_send io = Send n" "buf_len b \<le> n"
      by (cases "io_send io") (force simp: not_less)+
    then show ?thesis
    proof cases
      case 1
      have w: "window (b\<lparr>buf_idx := 0\<rparr>)" using enc(5) True by (simp add: window_def)
      have t: "trace ?x ?s1 = ?s1\<lparr>ss_trace := ss_trace s @ ?x # []\<rparr>" by (simp add: trace_def)
      show ?thesis
        using stuck [OF t, of "[]" "b\<lparr>buf_idx := 0\<rparr>"] front_bytes(1) [of b] enc(3) w 1
        unfolding e by simp
    next
      case 2
      have g1: "good winv einv dinv s0 {sid} (trace ?x ?s1)"
        by (rule good_server [OF g own(1), where sv' = ?sv and es = "[?x]" and R = "{}"])
          (use ok enc in \<open>auto simp: srv_ok_def\<close>)
      then show ?thesis using good_close_both [OF g1, of ?sv "Some rid"] own(2) 2 e by auto
    next
      case (3 n)
      let ?b = "b\<lparr>buf_len := buf_len b - n, buf_idx := n\<rparr>" and ?y = "Sent_client sid (take n (front b))"
      have w: "window ?b" using enc(5) True 3(2) by (simp add: window_def)
      have t: "trace ?y (trace ?x ?s1) = ?s1\<lparr>ss_trace := ss_trace s @ ?x # [?y]\<rparr>" by (simp add: trace_def)
      show ?thesis
        using stuck [OF t, of "take n (front b)" ?b] front_bytes(2) [of n b] enc(3) w 3 len(2)
        unfolding e by (simp add: Let_def)
    next
      case (4 n)
      let ?y = "Sent_client sid (front b)" and ?r = "r\<lparr>rm_recv_connected := True\<rparr>"
      let ?s = "(trace ?y (trace ?x ?s1))\<lparr>ss_remotes := (ss_remotes s)(rid \<mapsto> ?r)\<rparr>"
      have "good winv einv dinv s0 {} ?s"
      proof (rule good_conn [OF g own, where sv' = ?sv and r' = ?r and es = "[?x, ?y]"])
        show "flow (ss_trace ?s) sid ?sv (Some (rid, ?r))" using f st by (auto simp: flow_simps)
      qed (use own ok enc rb in \<open>auto simp: srv_ok_def\<close>)
      moreover have "remote_recv_data E io bs rid sid s = Inr ?s"
        using 4 e len own(3) upd_eq(2) [of "trace ?y (trace ?x ?s1)" rid r] by (simp add: Let_def)
      ultimately show ?thesis by blast
    qed
  qed
qed

lemma remote_recv_stopped:
  assumes g: "good winv einv dinv s0 {sid} s"
    and sv: "ss_servers s sid = Some sv" "sv_stage sv = STAGE_STOP"
    and fl: "flow (ss_trace s) sid sv (linked s sv)"
    and bs: "bs \<noteq> []" "length bs \<le> SOCKET_BUF_SIZE"
  shows "\<exists>s'. remote_recv_data E io bs rid sid s = Inr s' \<and> good winv einv dinv s0 {} s'"
proof -
  note l = good_links [OF g]
  note ok = links_server(2) [OF l sv(1)] and wg = links_glob(1) [OF l]
  obtain d where d: "mem_write (buf_data (sv_buf sv)) 0 bs = Inr d" "sock_buf ((sv_buf sv)\<lparr>buf_data := d\<rparr>)"
    using received [OF srv_okD(1) [OF ok] bs] by blast
  let ?sv = "sv\<lparr>sv_buf := (sv_buf sv)\<lparr>buf_data := d\<rparr>\<rparr>"
  let ?s = "s\<lparr>ss_servers := (ss_servers s)(sid \<mapsto> ?sv), ss_rx := ss_rx s + of_nat (length bs)\<rparr>"
  have "good winv einv dinv s0 {} ?s"
  proof (rule good_srv [OF g sv(1), where sv' = ?sv and es = "[]"])
    show "flow (ss_trace ?s) sid ?sv (linked s sv)"
      using fl sv(2) by (auto simp: flow_def window_def split: option.splits)
  qed (use ok d wg in \<open>auto simp: srv_ok_def\<close>)
  then show ?thesis using sv d(1) by (simp add: remote_recv_data_def get_eq upd_eq)
qed

lemma remote_recv_good:
  assumes i: "inv winv einv dinv s" and r: "ss_remotes s rid = Some r" "rm_recv_io r" and io: "io_ok io"
  shows "\<exists>s'. remote_recv_cb E io rid s = Inr s' \<and> good winv einv dinv s {} s'"
proof (cases "rm_server r")
  case None
  then show ?thesis using orphan_good [OF i r(1) None] r by (simp add: remote_recv_cb_def get_eq)
next
  case (Some sid)
  note l = inv_links [OF i] and g = good_enter [OF i, of "{sid}"]
  obtain sv where sv: "ss_servers s sid = Some sv" "sv_remote sv = Some rid" using links_remote(4) [OF l r(1) Some] by blast
  note ok = links_server(2) [OF l sv(1)] and wg = links_glob(1) [OF l]
  have fl: "flow (ss_trace s) sid sv (Some (rid, r))" using inv_flow [OF i sv(1)] linked_eq(2) [OF sv(2) r(1)] by simp
  have bs: "io_recv io = Recv bs \<Longrightarrow> bs \<noteq> [] \<and> length bs \<le> SOCKET_BUF_SIZE" for bs using io by (simp add: io_ok_def)
  let ?sv = "if ip_lock_is_enabled (ss_lock s) then sv else sv\<lparr>sv_timer := True\<rparr>"
  let ?s = "s\<lparr>ss_servers := (ss_servers s)(sid \<mapsto> ?sv)\<rparr>"
  have g1: "good winv einv dinv s {sid} ?s"
    by (rule good_server [OF g sv(1), where sv' = ?sv and es = "[]" and R = "{}"]) (use ok wg in \<open>auto simp: srv_ok_def\<close>)
  have fl1: "flow (ss_trace ?s) sid ?sv (Some (rid, r))" using fl by (auto simp: flow_simps split: stage.splits)
  have lk: "linked ?s ?sv = Some (rid, r)" using linked_eq(2) [of ?sv rid ?s r] sv(2) r(1) by simp
  have e: "remote_recv_cb E io rid s = (case io_recv io of
         Recv_eof \<Rightarrow> close_both (Some rid) sid ?s
       | Recv_again \<Rightarrow> Inr ?s
       | Recv_err \<Rightarrow> close_both (Some rid) sid ?s
       | Recv bs \<Rightarrow> remote_recv_data E io bs rid sid ?s)"
    using sv(1) r Some same [OF sv(1)]
    by (cases "ip_lock_is_enabled (ss_lock s)"; cases "io_recv io") (simp_all add: remote_recv_cb_def get_eq upd_eq)
  show ?thesis
  proof (cases "io_recv io")
    case (Recv bs)
    consider "sv_stage sv = STAGE_STREAM" | "sv_stage sv = STAGE_STOP"
      using fl r(2) by (cases "sv_stage sv") (auto simp: flow_simps)
    then show ?thesis
    proof cases
      case 1
      then show ?thesis
        using remote_recv_stream [OF g1, of ?sv rid r bs io] sv(2) r fl1 bs [OF Recv] e Recv by auto
    next
      case 2
      then show ?thesis
        using remote_recv_stopped [OF g1, of ?sv bs io rid] fl1 lk bs [OF Recv] e Recv by auto
    qed
  next
    case Recv_again
    have "good winv einv dinv s {} ?s" using good_finish [OF g1] fl1 lk by simp
    then show ?thesis using e Recv_again by simp
  qed (use good_close_both [OF g1, of ?sv "Some rid"] sv(2) e in auto)
qed

end

end
