(* ===== verification/Server_Accept.thy ===== *)
theory Server_Accept
  imports Server_Relay
begin

text \<open>
  Accepting clients. \<open>check_ip_lock_allowed\<close> of \<^verbatim>\<open>src/server.c\<close> is the gate of the locale \<open>address_lock\<close>
  over the addresses of the open connections, so that the lemmas proved there carry over: while the
  lock is on, all connections come from one address.
\<close>

section \<open>The gate\<close>

definition lock_state :: "('c, 'w, 're) ss \<Rightarrow> ip_lock \<times> os" where
  "lock_state s = (ss_lock s, ss_os s)"

definition with_lock :: "ip_lock \<times> os \<Rightarrow> ('c, 'w, 're) ss \<Rightarrow> ('c, 'w, 're) ss" where
  "with_lock Lw s = s\<lparr>ss_lock := fst Lw, ss_os := snd Lw\<rparr>"

lemma check_ip_lock_gate:
  assumes l: "links W e d s" and on: "ip_lock_is_enabled (ss_lock s)" and p: "p \<noteq> []"
  shows "check_ip_lock_allowed p s =
     (case ipl.gate (peers s) p (lock_state s) of (ok, Lw) \<Rightarrow> Inr (ok, with_lock Lw s))"
proof -
  let ?s = "s\<lparr>ss_lock := ip_lock_reload (ss_os s) (ss_lock s)\<rparr>"
  let ?h = "il_locked (ip_lock_reload (ss_os s) (ss_lock s))"
  have cnt: "count_connections_for_ip ?s ?h = Inr (length (filter (\<lambda>q. q = ?h) (peers s)))" if "?h \<noteq> []"
  proof -
    have "peer_list ?s xs = peer_list s xs" for xs by (induction xs) (simp_all add: get_server_def)
    moreover have "filter (\<lambda>q. q \<noteq> [] \<and> q = ?h) (peers s) = filter (\<lambda>q. q = ?h) (peers s)" using that by (intro filter_cong) auto
    ultimately show ?thesis using that peers_eq [OF l] by (simp add: count_connections_for_ip_def)
  qed
  show ?thesis
    using on p cnt
    by (auto simp: check_ip_lock_allowed_def ipl.gate_def Let_def lock_state_def with_lock_def ip_lock_get_locked_ip_def
        split: prod.split)
qed

section \<open>The lock data\<close>

lemma set_ok:
  assumes "ip_lock_ok L" "ip_str ip"
  shows "ip_lock_ok (fst (ip_lock_set w ip L))"
proof -
  have "str_copy INET6_ADDRSTRLEN ip = ip" using assms(2) by (simp add: str_copy_def ip_str_def ip_lock_consts)
  then show ?thesis
    using assms by (auto simp: ip_lock_set_def Let_def ip_lock_ok_def split: option.splits)
qed

lemma gate_ok:
  assumes "ip_lock_ok L" "ip_str p" "ipl.gate ps p (L, w) = (ok, L', w')"
  shows "ip_lock_ok L'" "il_enabled L' = il_enabled L"
proof -
  have set: "il_enabled (fst (ip_lock_set w p L1)) = il_enabled L1" for L1
    by (auto simp: ip_lock_set_def Let_def split: option.splits)
  let ?L = "ip_lock_reload w L"
  have r: "ip_lock_ok ?L" "il_enabled ?L = il_enabled L" using reload_ok [OF assms(1)] reload_frame(1) by auto
  have "(L' = ?L) \<or> L' = fst (ip_lock_set w p ?L)"
    using assms(3) by (auto simp: ipl.gate_def Let_def split: if_splits)
  then show "ip_lock_ok L'" "il_enabled L' = il_enabled L" using r set_ok [OF r(1) assms(2), of w] set [of ?L] by auto
qed

lemma record_kept:
  assumes "ip_lock_ok L" "ip_str p"
  shows "lock_kept L w (ip_lock_record_incoming w p L) w" "lock_kept L w (ip_lock_record_blocked w p L) w"
  using assms push_recent_spec(2) [OF _ assms(2)]
  by (auto simp: lock_kept_def ip_lock_record_incoming_def ip_lock_record_blocked_def ip_lock_ok_def lock_sync_def)

lemma inv_env:
  assumes i: "inv_x W e d X s" "ip_lock_ok (ss_lock s')"
    and eqs: "ss_servers s' = ss_servers s" "ss_remotes s' = ss_remotes s" "ss_queries s' = ss_queries s"
      "ss_conns s' = ss_conns s" "ss_next s' = ss_next s" "ss_world s' = ss_world s"
    and tr: "ss_trace s' = ss_trace s @ es" "\<forall>x\<in>set es. about {} {} x"
  shows "inv_x W e d X s'"
proof -
  note l = inv_links [OF i(1)]
  have t: "\<forall>x\<in>set (ss_trace s'). about {..<ss_next s} {..<ss_next s} x"
    using links_glob(5) [OF l] tr about_mono [of "{}" "{}" _ "{..<ss_next s}" "{..<ss_next s}"] by auto
  have "links W e d s'"
    using l i(2) t by (simp add: links_def eqs srv_links_def rem_links_def qry_links_def)
  moreover have "linked s' sv = linked s sv" for sv by (simp add: linked_def eqs cong: option.case_cong)
  ultimately show ?thesis
    using i(1) by (auto simp: inv_x_def eqs tr(1) flow_frame [OF tr(2)])
qed

section \<open>Accepting\<close>

text \<open>
  \<open>locked_to s\<close>: while the lock is on, the lock file belongs to this process (\<open>lock_sync\<close>) and every
  connection with a known address comes from the locked one.
\<close>

definition locked_to :: "('c, 'w, 're) ss \<Rightarrow> bool" where
  "locked_to s \<longleftrightarrow> (il_enabled (ss_lock s) \<longrightarrow> ipl.exclusive (peers s) (lock_state s))"

lemma peers_set: "links W e d s \<Longrightarrow> p \<in> set (peers s) \<longleftrightarrow> (\<exists>i sv. ss_servers s i = Some sv \<and> p = sv_peer_ip sv)"
  using links_glob(4) [of W e d s] by (auto simp: peers_def dom_def intro!: rev_image_eqI) blast

lemma quiet_locked:
  assumes l: "links W e d s0" "links W e d s" and q: "quiet s0 s" and lk: "locked_to s0"
  shows "locked_to s"
proof -
  have k: "lock_kept (ss_lock s0) (ss_os s0) (ss_lock s) (ss_os s)" using q by (simp add: quiet_def)
  have "set (peers s) \<subseteq> set (peers s0)"
    using q by (fastforce simp: peers_set [OF l(1)] peers_set [OF l(2)] quiet_def)
  then show ?thesis
    using lk k by (auto simp: locked_to_def ipl.exclusive_def lock_state_def lock_kept_def)
qed

text \<open>The access list turns the client away.\<close>

definition acl_refuses :: "('c, 'w, 're) env \<Rightarrow> ('c, 'w, 're) ss \<Rightarrow> bytes \<Rightarrow> bool" where
  "acl_refuses E s p \<longleftrightarrow> en_acl_on E \<and>
     (get_acl_mode (ss_acl s) = BLACK_LIST \<and> acl_match_host (en_acl E) (ss_acl s) p = 1 \<or>
      get_acl_mode (ss_acl s) = WHITE_LIST \<and> acl_match_host (en_acl E) (ss_acl s) p \<ge> 0)"

lemma admit_acl: "acl_refuses E s p \<Longrightarrow> accept_admit E (Some p) s = Inr (False, trace (Refused p) s)"
  by (simp add: accept_admit_def acl_refuses_def)

lemma admit_gate:
  assumes l: "links W e d s" and on: "il_enabled (ss_lock s)" and p: "ip_str p" and acl: "\<not> acl_refuses E s p"
    and gt: "ipl.gate (peers s) p (ss_lock s, ss_os s) = (ok, L1, w1)"
  shows "accept_admit E (Some p) s =
     (if ok then Inr (True, s\<lparr>ss_lock := ip_lock_record_incoming w1 p L1, ss_os := w1\<rparr>)
      else bindr (update_ip_lock_status (s\<lparr>ss_lock := ip_lock_record_blocked w1 p L1, ss_os := w1\<rparr>))
             (\<lambda>s. Inr (False, trace (Refused p) s)))"
proof -
  have g: "il_enabled L1" using gate_ok(2) [OF links_glob(2) [OF l] p gt] on by simp
  have "p \<noteq> []" using p by (simp add: ip_str_def)
  then have chk: "check_ip_lock_allowed p s = Inr (ok, s\<lparr>ss_lock := L1, ss_os := w1\<rparr>)"
    using check_ip_lock_gate [OF l _ _] on gt by (simp add: ip_lock_is_enabled_def lock_state_def with_lock_def)
  have eq: "s\<lparr>ss_os := w1, ss_lock := L\<rparr> = s\<lparr>ss_lock := L, ss_os := w1\<rparr>" for L by simp
  show ?thesis
    using g chk by (simp only: accept_admit_def option.case if_not_P [OF acl [unfolded acl_refuses_def]])
      (simp add: ip_lock_is_enabled_def eq)
qed

text \<open>Whom the gate lets in, and who holds the lock afterwards: what the file says at that moment decides.\<close>

lemma gate_decides:
  assumes "ip_str p" "ipl.gate ps p (L, w) = (ok, L', w')"
  defines "h \<equiv> il_locked (ip_lock_reload w L)"
  shows "ok \<longleftrightarrow> h = [] \<or> h = p \<or> h \<notin> set ps" "il_locked L' = (if ok then p else h)"
proof -
  have "p \<noteq> []" "str_copy INET6_ADDRSTRLEN p = p" using assms(1) by (simp_all add: str_copy_def ip_str_def ip_lock_consts)
  then have "il_locked (fst (ip_lock_set w p L1)) = p" for L1
    by (auto simp: ip_lock_set_def Let_def split: option.splits)
  then have "ip_lock_set w p L1 = (L2, w2) \<Longrightarrow> il_locked L2 = p" for L1 L2 w2 by (metis fst_conv)
  then show "ok \<longleftrightarrow> h = [] \<or> h = p \<or> h \<notin> set ps" "il_locked L' = (if ok then p else h)"
    using assms(2) by (auto simp: ipl.gate_def h_def Let_def filter_empty_conv split: if_splits)
qed

lemma admit_decides:
  assumes i: "inv W e d s" and on: "il_enabled (ss_lock s)" and p: "ip_str p" and acl: "\<not> acl_refuses E s p"
  defines "h \<equiv> il_locked (ip_lock_reload (ss_os s) (ss_lock s))"
  shows "\<exists>L w. accept_admit E (Some p) s =
       Inr (h = [] \<or> h = p \<or> h \<notin> set (peers s),
            s\<lparr>ss_lock := L, ss_os := w,
               ss_trace := ss_trace s @ (if h = [] \<or> h = p \<or> h \<notin> set (peers s) then [] else [Refused p])\<rparr>) \<and>
     il_locked L = (if h = [] \<or> h = p \<or> h \<notin> set (peers s) then p else h)"
proof -
  note l = inv_links [OF i]
  obtain ok L1 w1 where gt: "ipl.gate (peers s) p (ss_lock s, ss_os s) = (ok, L1, w1)"
    using prod_cases3 [of "ipl.gate (peers s) p (ss_lock s, ss_os s)"] by blast
  note a = admit_gate [OF l on p acl gt] and g = gate_decides [OF p gt, folded h_def] and k = gate_ok [OF links_glob(2) [OF l] p gt]
  note rk = record_kept [OF k(1) p, of w1]
  show ?thesis
  proof (cases ok)
    case True
    then show ?thesis using a g rk(1) by (auto simp: lock_kept_def)
  next
    case False
    let ?s = "s\<lparr>ss_lock := ip_lock_record_blocked w1 p L1, ss_os := w1\<rparr>"
    have "inv W e d ?s" using inv_lock [OF i] rk(2) by (simp add: lock_kept_def)
    then obtain L2 w2 where u: "update_ip_lock_status ?s = Inr (?s\<lparr>ss_lock := L2, ss_os := w2\<rparr>)"
        "lock_kept (ip_lock_record_blocked w1 p L1) w1 L2 w2"
      using update_status [OF inv_links, of W e d "{}" ?s] by auto
    then show ?thesis using a g rk(2) False by (auto simp: lock_kept_def trace_def)
  qed
qed

lemma admit_spec:
  assumes i: "inv W e d s" and peer: "\<forall>p. peer = Some p \<longrightarrow> p = [] \<or> ip_str p"
  shows "\<exists>ok L w es. accept_admit E peer s = Inr (ok, s\<lparr>ss_lock := L, ss_os := w, ss_trace := ss_trace s @ es\<rparr>) \<and>
     ip_lock_ok L \<and> il_enabled L = il_enabled (ss_lock s) \<and> (\<forall>x\<in>set es. about {} {} x) \<and>
     (locked_to s \<longrightarrow> il_enabled L \<longrightarrow> ipl.exclusive (peers s @ (if ok \<and> peer \<noteq> None then [the peer] else [])) (L, w))"
proof -
  note l = inv_links [OF i]
  have ok0: "ip_lock_ok (ss_lock s)" using links_glob(2) [OF l] .
  have ex0: "locked_to s \<Longrightarrow> il_enabled (ss_lock s) \<Longrightarrow> ipl.exclusive (peers s) (ss_lock s, ss_os s)"
    by (simp add: locked_to_def lock_state_def)
  have ex1: "locked_to s \<Longrightarrow> il_enabled (ss_lock s) \<Longrightarrow> ipl.exclusive (peers s @ [[]]) (ss_lock s, ss_os s)"
    using ex0 by (auto simp: ipl.exclusive_def)
  let ?goal = "\<lambda>ok L w es. accept_admit E peer s = Inr (ok, s\<lparr>ss_lock := L, ss_os := w, ss_trace := ss_trace s @ es\<rparr>) \<and>
     ip_lock_ok L \<and> il_enabled L = il_enabled (ss_lock s) \<and> (\<forall>x\<in>set es. about {} {} x) \<and>
     (locked_to s \<longrightarrow> il_enabled L \<longrightarrow> ipl.exclusive (peers s @ (if ok \<and> peer \<noteq> None then [the peer] else [])) (L, w))"
  show ?thesis
  proof (cases peer)
    case None
    then have "?goal True (ss_lock s) (ss_os s) []" using ok0 ex0 by (simp add: accept_admit_def)
    then show ?thesis by blast
  next
    case (Some p)
    consider "acl_refuses E s p" | "\<not> acl_refuses E s p" "\<not> il_enabled (ss_lock s)"
      | "\<not> acl_refuses E s p" "il_enabled (ss_lock s)" "p = []" | "\<not> acl_refuses E s p" "il_enabled (ss_lock s)" "ip_str p" using peer Some by blast
    then show ?thesis
    proof cases
      case 1
      then have "?goal False (ss_lock s) (ss_os s) [Refused p]" using ok0 ex0 Some by (simp add: admit_acl trace_def)
      then show ?thesis by blast
    next
      case 2
      then have "accept_admit E peer s = Inr (True, s)"
        using Some by (simp only: accept_admit_def option.case if_not_P [OF 2(1) [unfolded acl_refuses_def]])
          (simp add: check_ip_lock_allowed_def ip_lock_is_enabled_def)
      then have "?goal True (ss_lock s) (ss_os s) []" using 2(2) ok0 by simp
      then show ?thesis by blast
    next
      case 3
      let ?L = "ip_lock_record_incoming (ss_os s) p (ss_lock s)"
      have "accept_admit E peer s = Inr (True, s\<lparr>ss_lock := ?L\<rparr>)"
        using Some 3 by (simp only: accept_admit_def option.case if_not_P [OF 3(1) [unfolded acl_refuses_def]])
          (use 3(1) in \<open>simp add: check_ip_lock_allowed_def ip_lock_is_enabled_def acl_refuses_def\<close>)
      moreover have "?L = ss_lock s"
        using 3 by (simp add: ip_lock_record_incoming_def ip_lock_push_recent_def)
      ultimately have "?goal True (ss_lock s) (ss_os s) []" using 3 ok0 ex1 Some by simp
      then show ?thesis by blast
    next
      case 4
      obtain ok L1 w1 where gt: "ipl.gate (peers s) p (ss_lock s, ss_os s) = (ok, L1, w1)"
        using prod_cases3 [of "ipl.gate (peers s) p (ss_lock s, ss_os s)"] by blast
      note g1 = gate_ok [OF ok0 4(3) gt]
      note adm = admit_gate [OF l 4(2,3,1) gt]
      show ?thesis
      proof (cases ok)
        case True
        let ?L = "ip_lock_record_incoming w1 p L1"
        have "locked_to s \<Longrightarrow> ipl.exclusive (peers s @ [p]) (L1, w1)"
          using ipl.gate_admits [OF ex0 [OF _ 4(2)] 4(3)] gt True by simp
        then have "locked_to s \<Longrightarrow> ipl.exclusive (peers s @ [p]) (?L, w1)"
          using record_kept(1) [OF g1(1) 4(3), of w1] by (auto simp: ipl.exclusive_def lock_kept_def)
        then have "?goal True ?L w1 []"
          using adm True g1(2) Some record_kept(1) [OF g1(1) 4(3), of w1]
          by (simp add: lock_kept_def)
        then show ?thesis by blast
      next
        case False
        let ?L = "ip_lock_record_blocked w1 p L1"
        note rk = record_kept(2) [OF g1(1) 4(3), of w1]
        let ?s = "s\<lparr>ss_lock := ?L, ss_os := w1\<rparr>"
        have "inv W e d ?s" using inv_lock [OF i, of ?L w1] rk by (simp add: lock_kept_def)
        then obtain L2 w2 where u: "update_ip_lock_status ?s = Inr (?s\<lparr>ss_lock := L2, ss_os := w2\<rparr>)"
            "lock_kept ?L w1 L2 w2"
          using update_status [OF inv_links, of W e d "{}" ?s] by auto
        note k = lock_kept_trans [OF rk u(2)]
        have "locked_to s \<Longrightarrow> ipl.exclusive (peers s) (L1, w1)" using ipl.gate_refused [OF ex0 [OF _ 4(2)], of p "(L1, w1)"] gt False by simp
        then have "locked_to s \<Longrightarrow> ipl.exclusive (peers s) (L2, w2)" using k by (auto simp: ipl.exclusive_def lock_kept_def)
        then have "?goal False L2 w2 [Refused p]"
          using adm u(1) False Some g1(2) k by (simp add: lock_kept_def trace_def)
        then show ?thesis by blast
      qed
    qed
  qed
qed

lemma add_server:
  assumes i: "inv W e d s" and w: "W w" and ok: "srv_ok e d sv"
    and sv: "sv_remote sv = None" "sv_query sv = None"
    and s': "s' = s\<lparr>ss_next := ss_next s + 1, ss_servers := (ss_servers s)(ss_next s \<mapsto> sv), ss_world := w,
      ss_conns := ss_conns s @ [ss_next s]\<rparr>"
  shows "inv_x W e d {ss_next s} s'" "peers s' = peers s @ [sv_peer_ip sv]"
proof -
  note l = inv_links [OF i] and f = fresh_id [OF inv_links [OF i]]
  have nin: "ss_next s \<notin> set (ss_conns s)" using links_glob(4) [OF l] f(3) by auto
  have "links W e d s'"
  proof (rule linksI)
    show "j < ss_next s' \<and> srv_ok e d sv1 \<and> srv_links s' j sv1" if "ss_servers s' j = Some sv1" for j sv1
      using that links_server(1,2,4) [OF l, of j sv1] ok sv by (auto simp: s' srv_links_def split: if_splits)
    show "j < ss_next s' \<and> sock_buf (rm_buf r) \<and> rem_links s' j r" if "ss_remotes s' j = Some r" for j r
      using that links_remote(1-3) [OF l, of j r] f(3) by (auto simp: s' rem_links_def)
    show "j < ss_next s' \<and> qry_links s' j q" if "ss_queries s' j = Some q" for j q
      using that links_query(1,2) [OF l, of j q] f(3) by (auto simp: s' qry_links_def)
    show "\<forall>x\<in>set (ss_trace s'). about {..<ss_next s'} {..<ss_next s'} x"
      using links_glob(5) [OF l] about_mono [of "{..<ss_next s}" "{..<ss_next s}" _ "{..<ss_next s'}" "{..<ss_next s'}"]
      by (simp add: s' lessThan_Suc subset_insertI)
  qed (use links_glob [OF l] w nin in \<open>auto simp: s'\<close>)
  moreover have "flow (ss_trace s') j sv1 (linked s' sv1)" if "ss_servers s' j = Some sv1" "j \<noteq> ss_next s" for j sv1
    using that inv_flow [OF i, of j sv1] by (simp add: s' linked_def cong: option.case_cong)
  ultimately show "inv_x W e d {ss_next s} s'" by (simp add: inv_x_def)
  show "peers s' = peers s @ [sv_peer_ip sv]" using nin by (auto simp: s' peers_def)
qed

context relay_crypto
begin

lemma accept_result:
  assumes i: "inv winv einv dinv s" and peer: "\<forall>p. peer = Some p \<longrightarrow> p = [] \<or> ip_str p"
  shows "\<exists>ok t s'. accept_admit E peer s = Inr (ok, t) \<and> accept_cb E peer s = Inr s' \<and> inv winv einv dinv s' \<and>
     (locked_to s \<longrightarrow> locked_to s') \<and> il_locked (ss_lock s') = il_locked (ss_lock t) \<and> ss_trace s' = ss_trace t \<and>
     (if ok then \<exists>sv. ss_servers s' = (ss_servers s)(ss_next s \<mapsto> sv) \<and> sv_stage sv = STAGE_INIT \<and> sv_recv_io sv \<and>
                   sv_peer_ip sv = (case peer of Some p \<Rightarrow> p | None \<Rightarrow> [])
      else ss_servers s' = ss_servers s)"
proof -
  obtain ok L w es where a: "accept_admit E peer s = Inr (ok, s\<lparr>ss_lock := L, ss_os := w, ss_trace := ss_trace s @ es\<rparr>)"
     "ip_lock_ok L" "il_enabled L = il_enabled (ss_lock s)" "\<forall>x\<in>set es. about {} {} x"
     "locked_to s \<longrightarrow> il_enabled L \<longrightarrow> ipl.exclusive (peers s @ (if ok \<and> peer \<noteq> None then [the peer] else [])) (L, w)"
    using admit_spec [OF i peer, of E] by blast
  let ?s1 = "s\<lparr>ss_lock := L, ss_os := w, ss_trace := ss_trace s @ es\<rparr>"
  have i1: "inv winv einv dinv ?s1" by (rule inv_env [OF i, where es = es]) (use a in auto)
  have p1: "peers ?s1 = peers s" by (simp add: peers_def)
  show ?thesis
  proof (cases ok)
    case False
    then have "locked_to s \<longrightarrow> locked_to ?s1" using a(5) by (simp add: locked_to_def lock_state_def p1)
    then show ?thesis using a(1) i1 False
      by (intro exI [of _ False] exI [of _ ?s1]) (simp add: accept_cb_def)
  next
    case True
    obtain ec w1 where ec: "en_ctx_init E (ss_world s) True = Inr (ec, w1)" "winv w1" "einv ec"
      using ctx_enc [OF links_glob(1) [OF inv_links [OF i]]] by blast
    obtain dc w2 where dc: "en_ctx_init E w1 False = Inr (dc, w2)" "winv w2" "dinv dc" using ctx_dec [OF ec(2)] by blast
    define ip where "ip = (case peer of Some p \<Rightarrow> p | None \<Rightarrow> [])"
    have cp: "str_copy INET6_ADDRSTRLEN ip = ip" "ip = [] \<or> ip_str ip"
      using peer by (auto simp: ip_def str_copy_def ip_str_def ip_lock_consts split: option.splits)
    define sv where "sv = \<lparr>sv_stage = STAGE_INIT, sv_frag = 0, sv_peer_ip = ip,
                  sv_buf = balloc (en_junk E) SOCKET_BUF_SIZE, sv_e_ctx = ec, sv_d_ctx = dc,
                  sv_recv_io = False, sv_send_io = False, sv_timer = False,
                  sv_remote = None, sv_query = None\<rparr>"
    let ?sid = "ss_next s"
    define s2 where "s2 = ?s1\<lparr>ss_next := ?sid + 1, ss_servers := (ss_servers s)(?sid \<mapsto> sv), ss_world := w2,
      ss_conns := ss_conns s @ [?sid]\<rparr>"
    have ok2: "srv_ok einv dinv sv"
      using cp(2) ec dc by (simp add: sv_def srv_ok_def sock_buf_def buf_simps)
    have i2: "inv_x winv einv dinv {?sid} s2" and p2: "peers s2 = peers s @ [ip]"
      using add_server [OF i1 dc(2) ok2, of s2] p1 by (simp_all add: s2_def sv_def)
    have ex2: "locked_to s \<Longrightarrow> il_enabled L \<Longrightarrow> ipl.exclusive (peers s2) (L, w)"
      using a(5) True p2 by (auto simp: ip_def ipl.exclusive_def split: option.splits)
    obtain L3 w3 where u: "update_ip_lock_status s2 = Inr (s2\<lparr>ss_lock := L3, ss_os := w3\<rparr>)" "lock_kept L w L3 w3"
      using update_status [OF inv_links [OF i2]] by (auto simp: s2_def)
    let ?s3 = "s2\<lparr>ss_lock := L3, ss_os := w3\<rparr>"
    have i3: "inv_x winv einv dinv {?sid} ?s3" using inv_lock [OF i2] u(2) by (simp add: lock_kept_def)
    let ?sv = "sv\<lparr>sv_recv_io := True, sv_timer := \<not> ip_lock_is_enabled L3\<rparr>"
    let ?s4 = "?s3\<lparr>ss_servers := (ss_servers s2)(?sid \<mapsto> ?sv)\<rparr>"
    have sv3: "ss_servers ?s3 ?sid = Some sv" by (simp add: s2_def)
    have g3: "good winv einv dinv ?s3 {?sid} ?s3"
      using i3 u(2) by (auto simp: good_def quiet_def lock_kept_def)
    have g4: "good winv einv dinv ?s3 {} ?s4"
    proof (rule good_srv [OF g3 sv3, where sv' = ?sv and es = "[]"])
      show "flow (ss_trace ?s4) ?sid ?sv (linked ?s3 sv)"
        using fresh_id(6-8) [OF inv_links [OF i1]] by (simp add: s2_def sv_def flow_simps linked_def)
    qed (use ok2 links_glob(1) [OF inv_links [OF i3]] in \<open>auto simp: srv_ok_def\<close>)
    let ?s2 = "s2\<lparr>ss_servers := (ss_servers s)(?sid \<mapsto> sv\<lparr>sv_peer_ip := []\<rparr>)\<rparr>"
    have n: "new_server E ?s1 = Inr (?sid, ?s2)"
      using ec(1) dc(1) by (simp add: new_server_def Let_def s2_def sv_def)
    have pr: "(case peer of Some p \<Rightarrow> upd_server ?sid (\<lambda>sv. sv\<lparr>sv_peer_ip := str_copy INET6_ADDRSTRLEN p\<rparr>) ?s2 | None \<Rightarrow> Inr ?s2)
        = Inr s2"
      using cp(1) by (cases peer) (simp_all add: upd_eq s2_def sv_def ip_def)
    have "accept_cb E peer s = Inr ?s4"
      using a(1) True by (simp add: accept_cb_def n pr u(1) upd_eq(1) [OF sv3])
    moreover have "locked_to s \<Longrightarrow> locked_to ?s3"
      using ex2 u(2) by (auto simp: locked_to_def lock_state_def peers_def lock_kept_def ipl.exclusive_def)
    moreover have "inv winv einv dinv ?s4" "quiet ?s3 ?s4" using g4 by (auto simp: good_def)
    moreover have "\<exists>sv. ss_servers ?s4 = (ss_servers s)(?sid \<mapsto> sv) \<and> sv_stage sv = STAGE_INIT \<and> sv_recv_io sv \<and>
        sv_peer_ip sv = (case peer of Some p \<Rightarrow> p | None \<Rightarrow> [])"
      by (rule exI [of _ ?sv]) (simp add: s2_def sv_def ip_def)
    ultimately show ?thesis
      using quiet_locked [OF inv_links [OF i3] inv_links, of "{}" ?s4] a(1) True u(2)
      by (intro exI [of _ True] exI [of _ ?s1] exI [of _ ?s4]) (auto simp: s2_def lock_kept_def)
  qed
qed

lemma accept_good:
  assumes "inv winv einv dinv s" "\<forall>p. peer = Some p \<longrightarrow> p = [] \<or> ip_str p"
  shows "\<exists>s'. accept_cb E peer s = Inr s' \<and> inv winv einv dinv s' \<and> (locked_to s \<longrightarrow> locked_to s')"
  using accept_result [OF assms] by blast

end

end
