(* ===== verification/Server_Steps.thy ===== *)
theory Server_Steps
  imports Server_Accept
begin

text \<open>
  The event loop: every event keeps the invariant, for any cipher module that meets the contract
  \<open>relay_crypto\<close>, so it holds in every reachable state; every event of the server itself also keeps the
  exclusiveness of the lock, so that holds while no other process touches the files.
\<close>

text \<open>
  The one event the server does not survive: the first authentic packet of a connection asks for a
  name of 255 bytes.
\<close>

definition asks_overlong :: "('c, 'w, 're) env \<Rightarrow> ('c, 'w, 're) ss \<Rightarrow> ev \<Rightarrow> bool" where
  "asks_overlong E s x =
     (case x of
        Server_recv io sid \<Rightarrow>
          (case (ss_servers s sid, io_recv io) of
             (Some sv, Recv bs) \<Rightarrow> sv_stage sv = STAGE_INIT \<and>
               (case first_plain E sv (ss_world s) bs of Some p \<Rightarrow> overlong p | None \<Rightarrow> False)
           | _ \<Rightarrow> False)
      | _ \<Rightarrow> False)"

lemma good_locked:
  assumes "inv W e d s" "good W e d s {} s'"
  shows "inv W e d s' \<and> (locked_to s \<longrightarrow> locked_to s')"
  using assms quiet_locked [OF inv_links [OF assms(1)] inv_links, of "{}" s'] by (auto simp: good_def)

context relay_crypto
begin

lemma step_good:
  assumes i: "inv winv einv dinv s" and en: "enabled s x"
  shows "safe (asks_overlong E s x) (\<lambda>s'. inv winv einv dinv s' \<and> (own_event x \<longrightarrow> locked_to s \<longrightarrow> locked_to s')) (handle E x s)"
proof -
  note l = inv_links [OF i]
  have fin: "safe ov (\<lambda>s'. inv winv einv dinv s' \<and> (own_event x \<longrightarrow> locked_to s \<longrightarrow> locked_to s')) m"
    if "\<exists>s'. m = Inr s' \<and> good winv einv dinv s {} s'" for m ov
    using that good_locked [OF i] by auto
  show ?thesis
  proof (cases x)
    case (Accept peer)
    then show ?thesis using accept_good [OF i, of peer] en by (cases peer) auto
  next
    case (Server_recv io sid)
    then obtain sv where sv: "ss_servers s sid = Some sv" "sv_recv_io sv" "io_ok io" using en by (auto split: option.splits)
    show ?thesis
      using Server_recv sv good_locked [OF i]
      by (auto simp: asks_overlong_def intro!: safe_mono [OF server_recv_good [OF i sv]])
  next
    case (Server_send io sid)
    then show ?thesis using server_send_good [OF i, of sid] en fin by (auto split: option.splits)
  next
    case (Server_timeout sid)
    then obtain sv where sv: "ss_servers s sid = Some sv" using en by (auto split: option.splits)
    then show ?thesis
      using Server_timeout good_close_both [OF good_enter [OF i] sv, of "sv_remote sv"] fin
      by (auto simp: server_timeout_cb_def get_eq)
  next
    case (Remote_recv io rid)
    then show ?thesis using remote_recv_good [OF i, of rid] en fin by (auto split: option.splits)
  next
    case (Remote_send io rid)
    then show ?thesis using remote_send_good [OF i, of rid] en fin by (auto split: option.splits)
  next
    case (Resolved io a qid)
    then obtain q where q: "ss_queries s qid = Some q" using en by auto
    show ?thesis
      using Resolved good_locked [OF i] by (auto intro: safe_mono [OF resolved_safe [OF i q]])
  next
    case (Stat sent)
    obtain L w where u: "update_ip_lock_status s = Inr (s\<lparr>ss_lock := L, ss_os := w\<rparr>)" "lock_kept (ss_lock s) (ss_os s) L w"
      using update_status [OF l] by blast
    have "good winv einv dinv s {} (s\<lparr>ss_lock := L, ss_os := w\<rparr>)"
      using inv_lock [OF i, of L w] u(2) by (auto simp: good_def quiet_def lock_kept_def)
    then show ?thesis using Stat u(1) good_enter [OF i, of "{}"] fin by (auto simp: stat_update_cb_def)
  next
    case (Tick dt)
    let ?w = "(ss_os s)\<lparr>os_time := os_time (ss_os s) + dt\<rparr>"
    have "inv winv einv dinv (s\<lparr>ss_lock := ss_lock s, ss_os := ?w\<rparr>)" using inv_lock [OF i links_glob(2) [OF l], of ?w] .
    moreover have "lock_kept (ss_lock s) (ss_os s) (ss_lock s) ?w"
      using links_glob(2) [OF l] by (auto simp: lock_kept_def lock_sync_def)
    ultimately have "good winv einv dinv s {} (s\<lparr>ss_os := ?w\<rparr>)" by (auto simp: good_def quiet_def)
    then show ?thesis using Tick good_locked [OF i] by simp
  next
    case (Files w)
    then show ?thesis
      using inv_lock [OF i links_glob(2) [OF l], of "w\<lparr>os_time := os_time (ss_os s)\<rparr>"] by (simp add: safe_def)
  qed
qed

lemma reach_good:
  assumes "reach E s0 s" "inv winv einv dinv s0"
  shows "inv winv einv dinv s"
  using assms
proof (induction rule: reach.induct)
  case (reach_step s x s')
  then show ?case using step_good [of s x] by simp
qed simp

lemma reach_alone_good:
  assumes "reach_alone E s0 s" "inv winv einv dinv s0" "locked_to s0"
  shows "inv winv einv dinv s \<and> locked_to s"
  using assms
proof (induction rule: reach_alone.induct)
  case (alone_step s x s')
  then show ?case using step_good [of s x] by simp
qed simp

end

end
