(* ===== verification/Server_Aead.thy ===== *)
theory Server_Aead
  imports Aead_Packet Server_Steps
begin

text \<open>
  The relay with the AEAD ciphers: \<open>crypto_init\<close> of \<^verbatim>\<open>src/crypto.c\<close> puts \<open>aead_encrypt\<close>, \<open>aead_decrypt\<close>
  and \<open>aead_ctx_init\<close> into the \<open>crypto_t\<close> the relay calls. These functions meet the contract
  \<open>relay_crypto\<close>, so every theorem about the relay holds of the server as it is built.
\<close>

section \<open>Buffers handed back\<close>

lemma aead_cipher_decrypt_frame:
  assumes "aead_cipher_decrypt L ctx mem off plen m n k = Inr (err, mem', plen')"
  shows "length mem' = length mem" "err = 0 \<longrightarrow> off + plen' \<le> length mem"
  using assms
  by (auto simp: aead_cipher_decrypt_def Let_def bindr_Inr_iff mem_write_Inr_iff CRYPTO_ERROR_def
      split: if_splits option.splits prod.splits)

lemma aead_chunk_decrypt_frame:
  assumes "aead_chunk_decrypt L ctx pm po cm co plen clen = Inr (err, ctx', pm', plen', clen')"
  shows "length pm' = length pm" "err \<noteq> CRYPTO_ERROR \<Longrightarrow> err \<noteq> CRYPTO_NEED_MORE \<Longrightarrow> po + plen' \<le> length pm"
  using assms
  by (auto simp: aead_chunk_decrypt_def Let_def bindr_Inr_iff split: if_splits dest: aead_cipher_decrypt_frame)

lemma aead_decrypt_loop_frame:
  assumes "aead_decrypt_loop L ctx pm chunk plen cidx = Inr (early, ctx', pm', chunk', plen')" "plen \<le> length pm"
  shows "length pm' = length pm \<and> plen' \<le> length pm \<and> early \<noteq> Some CRYPTO_OK"
  using assms
proof (induction L ctx pm chunk plen cidx arbitrary: early ctx' pm' chunk' plen' rule: aead_decrypt_loop.induct)
  case (1 L ctx pm chunk plen cidx)
  note run = "1.prems"(1) [unfolded aead_decrypt_loop.simps [of L ctx pm chunk plen cidx]]
  show ?case
  proof (cases "buf_len chunk > 0")
    case False
    then show ?thesis using run "1.prems"(2) by simp
  next
    case True
    then obtain err c1 pm1 pl cl where d:
        "aead_chunk_decrypt L ctx pm plen (buf_data chunk) (buf_idx chunk + cidx) 0 (buf_len chunk) = Inr (err, c1, pm1, pl, cl)"
      using run by (auto split: sum.splits)
    note fr = aead_chunk_decrypt_frame [OF d]
    show ?thesis
    proof (cases "err = CRYPTO_ERROR \<or> err = CRYPTO_NEED_MORE")
      case True
      then show ?thesis using run d fr(1) "1.prems"(2) \<open>buf_len chunk > 0\<close> by (auto split: if_splits)
    next
      case False
      then show ?thesis
        using "1.IH" [OF \<open>buf_len chunk > 0\<close> d] run d fr \<open>buf_len chunk > 0\<close> by auto
    qed
  qed
qed

lemma aead_collect_frame:
  assumes "aead_collect junk c0 b cap = Inr (ch, ct)"
  shows "cap \<le> buf_capacity ct"
  using assms by (auto simp: aead_collect_def Let_def bindr_Inr_iff buf_simps)

lemma aead_decrypt_frame:
  assumes run: "aead_decrypt L w b ctx cap = Inr (r, b', ctx', w')" and b: "recv_wf b" and cw: "chunk_wf (cx_chunk ctx)"
  shows "tmp_wf b' \<and> cap \<le> buf_capacity b' \<and> (r = CRYPTO_OK \<longrightarrow> buf_len b' \<le> buf_capacity b')"
proof -
  obtain ch ct where c: "aead_collect (cw_junk w) (cx_chunk ctx) b cap = Inr (ch, ct)" "tmp_wf ct"
    using aead_collect_ok [OF cw b, of "cw_junk w" cap] by blast
  note cap = aead_collect_frame [OF c(1)]
  obtain early c1 ch1 w1 where s: "aead_decrypt_salt L w ctx ch = Inr (early, c1, ch1, w1)"
      "(case early of Some err \<Rightarrow> Inr (err, ct, c1\<lparr>cx_chunk := Some ch1\<rparr>, w1)
        | None \<Rightarrow> aead_decrypt_rest L w1 ct c1 ch1) = Inr (r, b', ctx', w')"
    using run c(1) by (auto simp: aead_decrypt_def bindr_Inr_iff)
  show ?thesis
  proof (cases early)
    case (Some err)
    have "err \<noteq> CRYPTO_OK"
      using s(1) Some by (auto simp: aead_decrypt_salt_def Let_def bindr_Inr_iff CRYPTO_OK_def CRYPTO_ERROR_def CRYPTO_NEED_MORE_def
          split: if_splits)
    then show ?thesis using s(2) Some c(2) cap by auto
  next
    case None
    then obtain early2 c2 pm ch2 pl where lp: "aead_decrypt_loop L c1 (buf_data ct) ch1 0 0 = Inr (early2, c2, pm, ch2, pl)"
      using s(2) by (auto simp: aead_decrypt_rest_def Let_def bindr_Inr_iff)
    note fr = aead_decrypt_loop_frame [OF lp]
    show ?thesis
      using s(2) None lp fr c(2) cap
      by (auto simp: aead_decrypt_rest_def Let_def bindr_Inr_iff tmp_wf_def split: option.splits if_splits)
  qed
qed

lemma aead_encrypt_frame:
  assumes "aead_encrypt L w b (Some ctx) cap = Inr (r, b', ctx', w')" "buf_len b \<noteq> 0"
  shows "b' = b \<or> cap \<le> buf_capacity b'"
  using assms
  by (auto simp: aead_encrypt_def Let_def bindr_Inr_iff bswap_data_def buf_simps split: if_splits)

section \<open>The contract\<close>

definition aead_env :: "('g, 'e) crypto_lib \<Rightarrow> cipher \<Rightarrow> bool \<Rightarrow> 're acl_env \<Rightarrow> (sockaddr \<Rightarrow> bytes) \<Rightarrow>
    (sockaddr \<Rightarrow> bool) \<Rightarrow> junk \<Rightarrow> (('g, 'e) cipher_ctx, 'd crypto_world, 're) env" where
  "aead_env L ci acl_on acl ntop bind_local junk =
     \<lparr>en_encrypt = (\<lambda>w b c cap. bindr (aead_encrypt L w b (Some c) cap) (\<lambda>(r, b', c', w').
         case c' of Some c' \<Rightarrow> Inr (r, b', c', w') | None \<Rightarrow> Inl Dangling)),
      en_decrypt = aead_decrypt L, en_ctx_init = (\<lambda>w enc. aead_ctx_init L w ci enc),
      en_acl_on = acl_on, en_acl = acl, en_ntop = ntop, en_bind_local = bind_local, en_junk = junk\<rparr>"

definition enc_inv :: "('g, 'e) crypto_lib \<Rightarrow> cipher \<Rightarrow> ('g, 'e) cipher_ctx \<Rightarrow> bool" where
  "enc_inv L ci ctx \<longleftrightarrow> cx_cipher ctx = ci \<and>
     (if cx_init ctx = 0 then ctx_ready L ctx else \<exists>sk. ctx_keyed L ctx True sk)"

definition dec_inv :: "('g, 'e) crypto_lib \<Rightarrow> cipher \<Rightarrow> ('g, 'e) cipher_ctx \<Rightarrow> bool" where
  "dec_inv L ci ctx \<longleftrightarrow> cx_cipher ctx = ci \<and> chunk_wf (cx_chunk ctx) \<and>
     (if cx_init ctx = 0 then ctx_ready L ctx \<and> length (pending (cx_chunk ctx)) \<le> key_len ctx
      else (cx_init ctx = 1 \<or> cx_init ctx = 2) \<and> (\<exists>sk. ctx_keyed L ctx False sk))"

lemma rx_inv_split: "cx_cipher ctx = ci \<Longrightarrow> rx_inv L w ctx \<longleftrightarrow> world_wf w \<and> dec_inv L ci ctx"
  by (simp add: rx_inv_def dec_inv_def)

lemma sock_recv_wf: "sock_buf b \<Longrightarrow> buf_len b \<le> SOCKET_BUF_SIZE \<Longrightarrow> recv_wf b"
  by (simp add: sock_buf_def recv_wf_def tmp_wf_def)

lemma aead_relay_decrypt:
  assumes lib: "lib_ok L" and v: "mbedtls_compat L ci" and w: "world_wf w" and c: "dec_inv L ci ctx"
    and b: "sock_buf b" "buf_len b \<le> SOCKET_BUF_SIZE"
  shows "\<exists>r b' c' w'. aead_decrypt L w b ctx SOCKET_BUF_SIZE = Inr (r, b', c', w') \<and> world_wf w' \<and> sock_buf b' \<and>
     (r = CRYPTO_ERROR \<or> (r = CRYPTO_NEED_MORE \<or> r = CRYPTO_OK \<and> buf_len b' \<le> buf_capacity b') \<and> dec_inv L ci c')"
proof -
  have ci: "cx_cipher ctx = ci" and cw: "chunk_wf (cx_chunk ctx)" using c by (auto simp: dec_inv_def)
  note bw = sock_recv_wf [OF b]
  have rx: "rx_inv L w ctx" using rx_inv_split [OF ci] w c by blast
  have v': "mbedtls_compat L (cx_cipher ctx)" using v ci by simp
  obtain r b' c' w' where d: "aead_decrypt L w b ctx SOCKET_BUF_SIZE = Inr (r, b', c', w')" "world_wf w'"
      "r = CRYPTO_ERROR \<or> (r = CRYPTO_OK \<or> r = CRYPTO_NEED_MORE) \<and> rx_inv L w' c' \<and> cx_cipher c' = ci"
    using aead_decrypt_inv [OF lib v' rx bw, of SOCKET_BUF_SIZE] ci by blast
  show ?thesis
    using d aead_decrypt_frame [OF d(1) bw cw] rx_inv_split by (fastforce simp: sock_buf_def tmp_wf_def)
qed

lemma aead_relay_encrypt:
  assumes lib: "lib_ok L" and v: "mbedtls_compat L ci" and w: "world_wf w" and c: "enc_inv L ci ctx"
    and b: "sock_buf b" "0 < buf_len b" "buf_len b \<le> SOCKET_BUF_SIZE"
  shows "\<exists>b' c' w'. aead_encrypt L w b (Some ctx) SOCKET_BUF_SIZE = Inr (0, b', Some c', w') \<and> world_wf w' \<and>
     sock_buf b' \<and> buf_len b' \<le> buf_capacity b' \<and> enc_inv L ci c'"
proof -
  have ci: "cx_cipher ctx = ci" using c by (simp add: enc_inv_def)
  note bw = sock_recv_wf [OF b(1,3)]
  have cs: "chunk_sized (recv_bytes b)"
    using b bw by (simp add: chunk_sized_def recv_bytes_def recv_wf_def tmp_wf_def CHUNK_SIZE_MASK_def SOCKET_BUF_SIZE_def)
  have "\<exists>b' c' w'. aead_encrypt L w b (Some ctx) SOCKET_BUF_SIZE = Inr (0, b', Some c', w') \<and> world_wf w' \<and>
      recv_wf b' \<and> enc_inv L ci c'"
  proof (cases "cx_init ctx = 0")
    case True
    then have rd: "ctx_ready L ctx" using c by (simp add: enc_inv_def)
    obtain b' c' w' where e: "aead_encrypt L w b (Some ctx) SOCKET_BUF_SIZE = Inr (0, b', Some c', w')" "recv_wf b'" "world_wf w'"
        "ctx_keyed L c' True (subkey L (cx_cipher ctx) (ctx_salt ctx))" "cx_init c' = 1" "cx_cipher c' = cx_cipher ctx"
      using aead_encrypt_fresh [OF lib _ rd True w bw cs, of SOCKET_BUF_SIZE] v ci by auto
    then have "enc_inv L ci c'" using ci by (auto simp: enc_inv_def)
    then show ?thesis using e by blast
  next
    case False
    then obtain sk where k: "ctx_keyed L ctx True sk" using c by (auto simp: enc_inv_def)
    let ?n = "sodium_increment L (sodium_increment L (cur_nonce ctx))"
    obtain b' w' where e: "aead_encrypt L w b (Some ctx) SOCKET_BUF_SIZE = Inr (0, b', Some (at_nonce ctx ?n), w')"
        "world_wf w'" "recv_wf b'"
      using aead_encrypt_keyed [OF lib _ k False w bw cs, of SOCKET_BUF_SIZE] v ci by auto
    have "length ?n = ci_nonce_len (cx_cipher ctx)" using keyed_nonce_length [OF k] inc_length [OF lib] by simp
    then have "enc_inv L ci (at_nonce ctx ?n)" using keyed_at_nonce [OF k] False ci by (auto simp: enc_inv_def)
    then show ?thesis using e by blast
  qed
  then obtain b' c' w' where e: "aead_encrypt L w b (Some ctx) SOCKET_BUF_SIZE = Inr (0, b', Some c', w')" "world_wf w'"
      "recv_wf b'" "enc_inv L ci c'" by blast
  have "SOCKET_BUF_SIZE \<le> buf_capacity b'" using aead_encrypt_frame [OF e(1)] b by (auto simp: sock_buf_def)
  then show ?thesis using e by (auto simp: recv_wf_def tmp_wf_def sock_buf_def)
qed

text \<open>
  What the process has checked when it starts: the crypto library behaves as documented, the
  cipher is one \<open>aead_key_init\<close> makes, the replay filter and the static buffers are in order.
\<close>

definition aead_world :: "('g, 'e) crypto_lib \<Rightarrow> cipher \<Rightarrow> 'd crypto_world \<Rightarrow> bool" where
  "aead_world L ci w \<longleftrightarrow> lib_ok L \<and> cipher_ok ci \<and> mbedtls_compat L ci \<and> world_wf w"

lemma rand_world: "world_wf w \<Longrightarrow> world_wf (snd (rand_bytes w n))"
  by (simp add: rand_bytes_def Let_def world_wf_def)

interpretation srv: relay_crypto "aead_env L ci acl_on acl ntop bind_local junk" "aead_world L ci" "enc_inv L ci" "dec_inv L ci"
  for L ci acl_on acl ntop bind_local junk
proof (unfold_locales, goal_cases)
  case (1 w)
  then show ?case
    using aead_ctx_init_send [of L ci w] rand_world [of w] by (auto simp: aead_env_def aead_world_def enc_inv_def)
next
  case (2 w)
  then obtain c where "aead_ctx_init L w ci False = Inr (c, w)" "ctx_ready L c" "cx_init c = 0" "cx_cipher c = ci" "cx_chunk c = None"
    using aead_ctx_init_recv [of L ci w] by (auto simp: aead_world_def)
  moreover from this have "dec_inv L ci c" by (simp add: dec_inv_def chunk_wf_def pending_def)
  ultimately show ?case using 2 by (auto simp: aead_env_def)
next
  case (3 w c b)
  then show ?case
    using aead_relay_decrypt [of L ci w c b] by (auto simp: aead_env_def aead_world_def)
next
  case (4 w c b)
  then obtain b' c' w' where "aead_encrypt L w b (Some c) SOCKET_BUF_SIZE = Inr (0, b', Some c', w')" "world_wf w'"
      "sock_buf b'" "buf_len b' \<le> buf_capacity b'" "enc_inv L ci c'"
    using aead_relay_encrypt [of L ci w c b] by (auto simp: aead_world_def)
  then show ?case using 4(1) by (auto simp: aead_env_def aead_world_def)
qed

end
