(* ===== verification/Server_Props.thy ===== *)
theory Server_Props
  imports Server_Aead
begin

text \<open>
  The properties of the running server, for every event sequence and every behaviour of the system
  calls: it is memory safe, it relays exactly what was sent, one address holds the lock, no
  connection is left without a watcher, and shutting down closes everything.
\<close>

section \<open>Reachable states\<close>

definition relay_ok :: "('g, 'e) crypto_lib \<Rightarrow> cipher \<Rightarrow> (('g, 'e) cipher_ctx, 'd crypto_world, 're) ss \<Rightarrow> bool" where
  "relay_ok L ci s \<longleftrightarrow> inv (aead_world L ci) (enc_inv L ci) (dec_inv L ci) s"

lemma relay_ok_links: "relay_ok L ci s \<Longrightarrow> links (aead_world L ci) (enc_inv L ci) (dec_inv L ci) s"
  by (auto simp: relay_ok_def dest: inv_links)

lemma relay_ok_flow:
  "relay_ok L ci s \<Longrightarrow> ss_servers s sid = Some sv \<Longrightarrow> flow (ss_trace s) sid sv (linked s sv)"
  by (auto simp: relay_ok_def dest: inv_flow)

lemma relay_ok_reach:
  assumes "reach (aead_env L ci acl_on acl ntop bind_local junk) s0 s" "relay_ok L ci s0"
  shows "relay_ok L ci s"
  using srv.reach_good [OF assms(1)] assms(2) by (simp add: relay_ok_def)

lemma relay_ok_start: "aead_world L ci w \<Longrightarrow> ip_lock_ok Lk \<Longrightarrow> relay_ok L ci (ss_start Lk os w A fast)"
  by (simp add: relay_ok_def inv_x_def links_def ss_start_def)

lemma locked_to_start: "lock_sync (Lk, os) \<Longrightarrow> locked_to (ss_start Lk os w A fast)"
  by (simp add: ss_start_def locked_to_def ipl.exclusive_def lock_state_def peers_def)

lemma alone_reach: "reach_alone E s0 s \<Longrightarrow> reach E s0 s"
  by (induction rule: reach_alone.induct) (auto intro: reach_start reach_step)

lemma reach_trans:
  assumes "reach E s1 s2" "reach E s0 s1"
  shows "reach E s0 s2"
  using assms by (induction rule: reach.induct) (auto intro: reach_step)

lemma linked_ok:
  assumes "relay_ok L ci s" "ss_servers s sid = Some sv"
  shows "sv_remote sv = Some rid \<Longrightarrow> \<exists>r. ss_remotes s rid = Some r \<and> rm_server r = Some sid \<and> linked s sv = Some (rid, r)"
    "linked s sv = None \<Longrightarrow> sv_remote sv = None"
proof -
  show *: "\<exists>r. ss_remotes s rid = Some r \<and> rm_server r = Some sid \<and> linked s sv = Some (rid, r)" if "sv_remote sv = Some rid" for rid
    using links_server(5) [OF relay_ok_links [OF assms(1)] assms(2) that] linked_eq(2) [OF that] by blast
  show "linked s sv = None \<Longrightarrow> sv_remote sv = None" using * by (cases "sv_remote sv") fastforce+
qed

section \<open>Shutting down\<close>

lemma close_all_good:
  assumes "inv W e d s" "distinct sids" "set sids = dom (ss_servers s)"
  shows "\<exists>s'. close_all sids s = Inr s' \<and> inv W e d s' \<and> ss_servers s' = Map.empty \<and>
     (\<forall>rid r. ss_remotes s' rid = Some r \<longrightarrow> ss_remotes s rid = Some r \<and> rm_server r = None)"
  using assms
proof (induction sids arbitrary: s)
  case Nil
  then have "rm_server r = None" if "ss_remotes s rid = Some r" for rid r
    using links_remote(4) [OF inv_links [OF Nil(1)] that] by (cases "rm_server r") fastforce+
  then show ?case using Nil by (auto simp: dom_def)
next
  case (Cons sid sids)
  note l = inv_links [OF Cons.prems(1)]
  obtain sv where sv: "ss_servers s sid = Some sv" using Cons.prems(3) by auto
  obtain s1 where s1: "close_and_free_server sid s = Inr s1" "inv W e d s1" "ss_servers s1 = (ss_servers s)(sid := None)"
      "ss_remotes s1 = orphan (sv_remote sv) (ss_remotes s)"
    using good_close_server [OF good_enter [OF Cons.prems(1)] sv] by (auto simp: good_def)
  have "\<exists>s2. close_and_free_remote (sv_remote sv) s1 = Inr s2 \<and> inv W e d s2 \<and> ss_servers s2 = (ss_servers s)(sid := None) \<and>
      (\<forall>rid r. ss_remotes s2 rid = Some r \<longrightarrow> ss_remotes s rid = Some r)"
  proof (cases "sv_remote sv")
    case None
    then show ?thesis using s1 by (simp add: close_and_free_remote_def orphan_def)
  next
    case (Some rid)
    then obtain r where r: "ss_remotes s rid = Some r" using links_server(5) [OF l sv] by blast
    then have r1: "ss_remotes s1 rid = Some (r\<lparr>rm_server := None\<rparr>)" using s1(4) Some by (simp add: orphan_def)
    have n: "ss_servers s1 sid = None" using s1(3) by simp
    obtain s2 where s2: "close_and_free_remote (Some rid) s1 = Inr s2" "inv_x W e d {sid} s2" "ss_servers s2 = ss_servers s1"
        "ss_remotes s2 = (ss_remotes s1)(rid := None)"
      using free_remote_inv [OF inv_mono [OF s1(2)] r1, of sid] by auto
    have "inv W e d s2" using inv_finish [OF s2(2)] s2(3) n by simp
    then show ?thesis using s2 s1(3,4) Some by (auto simp: orphan_def split: if_splits)
  qed
  then obtain s2 where s2: "close_and_free_remote (sv_remote sv) s1 = Inr s2" "inv W e d s2"
      "ss_servers s2 = (ss_servers s)(sid := None)" "\<forall>rid r. ss_remotes s2 rid = Some r \<longrightarrow> ss_remotes s rid = Some r" by blast
  have "\<exists>s'. close_all sids s2 = Inr s' \<and> inv W e d s' \<and> ss_servers s' = Map.empty \<and>
     (\<forall>rid r. ss_remotes s' rid = Some r \<longrightarrow> ss_remotes s2 rid = Some r \<and> rm_server r = None)"
  proof (rule Cons.IH [OF s2(2)])
    show "distinct sids" "set sids = dom (ss_servers s2)" using Cons.prems(2,3) s2(3) by (auto simp: dom_fun_upd)
  qed
  then show ?case using sv s1(1) s2(1,4) by (fastforce simp: get_eq)
qed

section \<open>A concrete relay\<close>

text \<open>
  A server with the lock on and one client in the middle of a transfer: it asked for 1.2.3.4:80 and
  sent one byte, which is at the remote; one byte went back. The properties are applied to it.
\<close>

definition lock1 :: "ip_lock \<times> os" where
  "lock1 = ip_lock_set os0 [49] lock0"

definition server1 :: "'c \<Rightarrow> 'c \<Rightarrow> 'c server" where
  "server1 e d = \<lparr>sv_stage = STAGE_STREAM, sv_frag = 0, sv_peer_ip = [49], sv_buf = balloc (\<lambda>_. 0) SOCKET_BUF_SIZE,
     sv_e_ctx = e, sv_d_ctx = d, sv_recv_io = True, sv_send_io = False, sv_timer = False, sv_remote = Some 1, sv_query = None\<rparr>"

definition remote1 :: remote where
  "remote1 = \<lparr>rm_buf = balloc (\<lambda>_. 0) SOCKET_BUF_SIZE, rm_recv_io = True, rm_send_io = False,
     rm_recv_connected = True, rm_send_connected = True, rm_server = Some 0\<rparr>"

definition relay1 :: "'c \<Rightarrow> 'c \<Rightarrow> ('c, int crypto_world, bytes) ss" where
  "relay1 e d = \<lparr>ss_servers = [0 \<mapsto> server1 e d], ss_remotes = [1 \<mapsto> remote1], ss_queries = Map.empty, ss_conns = [0],
     ss_next = 2, ss_lock = fst lock1, ss_os = snd lock1, ss_world = world0, ss_acl = acl0, ss_fast_open = False,
     ss_tx = 0, ss_rx = 0,
     ss_trace = [Plain 0 [1, 1, 2, 3, 4, 0, 80, 9], Sent_remote 1 [9], Cipher 0 [5], Sent_client 0 [5]]\<rparr>"

abbreviation env1 :: "((unit, unit) cipher_ctx, int crypto_world, bytes) env" where
  "env1 \<equiv> aead_env lib_plain cipher_plain False acl_env0 (\<lambda>_. []) (\<lambda>_. False) (\<lambda>_. 0)"

lemma lock1_ok: "lock_sync lock1" "il_locked (fst lock1) = [49]" "il_enabled (fst lock1)" "ip_lock_ok (fst lock1)"
proof -
  obtain L w where e: "ip_lock_set os0 [49] lock0 = (L, w)" by (cases "ip_lock_set os0 [49] lock0")
  have s: "ip_str [49]" by (simp add: ip_str_def ip_lock_consts)
  note f = set_sync [OF lock0_ok(2) s e]
  have l: "lock1 = (L, w)" by (simp add: lock1_def e)
  show "lock_sync lock1" "il_locked (fst lock1) = [49]" using f(1,2) by (simp_all add: l)
  show "il_enabled (fst lock1)" using f(3) by (simp add: l lock0_def)
  show "ip_lock_ok (fst lock1)" using f(1) by (simp add: l lock_sync_def)
qed

lemma relay1_ok: "\<exists>e d. relay_ok lib_plain cipher_plain (relay1 e d)"
proof -
  obtain e where e: "enc_inv lib_plain cipher_plain e"
    using aead_ctx_init_send [OF lib_plain_ok cipher_plain_ok(1), of world0] unfolding enc_inv_def by metis
  obtain d where "aead_ctx_init lib_plain world0 cipher_plain False = Inr (d, world0)" "ctx_ready lib_plain d" "cx_init d = 0"
      "cx_cipher d = cipher_plain" "cx_chunk d = None"
    using aead_ctx_init_recv [OF lib_plain_ok cipher_plain_ok(1), of world0] by auto
  then have d: "dec_inv lib_plain cipher_plain d" by (simp add: dec_inv_def chunk_wf_def pending_def)
  have w: "aead_world lib_plain cipher_plain world0"
    using lib_plain_ok cipher_plain_ok world0_wf by (simp add: aead_world_def)
  have sv: "srv_ok (enc_inv lib_plain cipher_plain) (dec_inv lib_plain cipher_plain) (server1 e d)"
    using e d by (simp add: srv_ok_def server1_def sock_buf_def buf_simps ip_str_def ip_lock_consts)
  have "flow (ss_trace (relay1 e d)) 0 (server1 e d) (Some (1, remote1))"
    by (simp add: relay1_def server1_def remote1_def flow_simps has_header_def header_len_def payload_def)
  moreover have "linked (relay1 e d) (server1 e d) = Some (1, remote1)" by (simp add: linked_def relay1_def server1_def)
  moreover have "links (aead_world lib_plain cipher_plain) (enc_inv lib_plain cipher_plain) (dec_inv lib_plain cipher_plain) (relay1 e d)"
    by (rule linksI) (use w sv lock1_ok in \<open>auto simp: relay1_def remote1_def sock_buf_def buf_simps srv_links_def rem_links_def server1_def
        split: if_splits\<close>)
  ultimately have "relay_ok lib_plain cipher_plain (relay1 e d)"
    by (auto simp: relay_ok_def inv_x_def relay1_def split: if_splits)
  then show ?thesis by blast
qed

lemma relay1_locked: "locked_to (relay1 e d)"
proof -
  have "ipl.exclusive [[49]] lock1"
    using lock1_ok unfolding ipl.exclusive_def by (auto simp: case_prod_unfold)
  then show ?thesis by (simp add: locked_to_def lock_state_def peers_def relay1_def server1_def)
qed

section \<open>Properties\<close>

text \<open>
  C1. Memory safety of the relay. In every state reachable from a good one, whatever the peers send,
  whatever the system calls return and whatever other processes do to its files, a callback of a started watcher follows no null or freed
  pointer, leaves no buffer, frees no object whose watcher runs, and fails no assertion. It ends
  normally, in one of the two deliberate exits (\<open>cannot bind socket\<close>, \<open>TCP_FASTOPEN_CONNECT\<close>), or, the
  one exception, on a request for a host name of 255 bytes.
\<close>

theorem relay_memory_safe:
  assumes "relay_ok L ci s0" "reach (aead_env L ci acl_on acl ntop bind_local junk) s0 s" "enabled s x"
  shows "(\<exists>s'. handle (aead_env L ci acl_on acl ntop bind_local junk) x s = Inr s' \<and> relay_ok L ci s') \<or>
     (\<exists>f\<in>deliberate. handle (aead_env L ci acl_on acl ntop bind_local junk) x s = Inl f) \<or>
     asks_overlong (aead_env L ci acl_on acl ntop bind_local junk) s x \<and>
       handle (aead_env L ci acl_on acl ntop bind_local junk) x s = Inl Out_of_bounds"
proof -
  let ?E = "aead_env L ci acl_on acl ntop bind_local junk"
  have ok: "inv (aead_world L ci) (enc_inv L ci) (dec_inv L ci) s"
    using relay_ok_reach [OF assms(2,1)] by (simp add: relay_ok_def)
  have "safe (asks_overlong ?E s x) (\<lambda>s'. relay_ok L ci s') (handle ?E x s)"
    unfolding relay_ok_def by (rule safe_mono [OF srv.step_good [OF ok assms(3)]]) auto
  then show ?thesis by (auto simp: safe_def split: sum.splits)
qed

theorem relay_memory_safe_witness:
  "\<exists>e d s'. relay_ok lib_plain cipher_plain (relay1 e d) \<and> handle env1 (Accept (Some [50])) (relay1 e d) = Inr s' \<and>
     relay_ok lib_plain cipher_plain s'"
proof -
  obtain e d where ok: "relay_ok lib_plain cipher_plain (relay1 e d)" using relay1_ok by blast
  have on: "enabled (relay1 e d) (Accept (Some [50]))" by (simp add: ip_str_def ip_lock_consts)
  have "\<exists>s'. accept_cb env1 (Some [50]) (relay1 e d) = Inr s'"
    using srv.accept_good [of lib_plain cipher_plain "relay1 e d" "Some [50]" False acl_env0 "\<lambda>_. []" "\<lambda>_. False" "\<lambda>_. 0"]
      ok on by (auto simp: relay_ok_def)
  then show ?thesis
    using relay_memory_safe [OF ok reach_start [of env1] on] ok by auto
qed

text \<open>
  C2. Nothing is lost, added or reordered towards the remote. Unless the connection was stopped,
  the payload decrypted from the client so far, its address header removed, is what the kernel
  accepted for the remote followed by what still waits in the buffer of the remote.
\<close>

theorem relay_to_remote_exact:
  assumes "relay_ok L ci s0" "reach (aead_env L ci acl_on acl ntop bind_local junk) s0 s"
    and "ss_servers s sid = Some sv" "sv_remote sv = Some rid" "sv_stage sv \<noteq> STAGE_STOP"
  shows "\<exists>r. ss_remotes s rid = Some r \<and>
     payload (plain_of sid (ss_trace s)) = to_remote rid (ss_trace s) @ up_pending r"
proof -
  note ok = relay_ok_reach [OF assms(2,1)]
  obtain r where r: "ss_remotes s rid = Some r" "linked s sv = Some (rid, r)" using linked_ok(1) [OF ok assms(3,4)] by blast
  show ?thesis
    using relay_ok_flow [OF ok assms(3)] r assms(5)
    by (auto simp: flow_def starting_def up_ok_def split: stage.splits)
qed

theorem relay_to_remote_exact_witness:
  "\<exists>e d. relay_ok lib_plain cipher_plain (relay1 e d) \<and>
     (\<exists>r. ss_remotes (relay1 e d) 1 = Some r \<and>
        payload (plain_of 0 (ss_trace (relay1 e d))) = to_remote 1 (ss_trace (relay1 e d)) @ up_pending r)"
proof -
  obtain e d where ok: "relay_ok lib_plain cipher_plain (relay1 e d)" using relay1_ok by blast
  have "ss_servers (relay1 e d) 0 = Some (server1 e d)" by (simp add: relay1_def)
  then show ?thesis
    using relay_to_remote_exact [OF ok reach_start [of env1], of 0 "server1 e d" 1] ok by (auto simp: server1_def)
qed

text \<open>
  C3. Nothing is lost, added or reordered towards the client: unless the connection was stopped, the
  ciphertext produced from what the remote sent is what the kernel accepted for the client followed
  by what still waits in the buffer of the server.
\<close>

theorem relay_to_client_exact:
  assumes "relay_ok L ci s0" "reach (aead_env L ci acl_on acl ntop bind_local junk) s0 s"
    and "ss_servers s sid = Some sv" "sv_stage sv \<noteq> STAGE_STOP"
  shows "cipher_of sid (ss_trace s) = to_client sid (ss_trace s) @ down_pending sv"
  using relay_ok_flow [OF relay_ok_reach [OF assms(2,1)] assms(3)] assms(4)
  by (auto simp: flow_def down_ok_def split: stage.splits)

theorem relay_to_client_exact_witness:
  "\<exists>e d. relay_ok lib_plain cipher_plain (relay1 e d) \<and>
     cipher_of 0 (ss_trace (relay1 e d)) = to_client 0 (ss_trace (relay1 e d)) @ down_pending (server1 e d)"
proof -
  obtain e d where ok: "relay_ok lib_plain cipher_plain (relay1 e d)" using relay1_ok by blast
  have "ss_servers (relay1 e d) 0 = Some (server1 e d)" by (simp add: relay1_def)
  then show ?thesis
    using relay_to_client_exact [OF ok reach_start [of env1], of 0 "server1 e d"] ok by (auto simp: server1_def)
qed

text \<open>
  C4. One address at a time, as long as the lock file is the server's own: from a state where all
  connections are those of the lock holder and the server can write its lock file, in every state the
  server reaches while no other process changes the files, all connections whose address is known come
  from the same address, the one that holds the lock. The manager's \<open>set_ip\<close> and \<open>clear_ip\<close> change the
  file, and a server that cannot write it does not keep the lock; what happens then is \<open>lock_decides\<close>.
\<close>

theorem lock_one_address:
  assumes "relay_ok L ci s0" "locked_to s0" "reach_alone (aead_env L ci acl_on acl ntop bind_local junk) s0 s"
    and "ip_lock_is_enabled (ss_lock s)" "ss_servers s sid = Some sv" "sv_peer_ip sv \<noteq> []"
  shows "sv_peer_ip sv = ip_lock_get_locked_ip (ss_lock s)"
proof -
  have ok: "relay_ok L ci s" "locked_to s"
    using srv.reach_alone_good [OF assms(3)] assms(1,2) by (auto simp: relay_ok_def)
  have "sv_peer_ip sv \<in> set (peers s)" using peers_set [OF relay_ok_links [OF ok(1)]] assms(5) by blast
  then show ?thesis
    using ok(2) assms(4,6)
    by (auto simp: locked_to_def ipl.exclusive_def lock_state_def ip_lock_is_enabled_def ip_lock_get_locked_ip_def)
qed

theorem lock_one_address_witness:
  "\<exists>e d. relay_ok lib_plain cipher_plain (relay1 e d) \<and> locked_to (relay1 e d) \<and>
     sv_peer_ip (server1 e d) = ip_lock_get_locked_ip (ss_lock (relay1 e d))"
proof -
  obtain e d where ok: "relay_ok lib_plain cipher_plain (relay1 e d)" using relay1_ok by blast
  have "ss_servers (relay1 e d) 0 = Some (server1 e d)" "ip_lock_is_enabled (ss_lock (relay1 e d))"
    using lock1_ok by (auto simp: relay1_def ip_lock_is_enabled_def)
  moreover have "sv_peer_ip (server1 e d) \<noteq> []" by (simp add: server1_def)
  ultimately show ?thesis
    using lock_one_address [OF ok relay1_locked alone_start [of env1], of 0 "server1 e d"] ok relay1_locked [of e d] by blast
qed



text \<open>
  C10. No connection is ever stuck: in every reachable state each client connection has something
  that will run again: its own read watcher, the write watcher of its remote, or a pending name
  lookup that points back to it.
\<close>

theorem connection_not_stuck:
  assumes "relay_ok L ci s0" "reach (aead_env L ci acl_on acl ntop bind_local junk) s0 s" "ss_servers s sid = Some sv"
  shows "sv_recv_io sv \<or>
     (\<exists>rid r. sv_remote sv = Some rid \<and> ss_remotes s rid = Some r \<and> rm_server r = Some sid \<and> rm_send_io r) \<or>
     (\<exists>qid q. sv_query sv = Some qid \<and> ss_queries s qid = Some q \<and> qr_server q = Some sid)"
proof -
  note ok = relay_ok_reach [OF assms(2,1)]
  note fl = relay_ok_flow [OF ok assms(3)]
  show ?thesis
  proof (cases "sv_remote sv")
    case None
    then have "sv_recv_io sv \<or> sv_query sv \<noteq> None"
      using fl linked_eq(1) [OF None, of s] by (auto simp: flow_def split: stage.splits)
    then show ?thesis using links_server(6) [OF relay_ok_links [OF ok] assms(3)] by fastforce
  next
    case (Some rid)
    then obtain r where "ss_remotes s rid = Some r" "rm_server r = Some sid" "linked s sv = Some (rid, r)"
      using linked_ok(1) [OF ok assms(3)] by blast
    then show ?thesis using fl Some by (auto simp: flow_def starting_def split: stage.splits)
  qed
qed

theorem connection_not_stuck_witness:
  "\<exists>e d. relay_ok lib_plain cipher_plain (relay1 e d) \<and> sv_recv_io (server1 e d)"
proof -
  obtain e d where ok: "relay_ok lib_plain cipher_plain (relay1 e d)" using relay1_ok by blast
  have "ss_servers (relay1 e d) 0 = Some (server1 e d)" by (simp add: relay1_def)
  then show ?thesis
    using connection_not_stuck [OF ok reach_start [of env1], of 0 "server1 e d"] ok
    by (auto simp: server1_def relay1_def remote1_def)
qed

text \<open>
  C23. Shutdown: from every reachable state \<open>free_connections\<close> ends without fault, all client
  connections are closed and freed, and so is every remote that belonged to one of them.
\<close>

theorem free_connections_closes_all:
  assumes "relay_ok L ci s0" "reach (aead_env L ci acl_on acl ntop bind_local junk) s0 s"
  shows "\<exists>s'. free_connections s = Inr s' \<and> ss_servers s' = Map.empty \<and>
     (\<forall>rid r. ss_remotes s' rid = Some r \<longrightarrow> ss_remotes s rid = Some r \<and> rm_server r = None)"
proof -
  note ok = relay_ok_reach [OF assms(2,1)]
  have i: "inv (aead_world L ci) (enc_inv L ci) (dec_inv L ci) s" using ok by (simp add: relay_ok_def)
  show ?thesis
    unfolding free_connections_def using close_all_good [OF i links_glob(3,4) [OF relay_ok_links [OF ok]]] by blast
qed

theorem free_connections_closes_all_witness:
  "\<exists>e d s'. relay_ok lib_plain cipher_plain (relay1 e d) \<and> free_connections (relay1 e d) = Inr s' \<and> ss_servers s' = Map.empty"
proof -
  obtain e d where ok: "relay_ok lib_plain cipher_plain (relay1 e d)" using relay1_ok by blast
  then show ?thesis using free_connections_closes_all [OF ok reach_start [of env1]] by auto
qed

end
